(* ===== verification/Py_Prelude.thy ===== *)
theory Py_Prelude
  imports
    Complex_Main
    "HOL-Library.AList"
    "HOL-Library.Multiset"
    "HOL-Library.Char_ord"
    "HOL-Library.List_Lexorder"
    "HOL-Library.Sublist"
begin

text \<open>
  The Python side of the model, shared by every component.

  \<^item> \<open>json\<close> is the type of the plain values that cross the API boundary: what \<open>json.loads\<close>
    returns and \<open>json.dumps\<close> accepts.  Python strings are lists of code points below 256, a
    float is kept as the text of its \<open>repr\<close> (which determines it), a dict is an association
    list in insertion order.
  \<^item> \<open>py_exc\<close> is a raised exception: \<open>RequestRejected\<close> (API/validation.py) with its text and
    its fault kind, or any other exception with its class name and its text.  A function that
    may raise returns \<open>py_exc + 'a\<close>.
  \<^item> \<open>dset\<close>, \<open>dpop\<close> and \<open>dget\<close> are the dict operations; \<open>dset\<close> keeps the position of a key it
    overwrites and appends a new one, as \<open>d[k] = v\<close> does.
  \<^item> decimal text, zero padding, \<open>repr\<close>, \<open>str.lower\<close>, substring tests and the canonical
    \<open>json.dumps\<close> of the sources.

  The lemmas say that a decimal text determines its number, also behind a separator or with
  leading zeros (identifiers built from counters are therefore unique), and how the dict
  operations act on lookups and on key lists.
\<close>

named_theorems dict_simps \<open>lookups and keys after dict operations\<close>
named_theorems exc_simps \<open>sequencing of computations that may raise\<close>

section \<open>Values, exceptions\<close>

datatype json =
    JNull
  | JBool bool
  | JInt int
  | JFloat string
  | JStr string
  | JArr "json list"
  | JObj "(string \<times> json) list"

datatype py_exc =
    RequestRejected string "string option"
  | PyExc (exc_type: string) (exc_text: string)

type_synonym ('k, 'v) dict = "('k \<times> 'v) list"

type_synonym 'a res = "py_exc + 'a"

text \<open>An operation on a state: it may raise, and it may have changed the state when it raises.\<close>

type_synonym ('s, 'a) stateop = "'s \<Rightarrow> 'a res \<times> 's"

definition sbind :: "'e + 'a \<Rightarrow> ('a \<Rightarrow> 'e + 'b) \<Rightarrow> 'e + 'b" where
  "sbind m f = (case m of Inl e \<Rightarrow> Inl e | Inr x \<Rightarrow> f x)"

text \<open>\<open>for x in xs: f(x)\<close>, stopping at the first exception.\<close>

fun for_each :: "('a \<Rightarrow> 'e + unit) \<Rightarrow> 'a list \<Rightarrow> 'e + unit" where
  "for_each f [] = Inr ()"
| "for_each f (x # xs) = sbind (f x) (\<lambda>_. for_each f xs)"

text \<open>\<open>[f(x) for x in xs]\<close> where \<open>f\<close> may raise.\<close>

fun map_res :: "('a \<Rightarrow> 'e + 'b) \<Rightarrow> 'a list \<Rightarrow> 'e + 'b list" where
  "map_res f [] = Inr []"
| "map_res f (x # xs) = sbind (f x) (\<lambda>y. sbind (map_res f xs) (\<lambda>ys. Inr (y # ys)))"

section \<open>Dictionaries\<close>

abbreviation dget :: "('k, 'v) dict \<Rightarrow> 'k \<Rightarrow> 'v option" where
  "dget d k \<equiv> map_of d k"

definition dset :: "'k \<Rightarrow> 'v \<Rightarrow> ('k, 'v) dict \<Rightarrow> ('k, 'v) dict" where
  "dset k v d = AList.update k v d"

definition dpop :: "'k \<Rightarrow> ('k, 'v) dict \<Rightarrow> ('k, 'v) dict" where
  "dpop k d = AList.delete k d"

abbreviation dkeys :: "('k, 'v) dict \<Rightarrow> 'k list" where
  "dkeys d \<equiv> map fst d"

definition dhas :: "('k, 'v) dict \<Rightarrow> 'k \<Rightarrow> bool" where
  "dhas d k \<longleftrightarrow> map_of d k \<noteq> None"

text \<open>\<open>d.update(e)\<close>: the entries of \<open>e\<close> written into \<open>d\<close> in order.\<close>

fun dupdate :: "('k, 'v) dict \<Rightarrow> ('k, 'v) dict \<Rightarrow> ('k, 'v) dict" where
  "dupdate d [] = d"
| "dupdate d ((k, v) # e) = dupdate (dset k v d) e"

text \<open>\<open>d.get(k)\<close> on a dict of JSON values: a missing key reads as \<open>None\<close>.\<close>

definition jget :: "(string, json) dict \<Rightarrow> string \<Rightarrow> json" where
  "jget d k = (case map_of d k of None \<Rightarrow> JNull | Some v \<Rightarrow> v)"

section \<open>Type tests and truth values\<close>

datatype py_type = TStr | TInt | TList | TDict | TBool

fun type_name :: "py_type \<Rightarrow> string" where
  "type_name TStr = ''str''"
| "type_name TInt = ''int''"
| "type_name TList = ''list''"
| "type_name TDict = ''dict''"
| "type_name TBool = ''bool''"

fun type_of_json :: "json \<Rightarrow> string" where
  "type_of_json JNull = ''NoneType''"
| "type_of_json (JBool _) = ''bool''"
| "type_of_json (JInt _) = ''int''"
| "type_of_json (JFloat _) = ''float''"
| "type_of_json (JStr _) = ''str''"
| "type_of_json (JArr _) = ''list''"
| "type_of_json (JObj _) = ''dict''"

text \<open>\<open>isinstance(v, ty)\<close>; \<open>bool\<close> is a subclass of \<open>int\<close>.\<close>

fun isinstance :: "json \<Rightarrow> py_type \<Rightarrow> bool" where
  "isinstance (JStr _) ty = (ty = TStr)"
| "isinstance (JInt _) ty = (ty = TInt)"
| "isinstance (JBool _) ty = (ty = TBool \<or> ty = TInt)"
| "isinstance (JArr _) ty = (ty = TList)"
| "isinstance (JObj _) ty = (ty = TDict)"
| "isinstance _ ty = False"

fun is_bool :: "json \<Rightarrow> bool" where
  "is_bool (JBool _) = True"
| "is_bool _ = False"

text \<open>\<open>bool(v)\<close>.\<close>

fun truthy :: "json \<Rightarrow> bool" where
  "truthy JNull = False"
| "truthy (JBool b) = b"
| "truthy (JInt i) = (i \<noteq> 0)"
| "truthy (JFloat s) = (s \<noteq> ''0.0'' \<and> s \<noteq> ''-0.0'')"
| "truthy (JStr s) = (s \<noteq> [])"
| "truthy (JArr xs) = (xs \<noteq> [])"
| "truthy (JObj d) = (d \<noteq> [])"

section \<open>Strings\<close>

definition digit_char :: "nat \<Rightarrow> char" where
  "digit_char n = char_of (48 + n)"

fun digits :: "nat \<Rightarrow> string" where
  "digits n = (if n < 10 then [digit_char n] else digits (n div 10) @ [digit_char (n mod 10)])"

declare digits.simps [simp del]

text \<open>\<open>str(n)\<close> for an integer, and \<open>f"{n:06d}"\<close> for a counter.\<close>

definition str_int :: "int \<Rightarrow> string" where
  "str_int i = (if i < 0 then CHR ''-'' # digits (nat (- i)) else digits (nat i))"

definition pad6 :: "nat \<Rightarrow> string" where
  "pad6 n = replicate (6 - length (digits n)) (CHR ''0'') @ digits n"

definition lower_char :: "char \<Rightarrow> char" where
  "lower_char c = (let n = of_char c :: nat in
     if 65 \<le> n \<and> n \<le> 90 \<or> 192 \<le> n \<and> n \<le> 222 \<and> n \<noteq> 215 then char_of (n + 32) else c)"

definition str_lower :: "string \<Rightarrow> string" where
  "str_lower s = map lower_char s"

text \<open>\<open>pat in s\<close>.\<close>

fun str_contains :: "string \<Rightarrow> string \<Rightarrow> bool" where
  "str_contains pat [] = (pat = [])"
| "str_contains pat (c # cs) = (prefix pat (c # cs) \<or> str_contains pat cs)"

definition str_startswith :: "string \<Rightarrow> string \<Rightarrow> bool" where
  "str_startswith s pat = prefix pat s"

definition is_space :: "char \<Rightarrow> bool" where
  "is_space c = (let n = of_char c :: nat in
     9 \<le> n \<and> n \<le> 13 \<or> 28 \<le> n \<and> n \<le> 32 \<or> n = 133 \<or> n = 160)"

definition str_strip :: "string \<Rightarrow> string" where
  "str_strip s = rev (dropWhile is_space (rev (dropWhile is_space s)))"

definition is_digit :: "char \<Rightarrow> bool" where
  "is_digit c = (let n = of_char c :: nat in 48 \<le> n \<and> n \<le> 57)"

definition digit_val :: "char \<Rightarrow> nat" where
  "digit_val c = (of_char c :: nat) - 48"

definition undigits :: "string \<Rightarrow> nat" where
  "undigits s = foldl (\<lambda>a c. 10 * a + digit_val c) 0 s"

text \<open>The digits of an \<open>int(text)\<close> literal: single underscores may stand between digits.\<close>

fun digit_run :: "string \<Rightarrow> string option" where
  "digit_run [] = None"
| "digit_run [c] = (if is_digit c then Some [c] else None)"
| "digit_run (c # d # cs) =
     (if \<not> is_digit c then None
      else if d = CHR ''_'' then map_option (Cons c) (digit_run cs)
      else map_option (Cons c) (digit_run (d # cs)))"

definition int_of_text :: "string \<Rightarrow> int option" where
  "int_of_text s = (case str_strip s of
       [] \<Rightarrow> None
     | c # cs \<Rightarrow>
         if c = CHR ''-'' then map_option (\<lambda>t. - int (undigits t)) (digit_run cs)
         else if c = CHR ''+'' then map_option (\<lambda>t. int (undigits t)) (digit_run cs)
         else map_option (\<lambda>t. int (undigits t)) (digit_run (c # cs)))"

definition hex_digit :: "nat \<Rightarrow> char" where
  "hex_digit n = (if n < 10 then char_of (48 + n) else char_of (87 + n))"

definition hex2 :: "nat \<Rightarrow> string" where
  "hex2 n = [hex_digit (n div 16), hex_digit (n mod 16)]"

text \<open>\<open>repr(s)\<close> of a string.\<close>

definition repr_char :: "char \<Rightarrow> char \<Rightarrow> string" where
  "repr_char q c = (let n = of_char c :: nat in
     if c = q \<or> c = CHR 0x5C then [CHR 0x5C, c]
     else if n = 10 then [CHR 0x5C, CHR ''n'']
     else if n = 13 then [CHR 0x5C, CHR ''r'']
     else if n = 9 then [CHR 0x5C, CHR ''t'']
     else if n < 32 \<or> 127 \<le> n \<and> n \<le> 160 \<or> n = 173 then [CHR 0x5C, CHR ''x''] @ hex2 n
     else [c])"

definition repr_str :: "string \<Rightarrow> string" where
  "repr_str s = (let q = (if CHR 0x27 \<in> set s \<and> CHR 0x22 \<notin> set s then CHR 0x22 else CHR 0x27)
     in [q] @ concat (map (repr_char q) s) @ [q])"

fun join_with :: "string \<Rightarrow> string list \<Rightarrow> string" where
  "join_with sep [] = []"
| "join_with sep [s] = s"
| "join_with sep (s # t # ss) = s @ sep @ join_with sep (t # ss)"

lemma json_size_arr [termination_simp]: "x \<in> set xs \<Longrightarrow> size x < Suc (size_list size xs)"
  by (simp add: less_Suc_eq_le size_list_estimation')

lemma json_size_obj [termination_simp]:
  "(k, v) \<in> set d \<Longrightarrow> size v < Suc (size_list (size_prod (\<lambda>x. 0) size) d)"
  by (rule less_Suc_eq_le [THEN iffD2], rule size_list_estimation' [where x = "(k, v)"]) simp_all

text \<open>\<open>repr(v)\<close> of a plain value.\<close>

fun repr_json :: "json \<Rightarrow> string" where
  "repr_json JNull = ''None''"
| "repr_json (JBool b) = (if b then ''True'' else ''False'')"
| "repr_json (JInt i) = str_int i"
| "repr_json (JFloat s) = s"
| "repr_json (JStr s) = repr_str s"
| "repr_json (JArr xs) = ''['' @ join_with '', '' (map repr_json xs) @ '']''"
| "repr_json (JObj d) =
     ''{'' @ join_with '', '' (map (\<lambda>(k, v). repr_str k @ '': '' @ repr_json v) d) @ ''}''"

text \<open>\<open>str(v)\<close> of a plain value.\<close>

fun str_json :: "json \<Rightarrow> string" where
  "str_json (JStr s) = s"
| "str_json v = repr_json v"

text \<open>\<open>json.dumps(v, sort_keys=True, separators=(",", ":"), ensure_ascii=...)\<close>.\<close>

definition dumps_char :: "bool \<Rightarrow> char \<Rightarrow> string" where
  "dumps_char ensure_ascii c = (let n = of_char c :: nat in
     if n = 34 \<or> n = 92 then [CHR 0x5C, c]
     else if n = 10 then [CHR 0x5C, CHR ''n'']
     else if n = 13 then [CHR 0x5C, CHR ''r'']
     else if n = 9 then [CHR 0x5C, CHR ''t'']
     else if n = 12 then [CHR 0x5C, CHR ''f'']
     else if n = 8 then [CHR 0x5C, CHR ''b'']
     else if n < 32 \<or> ensure_ascii \<and> 127 \<le> n then [CHR 0x5C, CHR ''u'', CHR ''0'', CHR ''0''] @ hex2 n
     else [c])"

definition dumps_str :: "bool \<Rightarrow> string \<Rightarrow> string" where
  "dumps_str ensure_ascii s = [CHR 0x22] @ concat (map (dumps_char ensure_ascii) s) @ [CHR 0x22]"

fun json_dumps :: "bool \<Rightarrow> json \<Rightarrow> string" where
  "json_dumps ea JNull = ''null''"
| "json_dumps ea (JBool b) = (if b then ''true'' else ''false'')"
| "json_dumps ea (JInt i) = str_int i"
| "json_dumps ea (JFloat s) = s"
| "json_dumps ea (JStr s) = dumps_str ea s"
| "json_dumps ea (JArr xs) = ''['' @ join_with '','' (map (json_dumps ea) xs) @ '']''"
| "json_dumps ea (JObj d) =
     ''{'' @ join_with '',''
       (map snd (sort_key fst (map (\<lambda>(k, v). (k, dumps_str ea k @ '':'' @ json_dumps ea v)) d))) @ ''}''"

section \<open>Sequencing lemmas\<close>

lemma sbind_simps [simp, exc_simps]:
  "sbind (Inl e) f = Inl e"
  "sbind (Inr x) f = f x"
  by (simp_all add: sbind_def)

lemma sbind_eq_Inr [exc_simps]: "sbind m f = Inr y \<longleftrightarrow> (\<exists>x. m = Inr x \<and> f x = Inr y)"
  by (cases m) simp_all

lemma sbind_eq_Inl [exc_simps]:
  "sbind m f = Inl e \<longleftrightarrow> m = Inl e \<or> (\<exists>x. m = Inr x \<and> f x = Inl e)"
  by (cases m) simp_all

lemma for_each_Inr [exc_simps]: "for_each f xs = Inr u \<longleftrightarrow> (\<forall>x \<in> set xs. f x = Inr ())"
  by (induction xs) (auto simp: sbind_eq_Inr)

lemma map_res_Inr_nth:
  "map_res f xs = Inr ys \<longleftrightarrow> length ys = length xs \<and> (\<forall>i < length xs. f (xs ! i) = Inr (ys ! i))"
proof (induction xs arbitrary: ys)
  case Nil
  show ?case by auto
next
  case (Cons x xs)
  show ?case
    by (cases ys) (auto simp: sbind_eq_Inr Cons.IH All_less_Suc2)
qed

lemma map_res_set: "map_res f xs = Inr ys \<Longrightarrow> y \<in> set ys \<Longrightarrow> \<exists>x \<in> set xs. f x = Inr y"
  by (induction xs arbitrary: ys) (auto simp: sbind_eq_Inr)

lemma map_res_length: "map_res f xs = Inr ys \<Longrightarrow> length ys = length xs"
  by (simp add: map_res_Inr_nth)

section \<open>Dictionary lemmas\<close>

text \<open>Lookups stay lookups when the keys are known to be distinct.\<close>

declare map_of_eq_Some_iff [simp del] Some_eq_map_of_iff [simp del]

lemma dget_dset [simp, dict_simps]: "dget (dset k v d) k' = (if k' = k then Some v else dget d k')"
  by (simp add: dset_def update_conv')

lemma dget_dpop [simp, dict_simps]: "dget (dpop k d) k' = (if k' = k then None else dget d k')"
  by (simp add: dpop_def delete_conv')

lemma dkeys_dset: "dkeys (dset k v d) = (if k \<in> set (dkeys d) then dkeys d else dkeys d @ [k])"
  by (simp add: dset_def update_keys)

lemma set_dkeys_dset [simp, dict_simps]: "set (dkeys (dset k v d)) = insert k (set (dkeys d))"
  by (simp only: dkeys_dset) auto

lemma dkeys_dpop [simp, dict_simps]: "dkeys (dpop k d) = filter (\<lambda>k'. k' \<noteq> k) (dkeys d)"
  by (simp add: dpop_def delete_keys removeAll_filter_not_eq) metis

lemma distinct_dset [simp, intro]: "distinct (dkeys d) \<Longrightarrow> distinct (dkeys (dset k v d))"
  by (simp only: dkeys_dset) auto

lemma distinct_dpop [simp, intro]: "distinct (dkeys d) \<Longrightarrow> distinct (dkeys (dpop k d))"
  by simp

lemma dset_fresh: "k \<notin> set (dkeys d) \<Longrightarrow> dset k v d = d @ [(k, v)]"
  by (induction d) (auto simp: dset_def)

lemma length_dset: "length (dset k v d) = (if k \<in> set (dkeys d) then length d else Suc (length d))"
  by (metis dkeys_dset length_append_singleton length_map)

lemma dget_iff_dkeys: "dget d k \<noteq> None \<longleftrightarrow> k \<in> set (dkeys d)"
  by (metis map_of_eq_None_iff image_set)

lemma dget_None_iff: "dget d k = None \<longleftrightarrow> k \<notin> set (dkeys d)"
  by (simp add: map_of_eq_None_iff)

lemma dget_dupdate [dict_simps]:
  "distinct (dkeys e) \<Longrightarrow>
   dget (dupdate d e) k = (case dget e k of None \<Rightarrow> dget d k | Some v \<Rightarrow> Some v)"
proof (induction e arbitrary: d)
  case Nil
  show ?case by simp
next
  case (Cons p e)
  obtain k' v' where p: "p = (k', v')" by (cases p)
  have "dget e k' = None" using Cons.prems p by (simp add: map_of_eq_None_iff)
  with Cons p show ?case
    by (cases "k = k'") (simp_all split: option.splits)
qed

lemma jget_dset [simp, dict_simps]: "jget (dset k v d) k' = (if k' = k then v else jget d k')"
  by (simp add: jget_def)

lemma dget_filter_keys:
  "dget (filter (\<lambda>p. P (fst p)) d) k = (if P k then dget d k else None)"
  by (induction d) auto

section \<open>Decimal text\<close>

lemma digit_char_val: "n < 10 \<Longrightarrow> digit_val (digit_char n) = n \<and> is_digit (digit_char n)"
  by (simp add: digit_val_def digit_char_def is_digit_def of_char_of)

lemma undigits_snoc: "undigits (s @ [c]) = 10 * undigits s + digit_val c"
  by (simp add: undigits_def)

lemma undigits_digits [simp]: "undigits (digits n) = n"
proof (induction n rule: digits.induct)
  case (1 n)
  show ?case
  proof (cases "n < 10")
    case True
    then show ?thesis
      by (simp add: digits.simps [of n] undigits_def digit_char_val)
  next
    case False
    with "1.IH" show ?thesis
      by (simp add: digits.simps [of n] undigits_snoc digit_char_val)
  qed
qed

lemma digits_inj [simp]: "digits m = digits n \<longleftrightarrow> m = n"
  by (metis undigits_digits)

lemma digits_are_digits: "c \<in> set (digits n) \<Longrightarrow> is_digit c"
proof (induction n rule: digits.induct)
  case (1 n)
  then show ?case
    by (cases "n < 10") (auto simp: digits.simps [of n] digit_char_val)
qed

lemma digits_nonempty [simp]: "digits n \<noteq> []"
  by (subst digits.simps) simp

lemma undigits_zeros: "undigits (replicate k (CHR ''0'') @ s) = undigits s"
proof (induction k)
  case 0
  show ?case by simp
next
  case (Suc k)
  then show ?case by (simp add: undigits_def digit_val_def)
qed

lemma pad6_inj [simp]: "pad6 m = pad6 n \<longleftrightarrow> m = n"
  by (metis pad6_def undigits_digits undigits_zeros)

lemma pad6_are_digits: "c \<in> set (pad6 n) \<Longrightarrow> is_digit c"
  unfolding pad6_def using digits_are_digits [of c n]
  by (cases "c = CHR ''0''") (auto simp: is_digit_def)

lemma str_int_pos: "0 \<le> i \<Longrightarrow> str_int i = digits (nat i)"
  by (simp add: str_int_def)

lemma str_int_inj [simp]: "str_int i = str_int j \<longleftrightarrow> i = j"
proof
  assume eq: "str_int i = str_int j"
  have "\<not> is_digit (CHR ''-'')" by (simp add: is_digit_def)
  then have neg: "digits n \<noteq> CHR ''-'' # s" for n s
    using digits_are_digits [of "CHR ''-''" n] by auto
  show "i = j"
    using eq neg by (auto simp: str_int_def split: if_splits) (metis neg)+
qed simp

text \<open>
  A text that ends in a digit run behind a separator that is no digit splits in one way only.
\<close>

lemma split_at_separator:
  assumes eq: "a @ sep # x = b @ sep # y"
    and x: "sep \<notin> set x" and y: "sep \<notin> set y"
  shows "a = b \<and> x = y"
proof -
  have "rev x @ sep # rev a = rev y @ sep # rev b"
    using arg_cong [OF eq, of rev] by simp
  then have "takeWhile (\<lambda>c. c \<noteq> sep) (rev x @ sep # rev a)
      = takeWhile (\<lambda>c. c \<noteq> sep) (rev y @ sep # rev b)" by simp
  moreover have "takeWhile (\<lambda>c. c \<noteq> sep) (rev z @ sep # w) = rev z" if "sep \<notin> set z" for z w
    using that by (auto simp: takeWhile_append)
  ultimately have "rev x = rev y" using x y by simp
  with eq show ?thesis by simp
qed

lemma not_digit_seps [simp]:
  "\<not> is_digit (CHR '':'')" "\<not> is_digit (CHR ''-'')"
  by (simp_all add: is_digit_def)

section \<open>Sorting by key\<close>

lemma insort_key_map:
  assumes "\<And>x. f' (g x) = f x"
  shows "map g (insort_key f x xs) = insort_key f' (g x) (map g xs)"
  by (induction xs) (simp_all add: assms)

lemma sort_key_map:
  assumes "\<And>x. f' (g x) = f x"
  shows "map g (sort_key f xs) = sort_key f' (map g xs)"
  by (induction xs) (simp_all add: insort_key_map [of f' g f, OF assms])

lemma sort_key_idem [simp]: "sort_key f (sort_key f xs) = sort_key f xs"
  by (rule sort_key_id_if_sorted) simp

lemma sort_key_unique_keys:
  assumes "set xs = set ys" "distinct xs" "distinct ys" "inj_on f (set xs)"
  shows "sort_key f xs = sort_key f ys"
proof (rule sort_key_inj_key_eq)
  show "mset xs = mset (sort_key f ys)" using assms(1-3) by (simp add: set_eq_iff_mset_eq_distinct [symmetric])
qed (use assms in \<open>simp_all add: sorted_sort_key\<close>)

section \<open>The text of a string determines it\<close>

lemma hex_digit_inj: "m < 16 \<Longrightarrow> n < 16 \<Longrightarrow> hex_digit m = hex_digit n \<longleftrightarrow> m = n"
  by (auto simp: hex_digit_def split: if_splits dest: arg_cong [where f = "of_char :: char \<Rightarrow> nat"] simp: of_char_of)

lemma hex2_inj:
  assumes "m < 256" "n < 256" "hex2 m = hex2 n"
  shows "m = n"
proof -
  have "m div 16 < 16" "n div 16 < 16" "m mod 16 < 16" "n mod 16 < 16"
    using assms(1,2) by (simp_all add: less_mult_imp_div_less)
  with assms(3) have "m div 16 = n div 16" "m mod 16 = n mod 16"
    unfolding hex2_def list.inject by (simp_all only: hex_digit_inj)
  then show ?thesis by (metis div_mult_mod_eq)
qed

lemma of_char_bound: "(of_char c :: nat) < 256"
  using of_char_mod_256 [where 'a = nat] by (simp add: of_char_def)

lemma repr_char_inj:
  assumes "repr_char q c @ r = repr_char q d @ r'" "q = CHR 0x27 \<or> q = CHR 0x22"
  shows "c = d \<and> r = r'"
proof -
  have h: "hex2 (of_char c) = hex2 (of_char d) \<Longrightarrow> c = d"
    using hex2_inj [of "of_char c" "of_char d"] of_char_bound by (metis of_char_eq_iff)
  show ?thesis
  using assms h
  unfolding repr_char_def Let_def
  by (auto split: if_splits simp: hex2_def)
qed

lemma concat_repr_prefix_inj:
  assumes "q = CHR 0x27 \<or> q = CHR 0x22"
  shows "concat (map (repr_char q) s) @ q # r = concat (map (repr_char q) t) @ q # r' \<Longrightarrow> s = t \<and> r = r'"
proof (induction s arbitrary: t)
  case Nil
  show ?case
  proof (cases t)
    case (Cons d t')
    with Nil assms show ?thesis by (auto simp: repr_char_def Let_def split: if_splits)
  qed (use Nil in simp)
next
  case (Cons c s)
  show ?case
  proof (cases t)
    case Nil
    with Cons assms show ?thesis by (auto simp: repr_char_def Let_def split: if_splits)
  next
    case t: (Cons d t')
    with Cons.prems have "repr_char q c @ (concat (map (repr_char q) s) @ q # r)
        = repr_char q d @ (concat (map (repr_char q) t') @ q # r')" by simp
    from repr_char_inj [OF this assms] Cons.IH [of t'] t show ?thesis by simp
  qed
qed

lemma repr_str_prefix_inj: "repr_str s @ r = repr_str t @ r' \<longleftrightarrow> s = t \<and> r = r'"
proof
  assume eq: "repr_str s @ r = repr_str t @ r'"
  define qs where "qs = (if CHR 0x27 \<in> set s \<and> CHR 0x22 \<notin> set s then CHR 0x22 else CHR 0x27)"
  define qt where "qt = (if CHR 0x27 \<in> set t \<and> CHR 0x22 \<notin> set t then CHR 0x22 else CHR 0x27)"
  have r: "repr_str s @ r = qs # (concat (map (repr_char qs) s) @ qs # r)"
      "repr_str t @ r' = qt # (concat (map (repr_char qt) t) @ qt # r')"
    by (simp_all add: repr_str_def qs_def qt_def Let_def)
  have "qs = CHR 0x27 \<or> qs = CHR 0x22" by (simp add: qs_def)
  moreover from eq have "qt = qs" "concat (map (repr_char qs) s) @ qs # r = concat (map (repr_char qs) t) @ qs # r'"
    unfolding r by auto
  ultimately show "s = t \<and> r = r'" using concat_repr_prefix_inj [of qs s r t r'] by simp
qed simp

lemma repr_str_inj [simp]: "repr_str s = repr_str t \<longleftrightarrow> s = t"
  using repr_str_prefix_inj [of s "[]" t "[]"] by simp

end
