(* ===== verification/Generation_Guard.thy ===== *)
theory Generation_Guard
  imports Py_Prelude
begin

text \<open>
  The interface of a capability guarded by a generation counter.  A token (a game lease, a
  worker lease) carries the generation it was issued at; the guard accepts it only while the
  current generation is still that one, and no operation ever lowers the generation.  The
  client-side facts proved here: a token of an older generation is refused in every later
  state, and two accepted tokens are of one generation.  \<open>Game_Access\<close> interprets the locale
  for the process-wide game lease, \<open>Branch_Leases\<close> for the generation of a branch worker.
\<close>

locale generation_guard =
  fixes accepts :: "'s \<Rightarrow> 'tok \<Rightarrow> bool"
    and current :: "'s \<Rightarrow> nat"
    and stamp :: "'tok \<Rightarrow> nat"
    and step :: "'s \<Rightarrow> 'op \<Rightarrow> 's"
  assumes accepts_current: "accepts s t \<Longrightarrow> stamp t = current s"
    and step_mono: "current s \<le> current (step s x)"
begin

lemma run_mono: "current s \<le> current (foldl step s xs)"
proof (induction xs arbitrary: s)
  case Nil
  show ?case by simp
next
  case (Cons x xs)
  have "current s \<le> current (step s x)" by (rule step_mono)
  also have "\<dots> \<le> current (foldl step (step s x) xs)" by (rule Cons.IH)
  finally show ?case by simp
qed

lemma older_refused:
  assumes "stamp t < current s"
  shows "\<not> accepts (foldl step s xs) t"
proof
  assume "accepts (foldl step s xs) t"
  then have "stamp t = current (foldl step s xs)" by (rule accepts_current)
  with assms run_mono [of s xs] show False by simp
qed

lemma same_generation: "accepts s t \<Longrightarrow> accepts s u \<Longrightarrow> stamp t = stamp u"
  by (simp add: accepts_current)

end

end
