(* ===== verification/Game_Access.thy ===== *)
theory Game_Access
  imports Generation_Guard
begin

text \<open>
  The process-wide ownership of the emulator's game object: \<open>game_access.py\<close>.

  \<open>access\<close> is the state of a \<open>GameAccess\<close> object: the game (created on first use), the lease
  state, the current holder, the generation, and the state and holder a transfer started from.
  Holders are compared by identity in the code and by equality of the parameter type here;
  \<open>None\<close> is Python's \<open>None\<close>.  Each operation returns the raised exception or its result,
  together with the state it leaves.
\<close>

datatype lease_state = RUN | COMBAT | TRANSFERRING | POISONED

fun lease_state_value :: "lease_state \<Rightarrow> string" where
  "lease_state_value RUN = ''RUN''"
| "lease_state_value COMBAT = ''COMBAT''"
| "lease_state_value TRANSFERRING = ''TRANSFERRING''"
| "lease_state_value POISONED = ''POISONED''"

record 'h game_lease =
  gl_holder :: "'h option"
  gl_state :: lease_state
  gl_generation :: nat

record ('h, 'g) access =
  ga_game :: "'g option"
  ga_state :: lease_state
  ga_holder :: "'h option"
  ga_generation :: nat
  ga_origin :: "(lease_state \<times> 'h option) option"

definition game_access_error :: "string \<Rightarrow> py_exc" where
  "game_access_error msg = PyExc ''GameAccessError'' msg"

definition init_access :: "('h, 'g) access" where
  "init_access = \<lparr> ga_game = None, ga_state = RUN, ga_holder = None, ga_generation = 0,
                   ga_origin = None \<rparr>"

text \<open>\<open>observation_game\<close>: the factory \<open>mk\<close> is called at most once.\<close>

definition observation_game :: "'g \<Rightarrow> ('h, 'g) access \<Rightarrow> 'g \<times> ('h, 'g) access" where
  "observation_game mk s = (case ga_game s of
       None \<Rightarrow> (mk, s\<lparr>ga_game := Some mk\<rparr>)
     | Some g \<Rightarrow> (g, s))"

definition validate_current :: "('h, 'g) access \<Rightarrow> 'h game_lease \<Rightarrow> unit res" where
  "validate_current s l =
     (if ga_state s = POISONED then
        Inl (game_access_error ''Game access is POISONED; mutating access is terminally rejected.'')
      else if ga_state s = TRANSFERRING then
        Inl (game_access_error ''Game access is TRANSFERRING; no holder may mutate it.'')
      else if gl_generation l \<noteq> ga_generation s \<or> gl_holder l \<noteq> ga_holder s \<or> gl_state l \<noteq> ga_state s then
        Inl (game_access_error
          (''Rejected mutating access: lease is not the current holder/generation (state='' @
           lease_state_value (ga_state s) @ '', generation='' @ digits (ga_generation s) @ '').''))
      else Inr ())"

definition validate_transfer :: "('h, 'g) access \<Rightarrow> 'h game_lease \<Rightarrow> unit res" where
  "validate_transfer s t =
     (if ga_state s \<noteq> TRANSFERRING \<or> gl_state t \<noteq> TRANSFERRING \<or> gl_generation t \<noteq> ga_generation s
         \<or> (case ga_origin s of None \<Rightarrow> True | Some og \<Rightarrow> gl_holder t \<noteq> snd og)
      then Inl (game_access_error
             ''Rejected transfer completion: lease is not the current TRANSFERRING generation.'')
      else Inr ())"

definition claim :: "'h option \<Rightarrow> lease_state \<Rightarrow> (('h, 'g) access, 'h game_lease) stateop" where
  "claim holder st s =
     (if ga_state s = POISONED then
        (Inl (game_access_error ''Game access is POISONED; no mutation lease can be claimed.''), s)
      else if ga_state s = TRANSFERRING then
        (Inl (game_access_error ''Game access is TRANSFERRING; no mutation lease can be claimed.''), s)
      else
        let n = Suc (ga_generation s) in
        (Inr \<lparr>gl_holder = holder, gl_state = st, gl_generation = n\<rparr>,
         s\<lparr>ga_state := st, ga_holder := holder, ga_generation := n\<rparr>))"

definition release_lease :: "'h game_lease \<Rightarrow> (('h, 'g) access, unit) stateop" where
  "release_lease l s = (case validate_current s l of
       Inl e \<Rightarrow> (Inl e, s)
     | Inr _ \<Rightarrow> (Inr (), s\<lparr>ga_holder := None, ga_generation := Suc (ga_generation s)\<rparr>))"

definition mutating_game :: "'g \<Rightarrow> 'h game_lease \<Rightarrow> (('h, 'g) access, 'g) stateop" where
  "mutating_game mk l s = (case validate_current s l of
       Inl e \<Rightarrow> (Inl e, s)
     | Inr _ \<Rightarrow> (case observation_game mk s of (g, s') \<Rightarrow> (Inr g, s')))"

definition begin_transfer :: "'h game_lease \<Rightarrow> (('h, 'g) access, 'h game_lease) stateop" where
  "begin_transfer l s = (case validate_current s l of
       Inl e \<Rightarrow> (Inl e, s)
     | Inr _ \<Rightarrow>
         let n = Suc (ga_generation s) in
         (Inr \<lparr>gl_holder = gl_holder l, gl_state = TRANSFERRING, gl_generation = n\<rparr>,
          s\<lparr>ga_origin := Some (ga_state s, ga_holder s), ga_state := TRANSFERRING, ga_generation := n\<rparr>))"

definition commit_transfer ::
  "'h game_lease \<Rightarrow> lease_state \<Rightarrow> 'h option \<Rightarrow> (('h, 'g) access, 'h game_lease) stateop" where
  "commit_transfer t target holder s = (case validate_transfer s t of
       Inl e \<Rightarrow> (Inl e, s)
     | Inr _ \<Rightarrow>
         if target \<noteq> RUN \<and> target \<noteq> COMBAT then
           (Inl (PyExc ''ValueError'' ''A transfer can only commit to RUN or COMBAT.''), s)
         else
           let n = Suc (ga_generation s) in
           (Inr \<lparr>gl_holder = holder, gl_state = target, gl_generation = n\<rparr>,
            s\<lparr>ga_state := target, ga_holder := holder, ga_origin := None, ga_generation := n\<rparr>))"

definition rollback_transfer :: "'h game_lease \<Rightarrow> (('h, 'g) access, 'h game_lease) stateop" where
  "rollback_transfer t s = (case validate_transfer s t of
       Inl e \<Rightarrow> (Inl e, s)
     | Inr _ \<Rightarrow> (case ga_origin s of
           None \<Rightarrow> (Inl (PyExc ''AssertionError'' []), s)
         | Some og \<Rightarrow>
             let n = Suc (ga_generation s) in
             (Inr \<lparr>gl_holder = snd og, gl_state = fst og, gl_generation = n\<rparr>,
              s\<lparr>ga_state := fst og, ga_holder := snd og, ga_origin := None, ga_generation := n\<rparr>)))"

definition poison :: "('h, 'g) access \<Rightarrow> ('h, 'g) access" where
  "poison s = s\<lparr>ga_state := POISONED, ga_holder := None, ga_origin := None,
                ga_generation := Suc (ga_generation s)\<rparr>"

text \<open>The calls a client can make, and the state each leaves whether or not it raised.\<close>

datatype 'h access_op =
    Claim "'h option" lease_state
  | Release "'h game_lease"
  | Mutate "'h game_lease"
  | Observe
  | Begin "'h game_lease"
  | Commit "'h game_lease" lease_state "'h option"
  | Rollback "'h game_lease"
  | Poison

fun access_step :: "'g \<Rightarrow> ('h, 'g) access \<Rightarrow> 'h access_op \<Rightarrow> ('h, 'g) access" where
  "access_step mk s (Claim h st) = snd (claim h st s)"
| "access_step mk s (Release l) = snd (release_lease l s)"
| "access_step mk s (Mutate l) = snd (mutating_game mk l s)"
| "access_step mk s Observe = snd (observation_game mk s)"
| "access_step mk s (Begin l) = snd (begin_transfer l s)"
| "access_step mk s (Commit t st h) = snd (commit_transfer t st h s)"
| "access_step mk s (Rollback t) = snd (rollback_transfer t s)"
| "access_step mk s Poison = poison s"

abbreviation access_run :: "'g \<Rightarrow> ('h, 'g) access \<Rightarrow> 'h access_op list \<Rightarrow> ('h, 'g) access" where
  "access_run mk \<equiv> foldl (access_step mk)"

definition lease_accepted :: "('h, 'g) access \<Rightarrow> 'h game_lease \<Rightarrow> bool" where
  "lease_accepted s l \<longleftrightarrow> validate_current s l = Inr ()"

text \<open>A transfer is open exactly when its origin is recorded.\<close>

definition access_inv :: "('h, 'g) access \<Rightarrow> bool" where
  "access_inv s \<longleftrightarrow> (ga_state s = TRANSFERRING \<longleftrightarrow> ga_origin s \<noteq> None)
     \<and> (\<forall>og. ga_origin s = Some og \<longrightarrow> fst og = RUN \<or> fst og = COMBAT)"

text \<open>The clients of the repository claim RUN or COMBAT only.\<close>

fun ordinary_claim :: "'h access_op \<Rightarrow> bool" where
  "ordinary_claim (Claim h st) = (st = RUN \<or> st = COMBAT)"
| "ordinary_claim _ = True"

section \<open>Lemmas\<close>

lemmas access_ops_def = claim_def release_lease_def mutating_game_def observation_game_def
  begin_transfer_def commit_transfer_def rollback_transfer_def poison_def

lemma lease_accepted_iff:
  "lease_accepted s l \<longleftrightarrow> ga_state s \<noteq> POISONED \<and> ga_state s \<noteq> TRANSFERRING
     \<and> gl_generation l = ga_generation s \<and> gl_holder l = ga_holder s \<and> gl_state l = ga_state s"
  by (simp add: lease_accepted_def validate_current_def)

lemma validate_current_Inr [simp]: "validate_current s l = Inr u \<longleftrightarrow> lease_accepted s l"
  by (simp add: lease_accepted_def)

lemma access_step_generation: "ga_generation s \<le> ga_generation (access_step mk s x)"
  by (cases x) (auto simp: access_ops_def Let_def split: sum.split option.split prod.split)

interpretation game_lease: generation_guard
  lease_accepted ga_generation gl_generation "access_step mk" for mk
  by unfold_locales (auto simp: lease_accepted_iff access_step_generation)

lemma access_inv_init: "access_inv init_access"
  by (simp add: access_inv_def init_access_def)

lemma access_step_inv: "access_inv s \<Longrightarrow> ordinary_claim x \<Longrightarrow> access_inv (access_step mk s x)"
  by (cases x; cases "ga_state s")
    (auto simp: access_ops_def access_inv_def Let_def lease_accepted_iff
       validate_current_def validate_transfer_def split: sum.split option.split prod.split)

lemma access_run_inv:
  "access_inv s \<Longrightarrow> list_all ordinary_claim xs \<Longrightarrow> access_inv (access_run mk s xs)"
  by (induction xs arbitrary: s) (auto simp: access_step_inv)

lemma access_step_poisoned: "ga_state s = POISONED \<Longrightarrow> ga_state (access_step mk s x) = POISONED"
  by (cases x)
    (auto simp: access_ops_def Let_def validate_current_def validate_transfer_def
       split: option.split)

lemma access_run_poisoned: "ga_state s = POISONED \<Longrightarrow> ga_state (access_run mk s xs) = POISONED"
  by (induction xs arbitrary: s) (auto simp: access_step_poisoned)

section \<open>Properties\<close>

text \<open>
  C1.  A superseded lease is dead for ever: once any operation has raised the generation above
  the one a lease was issued at, no later sequence of operations makes a mutating access with
  it succeed, and the game object is not handed out.
\<close>

theorem superseded_lease_never_mutates:
  assumes "gl_generation l < ga_generation s"
  shows "\<exists>e. mutating_game mk l (access_run mk' s ops) = (Inl e, access_run mk' s ops)"
proof -
  have "\<not> lease_accepted (access_run mk' s ops) l"
    using assms by (rule game_lease.older_refused)
  then show ?thesis
    by (cases "validate_current (access_run mk' s ops) l") (simp_all add: mutating_game_def)
qed

theorem superseded_lease_never_mutates_witness:
  "\<exists>e. mutating_game ''game'' \<lparr>gl_holder = Some ''run'', gl_state = RUN, gl_generation = 1\<rparr>
      (access_run ''game'' (access_step ''game'' (access_step ''game'' init_access
          (Claim (Some ''run'') RUN)) (Claim (Some ''combat'') COMBAT)) [Observe])
    = (Inl e, access_run ''game'' (access_step ''game'' (access_step ''game'' init_access
          (Claim (Some ''run'') RUN)) (Claim (Some ''combat'') COMBAT)) [Observe])"
  by (rule superseded_lease_never_mutates) (simp add: init_access_def claim_def)

text \<open>
  Every client that claims only RUN or COMBAT keeps the transfer bookkeeping consistent:
  after any sequence of operations the state is TRANSFERRING exactly when a transfer origin is
  recorded, so the assertion in \<open>rollback\<close> cannot fail.
\<close>

theorem transfer_origin_consistent:
  assumes "list_all ordinary_claim ops"
  shows "(ga_state (access_run mk init_access ops) = TRANSFERRING
            \<longleftrightarrow> ga_origin (access_run mk init_access ops) \<noteq> None)
    \<and> fst (rollback_transfer t (access_run mk init_access ops)) \<noteq> Inl (PyExc ''AssertionError'' [])"
  using access_run_inv [OF access_inv_init assms, of mk]
  by (auto simp: access_inv_def rollback_transfer_def validate_transfer_def game_access_error_def Let_def
        split: option.split)

theorem transfer_origin_consistent_witness:
  "(ga_state (access_run ''game'' init_access [Claim (Some ''run'') RUN]) = TRANSFERRING
      \<longleftrightarrow> ga_origin (access_run ''game'' init_access [Claim (Some ''run'') RUN]) \<noteq> None)
   \<and> fst (rollback_transfer \<lparr>gl_holder = None, gl_state = RUN, gl_generation = 0\<rparr>
           (access_run ''game'' init_access [Claim (Some ''run'') RUN]))
      \<noteq> Inl (PyExc ''AssertionError'' [])"
  by (rule transfer_origin_consistent) simp

text \<open>
   A hand-off that is rolled back restores the exact state and holder it began from, and the
  original owner can mutate again with the lease the rollback returns, while both its old lease
  and the transfer lease are refused.
\<close>

theorem rollback_restores_owner:
  assumes "lease_accepted s l"
  shows "\<exists>t l' s'. fst (begin_transfer l s) = Inr t
    \<and> rollback_transfer t (snd (begin_transfer l s)) = (Inr l', s')
    \<and> ga_state s' = ga_state s \<and> ga_holder s' = ga_holder s \<and> ga_game s' = ga_game s
    \<and> lease_accepted s' l' \<and> \<not> lease_accepted s' l \<and> \<not> lease_accepted s' t"
  using assms
  by (auto simp: begin_transfer_def rollback_transfer_def validate_transfer_def Let_def
        lease_accepted_iff validate_current_def)

theorem rollback_restores_owner_witness:
  "\<exists>t l' s'. fst (begin_transfer \<lparr>gl_holder = Some ''run'', gl_state = RUN, gl_generation = 1\<rparr>
        (snd (claim (Some ''run'') RUN (init_access :: (string, string) access)))) = Inr t
    \<and> rollback_transfer t (snd (begin_transfer \<lparr>gl_holder = Some ''run'', gl_state = RUN, gl_generation = 1\<rparr>
        (snd (claim (Some ''run'') RUN (init_access :: (string, string) access))))) = (Inr l', s')
    \<and> ga_state s' = ga_state (snd (claim (Some ''run'') RUN (init_access :: (string, string) access)))
    \<and> ga_holder s' = ga_holder (snd (claim (Some ''run'') RUN (init_access :: (string, string) access)))
    \<and> ga_game s' = ga_game (snd (claim (Some ''run'') RUN (init_access :: (string, string) access)))
    \<and> lease_accepted s' l'
    \<and> \<not> lease_accepted s' \<lparr>gl_holder = Some ''run'', gl_state = RUN, gl_generation = 1\<rparr>
    \<and> \<not> lease_accepted s' t"
  by (rule rollback_restores_owner) (simp add: init_access_def claim_def lease_accepted_iff)

end
