(* ===== verification/Id_Issuer.thy ===== *)
theory Id_Issuer
  imports Py_Prelude
begin

text \<open>
  The interface of a component that hands out identifiers built from a counter
  (\<open>itertools.count\<close>): each operation either issues no identifier and does not lower the
  counter, or issues one made from a counter value that lies between the counter before and the
  counter after.  The client-side fact is that no identifier is ever issued twice, in whatever
  order the operations come.  \<open>Api_Identifiers\<close> interprets the locale for decision points,
  \<open>Api_Server\<close> for instances, \<open>Branch_Leases\<close> for leases.
\<close>

text \<open>The identifiers a run of operations issues, in order.\<close>

fun issued_ids :: "('s \<Rightarrow> 'op \<Rightarrow> 'id option \<times> 's) \<Rightarrow> 's \<Rightarrow> 'op list \<Rightarrow> 'id list" where
  "issued_ids step s [] = []"
| "issued_ids step s (x # xs) = (case step s x of
       (None, s') \<Rightarrow> issued_ids step s' xs
     | (Some i, s') \<Rightarrow> i # issued_ids step s' xs)"

locale id_issuer =
  fixes step :: "'s \<Rightarrow> 'op \<Rightarrow> 'id option \<times> 's"
    and count :: "'s \<Rightarrow> nat"
    and mk :: "nat \<Rightarrow> 'a \<Rightarrow> 'id"
  assumes mk_counter: "mk m a = mk n b \<Longrightarrow> m = n"
    and silent: "step s x = (None, s') \<Longrightarrow> count s \<le> count s'"
    and issuing: "step s x = (Some i, s') \<Longrightarrow> \<exists>n a. i = mk n a \<and> count s \<le> n \<and> n < count s'"
begin

lemma issued_from_counter:
  "i \<in> set (issued_ids step s xs) \<Longrightarrow> \<exists>n a. i = mk n a \<and> count s \<le> n"
proof (induction xs arbitrary: s)
  case Nil
  then show ?case by simp
next
  case (Cons x xs)
  obtain o' s' where st: "step s x = (o', s')" by (cases "step s x")
  show ?case
  proof (cases o')
    case None
    with Cons st silent [of s x s'] show ?thesis by fastforce
  next
    case (Some j)
    with st obtain n a where j: "j = mk n a" "count s \<le> n" "n < count s'"
      using issuing by blast
    from Cons.prems st Some have "i = j \<or> i \<in> set (issued_ids step s' xs)" by simp
    then show ?thesis
    proof
      assume "i = j"
      with j show ?thesis by blast
    next
      assume "i \<in> set (issued_ids step s' xs)"
      with Cons.IH [of s'] obtain m b where "i = mk m b" "count s' \<le> m" by blast
      with j have "i = mk m b \<and> count s \<le> m" by simp
      then show ?thesis by blast
    qed
  qed
qed

lemma issued_distinct: "distinct (issued_ids step s xs)"
proof (induction xs arbitrary: s)
  case Nil
  show ?case by simp
next
  case (Cons x xs)
  obtain o' s' where st: "step s x = (o', s')" by (cases "step s x")
  show ?case
  proof (cases o')
    case None
    with st Cons.IH show ?thesis by simp
  next
    case (Some j)
    with st obtain n a where j: "j = mk n a" "n < count s'" using issuing by blast
    have "j \<notin> set (issued_ids step s' xs)"
    proof
      assume "j \<in> set (issued_ids step s' xs)"
      then obtain m b where "j = mk m b" "count s' \<le> m" using issued_from_counter by blast
      with j mk_counter show False by (metis not_le)
    qed
    with st Some Cons.IH show ?thesis by simp
  qed
qed

end

end
