(* ===== verification/Api_Validation.thy ===== *)
theory Api_Validation
  imports Py_Prelude
begin

text \<open>
  The wire constants of \<open>API/dto.py\<close>, the fault response of \<open>API/faults.py\<close>, the terminal outcome
  check of \<open>API/terminal_outcome.py\<close> and the request validation of \<open>API/validation.py\<close>.

  \<open>validate_request\<close> follows the code check by check, with its error texts.  The declarative
  \<open>well_formed_request\<close> says, per operation, which fields a request must have; the lemmas and the
  properties show that validation accepts exactly those payloads and never changes them, and that
  an accepted payload has every field the dispatcher subscripts.
\<close>

section \<open>Wire constants\<close>

abbreviation SCHEMA_VERSION :: string where "SCHEMA_VERSION \<equiv> ''0.8''"
definition SUPPORTED_SCHEMA_VERSIONS :: "string list" where
  "SUPPORTED_SCHEMA_VERSIONS = [SCHEMA_VERSION]"
abbreviation DTO_VERSION :: string where "DTO_VERSION \<equiv> ''emulator-fca2f06''"
abbreviation MASK_VERSION :: string where "MASK_VERSION \<equiv> ''1.2''"

abbreviation OP_START_INSTANCE :: string where "OP_START_INSTANCE \<equiv> ''start_instance''"
abbreviation OP_GET_DECISION :: string where "OP_GET_DECISION \<equiv> ''get_decision''"
abbreviation OP_COMMIT_ACTION :: string where "OP_COMMIT_ACTION \<equiv> ''commit_action''"
abbreviation OP_EMULATE_ACTION :: string where "OP_EMULATE_ACTION \<equiv> ''emulate_action''"
abbreviation OP_EMULATE_ACTIONS :: string where "OP_EMULATE_ACTIONS \<equiv> ''emulate_actions''"
abbreviation OP_CANCEL_BRANCHES :: string where "OP_CANCEL_BRANCHES \<equiv> ''cancel_branches''"
abbreviation OP_RELEASE_BRANCHES :: string where "OP_RELEASE_BRANCHES \<equiv> ''release_branches''"
abbreviation OP_GET_BRANCH_STATUS :: string where "OP_GET_BRANCH_STATUS \<equiv> ''get_branch_status''"
abbreviation OP_CLOSE_INSTANCE :: string where "OP_CLOSE_INSTANCE \<equiv> ''close_instance''"

definition OPERATIONS :: "string list" where
  "OPERATIONS = [OP_START_INSTANCE, OP_GET_DECISION, OP_COMMIT_ACTION, OP_EMULATE_ACTION,
     OP_EMULATE_ACTIONS, OP_CANCEL_BRANCHES, OP_RELEASE_BRANCHES, OP_GET_BRANCH_STATUS,
     OP_CLOSE_INSTANCE]"

abbreviation STATUS_COMPLETED :: string where "STATUS_COMPLETED \<equiv> ''completed''"
abbreviation STATUS_PARTIAL :: string where "STATUS_PARTIAL \<equiv> ''partial''"
abbreviation STATUS_QUEUED :: string where "STATUS_QUEUED \<equiv> ''queued''"
abbreviation STATUS_RUNNING :: string where "STATUS_RUNNING \<equiv> ''running''"
abbreviation STATUS_CANCELLED :: string where "STATUS_CANCELLED \<equiv> ''cancelled''"
abbreviation STATUS_REJECTED :: string where "STATUS_REJECTED \<equiv> ''rejected''"
abbreviation STATUS_FAULTED :: string where "STATUS_FAULTED \<equiv> ''faulted''"
abbreviation STATUS_RELEASED :: string where "STATUS_RELEASED \<equiv> ''released''"

definition STATUSES :: "string list" where
  "STATUSES = [STATUS_COMPLETED, STATUS_PARTIAL, STATUS_QUEUED, STATUS_RUNNING, STATUS_CANCELLED,
     STATUS_REJECTED, STATUS_FAULTED, STATUS_RELEASED]"

abbreviation FAULT_TASK_TIMEOUT_API :: string where "FAULT_TASK_TIMEOUT_API \<equiv> ''task_timeout''"
abbreviation FAULT_EMULATOR_ERROR :: string where "FAULT_EMULATOR_ERROR \<equiv> ''emulator_error''"
abbreviation FAULT_INVALID_REQUEST :: string where "FAULT_INVALID_REQUEST \<equiv> ''invalid_request''"
abbreviation FAULT_UNKNOWN_INSTANCE :: string where "FAULT_UNKNOWN_INSTANCE \<equiv> ''unknown_instance''"
abbreviation FAULT_SESSION_SEQUENCE_CONFLICT :: string where
  "FAULT_SESSION_SEQUENCE_CONFLICT \<equiv> ''session_sequence_conflict''"
abbreviation FAULT_SESSION_SEQUENCE_GAP :: string where
  "FAULT_SESSION_SEQUENCE_GAP \<equiv> ''session_sequence_gap''"
abbreviation FAULT_SESSION_CAPACITY :: string where
  "FAULT_SESSION_CAPACITY \<equiv> ''session_capacity_exceeded''"
abbreviation FAULT_SESSION_INSTANCE_CONFLICT :: string where
  "FAULT_SESSION_INSTANCE_CONFLICT \<equiv> ''session_instance_conflict''"

abbreviation INSTANCE_TYPE_WHOLE_RUN :: string where "INSTANCE_TYPE_WHOLE_RUN \<equiv> ''whole_run''"
abbreviation INSTANCE_TYPE_COMBAT :: string where "INSTANCE_TYPE_COMBAT \<equiv> ''combat''"
abbreviation ROOT_BRANCH_ID :: string where "ROOT_BRANCH_ID \<equiv> ''root''"
abbreviation (input) ROOT_RNG_ID :: int where "ROOT_RNG_ID \<equiv> 0"

definition request_id_for :: "string \<Rightarrow> int \<Rightarrow> string" where
  "request_id_for client_session_id request_seq = client_session_id @ '':'' @ str_int request_seq"

section \<open>Fault responses and terminal outcomes\<close>

text \<open>The class name and the text of a raised exception.\<close>

fun exc_class :: "py_exc \<Rightarrow> string" where
  "exc_class (RequestRejected e f) = ''RequestRejected''"
| "exc_class (PyExc c t) = c"

fun exc_str :: "py_exc \<Rightarrow> string" where
  "exc_str (RequestRejected e f) = e"
| "exc_str (PyExc c t) = t"

definition fault_response :: "json \<Rightarrow> py_exc \<Rightarrow> (string, json) dict" where
  "fault_response payload exc =
     (let request = (case payload of JObj d \<Rightarrow> d | _ \<Rightarrow> []);
          response =
            [(''schema_version'', JStr SCHEMA_VERSION),
             (''client_session_id'', jget request ''client_session_id''),
             (''request_seq'', jget request ''request_seq''),
             (''request_id'', jget request ''request_id''),
             (''operation'', jget request ''operation''),
             (''status'', JStr STATUS_FAULTED),
             (''error'', JStr (exc_class exc @ '': '' @ exc_str exc)),
             (''fault_kind'', JStr FAULT_EMULATOR_ERROR)]
      in if jget request ''instance_id'' \<noteq> JNull
         then dset ''instance_id'' (jget request ''instance_id'') response
         else response)"

definition VALID_TERMINAL_OUTCOMES :: "string list" where
  "VALID_TERMINAL_OUTCOMES = [''victory'', ''defeat'']"

definition VALID_WHOLE_RUN_TERMINAL_OUTCOMES :: "string list" where
  "VALID_WHOLE_RUN_TERMINAL_OUTCOMES = VALID_TERMINAL_OUTCOMES @ [''run_victory'']"

definition require_terminal_outcome :: "json \<Rightarrow> string \<Rightarrow> string list \<Rightarrow> string res" where
  "require_terminal_outcome v context valid_outcomes =
     (case v of
        JStr s \<Rightarrow> if s \<in> set valid_outcomes then Inr s
                  else Inl (PyExc ''RuntimeError''
                    (context @ '' reached a terminal boundary without a valid outcome: '' @ repr_json v))
      | _ \<Rightarrow> Inl (PyExc ''RuntimeError''
                    (context @ '' reached a terminal boundary without a valid outcome: '' @ repr_json v)))"

section \<open>Request validation\<close>

definition rejected :: "string \<Rightarrow> 'a res" where
  "rejected msg = Inl (RequestRejected msg None)"

definition require :: "(string, json) dict \<Rightarrow> string \<Rightarrow> py_type \<Rightarrow> json res" where
  "require payload field ty = (case dget payload field of
       None \<Rightarrow> rejected (''missing required field '' @ repr_str field)
     | Some v \<Rightarrow>
         if ty = TInt \<and> is_bool v then
           rejected (''field '' @ repr_str field @ '' must be an integer, got bool'')
         else if \<not> isinstance v ty then
           rejected (''field '' @ repr_str field @ '' must be of type '' @ type_name ty
                     @ '', got '' @ type_of_json v)
         else if ty = TStr \<and> \<not> truthy v then
           rejected (''field '' @ repr_str field @ '' must not be empty'')
         else Inr v)"

fun json_str :: "json \<Rightarrow> string" where
  "json_str (JStr s) = s"
| "json_str _ = []"

fun json_int :: "json \<Rightarrow> int" where
  "json_int (JInt i) = i"
| "json_int _ = 0"

fun json_list :: "json \<Rightarrow> json list" where
  "json_list (JArr xs) = xs"
| "json_list _ = []"

fun json_obj :: "json \<Rightarrow> (string, json) dict" where
  "json_obj (JObj d) = d"
| "json_obj _ = []"

text \<open>\<open>_require\<close> at one type, with the value at that type.\<close>

definition require_str :: "(string, json) dict \<Rightarrow> string \<Rightarrow> string res" where
  "require_str p f = sbind (require p f TStr) (\<lambda>v. Inr (json_str v))"

definition require_int :: "(string, json) dict \<Rightarrow> string \<Rightarrow> int res" where
  "require_int p f = sbind (require p f TInt) (\<lambda>v. Inr (json_int v))"

definition require_list :: "(string, json) dict \<Rightarrow> string \<Rightarrow> json list res" where
  "require_list p f = sbind (require p f TList) (\<lambda>v. Inr (json_list v))"

definition require_dict :: "(string, json) dict \<Rightarrow> string \<Rightarrow> (string, json) dict res" where
  "require_dict p f = sbind (require p f TDict) (\<lambda>v. Inr (json_obj v))"

definition OPTIONAL_SIMULATION_OPTION_TYPES :: "(string, py_type) dict" where
  "OPTIONAL_SIMULATION_OPTION_TYPES =
     [(''stop_condition'', TStr), (''max_depth'', TInt), (''max_steps'', TInt),
      (''max_time_ms'', TInt), (''max_hypotheses'', TInt)]"

definition SUPPORTED_STOP_CONDITIONS :: "string list" where
  "SUPPORTED_STOP_CONDITIONS = [''next_decision'', ''combat_end'', ''room_end'', ''run_end'']"

definition positive_int :: "json \<Rightarrow> bool" where
  "positive_int v \<longleftrightarrow> (case v of JInt i \<Rightarrow> 0 < i | _ \<Rightarrow> False)"

definition nonempty_str :: "json \<Rightarrow> bool" where
  "nonempty_str v \<longleftrightarrow> (case v of JStr s \<Rightarrow> s \<noteq> [] | _ \<Rightarrow> False)"

definition check_simulation_option :: "string \<times> json \<Rightarrow> unit res" where
  "check_simulation_option kv = (case kv of (key, v) \<Rightarrow>
     (case dget OPTIONAL_SIMULATION_OPTION_TYPES key of
        None \<Rightarrow> Inr ()
      | Some expected \<Rightarrow>
          if v = JNull then Inr ()
          else if expected = TInt then
            (if positive_int v then Inr ()
             else rejected (''simulation_options.'' @ repr_str key @ '' must be a positive integer''))
          else if isinstance v expected then Inr ()
          else rejected (''simulation_options.'' @ repr_str key @ '' must be of type '' @ type_name expected)))"

definition validate_simulation_options :: "(string, json) dict \<Rightarrow> unit res" where
  "validate_simulation_options payload = (case jget payload ''simulation_options'' of
       JNull \<Rightarrow> Inr ()
     | JObj options \<Rightarrow>
         sbind (for_each check_simulation_option options) (\<lambda>_.
           (let stop_condition = jget options ''stop_condition'' in
            if stop_condition \<noteq> JNull \<and> stop_condition \<notin> JStr ` set SUPPORTED_STOP_CONDITIONS
            then rejected (''simulation_options.stop_condition '' @ repr_json stop_condition @ '' is not supported'')
            else Inr ()))
     | _ \<Rightarrow> rejected ''field 'simulation_options' must be an object'')"

definition EMULATE_ACTIONS_ITEM_STR_FIELDS :: "string list" where
  "EMULATE_ACTIONS_ITEM_STR_FIELDS = [''parent_branch_id'', ''branch_id'', ''decision_point_id'', ''action_id'']"

definition item_label :: "nat \<Rightarrow> string" where
  "item_label index = ''emulate_actions.items['' @ digits index @ '']''"

text \<open>The loop over the items: \<open>index\<close> counts them, \<open>seen\<close> is \<open>seen_branch_ids\<close>.\<close>

fun validate_items_from :: "nat \<Rightarrow> string list \<Rightarrow> json list \<Rightarrow> unit res" where
  "validate_items_from index seen [] = Inr ()"
| "validate_items_from index seen (JObj item # items) =
     sbind (for_each (\<lambda>field.
              if nonempty_str (jget item field) then Inr ()
              else rejected (item_label index @ ''.'' @ field @ '' must be a non-empty string''))
            EMULATE_ACTIONS_ITEM_STR_FIELDS)
       (\<lambda>_. if \<not> positive_int (jget item ''rng_id'')
            then rejected (item_label index @ ''.rng_id must be a positive integer'')
            else let branch_id = json_str (jget item ''branch_id'') in
              if branch_id \<in> set seen
              then rejected (item_label index @ ''.branch_id '' @ repr_str branch_id
                             @ '' is duplicated within this batch'')
              else validate_items_from (Suc index) (branch_id # seen) items)"
| "validate_items_from index seen (_ # items) = rejected (item_label index @ '' must be an object'')"

definition validate_emulate_actions_items :: "(string, json) dict \<Rightarrow> unit res" where
  "validate_emulate_actions_items payload =
     sbind (require_list payload ''items'') (\<lambda>items.
       if items = [] then rejected ''emulate_actions.items must be a non-empty list''
       else validate_items_from 0 [] items)"

text \<open>The part of \<open>validate_request\<close> that depends on the operation.\<close>

definition validate_operation :: "string \<Rightarrow> (string, json) dict \<Rightarrow> unit res" where
  "validate_operation operation payload =
     (if operation = OP_START_INSTANCE then
        sbind (require_dict payload ''instance_config'') (\<lambda>instance_config.
          if \<not> dhas instance_config ''instance_type''
          then rejected ''instance_config.instance_type is required''
          else if dhas instance_config ''god_mode'' \<and> \<not> is_bool (jget instance_config ''god_mode'')
          then rejected ''instance_config.god_mode must be of type bool''
          else Inr ())
      else if operation = OP_GET_DECISION then
        sbind (require_str payload ''branch_id'') (\<lambda>_. Inr ())
      else if operation = OP_COMMIT_ACTION then
        sbind (require_str payload ''branch_id'') (\<lambda>b.
          if b \<noteq> ROOT_BRANCH_ID
          then rejected (''commit_action.branch_id must be '' @ repr_str ROOT_BRANCH_ID)
          else sbind (require_int payload ''rng_id'') (\<lambda>r.
            if r \<noteq> ROOT_RNG_ID
            then rejected (''commit_action.rng_id must be '' @ str_int ROOT_RNG_ID)
            else sbind (require_str payload ''decision_point_id'') (\<lambda>_.
              sbind (require_str payload ''action_id'') (\<lambda>_. Inr ()))))
      else if operation = OP_EMULATE_ACTION then
        sbind (require_str payload ''parent_branch_id'') (\<lambda>_.
        sbind (require_str payload ''branch_id'') (\<lambda>_.
        sbind (require_int payload ''rng_id'') (\<lambda>r.
          if r \<le> 0 then rejected ''emulate_action.rng_id must be positive''
          else sbind (require_str payload ''decision_point_id'') (\<lambda>_.
            sbind (require_str payload ''action_id'') (\<lambda>_.
              validate_simulation_options payload)))))
      else if operation = OP_EMULATE_ACTIONS then
        sbind (validate_emulate_actions_items payload) (\<lambda>_. validate_simulation_options payload)
      else if operation \<in> {OP_CANCEL_BRANCHES, OP_RELEASE_BRANCHES, OP_GET_BRANCH_STATUS} then
        sbind (require_list payload ''branch_ids'') (\<lambda>branch_ids.
          if branch_ids = [] then rejected ''branch_ids must be a non-empty list''
          else if list_ex (\<lambda>b. \<not> nonempty_str b) branch_ids
          then rejected ''every entry in branch_ids must be a non-empty string''
          else Inr ())
      else Inr ())"

definition require_instance_id :: "string \<Rightarrow> (string, json) dict \<Rightarrow> unit res" where
  "require_instance_id operation payload =
     (if operation \<noteq> OP_START_INSTANCE then sbind (require_str payload ''instance_id'') (\<lambda>_. Inr ())
      else Inr ())"

definition validate_request :: "json \<Rightarrow> (string, json) dict res" where
  "validate_request raw = (case raw of
     JObj payload \<Rightarrow>
       sbind (require_str payload ''schema_version'') (\<lambda>schema_version.
         if schema_version \<notin> set SUPPORTED_SCHEMA_VERSIONS
         then rejected (''unsupported schema_version '' @ repr_str schema_version)
         else sbind (require_str payload ''client_session_id'') (\<lambda>session_id.
         sbind (require_int payload ''request_seq'') (\<lambda>request_seq.
         if request_seq \<le> 0 then rejected ''request_seq must be a positive integer''
         else sbind (require_str payload ''request_id'') (\<lambda>request_id.
         if request_id \<noteq> request_id_for session_id request_seq
         then rejected (''request_id must equal '' @ repr_str (request_id_for session_id request_seq)
                        @ '' for this session/sequence'')
         else sbind (require_str payload ''operation'') (\<lambda>operation.
         if operation \<notin> set OPERATIONS
         then rejected (''unknown operation '' @ repr_str operation)
         else sbind (require_instance_id operation payload) (\<lambda>_.
         sbind (validate_operation operation payload) (\<lambda>_. Inr payload)))))))
   | _ \<Rightarrow> rejected ''request must be a JSON object (dict)'')"

section \<open>What a request must look like\<close>

definition str_field :: "(string, json) dict \<Rightarrow> string \<Rightarrow> bool" where
  "str_field p f \<longleftrightarrow> (\<exists>s. dget p f = Some (JStr s) \<and> s \<noteq> [])"

definition int_field :: "(string, json) dict \<Rightarrow> string \<Rightarrow> (int \<Rightarrow> bool) \<Rightarrow> bool" where
  "int_field p f P \<longleftrightarrow> (\<exists>i. dget p f = Some (JInt i) \<and> P i)"

definition well_formed_item :: "json \<Rightarrow> bool" where
  "well_formed_item it \<longleftrightarrow> (\<exists>d. it = JObj d
     \<and> (\<forall>f \<in> set EMULATE_ACTIONS_ITEM_STR_FIELDS. nonempty_str (jget d f))
     \<and> positive_int (jget d ''rng_id''))"

definition item_branch :: "json \<Rightarrow> string" where
  "item_branch it = json_str (jget (json_obj it) ''branch_id'')"

definition well_formed_items :: "(string, json) dict \<Rightarrow> bool" where
  "well_formed_items p \<longleftrightarrow> (\<exists>items. dget p ''items'' = Some (JArr items) \<and> items \<noteq> []
     \<and> (\<forall>it \<in> set items. well_formed_item it) \<and> distinct (map item_branch items))"

definition well_formed_option :: "string \<times> json \<Rightarrow> bool" where
  "well_formed_option kv \<longleftrightarrow> snd kv = JNull
     \<or> (fst kv \<in> {''max_depth'', ''max_steps'', ''max_time_ms'', ''max_hypotheses''}
          \<longrightarrow> positive_int (snd kv))
       \<and> (fst kv = ''stop_condition'' \<longrightarrow> (\<exists>s. snd kv = JStr s))"

definition well_formed_options :: "(string, json) dict \<Rightarrow> bool" where
  "well_formed_options p \<longleftrightarrow> jget p ''simulation_options'' = JNull
     \<or> (\<exists>opts. jget p ''simulation_options'' = JObj opts
          \<and> (\<forall>kv \<in> set opts. well_formed_option kv)
          \<and> (jget opts ''stop_condition'' = JNull
             \<or> (\<exists>c \<in> set SUPPORTED_STOP_CONDITIONS. jget opts ''stop_condition'' = JStr c)))"

definition well_formed_operation :: "string \<Rightarrow> (string, json) dict \<Rightarrow> bool" where
  "well_formed_operation op p \<longleftrightarrow>
     (op = OP_START_INSTANCE \<longrightarrow> (\<exists>c. dget p ''instance_config'' = Some (JObj c) \<and> dhas c ''instance_type''
        \<and> (dhas c ''god_mode'' \<longrightarrow> is_bool (jget c ''god_mode''))))
   \<and> (op = OP_GET_DECISION \<longrightarrow> str_field p ''branch_id'')
   \<and> (op = OP_COMMIT_ACTION \<longrightarrow> dget p ''branch_id'' = Some (JStr ROOT_BRANCH_ID)
        \<and> dget p ''rng_id'' = Some (JInt ROOT_RNG_ID)
        \<and> str_field p ''decision_point_id'' \<and> str_field p ''action_id'')
   \<and> (op = OP_EMULATE_ACTION \<longrightarrow> str_field p ''parent_branch_id'' \<and> str_field p ''branch_id''
        \<and> int_field p ''rng_id'' (\<lambda>i. 0 < i) \<and> str_field p ''decision_point_id''
        \<and> str_field p ''action_id'' \<and> well_formed_options p)
   \<and> (op = OP_EMULATE_ACTIONS \<longrightarrow> well_formed_items p \<and> well_formed_options p)
   \<and> (op \<in> {OP_CANCEL_BRANCHES, OP_RELEASE_BRANCHES, OP_GET_BRANCH_STATUS} \<longrightarrow>
        (\<exists>bs. dget p ''branch_ids'' = Some (JArr bs) \<and> bs \<noteq> [] \<and> (\<forall>b \<in> set bs. nonempty_str b)))"

definition well_formed_request :: "(string, json) dict \<Rightarrow> bool" where
  "well_formed_request p \<longleftrightarrow> (\<exists>sid seq op.
       dget p ''schema_version'' = Some (JStr SCHEMA_VERSION)
     \<and> dget p ''client_session_id'' = Some (JStr sid) \<and> sid \<noteq> []
     \<and> dget p ''request_seq'' = Some (JInt seq) \<and> 0 < seq
     \<and> dget p ''request_id'' = Some (JStr (request_id_for sid seq))
     \<and> dget p ''operation'' = Some (JStr op) \<and> op \<in> set OPERATIONS
     \<and> (op \<noteq> OP_START_INSTANCE \<longrightarrow> str_field p ''instance_id'')
     \<and> well_formed_operation op p)"

section \<open>Lemmas\<close>

lemma rejected_simps [simp]: "rejected m \<noteq> Inr x" "Inr x \<noteq> rejected m"
  by (simp_all add: rejected_def)

lemma rejected_if_Inr [simp]: "(if c then rejected m else r) = Inr x \<longleftrightarrow> \<not> c \<and> r = Inr x"
  by simp

lemma isinstance_cases:
  "isinstance v TStr \<longleftrightarrow> (\<exists>s. v = JStr s)"
  "isinstance v TInt \<and> \<not> is_bool v \<longleftrightarrow> (\<exists>i. v = JInt i)"
  "isinstance v TList \<longleftrightarrow> (\<exists>xs. v = JArr xs)"
  "isinstance v TDict \<longleftrightarrow> (\<exists>d. v = JObj d)"
  by (cases v; simp)+

lemma require_str_Inr: "require_str p f = Inr s \<longleftrightarrow> dget p f = Some (JStr s) \<and> s \<noteq> []"
  by (auto simp: require_str_def require_def sbind_eq_Inr isinstance_cases split: option.splits if_splits)

lemma require_int_Inr: "require_int p f = Inr i \<longleftrightarrow> dget p f = Some (JInt i)"
  by (auto simp: require_int_def require_def sbind_eq_Inr isinstance_cases split: option.splits if_splits)
    (metis isinstance_cases(2) json_int.simps(1))+

lemma require_list_Inr: "require_list p f = Inr xs \<longleftrightarrow> dget p f = Some (JArr xs)"
  by (auto simp: require_list_def require_def sbind_eq_Inr isinstance_cases split: option.splits if_splits)

lemma require_dict_Inr: "require_dict p f = Inr d \<longleftrightarrow> dget p f = Some (JObj d)"
  by (auto simp: require_dict_def require_def sbind_eq_Inr isinstance_cases split: option.splits if_splits)

lemma request_id_for_nonempty [simp]: "request_id_for sid seq \<noteq> []"
  by (simp add: request_id_for_def)

lemma require_instance_id_Inr:
  "require_instance_id op p = Inr u \<longleftrightarrow> (op \<noteq> OP_START_INSTANCE \<longrightarrow> str_field p ''instance_id'')"
  by (auto simp: require_instance_id_def sbind_eq_Inr require_str_Inr str_field_def)

lemmas require_Inr = require_str_Inr require_int_Inr require_list_Inr require_dict_Inr

lemma well_formed_item_JObj: "well_formed_item (JObj d) \<longleftrightarrow>
    (\<forall>f \<in> set EMULATE_ACTIONS_ITEM_STR_FIELDS. nonempty_str (jget d f)) \<and> positive_int (jget d ''rng_id'')"
  by (simp add: well_formed_item_def)

lemma validate_items_from_Inr:
  "validate_items_from n seen items = Inr () \<longleftrightarrow>
     (\<forall>it \<in> set items. well_formed_item it) \<and> distinct (map item_branch items)
     \<and> set (map item_branch items) \<inter> set seen = {}"
proof (induction items arbitrary: n seen)
  case Nil
  show ?case by simp
next
  case (Cons it items)
  show ?case
  proof (cases it)
    case (JObj d)
    have "item_branch it = json_str (jget d ''branch_id'')"
      by (simp add: JObj item_branch_def)
    then show ?thesis
      by (auto simp: JObj sbind_eq_Inr for_each_Inr well_formed_item_JObj Let_def Cons.IH)
  qed (auto simp: well_formed_item_def)
qed

lemma validate_emulate_actions_items_Inr:
  "validate_emulate_actions_items p = Inr () \<longleftrightarrow> well_formed_items p"
  by (auto simp: validate_emulate_actions_items_def sbind_eq_Inr require_Inr validate_items_from_Inr
      well_formed_items_def)

lemma check_simulation_option_Inr: "check_simulation_option kv = Inr () \<longleftrightarrow> well_formed_option kv"
  by (cases kv) (auto simp: check_simulation_option_def well_formed_option_def
      OPTIONAL_SIMULATION_OPTION_TYPES_def isinstance_cases)

lemma validate_simulation_options_Inr:
  "validate_simulation_options p = Inr () \<longleftrightarrow> well_formed_options p"
  by (auto simp: validate_simulation_options_def well_formed_options_def sbind_eq_Inr for_each_Inr
      check_simulation_option_Inr Let_def split: json.splits if_splits)

lemmas validate_operation_simps = validate_operation_def well_formed_operation_def sbind_eq_Inr
  require_Inr str_field_def int_field_def validate_simulation_options_Inr
  validate_emulate_actions_items_Inr

lemma validate_operation_cases:
  "validate_operation OP_START_INSTANCE p = Inr () \<longleftrightarrow> well_formed_operation OP_START_INSTANCE p"
  "validate_operation OP_GET_DECISION p = Inr () \<longleftrightarrow> well_formed_operation OP_GET_DECISION p"
  "validate_operation OP_COMMIT_ACTION p = Inr () \<longleftrightarrow> well_formed_operation OP_COMMIT_ACTION p"
  "validate_operation OP_EMULATE_ACTION p = Inr () \<longleftrightarrow> well_formed_operation OP_EMULATE_ACTION p"
  "validate_operation OP_EMULATE_ACTIONS p = Inr () \<longleftrightarrow> well_formed_operation OP_EMULATE_ACTIONS p"
  "validate_operation OP_CANCEL_BRANCHES p = Inr () \<longleftrightarrow> well_formed_operation OP_CANCEL_BRANCHES p"
  "validate_operation OP_RELEASE_BRANCHES p = Inr () \<longleftrightarrow> well_formed_operation OP_RELEASE_BRANCHES p"
  "validate_operation OP_GET_BRANCH_STATUS p = Inr () \<longleftrightarrow> well_formed_operation OP_GET_BRANCH_STATUS p"
  "validate_operation OP_CLOSE_INSTANCE p = Inr () \<longleftrightarrow> well_formed_operation OP_CLOSE_INSTANCE p"
proof -
  show "validate_operation OP_START_INSTANCE p = Inr () \<longleftrightarrow> well_formed_operation OP_START_INSTANCE p"
    by (simp add: validate_operation_simps)
  show "validate_operation OP_GET_DECISION p = Inr () \<longleftrightarrow> well_formed_operation OP_GET_DECISION p"
    by (simp add: validate_operation_simps)
  show "validate_operation OP_COMMIT_ACTION p = Inr () \<longleftrightarrow> well_formed_operation OP_COMMIT_ACTION p"
    by (simp add: validate_operation_simps) auto
  show "validate_operation OP_EMULATE_ACTION p = Inr () \<longleftrightarrow> well_formed_operation OP_EMULATE_ACTION p"
    by (simp add: validate_operation_simps) (auto simp: not_le)
  show "validate_operation OP_EMULATE_ACTIONS p = Inr () \<longleftrightarrow> well_formed_operation OP_EMULATE_ACTIONS p"
    by (simp add: validate_operation_simps)
  show "validate_operation OP_CANCEL_BRANCHES p = Inr () \<longleftrightarrow> well_formed_operation OP_CANCEL_BRANCHES p"
    by (simp add: validate_operation_simps list_ex_iff)
  show "validate_operation OP_RELEASE_BRANCHES p = Inr () \<longleftrightarrow> well_formed_operation OP_RELEASE_BRANCHES p"
    by (simp add: validate_operation_simps list_ex_iff)
  show "validate_operation OP_GET_BRANCH_STATUS p = Inr () \<longleftrightarrow> well_formed_operation OP_GET_BRANCH_STATUS p"
    by (simp add: validate_operation_simps list_ex_iff)
  show "validate_operation OP_CLOSE_INSTANCE p = Inr () \<longleftrightarrow> well_formed_operation OP_CLOSE_INSTANCE p"
    by (simp add: validate_operation_simps)
qed

lemma OPERATIONS_cases: "op \<in> set OPERATIONS \<longleftrightarrow>
    op = OP_START_INSTANCE \<or> op = OP_GET_DECISION \<or> op = OP_COMMIT_ACTION
    \<or> op = OP_EMULATE_ACTION \<or> op = OP_EMULATE_ACTIONS \<or> op = OP_CANCEL_BRANCHES
    \<or> op = OP_RELEASE_BRANCHES \<or> op = OP_GET_BRANCH_STATUS \<or> op = OP_CLOSE_INSTANCE"
  by (simp add: OPERATIONS_def)

lemma empty_not_operation [simp]: "[] \<notin> set OPERATIONS"
  by (simp add: OPERATIONS_def)

lemma validate_operation_Inr:
  assumes "op \<in> set OPERATIONS"
  shows "validate_operation op p = Inr u \<longleftrightarrow> well_formed_operation op p"
  using assms unfolding OPERATIONS_cases
  by (elim disjE) (simp_all only: validate_operation_cases unit_eq [of u])

lemma validate_request_iff: "validate_request raw = Inr d \<longleftrightarrow> raw = JObj d \<and> well_formed_request d"
  by (cases raw)
    (auto simp: validate_request_def well_formed_request_def sbind_eq_Inr require_Inr
      SUPPORTED_SCHEMA_VERSIONS_def validate_operation_Inr require_instance_id_Inr not_le)

text \<open>Every check of validation raises \<open>RequestRejected\<close> without a fault kind.\<close>

definition plain_rejection :: "'a res \<Rightarrow> bool" where
  "plain_rejection r \<longleftrightarrow> (case r of Inl e \<Rightarrow> (\<exists>m. e = RequestRejected m None) | Inr _ \<Rightarrow> True)"

lemma plain_rejection_intros [simp, intro]:
  "plain_rejection (rejected msg)"
  "plain_rejection (Inr y)"
  "plain_rejection m \<Longrightarrow> (\<And>x. plain_rejection (f x)) \<Longrightarrow> plain_rejection (sbind m f)"
  by (cases m; simp add: plain_rejection_def rejected_def)+

lemma plain_rejection_for_each [simp, intro]:
  "(\<And>x. plain_rejection (f x)) \<Longrightarrow> plain_rejection (for_each f xs)"
  by (induction xs) auto

lemma plain_rejection_require [simp, intro]:
  "plain_rejection (require p f ty)" "plain_rejection (require_str p f)" "plain_rejection (require_int p f)"
  "plain_rejection (require_list p f)" "plain_rejection (require_dict p f)"
  by (auto simp: require_def require_str_def require_int_def require_list_def require_dict_def
      split: option.split)

lemma plain_rejection_items [simp, intro]: "plain_rejection (validate_items_from n seen items)"
  by (induction n seen items rule: validate_items_from.induct) (auto simp: Let_def)

lemma plain_rejection_options [simp, intro]: "plain_rejection (validate_simulation_options p)"
  by (auto simp: validate_simulation_options_def check_simulation_option_def Let_def
      split: json.split option.split prod.split)

lemma plain_rejection_operation [simp, intro]: "plain_rejection (validate_operation op p)"
  by (auto simp: validate_operation_def validate_emulate_actions_items_def)

lemma validate_request_plain: "plain_rejection (validate_request raw)"
  by (auto simp: validate_request_def require_instance_id_def split: json.split)

section \<open>Properties\<close>

text \<open>
  C2.  Validation is exact: a payload is accepted if and only if it is a JSON object that
  satisfies the declarative request shape of its operation, and it is then returned unchanged.
\<close>

theorem validate_request_exact:
  "validate_request raw = Inr d \<longleftrightarrow> raw = JObj d \<and> well_formed_request d"
  by (rule validate_request_iff)

text \<open>
  A refused request is always refused with \<open>RequestRejected\<close> and without a fault kind of its
  own, so the dispatcher reports \<open>invalid_request\<close> and never an emulator fault for it.
\<close>

theorem validate_request_rejects_plainly:
  "case validate_request raw of Inl e \<Rightarrow> \<exists>m. e = RequestRejected m None | Inr d \<Rightarrow> raw = JObj d"
  using validate_request_plain [of raw]
  by (cases "validate_request raw")
    (auto simp: plain_rejection_def validate_request_def sbind_eq_Inr split: json.splits if_splits)

end
