(* ===== verification/Api_Identifiers.thy ===== *)
theory Api_Identifiers
  imports Id_Issuer Api_Validation
begin

text \<open>
  The identifier life cycles of \<open>API/identifiers.py\<close>: the session ledger that orders and replays
  the requests of one client session, the registry of branch ids, the registry of decision
  points and the table that gives every random-number hypothesis of a decision its index.

  The SHA-256 digest is a parameter \<open>H\<close> over the canonical JSON text.  Sets and dicts are lists
  without repetition where their order is observable (\<open>popitem\<close> removes the newest key).
\<close>

section \<open>Session ledger\<close>

record session_ledger =
  last_seq :: int
  last_digest :: "string option"
  last_response :: "(string, json) dict option"
  active_instance_id :: "string option"

definition new_ledger :: session_ledger where
  "new_ledger = \<lparr> last_seq = 0, last_digest = None, last_response = None, active_instance_id = None \<rparr>"

definition payload_digest :: "(string \<Rightarrow> string) \<Rightarrow> (string, json) dict \<Rightarrow> string" where
  "payload_digest H payload = H (json_dumps False (JObj payload))"

text \<open>\<open>begin\<close>: \<open>Some r\<close> is the response to replay, \<open>None\<close> says that the request is to be executed.\<close>

definition ledger_begin ::
  "(string \<Rightarrow> string) \<Rightarrow> (string, json) dict \<Rightarrow> (session_ledger, (string, json) dict option) stateop" where
  "ledger_begin H payload l =
     (let sq = json_int (jget payload ''request_seq''); dg = payload_digest H payload in
      if sq = last_seq l then
        (if Some dg \<noteq> last_digest l then
           (Inl (RequestRejected (''request_seq '' @ str_int sq @ '' reused with different content'')
                  (Some FAULT_SESSION_SEQUENCE_CONFLICT)), l)
         else case last_response l of
           None \<Rightarrow> (Inl (RequestRejected (''request_seq '' @ str_int sq @ '' is already in flight'')
                  (Some FAULT_SESSION_SEQUENCE_CONFLICT)), l)
         | Some r \<Rightarrow> (Inr (Some r), l))
      else if sq \<noteq> last_seq l + 1 then
        (Inl (RequestRejected (''request_seq must be '' @ str_int (last_seq l + 1) @ '', got '' @ str_int sq)
               (Some FAULT_SESSION_SEQUENCE_GAP)), l)
      else (Inr None, l\<lparr>last_seq := sq, last_digest := Some dg, last_response := None\<rparr>))"

definition ledger_complete :: "(string, json) dict \<Rightarrow> session_ledger \<Rightarrow> session_ledger" where
  "ledger_complete response l = l\<lparr>last_response := Some response\<rparr>"

section \<open>Branch ids\<close>

record branch_ids =
  ever_used :: "string list"

definition new_branch_ids :: branch_ids where
  "new_branch_ids = \<lparr> ever_used = [ROOT_BRANCH_ID] \<rparr>"

definition register_branch :: "string \<Rightarrow> (branch_ids, unit) stateop" where
  "register_branch b r =
     (if b \<in> set (ever_used r) then
        (Inl (RequestRejected (''branch_id '' @ repr_str b @ '' already used (branch IDs are never reusable)'') None), r)
      else (Inr (), r\<lparr>ever_used := ever_used r @ [b]\<rparr>))"

definition rollback_registration :: "string \<Rightarrow> branch_ids \<Rightarrow> branch_ids" where
  "rollback_registration b r =
     (if b \<noteq> ROOT_BRANCH_ID then r\<lparr>ever_used := removeAll b (ever_used r)\<rparr> else r)"

definition is_known_branch :: "string \<Rightarrow> branch_ids \<Rightarrow> bool" where
  "is_known_branch b r \<longleftrightarrow> b \<in> set (ever_used r)"

section \<open>Decision points\<close>

record decision_points =
  dp_counter :: nat
  dp_current :: "(string, string) dict"

definition new_decision_points :: decision_points where
  "new_decision_points = \<lparr> dp_counter = 1, dp_current = [] \<rparr>"

definition decision_point_id :: "nat \<Rightarrow> string \<Rightarrow> string" where
  "decision_point_id n b = ''d-'' @ b @ ''-'' @ pad6 n"

definition issue_decision_point :: "string \<Rightarrow> decision_points \<Rightarrow> string \<times> decision_points" where
  "issue_decision_point b r =
     (let d = decision_point_id (dp_counter r) b in
      (d, \<lparr> dp_counter = Suc (dp_counter r), dp_current = dset b d (dp_current r) \<rparr>))"

definition current_decision_point :: "string \<Rightarrow> decision_points \<Rightarrow> string option" where
  "current_decision_point b r = dget (dp_current r) b"

definition validate_decision_point :: "string \<Rightarrow> string \<Rightarrow> decision_points \<Rightarrow> unit res" where
  "validate_decision_point b given r = (case dget (dp_current r) b of
       None \<Rightarrow> Inl (RequestRejected (''branch_id '' @ repr_str b @ '' has no active decision_point_id'') None)
     | Some c \<Rightarrow>
         if c \<noteq> given
         then Inl (RequestRejected (''stale decision_point_id for branch_id '' @ repr_str b @ '': '' @
                ''given='' @ repr_str given @ '' current='' @ repr_str c) None)
         else Inr ())"

definition clear_decision_point :: "string \<Rightarrow> decision_points \<Rightarrow> decision_points" where
  "clear_decision_point b r = r\<lparr>dp_current := dpop b (dp_current r)\<rparr>"

definition restore_current_decision_point :: "string \<Rightarrow> string option \<Rightarrow> decision_points \<Rightarrow> decision_points" where
  "restore_current_decision_point b d r = (case d of
       None \<Rightarrow> r\<lparr>dp_current := dpop b (dp_current r)\<rparr>
     | Some i \<Rightarrow> r\<lparr>dp_current := dset b i (dp_current r)\<rparr>)"

text \<open>The operations of the registry, and the identifier each issues.\<close>

datatype decision_op = IssueDecision string | ClearDecision string | RestoreDecision string "string option"

fun decision_step :: "decision_points \<Rightarrow> decision_op \<Rightarrow> string option \<times> decision_points" where
  "decision_step r (IssueDecision b) = (case issue_decision_point b r of (d, r') \<Rightarrow> (Some d, r'))"
| "decision_step r (ClearDecision b) = (None, clear_decision_point b r)"
| "decision_step r (RestoreDecision b d) = (None, restore_current_decision_point b d r)"

section \<open>Hypothesis indices\<close>

type_synonym rng_key = "string \<times> string \<times> int"

record rng_table =
  index_by_key :: "(rng_key, nat) dict"
  next_index :: "(string \<times> string, nat) dict"

definition new_rng_table :: rng_table where
  "new_rng_table = \<lparr> index_by_key = [], next_index = [] \<rparr>"

definition parent_decision :: "rng_key \<Rightarrow> string \<times> string" where
  "parent_decision k = (fst k, fst (snd k))"

definition next_for :: "rng_table \<Rightarrow> string \<times> string \<Rightarrow> nat" where
  "next_for t pd = (case dget (next_index t) pd of None \<Rightarrow> 0 | Some n \<Rightarrow> n)"

definition hypothesis_index_for :: "rng_key \<Rightarrow> rng_table \<Rightarrow> nat \<times> rng_table" where
  "hypothesis_index_for key t = (case dget (index_by_key t) key of
       Some i \<Rightarrow> (i, t)
     | None \<Rightarrow>
         let n = next_for t (parent_decision key) in
         (n, t\<lparr>index_by_key := dset key n (index_by_key t),
               next_index := dset (parent_decision key) (Suc n) (next_index t)\<rparr>))"

definition rng_snapshot :: "rng_table \<Rightarrow> nat" where
  "rng_snapshot t = length (index_by_key t)"

text \<open>One \<open>popitem\<close> with the counter it rewinds, and the loop of \<open>restore\<close>.\<close>

definition rng_popitem :: "rng_table \<Rightarrow> rng_table" where
  "rng_popitem t = (let (key, index) = last (index_by_key t); pd = parent_decision key in
     t\<lparr>index_by_key := butlast (index_by_key t),
       next_index := (if index = 0 then dpop pd (next_index t) else dset pd index (next_index t))\<rparr>)"

function rng_unwind :: "nat \<Rightarrow> rng_table \<Rightarrow> rng_table" where
  "rng_unwind m t = (if m < length (index_by_key t) then rng_unwind m (rng_popitem t) else t)"
  by pat_completeness auto

termination
  by (relation "measure (\<lambda>(m, t). length (index_by_key t))")
    (auto simp: rng_popitem_def Let_def split: prod.split)

declare rng_unwind.simps [simp del]

definition rng_restore :: "json \<Rightarrow> (rng_table, unit) stateop" where
  "rng_restore m t = (case m of
       JInt i \<Rightarrow>
         if i < 0 \<or> int (length (index_by_key t)) < i
         then (Inl (PyExc ''ValueError'' ''RNG rollback snapshot is outside the current allocation history''), t)
         else (Inr (), rng_unwind (nat i) t)
     | _ \<Rightarrow> (Inl (PyExc ''TypeError'' ''RNG rollback snapshot must be an integer marker''), t))"

text \<open>The allocations of a batch, one after the other.\<close>

fun allocate_all :: "rng_key list \<Rightarrow> rng_table \<Rightarrow> nat list \<times> rng_table" where
  "allocate_all [] t = ([], t)"
| "allocate_all (k # ks) t =
     (case hypothesis_index_for k t of (i, t') \<Rightarrow>
      case allocate_all ks t' of (is', t'') \<Rightarrow> (i # is', t''))"

text \<open>
  Well-formed: no key twice, the indices of a decision are those below its counter, each given
  once, and a recorded counter is positive.
\<close>

definition rng_table_inv :: "rng_table \<Rightarrow> bool" where
  "rng_table_inv t \<longleftrightarrow> distinct (dkeys (index_by_key t))
     \<and> (\<forall>pd. dget (next_index t) pd \<noteq> Some 0)
     \<and> (\<forall>k i. dget (index_by_key t) k = Some i \<longrightarrow> i < next_for t (parent_decision k))
     \<and> (\<forall>k k' i. dget (index_by_key t) k = Some i \<longrightarrow> dget (index_by_key t) k' = Some i
          \<longrightarrow> parent_decision k = parent_decision k' \<longrightarrow> k = k')"

section \<open>Lemmas\<close>

lemma dash_not_in_pad6 [simp]: "CHR ''-'' \<notin> set (pad6 n)"
  using pad6_are_digits not_digit_seps(2) by blast

lemma decision_point_id_counter: "decision_point_id m a = decision_point_id n b \<Longrightarrow> m = n \<and> a = b"
  using split_at_separator [of "''d-'' @ a" "CHR ''-''" "pad6 m" "''d-'' @ b" "pad6 n"]
  by (simp add: decision_point_id_def)

interpretation decision_ids: id_issuer decision_step dp_counter decision_point_id
proof unfold_locales
  show "m = n" if "decision_point_id m a = decision_point_id n b" for m n a b
    using that by (simp add: decision_point_id_counter)
  show "dp_counter s \<le> dp_counter s'" if "decision_step s x = (None, s')" for s s' x
    using that
    by (cases x) (auto simp: clear_decision_point_def restore_current_decision_point_def
        issue_decision_point_def Let_def split: option.splits)
  show "\<exists>n a. i = decision_point_id n a \<and> dp_counter s \<le> n \<and> n < dp_counter s'"
    if "decision_step s x = (Some i, s')" for s s' x i
    using that by (cases x) (auto simp: issue_decision_point_def Let_def)
qed

lemma next_for_simps:
  "next_for (t\<lparr>index_by_key := ix, next_index := dset pd n (next_index t)\<rparr>) pd'
     = (if pd' = pd then n else next_for t pd')"
  by (simp add: next_for_def)

lemma rng_table_inv_new: "rng_table_inv new_rng_table"
  by (simp add: rng_table_inv_def new_rng_table_def)

lemma hypothesis_index_for_known:
  "dget (index_by_key t) k = Some i \<Longrightarrow> hypothesis_index_for k t = (i, t)"
  by (simp add: hypothesis_index_for_def)

lemma hypothesis_index_for_records:
  "dget (index_by_key (snd (hypothesis_index_for k t))) k = Some (fst (hypothesis_index_for k t))"
  by (auto simp: hypothesis_index_for_def Let_def split: option.split)

lemma hypothesis_index_for_keeps:
  "dget (index_by_key t) k = Some i \<Longrightarrow> dget (index_by_key (snd (hypothesis_index_for k' t))) k = Some i"
  by (auto simp: hypothesis_index_for_def Let_def split: option.split)

lemma rng_table_inv_step:
  assumes inv: "rng_table_inv t"
  shows "rng_table_inv (snd (hypothesis_index_for k t))"
proof (cases "dget (index_by_key t) k")
  case (Some i)
  with inv show ?thesis by (simp add: hypothesis_index_for_def)
next
  case None
  define n where "n = next_for t (parent_decision k)"
  have upd: "snd (hypothesis_index_for k t) =
      t\<lparr>index_by_key := dset k n (index_by_key t),
        next_index := dset (parent_decision k) (Suc n) (next_index t)\<rparr>"
    using None by (simp add: hypothesis_index_for_def n_def Let_def)
  have below: "i < n" if "dget (index_by_key t) k' = Some i" "parent_decision k' = parent_decision k" for k' i
    using inv that by (metis n_def rng_table_inv_def)
  show ?thesis
    using inv unfolding upd rng_table_inv_def
    by (auto simp: next_for_simps n_def [symmetric] less_SucI dest: below simp del: split_paired_All)
qed

lemma rng_table_inv_allocate: "rng_table_inv t \<Longrightarrow> rng_table_inv (snd (allocate_all ks t))"
  by (induction ks arbitrary: t) (auto simp: split_beta rng_table_inv_step)

lemma dget_allocate:
  "dget (index_by_key t) k = Some i \<Longrightarrow> dget (index_by_key (snd (allocate_all ks t))) k = Some i"
  by (induction ks arbitrary: t) (auto simp: split_beta hypothesis_index_for_keeps)

lemma allocate_all_length [simp]: "length (fst (allocate_all ks t)) = length ks"
  by (induction ks arbitrary: t) (auto simp: split_beta)

text \<open>The indices a batch gets are the ones the table holds for its keys afterwards.\<close>

lemma allocate_all_records:
  "j < length ks \<Longrightarrow>
   dget (index_by_key (snd (allocate_all ks t))) (ks ! j) = Some (fst (allocate_all ks t) ! j)"
proof (induction ks arbitrary: t j)
  case Nil
  then show ?case by simp
next
  case (Cons k ks)
  then show ?case
    by (cases j) (auto simp: split_beta dget_allocate hypothesis_index_for_records)
qed

lemma length_hypothesis_index_for:
  "length (index_by_key t) \<le> length (index_by_key (snd (hypothesis_index_for k t)))"
  by (auto simp: hypothesis_index_for_def Let_def length_dset split: option.split)

lemma length_allocate: "length (index_by_key t) \<le> length (index_by_key (snd (allocate_all ks t)))"
proof (induction ks arbitrary: t)
  case (Cons k ks)
  then show ?case
    using length_hypothesis_index_for [of t k] by (auto simp: split_beta intro: le_trans)
qed simp

lemma rng_unwind_stop: "length (index_by_key t) \<le> m \<Longrightarrow> rng_unwind m t = t"
  by (subst rng_unwind.simps) simp

text \<open>One allocation is undone exactly, whatever was allocated before.\<close>

lemma dset_back: "dget d k = Some v \<Longrightarrow> dset k v (dset k w d) = d"
  by (induction d) (auto simp: dset_def split: if_splits)

lemma dpop_fresh: "dget d k = None \<Longrightarrow> dpop k (dset k w d) = d"
  by (induction d) (auto simp: dset_def dpop_def split: if_splits)

lemma rng_popitem_allocation:
  assumes inv: "rng_table_inv t" and fresh: "dget (index_by_key t) k = None"
  shows "rng_popitem (snd (hypothesis_index_for k t)) = t"
proof -
  define n where "n = next_for t (parent_decision k)"
  have keys: "dset k n (index_by_key t) = index_by_key t @ [(k, n)]"
    using fresh by (simp add: dset_fresh dget_None_iff)
  have counter: "(if n = 0 then dpop (parent_decision k) (dset (parent_decision k) (Suc n) (next_index t))
      else dset (parent_decision k) n (dset (parent_decision k) (Suc n) (next_index t))) = next_index t"
  proof (cases "dget (next_index t) (parent_decision k)")
    case None
    then have "n = 0" by (simp add: n_def next_for_def)
    with None show ?thesis by (simp add: dpop_fresh)
  next
    case (Some m)
    then have "n = m" by (simp add: n_def next_for_def)
    moreover have "m \<noteq> 0" using inv Some unfolding rng_table_inv_def by metis
    ultimately show ?thesis using Some by (simp add: dset_back)
  qed
  have "rng_popitem (snd (hypothesis_index_for k t)) = t\<lparr>index_by_key := index_by_key t,
      next_index := (if n = 0 then dpop (parent_decision k) (dset (parent_decision k) (Suc n) (next_index t))
        else dset (parent_decision k) n (dset (parent_decision k) (Suc n) (next_index t)))\<rparr>"
    using fresh by (simp add: hypothesis_index_for_def rng_popitem_def Let_def n_def [symmetric] keys)
  then show ?thesis unfolding counter by simp
qed

lemma rng_unwind_allocations:
  "rng_table_inv t \<Longrightarrow> m \<le> length (index_by_key t)
    \<Longrightarrow> rng_unwind m (snd (allocate_all ks t)) = rng_unwind m t"
proof (induction ks arbitrary: t)
  case Nil
  show ?case by simp
next
  case (Cons k ks)
  let ?t = "snd (hypothesis_index_for k t)"
  have "rng_unwind m (snd (allocate_all (k # ks) t)) = rng_unwind m (snd (allocate_all ks ?t))"
    by (simp add: split_beta)
  also have "\<dots> = rng_unwind m ?t"
    using Cons.prems length_hypothesis_index_for [of t k]
    by (intro Cons.IH) (auto simp: rng_table_inv_step)
  also have "\<dots> = rng_unwind m t"
  proof (cases "dget (index_by_key t) k")
    case (Some i)
    then show ?thesis by (simp add: hypothesis_index_for_def)
  next
    case None
    then have "index_by_key ?t = index_by_key t @ [(k, next_for t (parent_decision k))]"
      using dset_fresh [of k "index_by_key t"] dget_None_iff [of "index_by_key t" k]
      by (simp add: hypothesis_index_for_def Let_def)
    then have "length (index_by_key ?t) = Suc (length (index_by_key t))" by simp
    with Cons.prems None show ?thesis
      by (subst rng_unwind.simps) (simp add: rng_popitem_allocation)
  qed
  finally show ?case .
qed

section \<open>Properties\<close>

text \<open>
   C3.  No decision point id is ever issued twice by a registry, for the same branch or for
  different ones, in whatever order issuing, clearing and rolling back are interleaved.
\<close>

theorem decision_point_ids_unique: "distinct (issued_ids decision_step new_decision_points ops)"
  by (rule decision_ids.issued_distinct)

text \<open>
   A decision point is usable until the next one of its branch is issued and never after:
  the id just issued validates, every id issued by an earlier state of the counter is refused.
\<close>

theorem stale_decision_point_refused:
  assumes "n < dp_counter r"
  shows "validate_decision_point b (fst (issue_decision_point b r)) (snd (issue_decision_point b r)) = Inr ()
    \<and> validate_decision_point b (decision_point_id n b) (snd (issue_decision_point b r)) \<noteq> Inr ()"
  using assms
  by (auto simp: validate_decision_point_def issue_decision_point_def Let_def dest: decision_point_id_counter)

theorem stale_decision_point_refused_witness:
  "validate_decision_point ''root'' (fst (issue_decision_point ''root''
        (snd (issue_decision_point ''root'' new_decision_points))))
      (snd (issue_decision_point ''root'' (snd (issue_decision_point ''root'' new_decision_points)))) = Inr ()
   \<and> validate_decision_point ''root'' (decision_point_id 1 ''root'')
      (snd (issue_decision_point ''root'' (snd (issue_decision_point ''root'' new_decision_points)))) \<noteq> Inr ()"
  by (rule stale_decision_point_refused)
    (simp add: new_decision_points_def issue_decision_point_def Let_def)

text \<open>
  C4.  Rolling back a failed batch restores the hypothesis table exactly: after any allocations
  made since a snapshot, \<open>restore\<close> succeeds and gives back the very table the snapshot was
  taken of, key order and counters included.
\<close>

theorem rng_restore_undoes_batch:
  "rng_restore (JInt (int (rng_snapshot (snd (allocate_all before new_rng_table)))))
     (snd (allocate_all batch (snd (allocate_all before new_rng_table))))
   = (Inr (), snd (allocate_all before new_rng_table))"
  using length_allocate [of "snd (allocate_all before new_rng_table)" batch]
  by (simp add: rng_restore_def rng_snapshot_def not_less rng_unwind_allocations rng_unwind_stop
      rng_table_inv_allocate rng_table_inv_new)

text \<open>
  Hypothesis indices are stable and injective: two requests of a session for the same
  parent, decision and \<open>rng_id\<close> get the same index, two requests for one decision that differ
  in their \<open>rng_id\<close> get different ones.
\<close>

theorem rng_indices_stable_and_injective:
  assumes "i < length ks" "j < length ks" "parent_decision (ks ! i) = parent_decision (ks ! j)"
  shows "fst (allocate_all ks new_rng_table) ! i = fst (allocate_all ks new_rng_table) ! j
         \<longleftrightarrow> ks ! i = ks ! j"
proof
  let ?t = "snd (allocate_all ks new_rng_table)"
  have inv: "rng_table_inv ?t" by (simp add: rng_table_inv_allocate rng_table_inv_new)
  have rec: "dget (index_by_key ?t) (ks ! i) = Some (fst (allocate_all ks new_rng_table) ! i)"
    "dget (index_by_key ?t) (ks ! j) = Some (fst (allocate_all ks new_rng_table) ! j)"
    using assms by (simp_all add: allocate_all_records)
  show "ks ! i = ks ! j" if "fst (allocate_all ks new_rng_table) ! i = fst (allocate_all ks new_rng_table) ! j"
    using inv rec that assms(3) unfolding rng_table_inv_def by metis
  show "fst (allocate_all ks new_rng_table) ! i = fst (allocate_all ks new_rng_table) ! j" if "ks ! i = ks ! j"
    using rec that by simp
qed

theorem rng_indices_stable_and_injective_witness:
  "fst (allocate_all [(''root'', ''d'', 7), (''root'', ''d'', 5)] new_rng_table) ! 0
     = fst (allocate_all [(''root'', ''d'', 7), (''root'', ''d'', 5)] new_rng_table) ! 1
   \<longleftrightarrow> [(''root'', ''d'', 7), (''root'', ''d'', 5)] ! 0 = [(''root'', ''d'', 7), (''root'', ''d'', 5 :: int)] ! 1"
  by (rule rng_indices_stable_and_injective) (simp_all add: parent_decision_def)

end
