(* ===== verification/Py_Numbers.thy ===== *)
theory Py_Numbers
  imports Py_Prelude
begin

text \<open>
  Python numbers in JSON values: \<open>int(x)\<close>, numeric equality across types and hashability.
  \<open>num_key\<close> maps the numbers that compare equal (\<open>1 == True == 1.0\<close>) to one value.  A float is
  its \<open>repr\<close> text and counts as an integer when the text denotes one (exact below 2 to the 53).
\<close>

section \<open>Python numbers\<close>

text \<open>The decimal exponent and the digits of a float text: sign, integer part, fraction, exponent.\<close>

definition split_at :: "char \<Rightarrow> string \<Rightarrow> string \<times> string" where
  "split_at c s = (takeWhile (\<lambda>x. x \<noteq> c) s, drop 1 (dropWhile (\<lambda>x. x \<noteq> c) s))"

definition float_parts :: "string \<Rightarrow> (bool \<times> nat \<times> int) option" where
  "float_parts s =
     (let neg = (case s of c # _ \<Rightarrow> c = CHR ''-'' | [] \<Rightarrow> False);
          body = (if neg then drop 1 s else s);
          (mant, ex) = split_at (CHR ''e'') body;
          (ip, fp) = split_at (CHR ''.'') mant
      in if ip = [] \<or> \<not> list_all is_digit (ip @ fp) then None
         else case (if ex = [] then Some 0 else int_of_text ex) of
           None \<Rightarrow> None
         | Some e \<Rightarrow> Some (neg, undigits (ip @ fp), e - int (length fp)))"

text \<open>\<open>int(x)\<close> of a float, truncating towards zero; infinities and NaN raise.\<close>

definition float_trunc :: "string \<Rightarrow> int option" where
  "float_trunc s = (case float_parts s of
       None \<Rightarrow> None
     | Some (neg, m, e) \<Rightarrow>
         (let a = (if 0 \<le> e then int m * 10 ^ nat e else int m div 10 ^ nat (- e))
          in Some (if neg then - a else a)))"

definition float_integral :: "string \<Rightarrow> int option" where
  "float_integral s = (case float_parts s of
       None \<Rightarrow> None
     | Some (neg, m, e) \<Rightarrow>
         if 0 \<le> e then Some (if neg then - (int m * 10 ^ nat e) else int m * 10 ^ nat e)
         else if m mod 10 ^ nat (- e) = 0 then Some (if neg then - int (m div 10 ^ nat (- e)) else int (m div 10 ^ nat (- e)))
         else None)"

definition int_of_json :: "json \<Rightarrow> int res" where
  "int_of_json v = (case v of
       JInt i \<Rightarrow> Inr i
     | JBool b \<Rightarrow> Inr (if b then 1 else 0)
     | JFloat s \<Rightarrow> (case float_trunc s of Some i \<Rightarrow> Inr i
          | None \<Rightarrow> if s = ''nan'' then Inl (PyExc ''ValueError'' ''cannot convert float NaN to integer'')
                     else Inl (PyExc ''OverflowError'' ''cannot convert float infinity to integer''))
     | JStr s \<Rightarrow> (case int_of_text s of Some i \<Rightarrow> Inr i
          | None \<Rightarrow> Inl (PyExc ''ValueError'' (''invalid literal for int() with base 10: '' @ repr_str s)))
     | w \<Rightarrow> Inl (PyExc ''TypeError''
          (''int() argument must be a string, a bytes-like object or a real number, not ''
           @ [CHR 0x27] @ type_of_json w @ [CHR 0x27])))"

fun num_key :: "json \<Rightarrow> json" where
  "num_key (JBool b) = JInt (if b then 1 else 0)"
| "num_key (JFloat s) = (case float_integral s of Some i \<Rightarrow> JInt i | None \<Rightarrow> JFloat s)"
| "num_key v = v"

fun hashable :: "json \<Rightarrow> bool" where
  "hashable (JArr _) = False"
| "hashable (JObj _) = False"
| "hashable _ = True"

text \<open>\<open>for x in v\<close>.\<close>

definition not_iterable :: "json \<Rightarrow> py_exc" where
  "not_iterable v = PyExc ''TypeError'' ([CHR 0x27] @ type_of_json v @ [CHR 0x27] @ '' object is not iterable'')"

definition py_iter :: "json \<Rightarrow> json list res" where
  "py_iter v = (case v of
       JArr xs \<Rightarrow> Inr xs
     | JObj d \<Rightarrow> Inr (map (JStr \<circ> fst) d)
     | JStr s \<Rightarrow> Inr (map (\<lambda>c. JStr [c]) s)
     | _ \<Rightarrow> Inl (not_iterable v))"

text \<open>\<open>payload[key]\<close>, and \<open>x or y\<close> on values.\<close>

definition subscript :: "(string, json) dict \<Rightarrow> string \<Rightarrow> json res" where
  "subscript d k = (case dget d k of None \<Rightarrow> Inl (PyExc ''KeyError'' (repr_str k)) | Some v \<Rightarrow> Inr v)"

definition py_or :: "json \<Rightarrow> json \<Rightarrow> json" where
  "py_or a b = (if truthy a then a else b)"

text \<open>Sequencing of operations on a state that may raise; the state at the exception is kept.\<close>

definition obind :: "('s, 'a) stateop \<Rightarrow> ('a \<Rightarrow> ('s, 'b) stateop) \<Rightarrow> ('s, 'b) stateop" where
  "obind m f s = (case m s of (Inl e, s') \<Rightarrow> (Inl e, s') | (Inr x, s') \<Rightarrow> f x s')"

definition oreturn :: "'a \<Rightarrow> ('s, 'a) stateop" where
  "oreturn x s = (Inr x, s)"

definition olift :: "'a res \<Rightarrow> ('s, 'a) stateop" where
  "olift r s = (r, s)"

definition modify :: "('s \<Rightarrow> 's) \<Rightarrow> ('s, unit) stateop" where
  "modify f s = (Inr (), f s)"

definition runtime_error :: "string \<Rightarrow> 'a res" where
  "runtime_error t = Inl (PyExc ''RuntimeError'' t)"

definition value_error :: "string \<Rightarrow> 'a res" where
  "value_error t = Inl (PyExc ''ValueError'' t)"

text \<open>The type name and the text of an exception.\<close>

fun exc_name :: "py_exc \<Rightarrow> string" where
  "exc_name (PyExc ty _) = ty"
| "exc_name (RequestRejected _ _) = ''RequestRejected''"

fun exc_message :: "py_exc \<Rightarrow> string" where
  "exc_message (PyExc _ m) = m"
| "exc_message (RequestRejected m _) = m"

lemma obind_Inr:
  "obind m f s = (Inr y, s'') \<longleftrightarrow> (\<exists>x s'. m s = (Inr x, s') \<and> f x s' = (Inr y, s''))"
  by (auto simp: obind_def split: prod.splits sum.splits)

lemma obind_run [simp]:
  "obind (oreturn x) f s = f x s"
  "obind (olift (Inr x)) f s = f x s"
  "obind (olift (Inl e)) f s = (Inl e, s)"
  by (simp_all add: obind_def oreturn_def olift_def)

lemma oreturn_run [simp]: "oreturn x s = (Inr x, s)"
  by (simp add: oreturn_def)

lemma olift_run [simp]: "olift r s = (r, s)"
  by (simp add: olift_def)

lemma modify_run [simp]: "modify f s = (Inr (), f s)"
  by (simp add: modify_def)

section \<open>Equality\<close>

text \<open>
  \<open>a == b\<close> on plain values: numbers by value across their types, dicts without regard to the
  order of their keys.  (NaN, which differs from itself, is the exception that is not modelled.)
\<close>

fun py_norm :: "json \<Rightarrow> json" where
  "py_norm (JArr xs) = JArr (map py_norm xs)"
| "py_norm (JObj d) = JObj (sort_key fst (map (\<lambda>(k, v). (k, py_norm v)) d))"
| "py_norm v = num_key v"

definition py_eq :: "json \<Rightarrow> json \<Rightarrow> bool" where
  "py_eq a b \<longleftrightarrow> py_norm a = py_norm b"

lemma py_eq_refl [simp]: "py_eq a a"
  by (simp add: py_eq_def)

lemma py_eq_sym: "py_eq a b \<Longrightarrow> py_eq b a"
  by (simp add: py_eq_def)

lemma py_eq_trans: "py_eq a b \<Longrightarrow> py_eq b c \<Longrightarrow> py_eq a c"
  by (simp add: py_eq_def)

lemma py_eq_str [simp]: "py_eq (JStr s) (JStr t) \<longleftrightarrow> s = t"
  by (simp add: py_eq_def)

lemma py_norm_str [simp]: "py_norm v = JStr s \<longleftrightarrow> v = JStr s"
  by (cases v) (auto split: option.splits)

end
