(* ===== verification/Api_Server.thy ===== *)
theory Api_Server
  imports Api_Identifiers Py_Numbers
begin

text \<open>
  The request dispatcher of \<open>API/server.py\<close>: sessions, instances, and one handler per operation.

  An instance is a handle \<open>'i\<close>, the object the registry holds.  Instances are reached through
  \<open>instance_ops\<close>: the constructor, the start response, the calls and \<open>close\<close>, each of which acts on the
  world \<open>'x\<close> that all instances share (the process with its one game, the worker processes), may raise
  and may return any value at all.  The server state is what \<open>RLApiServer\<close> holds, the world, and two
  history variables that the code does not have: \<open>sv_executed\<close>, the requests given to
  \<open>_execute_new_request\<close>, and \<open>sv_called\<close>, the instance ids whose object was called.  \<open>handle_request\<close> returns the exception that
  escapes it (a payload that is no dict) or the response, with the state it leaves.
\<close>

section \<open>State and instances\<close>

datatype instance_call =
    GetDecision json
  | CommitAction json json
  | EmulateAction (ea_parent: json) (ea_branch: json) (ea_rng: json) (ea_decision: json)
      (ea_action: json) (ea_options: json)
  | EmulateActions json json
  | CancelBranches json
  | ReleaseBranches json
  | GetBranchStatus json

record ('i, 'x) instance_ops =
  io_construct :: "string \<Rightarrow> string \<Rightarrow> (string, json) dict \<Rightarrow> ('x, 'i) stateop"
  io_start :: "'i \<Rightarrow> ('x, json) stateop"
  io_call :: "instance_call \<Rightarrow> 'i \<Rightarrow> ('x, json) stateop"
  io_close :: "'i \<Rightarrow> ('x, unit) stateop"
  io_type :: "'i \<Rightarrow> string"

record ('i, 'x) rl_server =
  sv_epoch :: string
  sv_max_sessions :: nat
  sv_sessions :: "(string, session_ledger) dict"
  sv_instances :: "(string, 'i) dict"
  sv_serial :: nat
  sv_world :: 'x
  sv_executed :: "(string \<times> int) list"
  sv_called :: "string list"

definition init_server :: "string \<Rightarrow> int \<Rightarrow> 'x \<Rightarrow> ('i, 'x) rl_server res" where
  "init_server epoch max_sessions x =
     (if max_sessions \<le> 0 then Inl (PyExc ''ValueError'' ''max_sessions must be positive'')
      else Inr \<lparr> sv_epoch = epoch, sv_max_sessions = nat max_sessions, sv_sessions = [],
                 sv_instances = [], sv_serial = 1, sv_world = x, sv_executed = [], sv_called = [] \<rparr>)"

definition instance_name :: "nat \<Rightarrow> string" where
  "instance_name n = ''inst-'' @ pad6 n"

text \<open>A call on the object registered under an id.\<close>

definition on_instance :: "string \<Rightarrow> ('x, 'a) stateop \<Rightarrow> (('i, 'x) rl_server, 'a) stateop" where
  "on_instance instance_id f s = (case f (sv_world s) of
       (r, x) \<Rightarrow> (r, s\<lparr>sv_world := x, sv_called := sv_called s @ [instance_id]\<rparr>))"

definition close_all :: "('i, 'x) instance_ops \<Rightarrow> ('i, 'x) rl_server \<Rightarrow> ('i, 'x) rl_server" where
  "close_all ops s = (foldl (\<lambda>s (iid, inst). snd (on_instance iid (io_close ops inst) s)) s (sv_instances s))
     \<lparr>sv_instances := [], sv_sessions := []\<rparr>"

definition OPERATION_INSTANCE_TYPES :: "(string, string list) dict" where
  "OPERATION_INSTANCE_TYPES =
     [(OP_EMULATE_ACTIONS, [INSTANCE_TYPE_COMBAT, INSTANCE_TYPE_WHOLE_RUN])]"

section \<open>Responses\<close>

definition wrap :: "('i, 'x) rl_server \<Rightarrow> (string, json) dict \<Rightarrow> (string, json) dict \<Rightarrow> (string, json) dict" where
  "wrap s payload response =
     (let wrapped = dupdate response
        [(''schema_version'', JStr SCHEMA_VERSION),
         (''server_epoch'', JStr (sv_epoch s)),
         (''client_session_id'', jget payload ''client_session_id''),
         (''request_seq'', jget payload ''request_seq''),
         (''request_id'', jget payload ''request_id''),
         (''operation'', jget payload ''operation'')]
      in if jget payload ''instance_id'' \<noteq> JNull
         then dset ''instance_id'' (jget payload ''instance_id'') wrapped
         else wrapped)"

definition json_of_fault :: "string option \<Rightarrow> json" where
  "json_of_fault f = (case f of None \<Rightarrow> JNull | Some k \<Rightarrow> JStr k)"

definition rejection :: "string \<Rightarrow> string option \<Rightarrow> (string, json) dict" where
  "rejection error fault = [(''status'', JStr STATUS_REJECTED), (''error'', JStr error),
                            (''fault_kind'', json_of_fault fault)]"

definition rejected_response ::
  "('i, 'x) rl_server \<Rightarrow> json \<Rightarrow> string \<Rightarrow> string option \<Rightarrow> (string, json) dict res" where
  "rejected_response s raw error fault = (case raw of
       JObj payload \<Rightarrow> Inr (wrap s payload (rejection error fault))
     | v \<Rightarrow> Inl (PyExc ''AttributeError''
              ([CHR 0x27] @ type_of_json v @ [CHR 0x27] @ '' object has no attribute '' @ repr_str ''get'')))"

section \<open>Sessions\<close>

definition get_or_create_session :: "string \<Rightarrow> int \<Rightarrow> (('i, 'x) rl_server, session_ledger) stateop" where
  "get_or_create_session session_id request_seq s = (case dget (sv_sessions s) session_id of
       Some existing \<Rightarrow> (Inr existing, s)
     | None \<Rightarrow>
         if request_seq \<noteq> 1 then
           (Inl (RequestRejected (''request_seq must be 1 for a new session, got '' @ str_int request_seq)
                  (Some FAULT_SESSION_SEQUENCE_GAP)), s)
         else if sv_max_sessions s \<le> length (sv_sessions s) then
           (Inl (RequestRejected ''RL session capacity exhausted; restart RL or reuse an existing client session''
                  (Some FAULT_SESSION_CAPACITY)), s)
         else (Inr new_ledger, s\<lparr>sv_sessions := dset session_id new_ledger (sv_sessions s)\<rparr>))"

text \<open>A change of the ledger object that the session holds.\<close>

definition set_ledger :: "string \<Rightarrow> session_ledger \<Rightarrow> ('i, 'x) rl_server \<Rightarrow> ('i, 'x) rl_server" where
  "set_ledger session_id l s = s\<lparr>sv_sessions := dset session_id l (sv_sessions s)\<rparr>"

section \<open>Operations\<close>

definition dispatch_call :: "string \<Rightarrow> (string, json) dict \<Rightarrow> instance_call res" where
  "dispatch_call operation payload =
     (if operation = OP_GET_DECISION then
        sbind (subscript payload ''branch_id'') (\<lambda>b. Inr (GetDecision b))
      else if operation = OP_COMMIT_ACTION then
        sbind (subscript payload ''decision_point_id'') (\<lambda>d.
        sbind (subscript payload ''action_id'') (\<lambda>a. Inr (CommitAction d a)))
      else if operation = OP_EMULATE_ACTION then
        sbind (subscript payload ''parent_branch_id'') (\<lambda>p.
        sbind (subscript payload ''branch_id'') (\<lambda>b.
        sbind (subscript payload ''rng_id'') (\<lambda>r.
        sbind (subscript payload ''decision_point_id'') (\<lambda>d.
        sbind (subscript payload ''action_id'') (\<lambda>a.
          Inr (EmulateAction p b r d a (jget payload ''simulation_options'')))))))
      else if operation = OP_EMULATE_ACTIONS then
        sbind (subscript payload ''items'') (\<lambda>i.
          Inr (EmulateActions i (jget payload ''simulation_options'')))
      else if operation = OP_CANCEL_BRANCHES then
        sbind (subscript payload ''branch_ids'') (\<lambda>b. Inr (CancelBranches b))
      else if operation = OP_RELEASE_BRANCHES then
        sbind (subscript payload ''branch_ids'') (\<lambda>b. Inr (ReleaseBranches b))
      else if operation = OP_GET_BRANCH_STATUS then
        sbind (subscript payload ''branch_ids'') (\<lambda>b. Inr (GetBranchStatus b))
      else rejected (''unhandled operation '' @ repr_str operation))"

text \<open>\<open>_dispatch\<close> on the instance registered as \<open>instance_id\<close>.\<close>

definition dispatch ::
  "('i, 'x) instance_ops \<Rightarrow> string \<Rightarrow> 'i \<Rightarrow> string \<Rightarrow> (string, json) dict \<Rightarrow> (('i, 'x) rl_server, json) stateop" where
  "dispatch ops instance_id inst operation payload s =
     (if (case dget OPERATION_INSTANCE_TYPES operation of
            None \<Rightarrow> False | Some allowed \<Rightarrow> io_type ops inst \<notin> set allowed)
      then (rejected (''operation '' @ repr_str operation @ '' is not supported for instance_type ''
                      @ repr_str (io_type ops inst)), s)
      else case dispatch_call operation payload of
        Inl e \<Rightarrow> (Inl e, s)
      | Inr c \<Rightarrow> on_instance instance_id (io_call ops c inst) s)"

definition handle_close_instance ::
  "('i, 'x) instance_ops \<Rightarrow> string \<Rightarrow> session_ledger \<Rightarrow> string \<Rightarrow> 'i \<Rightarrow> ('i, 'x) rl_server
     \<Rightarrow> (string, json) dict \<times> ('i, 'x) rl_server" where
  "handle_close_instance ops session_id ledger instance_id inst s =
     (case on_instance instance_id (io_close ops inst) s of (ended, s1) \<Rightarrow>
      (case ended of
          Inr _ \<Rightarrow> [(''status'', JStr STATUS_COMPLETED)]
        | Inl exc \<Rightarrow> (let fault = fault_response (JObj [(''instance_id'', JStr instance_id)]) exc in
            [(''status'', JStr STATUS_FAULTED), (''error'', jget fault ''error''),
             (''fault_kind'', jget fault ''fault_kind'')]),
       set_ledger session_id (ledger\<lparr>active_instance_id := None\<rparr>)
         (s1\<lparr>sv_instances := dpop instance_id (sv_instances s1)\<rparr>)))"

text \<open>
  \<open>_handle_start_instance\<close>: the serial is drawn first, so a refused start uses it up.  A start
  that raises, or does not complete, closes the instance and removes it again.
\<close>

definition abandon_instance :: "('i, 'x) instance_ops \<Rightarrow> string \<Rightarrow> 'i \<Rightarrow> ('i, 'x) rl_server \<Rightarrow> ('i, 'x) rl_server" where
  "abandon_instance ops instance_id inst s = (case on_instance instance_id (io_close ops inst) s of
       (_, s') \<Rightarrow> s'\<lparr>sv_instances := dpop instance_id (sv_instances s')\<rparr>)"

definition start_registered ::
  "('i, 'x) instance_ops \<Rightarrow> string \<Rightarrow> 'i \<Rightarrow> (('i, 'x) rl_server, (string, json) dict) stateop" where
  "start_registered ops instance_id inst s = (case on_instance instance_id (io_start ops inst) s of
       (Inr (JObj response), s') \<Rightarrow>
         if jget response ''status'' = JStr STATUS_COMPLETED then (Inr (dset ''instance_id'' (JStr instance_id) response), s')
         else (Inl (PyExc ''TypeError'' ''start_instance_response must return a completed response''), abandon_instance ops instance_id inst s')
     | (Inr _, s') \<Rightarrow>
         (Inl (PyExc ''TypeError'' ''start_instance_response must return a completed response''), abandon_instance ops instance_id inst s')
     | (Inl e, s') \<Rightarrow> (Inl e, abandon_instance ops instance_id inst s'))"

definition handle_start_instance ::
  "('i, 'x) instance_ops \<Rightarrow> (string, json) dict \<Rightarrow> (('i, 'x) rl_server, (string, json) dict) stateop" where
  "handle_start_instance ops payload s =
     (case subscript payload ''instance_config'' of
        Inl e \<Rightarrow> (Inl e, s)
      | Inr config \<Rightarrow>
          (let instance_type = jget (json_obj config) ''instance_type'';
               instance_id = instance_name (sv_serial s);
               s1 = s\<lparr>sv_serial := Suc (sv_serial s)\<rparr>
           in if instance_type \<noteq> JStr INSTANCE_TYPE_COMBAT \<and> instance_type \<noteq> JStr INSTANCE_TYPE_WHOLE_RUN
              then (rejected (''unknown instance_config.instance_type '' @ repr_json instance_type), s1)
              else case io_construct ops (json_str instance_type) instance_id (json_obj config) (sv_world s1) of
                (Inl e, x) \<Rightarrow> (Inl e, s1\<lparr>sv_world := x\<rparr>)
              | (Inr inst, x) \<Rightarrow> start_registered ops instance_id inst
                  (s1\<lparr>sv_world := x, sv_instances := dset instance_id inst (sv_instances s1)\<rparr>)))"

definition perform_request ::
  "('i, 'x) instance_ops \<Rightarrow> string \<Rightarrow> session_ledger \<Rightarrow> (string, json) dict \<Rightarrow> (('i, 'x) rl_server, json) stateop" where
  "perform_request ops session_id ledger payload s =
     (case subscript payload ''operation'' of
        Inl e \<Rightarrow> (Inl e, s)
      | Inr op \<Rightarrow>
          (let operation = json_str op in
           if operation = OP_START_INSTANCE then
             (case active_instance_id ledger of
                Some a \<Rightarrow> (Inl (RequestRejected (''session already owns active instance '' @ repr_str a)
                                  (Some FAULT_SESSION_INSTANCE_CONFLICT)), s)
              | None \<Rightarrow> (case handle_start_instance ops payload s of
                    (Inl e, s') \<Rightarrow> (Inl e, s')
                  | (Inr response, s') \<Rightarrow>
                      (Inr (JObj response),
                       if nonempty_str (jget response ''instance_id'')
                       then set_ledger session_id
                              (ledger\<lparr>active_instance_id := Some (json_str (jget response ''instance_id''))\<rparr>) s'
                       else s')))
           else case subscript payload ''instance_id'' of
             Inl e \<Rightarrow> (Inl e, s)
           | Inr iid \<Rightarrow>
               (let instance_id = json_str iid in
                if active_instance_id ledger \<noteq> Some instance_id then
                  (Inl (RequestRejected (''instance_id '' @ repr_str instance_id @
                          '' is not owned by this client session'') (Some FAULT_SESSION_INSTANCE_CONFLICT)), s)
                else case dget (sv_instances s) instance_id of
                  None \<Rightarrow> (Inl (RequestRejected (''unknown instance_id '' @ repr_str instance_id)
                                 (Some FAULT_UNKNOWN_INSTANCE)), s)
                | Some inst \<Rightarrow>
                    if operation = OP_CLOSE_INSTANCE
                    then (case handle_close_instance ops session_id ledger instance_id inst s of
                            (r, s') \<Rightarrow> (Inr (JObj r), s'))
                    else dispatch ops instance_id inst operation payload s)))"

text \<open>\<open>_execute_new_request\<close>, with its entry in the history.\<close>

definition execute_new_request ::
  "('i, 'x) instance_ops \<Rightarrow> string \<Rightarrow> session_ledger \<Rightarrow> (string, json) dict \<Rightarrow> (('i, 'x) rl_server, json) stateop" where
  "execute_new_request ops session_id ledger payload s =
     perform_request ops session_id ledger payload
       (s\<lparr>sv_executed := sv_executed s @ [(session_id, json_int (jget payload ''request_seq''))]\<rparr>)"

definition valid_status :: "json \<Rightarrow> bool" where
  "valid_status status = (case status of JStr t \<Rightarrow> t \<in> set STATUSES | _ \<Rightarrow> False)"

text \<open>What \<open>handle_request\<close> makes of the outcome of an executed request.\<close>

definition outcome_response :: "(string, json) dict \<Rightarrow> json res \<Rightarrow> (string, json) dict" where
  "outcome_response payload outcome =
     (let response = (case outcome of
            Inr r \<Rightarrow> r
          | Inl (RequestRejected error fault) \<Rightarrow> JObj (rejection error fault)
          | Inl exc \<Rightarrow> JObj (fault_response (JObj payload) exc));
          status = (case response of JObj r \<Rightarrow> jget r ''status'' | _ \<Rightarrow> JNull)
      in case response of
           JObj r \<Rightarrow>
             if valid_status status then r
             else fault_response (JObj payload) (PyExc ''TypeError''
                    (''RL handler returned invalid response status '' @ repr_json status))
         | _ \<Rightarrow> fault_response (JObj payload) (PyExc ''TypeError''
                    (''RL handler returned invalid response status '' @ repr_json status)))"

definition complete_session :: "string \<Rightarrow> (string, json) dict \<Rightarrow> ('i, 'x) rl_server \<Rightarrow> ('i, 'x) rl_server" where
  "complete_session session_id response s = (case dget (sv_sessions s) session_id of
       None \<Rightarrow> s
     | Some l \<Rightarrow> set_ledger session_id (ledger_complete response l) s)"

definition handle_request ::
  "('i, 'x) instance_ops \<Rightarrow> (string \<Rightarrow> string) \<Rightarrow> json \<Rightarrow> (('i, 'x) rl_server, (string, json) dict) stateop" where
  "handle_request ops H raw s = (case validate_request raw of
       Inl (RequestRejected error fault) \<Rightarrow>
         (rejected_response s raw error
            (case fault of None \<Rightarrow> Some FAULT_INVALID_REQUEST
             | Some f \<Rightarrow> if f = [] then Some FAULT_INVALID_REQUEST else Some f), s)
     | Inl exc \<Rightarrow> (Inl exc, s)
     | Inr payload \<Rightarrow>
         (let session_id = json_str (jget payload ''client_session_id'');
              request_seq = json_int (jget payload ''request_seq'')
          in case get_or_create_session session_id request_seq s of
               (Inl (RequestRejected error fault), s1) \<Rightarrow> (rejected_response s1 raw error fault, s1)
             | (Inl exc, s1) \<Rightarrow> (Inl exc, s1)
             | (Inr ledger, s1) \<Rightarrow>
                 (case ledger_begin H payload ledger of
                    (Inl (RequestRejected error fault), _) \<Rightarrow> (rejected_response s1 raw error fault, s1)
                  | (Inl exc, _) \<Rightarrow> (Inl exc, s1)
                  | (Inr (Some cached), _) \<Rightarrow> (Inr cached, s1)
                  | (Inr None, ledger') \<Rightarrow>
                      (case execute_new_request ops session_id ledger' payload (set_ledger session_id ledger' s1) of
                         (outcome, s2) \<Rightarrow>
                           (let response = wrap s2 payload (outcome_response payload outcome)
                            in (Inr response, complete_session session_id response s2))))))"

text \<open>The state after a sequence of requests, of whatever sessions.\<close>

abbreviation serve :: "('i, 'x) instance_ops \<Rightarrow> (string \<Rightarrow> string) \<Rightarrow> ('i, 'x) rl_server \<Rightarrow> json list \<Rightarrow> ('i, 'x) rl_server" where
  "serve ops H \<equiv> foldl (\<lambda>s raw. snd (handle_request ops H raw s))"


definition session_seq :: "string \<Rightarrow> ('i, 'x) rl_server \<Rightarrow> int" where
  "session_seq sid s = (case dget (sv_sessions s) sid of None \<Rightarrow> 0 | Some l \<Rightarrow> last_seq l)"

definition owns_instance :: "('i, 'x) rl_server \<Rightarrow> string \<Rightarrow> string \<Rightarrow> bool" where
  "owns_instance s sid iid \<longleftrightarrow> (case dget (sv_sessions s) sid of
       None \<Rightarrow> False | Some l \<Rightarrow> active_instance_id l = Some iid)"

definition server_inv :: "('i, 'x) rl_server \<Rightarrow> bool" where
  "server_inv s \<longleftrightarrow> length (sv_sessions s) \<le> sv_max_sessions s
     \<and> (\<forall>iid. dhas (sv_instances s) iid \<longleftrightarrow> (\<exists>sid. owns_instance s sid iid))
     \<and> (\<forall>sid sid' iid. owns_instance s sid iid \<longrightarrow> owns_instance s sid' iid \<longrightarrow> sid = sid')
     \<and> (\<forall>iid. dhas (sv_instances s) iid \<longrightarrow> (\<exists>n < sv_serial s. iid = instance_name n))"

section \<open>Lemmas\<close>

lemma dset_twice [simp]: "dset k v (dset k w d) = dset k v d"
  by (induction d) (auto simp: dset_def)

lemma dhas_dset [simp]: "dhas (dset k v d) k' \<longleftrightarrow> k' = k \<or> dhas d k'"
  by (simp add: dhas_def)

lemma dhas_dpop [simp]: "dhas (dpop k d) k' \<longleftrightarrow> k' \<noteq> k \<and> dhas d k'"
  by (simp add: dhas_def)

lemma set_ledger_simps [simp]:
  "sv_sessions (set_ledger sid l s) = dset sid l (sv_sessions s)"
  "sv_instances (set_ledger sid l s) = sv_instances s"
  "sv_epoch (set_ledger sid l s) = sv_epoch s"
  "sv_max_sessions (set_ledger sid l s) = sv_max_sessions s"
  "sv_serial (set_ledger sid l s) = sv_serial s"
  "sv_world (set_ledger sid l s) = sv_world s"
  "sv_executed (set_ledger sid l s) = sv_executed s"
  "sv_called (set_ledger sid l s) = sv_called s"
  "set_ledger sid l (set_ledger sid l' s) = set_ledger sid l s"
  by (simp_all add: set_ledger_def)

lemma on_instance_eq:
  "on_instance iid f s = (fst (f (sv_world s)), s\<lparr>sv_world := snd (f (sv_world s)), sv_called := sv_called s @ [iid]\<rparr>)"
  by (simp add: on_instance_def split: prod.split)

lemma instance_name_inj [simp]: "instance_name m = instance_name n \<longleftrightarrow> m = n"
  by (simp add: instance_name_def)

lemma instance_name_nonempty [simp]: "nonempty_str (JStr (instance_name n))"
  by (simp add: instance_name_def nonempty_str_def)

lemma get_or_create_session_cases:
  obtains (existing) l where "dget (sv_sessions s) sid = Some l" "get_or_create_session sid q s = (Inr l, s)"
  | (refused) m f where "dget (sv_sessions s) sid = None"
      "get_or_create_session sid q s = (Inl (RequestRejected m f), s)"
  | (created) "dget (sv_sessions s) sid = None" "q = 1" "length (sv_sessions s) < sv_max_sessions s"
      "get_or_create_session sid q s = (Inr new_ledger, set_ledger sid new_ledger s)"
proof (cases "dget (sv_sessions s) sid")
  case None
  show ?thesis
  proof (cases "q = 1 \<and> length (sv_sessions s) < sv_max_sessions s")
    case True
    with None show ?thesis
      by (intro created) (simp_all add: get_or_create_session_def set_ledger_def)
  next
    case False
    then have "\<exists>m f. get_or_create_session sid q s = (Inl (RequestRejected m f), s)"
      using None by (auto simp: get_or_create_session_def)
    with None refused show ?thesis by blast
  qed
next
  case (Some l)
  with existing show ?thesis by (simp add: get_or_create_session_def)
qed

definition begun :: "(string \<Rightarrow> string) \<Rightarrow> (string, json) dict \<Rightarrow> session_ledger \<Rightarrow> session_ledger" where
  "begun H p l = l\<lparr>last_seq := last_seq l + 1, last_digest := Some (payload_digest H p), last_response := None\<rparr>"

lemma begun_simps [simp]:
  "last_seq (begun H p l) = last_seq l + 1"
  "last_digest (begun H p l) = Some (payload_digest H p)"
  "last_response (begun H p l) = None"
  "active_instance_id (begun H p l) = active_instance_id l"
  by (simp_all add: begun_def)

lemma ledger_begin_cases:
  obtains (refused) m f where "ledger_begin H p l = (Inl (RequestRejected m f), l)"
      "json_int (jget p ''request_seq'') \<noteq> last_seq l + 1"
  | (replay) r where "ledger_begin H p l = (Inr (Some r), l)" "last_response l = Some r"
      "json_int (jget p ''request_seq'') = last_seq l" "last_digest l = Some (payload_digest H p)"
  | (new) "ledger_begin H p l = (Inr None, begun H p l)" "json_int (jget p ''request_seq'') = last_seq l + 1"
proof (cases "json_int (jget p ''request_seq'') = last_seq l + 1")
  case True
  then show ?thesis by (intro new) (simp_all add: ledger_begin_def begun_def)
next
  case False
  show ?thesis
  proof (cases "\<exists>r. json_int (jget p ''request_seq'') = last_seq l
      \<and> last_digest l = Some (payload_digest H p) \<and> last_response l = Some r")
    case True
    then show ?thesis by (auto simp: ledger_begin_def intro: replay)
  next
    case not_replay: False
    have "\<exists>m f. ledger_begin H p l = (Inl (RequestRejected m f), l)"
      using False not_replay by (cases "last_response l") (auto simp: ledger_begin_def Let_def)
    with False refused show ?thesis by blast
  qed
qed

text \<open>
  The three outcomes of a request: refused (or it escapes) and replayed leave the state as it
  is, executed runs the operation for the next sequence number of the session.
\<close>

definition session_before :: "('i, 'x) rl_server \<Rightarrow> string \<Rightarrow> session_ledger" where
  "session_before s sid = (case dget (sv_sessions s) sid of None \<Rightarrow> new_ledger | Some l \<Rightarrow> l)"

lemma session_before_seq: "last_seq (session_before s sid) = session_seq sid s"
  by (simp add: session_before_def session_seq_def new_ledger_def split: option.split)

lemma handle_request_cases:
  obtains (unchanged) r where "handle_request ops H raw s = (r, s)"
      "\<And>resp. r = Inr resp \<Longrightarrow> (\<exists>p e f. raw = JObj p \<and> resp = wrap s p (rejection e f))
         \<or> (\<exists>p l. raw = JObj p \<and> well_formed_request p
              \<and> dget (sv_sessions s) (json_str (jget p ''client_session_id'')) = Some l
              \<and> last_response l = Some resp \<and> last_seq l = json_int (jget p ''request_seq''))"
  | (executed) p sid outcome s2 where "raw = JObj p" "well_formed_request p"
      "sid = json_str (jget p ''client_session_id'')"
      "json_int (jget p ''request_seq'') = session_seq sid s + 1"
      "dget (sv_sessions s) sid = None \<longrightarrow> length (sv_sessions s) < sv_max_sessions s"
      "execute_new_request ops sid (begun H p (session_before s sid)) p
         (set_ledger sid (begun H p (session_before s sid)) s) = (outcome, s2)"
      "handle_request ops H raw s = (Inr (wrap s2 p (outcome_response p outcome)),
         complete_session sid (wrap s2 p (outcome_response p outcome)) s2)"
proof (cases "validate_request raw")
  case (Inl e)
  then obtain m where "e = RequestRejected m None"
    using validate_request_plain [of raw] by (auto simp: plain_rejection_def)
  with Inl show ?thesis
    by (intro unchanged)
      (auto simp: handle_request_def rejected_response_def split: json.splits, blast+)
next
  case (Inr p)
  then have raw: "raw = JObj p" "well_formed_request p" by (simp_all add: validate_request_iff)
  define sid where "sid = json_str (jget p ''client_session_id'')"
  define q where "q = json_int (jget p ''request_seq'')"
  have val: "validate_request (JObj p) = Inr p" using Inr raw(1) by simp
  note defs = handle_request_def rejected_response_def val raw(1)
    sid_def [symmetric] q_def [symmetric]
  have known: thesis if l: "dget (sv_sessions s) sid = Some l"
      "get_or_create_session sid q s = (Inr l, s)" for l
  proof (cases rule: ledger_begin_cases [of H p l])
    case (refused m f)
    with l show ?thesis by (intro unchanged) (auto simp: defs Let_def)
  next
    case (replay r)
    with l raw show ?thesis
      by (intro unchanged) (auto simp: defs Let_def simp flip: sid_def q_def)
  next
    case new
    obtain outcome s2 where ex: "execute_new_request ops sid (begun H p l) p
        (set_ledger sid (begun H p l) s) = (outcome, s2)" by fastforce
    have b: "session_before s sid = l" "session_seq sid s = last_seq l"
      using l by (simp_all add: session_before_def session_seq_def)
    have q: "q = session_seq sid s + 1" using new(2) b by (simp add: q_def)
    show ?thesis
    proof (rule executed [OF raw sid_def])
      show "handle_request ops H raw s = (Inr (wrap s2 p (outcome_response p outcome)),
          complete_session sid (wrap s2 p (outcome_response p outcome)) s2)"
        using new(1) l ex by (simp add: defs Let_def)
    qed (use l ex b q in \<open>simp_all add: q_def\<close>)
  qed
  show ?thesis
  proof (cases rule: get_or_create_session_cases [of s sid q])
    case (existing l)
    then show ?thesis by (rule known)
  next
    case (refused m f)
    then show ?thesis by (intro unchanged) (auto simp: defs Let_def)
  next
    case created
    obtain outcome s2 where ex: "execute_new_request ops sid (begun H p new_ledger) p
        (set_ledger sid (begun H p new_ledger) s) = (outcome, s2)" by fastforce
    have b: "session_before s sid = new_ledger" "session_seq sid s = 0"
      using created by (simp_all add: session_before_def session_seq_def)
    have new: "ledger_begin H p new_ledger = (Inr None, begun H p new_ledger)"
      using created(2) by (simp add: ledger_begin_def begun_def new_ledger_def q_def)
    show ?thesis
    proof (rule executed [OF raw sid_def])
      show "handle_request ops H raw s = (Inr (wrap s2 p (outcome_response p outcome)),
          complete_session sid (wrap s2 p (outcome_response p outcome)) s2)"
        using new created ex by (simp add: defs Let_def)
    qed (use created ex b in \<open>simp_all add: q_def\<close>)
  qed
qed

text \<open>
  What executing an operation does to the state: it leaves the sessions alone and keeps the set
  of instances, or registers the instance it started, or removes the one it closed.
\<close>

datatype effect = KeptInstances | Started string | Closed string

definition effect_holds :: "effect \<Rightarrow> string \<Rightarrow> session_ledger \<Rightarrow> ('i, 'x) rl_server \<Rightarrow> ('i, 'x) rl_server \<Rightarrow> bool" where
  "effect_holds eff sid l s s' \<longleftrightarrow> (case eff of
       KeptInstances \<Rightarrow> sv_sessions s' = sv_sessions s
         \<and> (\<forall>i. dhas (sv_instances s') i \<longleftrightarrow> dhas (sv_instances s) i) \<and> sv_serial s \<le> sv_serial s'
     | Started iid \<Rightarrow> active_instance_id l = None \<and> iid = instance_name (sv_serial s)
         \<and> sv_sessions s' = dset sid (l\<lparr>active_instance_id := Some iid\<rparr>) (sv_sessions s)
         \<and> (\<forall>i. dhas (sv_instances s') i \<longleftrightarrow> i = iid \<or> dhas (sv_instances s) i)
         \<and> sv_serial s' = Suc (sv_serial s)
     | Closed iid \<Rightarrow> active_instance_id l = Some iid
         \<and> sv_sessions s' = dset sid (l\<lparr>active_instance_id := None\<rparr>) (sv_sessions s)
         \<and> (\<forall>i. dhas (sv_instances s') i \<longleftrightarrow> i \<noteq> iid \<and> dhas (sv_instances s) i)
         \<and> sv_serial s' = sv_serial s)"

lemma abandon_instance_simps [simp]:
  "sv_epoch (abandon_instance ops iid inst s) = sv_epoch s"
  "sv_max_sessions (abandon_instance ops iid inst s) = sv_max_sessions s"
  "sv_sessions (abandon_instance ops iid inst s) = sv_sessions s"
  "sv_serial (abandon_instance ops iid inst s) = sv_serial s"
  "sv_instances (abandon_instance ops iid inst s) = dpop iid (sv_instances s)"
  "sv_executed (abandon_instance ops iid inst s) = sv_executed s"
  "sv_called (abandon_instance ops iid inst s) = sv_called s @ [iid]"
  by (simp_all add: abandon_instance_def on_instance_eq)

lemma start_registered_keeps:
  "start_registered ops iid inst s = (r, s')
    \<Longrightarrow> sv_epoch s' = sv_epoch s \<and> sv_max_sessions s' = sv_max_sessions s \<and> sv_sessions s' = sv_sessions s
        \<and> sv_serial s' = sv_serial s \<and> sv_executed s' = sv_executed s
        \<and> (\<exists>new. sv_called s' = sv_called s @ new \<and> set new = {iid})"
  by (auto simp: start_registered_def on_instance_eq split: sum.splits if_splits json.splits)

lemma start_registered_instances:
  "start_registered ops iid inst s = (r, s')
    \<Longrightarrow> case r of
          Inl e \<Rightarrow> sv_instances s' = dpop iid (sv_instances s)
        | Inr d \<Rightarrow> sv_instances s' = sv_instances s \<and> jget d ''instance_id'' = JStr iid"
  by (auto simp: start_registered_def on_instance_eq split: sum.splits if_splits json.splits)

lemma handle_start_instance_form:
  assumes "handle_start_instance ops p s = (r, s')"
  obtains (same) e where "r = Inl e" "s' = s"
  | (refused) e x where "r = Inl e" "s' = s\<lparr>sv_serial := Suc (sv_serial s), sv_world := x\<rparr>"
  | (registered) inst x where "start_registered ops (instance_name (sv_serial s)) inst
      (s\<lparr>sv_serial := Suc (sv_serial s), sv_world := x,
         sv_instances := dset (instance_name (sv_serial s)) inst (sv_instances s)\<rparr>) = (r, s')"
proof (cases "subscript p ''instance_config''")
  case (Inl e)
  with assms show ?thesis by (intro same [of e]) (simp_all add: handle_start_instance_def)
next
  case (Inr config)
  let ?ty = "jget (json_obj config) ''instance_type''"
  show ?thesis
  proof (cases "?ty \<noteq> JStr INSTANCE_TYPE_COMBAT \<and> ?ty \<noteq> JStr INSTANCE_TYPE_WHOLE_RUN")
    case True
    with assms Inr show ?thesis
      by (intro refused [of _ "sv_world s"]) (auto simp: handle_start_instance_def rejected_def)
  next
    case False
    obtain c x where c: "io_construct ops (json_str ?ty) (instance_name (sv_serial s)) (json_obj config) (sv_world s) = (c, x)"
      by fastforce
    show ?thesis
    proof (cases c)
      case (Inl e)
      with assms \<open>subscript p ''instance_config'' = Inr config\<close> False c show ?thesis
        by (intro refused [of e x]) (auto simp: handle_start_instance_def)
    next
      case inst: (Inr inst)
      with assms \<open>subscript p ''instance_config'' = Inr config\<close> False c show ?thesis
        by (intro registered [of inst x]) (auto simp: handle_start_instance_def Let_def)
    qed
  qed
qed

lemma handle_start_instance_keeps:
  assumes "handle_start_instance ops p s = (r, s')"
  shows "sv_epoch s' = sv_epoch s \<and> sv_max_sessions s' = sv_max_sessions s \<and> sv_sessions s' = sv_sessions s
        \<and> sv_serial s \<le> sv_serial s' \<and> sv_executed s' = sv_executed s
        \<and> (\<exists>new. sv_called s' = sv_called s @ new \<and> set new \<subseteq> {instance_name (sv_serial s)})"
  using assms
proof (cases rule: handle_start_instance_form)
  case (registered inst x)
  from start_registered_keeps [OF this] show ?thesis by auto
qed auto

lemma handle_start_instance_cases:
  assumes fresh: "\<not> dhas (sv_instances s) (instance_name (sv_serial s))"
    and "handle_start_instance ops p s = (r, s')"
  shows "case r of
        Inl e \<Rightarrow> (\<forall>i. dget (sv_instances s') i = dget (sv_instances s) i)
      | Inr d \<Rightarrow> sv_serial s' = Suc (sv_serial s) \<and> jget d ''instance_id'' = JStr (instance_name (sv_serial s))
          \<and> (\<exists>inst. sv_instances s' = dset (instance_name (sv_serial s)) inst (sv_instances s))"
  using assms(2)
proof (cases rule: handle_start_instance_form)
  case (registered inst x)
  from start_registered_keeps [OF this] start_registered_instances [OF this] fresh show ?thesis
    by (cases r) (auto simp: dhas_def)
qed auto

text \<open>The operation, the instance id and the instance of a request that reaches an instance.\<close>

lemma perform_cases:
  assumes "perform_request ops sid l p s = (outcome, s')"
  obtains (unchanged) "s' = s"
  | (start) r where "active_instance_id l = None" "handle_start_instance ops p s = (r, s')" "\<exists>e. r = Inl e"
  | (started) d s1 where "active_instance_id l = None" "handle_start_instance ops p s = (Inr d, s1)"
      "s' = (if nonempty_str (jget d ''instance_id'')
             then set_ledger sid (l\<lparr>active_instance_id := Some (json_str (jget d ''instance_id''))\<rparr>) s1 else s1)"
  | (close) iid inst where "active_instance_id l = Some iid" "dget (sv_instances s) iid = Some inst"
      "s' = snd (handle_close_instance ops sid l iid inst s)"
  | (call) iid inst c where "active_instance_id l = Some iid" "dget (sv_instances s) iid = Some inst"
      "s' = snd (on_instance iid (io_call ops c inst) s)"
proof (cases "subscript p ''operation''")
  case (Inl e)
  with assms show ?thesis by (intro unchanged) (simp add: perform_request_def)
next
  case (Inr op)
  show ?thesis
  proof (cases "json_str op = OP_START_INSTANCE")
    case True
    with assms Inr show ?thesis
      by (auto simp: perform_request_def split: option.splits prod.splits sum.splits
          intro: unchanged start started)
  next
    case False
    with assms Inr show ?thesis
      by (auto simp: perform_request_def dispatch_def Let_def
          split: option.splits prod.splits sum.splits if_splits intro: unchanged close)
        (metis call snd_conv)+
  qed
qed

lemma handle_close_instance_state:
  "snd (handle_close_instance ops sid l iid inst s)
     = set_ledger sid (l\<lparr>active_instance_id := None\<rparr>)
         (s\<lparr>sv_world := snd (io_close ops inst (sv_world s)), sv_called := sv_called s @ [iid],
            sv_instances := dpop iid (sv_instances s)\<rparr>)"
  by (simp add: handle_close_instance_def on_instance_eq)

text \<open>Executing a request calls no instance but the session's own or the one it starts.\<close>

lemma perform_called:
  assumes "perform_request ops sid l p s = (outcome, s')"
  shows "sv_executed s' = sv_executed s
    \<and> (\<exists>new. sv_called s' = sv_called s @ new
          \<and> (\<forall>i \<in> set new. i = instance_name (sv_serial s) \<or> active_instance_id l = Some i))"
  using assms
proof (cases rule: perform_cases)
  case (start r)
  with handle_start_instance_keeps [OF start(2)] show ?thesis by auto
next
  case (started d s1)
  with handle_start_instance_keeps [OF started(2)] show ?thesis by auto
qed (auto simp: handle_close_instance_state on_instance_eq)

lemma effect_holdsI:
  "sv_sessions s' = sv_sessions s \<Longrightarrow> (\<And>i. dhas (sv_instances s') i = dhas (sv_instances s) i)
     \<Longrightarrow> sv_serial s \<le> sv_serial s' \<Longrightarrow> effect_holds KeptInstances sid l s s'"
  "active_instance_id l = Some iid \<Longrightarrow>
     effect_holds (Closed iid) sid l s (snd (handle_close_instance ops sid l iid inst s))"
  by (auto simp: effect_holds_def handle_close_instance_state)

lemma perform_effect:
  assumes ex: "perform_request ops sid l p s = (outcome, s')"
    and fresh: "\<not> dhas (sv_instances s) (instance_name (sv_serial s))"
  shows "sv_epoch s' = sv_epoch s \<and> sv_max_sessions s' = sv_max_sessions s
    \<and> (\<exists>eff. effect_holds eff sid l s s')
    \<and> (\<forall>i. i \<noteq> instance_name (sv_serial s) \<longrightarrow> active_instance_id l \<noteq> Some i
          \<longrightarrow> dget (sv_instances s') i = dget (sv_instances s) i)"
  using ex
proof (cases rule: perform_cases)
  case unchanged
  then show ?thesis by (auto intro!: exI effect_holdsI)
next
  case (start r)
  with handle_start_instance_cases [OF fresh start(2)] handle_start_instance_keeps [OF start(2)] show ?thesis
    by (auto simp: dhas_def intro!: exI effect_holdsI)
next
  case (started d s1)
  from handle_start_instance_cases [OF fresh started(2)] handle_start_instance_keeps [OF started(2)] obtain inst where
    s1: "sv_epoch s1 = sv_epoch s" "sv_max_sessions s1 = sv_max_sessions s" "sv_sessions s1 = sv_sessions s"
      "sv_serial s1 = Suc (sv_serial s)" "jget d ''instance_id'' = JStr (instance_name (sv_serial s))"
      "sv_instances s1 = dset (instance_name (sv_serial s)) inst (sv_instances s)"
    by auto
  have "effect_holds (Started (instance_name (sv_serial s))) sid l s s'"
    using s1 started by (simp add: effect_holds_def)
  with s1 started show ?thesis by auto
next
  case (close iid inst)
  with effect_holdsI(2) [where l = l and iid = iid and s = s and ops = ops and inst = inst and sid = sid]
  show ?thesis by (auto simp: handle_close_instance_state)
next
  case (call iid inst c)
  then have "effect_holds KeptInstances sid l s s'" by (auto simp: effect_holds_def on_instance_eq)
  with call show ?thesis by (auto simp: on_instance_eq)
qed

lemma perform_sessions:
  assumes "perform_request ops sid l p s = (outcome, s')"
  shows "sv_epoch s' = sv_epoch s \<and> sv_serial s \<le> sv_serial s'
    \<and> (sv_sessions s' = sv_sessions s \<or> (\<exists>a. sv_sessions s' = dset sid (l\<lparr>active_instance_id := a\<rparr>) (sv_sessions s)))"
  using assms
proof (cases rule: perform_cases)
  case (start r)
  then show ?thesis using handle_start_instance_keeps [OF start(2)] by simp
next
  case (started d s1)
  then show ?thesis using handle_start_instance_keeps [OF started(2)] by auto
qed (auto simp: handle_close_instance_state on_instance_eq)

text \<open>The same of \<open>execute_new_request\<close>, which adds its entry to the history.\<close>

lemma effect_holds_executed [simp]:
  "effect_holds eff sid l (s\<lparr>sv_executed := x\<rparr>) s' = effect_holds eff sid l s s'"
  by (simp add: effect_holds_def split: effect.split)

lemma execute_effect:
  assumes "execute_new_request ops sid l p s = (outcome, s')"
    and "\<not> dhas (sv_instances s) (instance_name (sv_serial s))"
  shows "sv_epoch s' = sv_epoch s \<and> sv_max_sessions s' = sv_max_sessions s
    \<and> (\<exists>eff. effect_holds eff sid l s s')
    \<and> (\<forall>i. i \<noteq> instance_name (sv_serial s) \<longrightarrow> active_instance_id l \<noteq> Some i
          \<longrightarrow> dget (sv_instances s') i = dget (sv_instances s) i)"
  using perform_effect [OF assms(1) [unfolded execute_new_request_def]] assms(2) by simp

lemma execute_sessions:
  assumes "execute_new_request ops sid l p s = (outcome, s')"
  shows "sv_epoch s' = sv_epoch s \<and> sv_serial s \<le> sv_serial s'
    \<and> (sv_sessions s' = sv_sessions s \<or> (\<exists>a. sv_sessions s' = dset sid (l\<lparr>active_instance_id := a\<rparr>) (sv_sessions s)))"
  using perform_sessions [OF assms [unfolded execute_new_request_def]] by simp

lemma execute_history:
  assumes "execute_new_request ops sid l p s = (outcome, s')"
  shows "sv_executed s' = sv_executed s @ [(sid, json_int (jget p ''request_seq''))]
    \<and> (\<exists>new. sv_called s' = sv_called s @ new
          \<and> (\<forall>i \<in> set new. i = instance_name (sv_serial s) \<or> active_instance_id l = Some i))"
  using perform_called [OF assms [unfolded execute_new_request_def]] by simp

lemma complete_session_simps [simp]:
  "sv_executed (complete_session sid r s) = sv_executed s"
  "sv_called (complete_session sid r s) = sv_called s"
  "sv_instances (complete_session sid r s) = sv_instances s"
  by (simp_all add: complete_session_def split: option.split)

text \<open>The session after an executed request: one sequence number on, with its digest and response.\<close>

lemma executed_session:
  assumes "execute_new_request ops sid (begun H p l) p (set_ledger sid (begun H p l) s) = (outcome, s2)"
  obtains a where
    "dget (sv_sessions (complete_session sid r s2)) sid =
       Some ((begun H p l)\<lparr>active_instance_id := a, last_response := Some r\<rparr>)"
    "\<And>sid'. sid' \<noteq> sid \<Longrightarrow> dget (sv_sessions (complete_session sid r s2)) sid' = dget (sv_sessions s) sid'"
    "sv_epoch s2 = sv_epoch s"
proof -
  have "sv_epoch s2 = sv_epoch s \<and> (\<exists>a. sv_sessions s2 = dset sid ((begun H p l)\<lparr>active_instance_id := a\<rparr>) (sv_sessions s))"
    using execute_sessions [OF assms] by (auto simp: begun_def intro: exI [of _ "active_instance_id l"])
  then obtain a where a: "sv_epoch s2 = sv_epoch s"
      "sv_sessions s2 = dset sid ((begun H p l)\<lparr>active_instance_id := a\<rparr>) (sv_sessions s)" by blast
  show ?thesis
    by (rule that [of a]) (simp_all add: complete_session_def a ledger_complete_def)
qed

lemma retry_lemma:
  "handle_request ops H raw (snd (handle_request ops H raw s)) = handle_request ops H raw s"
proof (cases rule: handle_request_cases [of ops H raw s])
  case (unchanged r)
  then show ?thesis by simp
next
  case (executed p sid outcome s2)
  let ?r = "wrap s2 p (outcome_response p outcome)" and ?l = "session_before s sid"
  let ?s = "complete_session sid ?r s2"
  obtain a where l: "dget (sv_sessions ?s) sid =
       Some ((begun H p ?l)\<lparr>active_instance_id := a, last_response := Some ?r\<rparr>)"
    using executed_session [OF executed(6), of ?r] by blast
  have val: "validate_request (JObj p) = Inr p"
    using executed(2) by (simp add: validate_request_iff)
  have "handle_request ops H (JObj p) ?s = (Inr ?r, ?s)"
    using l executed(4)
    by (simp add: handle_request_def val executed(3) [symmetric] get_or_create_session_def
        ledger_begin_def session_before_seq)
  with executed(1,7) show ?thesis by simp
qed

text \<open>A request leaves the history and the session's number alone, or it adds the session's next number.\<close>

lemma session_seq_step:
  "(sv_executed (snd (handle_request ops H raw s)) = sv_executed s
      \<and> session_seq sid (snd (handle_request ops H raw s)) = session_seq sid s)
   \<or> (\<exists>sid' q. sv_executed (snd (handle_request ops H raw s)) = sv_executed s @ [(sid', q)]
      \<and> (if sid' = sid then q = session_seq sid s + 1
           \<and> session_seq sid (snd (handle_request ops H raw s)) = session_seq sid s + 1
         else session_seq sid (snd (handle_request ops H raw s)) = session_seq sid s))"
proof (cases rule: handle_request_cases [of ops H raw s])
  case (unchanged r)
  then show ?thesis by simp
next
  case (executed p sid' outcome s2)
  let ?r = "wrap s2 p (outcome_response p outcome)"
  obtain a where a: "dget (sv_sessions (complete_session sid' ?r s2)) sid' =
      Some ((begun H p (session_before s sid'))\<lparr>active_instance_id := a, last_response := Some ?r\<rparr>)"
    "\<And>i. i \<noteq> sid' \<Longrightarrow> dget (sv_sessions (complete_session sid' ?r s2)) i = dget (sv_sessions s) i"
    using executed_session [OF executed(6), of ?r] by blast
  have "session_seq sid' (complete_session sid' ?r s2) = session_seq sid' s + 1"
    using a(1) by (simp add: session_seq_def [of _ "complete_session sid' ?r s2"] session_before_seq)
  moreover have "session_seq sid (complete_session sid' ?r s2) = session_seq sid s" if "sid \<noteq> sid'"
    using a(2) [OF that] by (simp add: session_seq_def)
  ultimately show ?thesis using executed(4,7) execute_history [OF executed(6)] by auto
qed

lemma session_seq_mono: "session_seq sid s \<le> session_seq sid (serve ops H s raws)"
proof (induction raws arbitrary: s)
  case (Cons raw raws)
  have "session_seq sid s \<le> session_seq sid (snd (handle_request ops H raw s))"
    using session_seq_step [of ops H raw s sid] by (auto split: if_splits)
  with Cons [of "snd (handle_request ops H raw s)"] show ?case by simp
qed simp

lemma executions_of_session:
  "\<exists>new. sv_executed (serve ops H s raws) = sv_executed s @ new
     \<and> map snd (filter (\<lambda>x. fst x = sid) new)
         = [session_seq sid s + 1 .. session_seq sid (serve ops H s raws)]"
proof (induction raws arbitrary: s)
  case (Cons raw raws)
  let ?s = "snd (handle_request ops H raw s)"
  have mono: "session_seq sid ?s \<le> session_seq sid (serve ops H ?s raws)" by (rule session_seq_mono)
  obtain new where new: "sv_executed (serve ops H ?s raws) = sv_executed ?s @ new"
      "map snd (filter (\<lambda>x. fst x = sid) new) = [session_seq sid ?s + 1 .. session_seq sid (serve ops H ?s raws)]"
    using Cons.IH [of ?s] by blast
  from session_seq_step [of ops H raw s sid] show ?case
  proof (elim disjE exE conjE)
    assume "sv_executed ?s = sv_executed s" "session_seq sid ?s = session_seq sid s"
    with new show ?thesis by (intro exI [of _ new]) simp
  next
    fix sid' q
    assume "sv_executed ?s = sv_executed s @ [(sid', q)]"
      "if sid' = sid then q = session_seq sid s + 1 \<and> session_seq sid ?s = session_seq sid s + 1
       else session_seq sid ?s = session_seq sid s"
    with new mono show ?thesis
      by (intro exI [of _ "(sid', q) # new"]) (simp add: upto_rec1 split: if_splits)
  qed
qed simp

lemma owns_instance_iff:
  "owns_instance s sid iid \<longleftrightarrow> (\<exists>l. dget (sv_sessions s) sid = Some l \<and> active_instance_id l = Some iid)"
  by (simp add: owns_instance_def split: option.split)

lemma owns_set_ledger:
  "owns_instance (set_ledger sid l s) sid' iid \<longleftrightarrow>
     (if sid' = sid then active_instance_id l = Some iid else owns_instance s sid' iid)"
  by (auto simp: owns_instance_iff)

lemma owns_cong: "sv_sessions s = sv_sessions t \<Longrightarrow> owns_instance s = owns_instance t"
  by (intro ext) (simp add: owns_instance_iff)

lemma server_inv_fresh: "server_inv s \<Longrightarrow> \<not> dhas (sv_instances s) (instance_name (sv_serial s))"
  unfolding server_inv_def by (metis instance_name_inj less_irrefl)

text \<open>A ledger with the same active instance as before takes the place of the old one.\<close>

lemma server_inv_set_ledger:
  assumes "server_inv s"
    and "\<And>iid. active_instance_id l = Some iid \<longleftrightarrow> owns_instance s sid iid"
    and "dget (sv_sessions s) sid = None \<longrightarrow> length (sv_sessions s) < sv_max_sessions s"
  shows "server_inv (set_ledger sid l s)"
proof -
  have "owns_instance (set_ledger sid l s) = owns_instance s"
    using assms(2) by (intro ext) (auto simp: owns_set_ledger)
  moreover have "length (dset sid l (sv_sessions s)) \<le> sv_max_sessions s"
    using assms(1,3) by (auto simp: length_dset server_inv_def dget_None_iff)
  ultimately show ?thesis using assms(1) by (simp add: server_inv_def)
qed

lemma server_inv_effect:
  assumes inv: "server_inv s" and l: "dget (sv_sessions s) sid = Some l"
    and eff: "effect_holds eff sid l s s'" and max: "sv_max_sessions s' = sv_max_sessions s"
  shows "server_inv s'"
proof (cases eff)
  case KeptInstances
  with eff have e: "sv_sessions s' = sv_sessions s"
      "\<And>i. dhas (sv_instances s') i = dhas (sv_instances s) i" "sv_serial s \<le> sv_serial s'"
    by (simp_all add: effect_holds_def)
  from e(1) have owns: "owns_instance s' = owns_instance s" by (rule owns_cong)
  have "\<exists>n < sv_serial s'. iid = instance_name n" if "dhas (sv_instances s) iid" for iid
    using inv that e(3) unfolding server_inv_def by (meson less_le_trans)
  with inv max e owns show ?thesis by (simp add: server_inv_def)
next
  case (Started iid)
  have len: "length (dset sid x (sv_sessions s)) = length (sv_sessions s)" for x
    using l by (metis length_dset dget_iff_dkeys option.distinct(1))
  have "owns_instance s' = owns_instance (set_ledger sid (l\<lparr>active_instance_id := Some iid\<rparr>) s)"
    using eff Started by (intro owns_cong) (simp add: effect_holds_def)
  then have owns: "owns_instance s' i j \<longleftrightarrow> (if i = sid then j = iid else owns_instance s i j)" for i j
    by (auto simp: owns_set_ledger)
  have none: "\<not> owns_instance s sid j" for j
    using eff Started l by (simp add: effect_holds_def owns_instance_iff)
  have new: "\<not> owns_instance s i iid" for i
    using server_inv_fresh [OF inv] inv eff Started by (auto simp: effect_holds_def server_inv_def)
  show ?thesis
    using inv eff Started max owns none new len
    by (auto simp: effect_holds_def server_inv_def less_Suc_eq split: if_splits) (metis none)+
next
  case (Closed iid)
  have len: "length (dset sid x (sv_sessions s)) = length (sv_sessions s)" for x
    using l by (metis length_dset dget_iff_dkeys option.distinct(1))
  have "owns_instance s' = owns_instance (set_ledger sid (l\<lparr>active_instance_id := None\<rparr>) s)"
    using eff Closed by (intro owns_cong) (simp add: effect_holds_def)
  then have owns: "owns_instance s' i j \<longleftrightarrow> i \<noteq> sid \<and> owns_instance s i j" for i j
    by (auto simp: owns_set_ledger)
  have mine: "owns_instance s sid j \<longleftrightarrow> j = iid" for j
    using eff Closed l by (auto simp: effect_holds_def owns_instance_iff)
  show ?thesis
    using inv eff Closed max owns mine len
    by (auto simp: effect_holds_def server_inv_def) (metis mine)+
qed

lemma server_inv_step:
  assumes inv: "server_inv s"
  shows "server_inv (snd (handle_request ops H raw s))"
proof (cases rule: handle_request_cases [of ops H raw s])
  case (unchanged r)
  with inv show ?thesis by simp
next
  case (executed p sid outcome s2)
  let ?l = "begun H p (session_before s sid)" and ?r = "wrap s2 p (outcome_response p outcome)"
  let ?s = "set_ledger sid ?l s"
  have "active_instance_id ?l = Some iid \<longleftrightarrow> owns_instance s sid iid" for iid
    by (auto simp: session_before_def owns_instance_iff new_ledger_def split: option.splits)
  with inv have inv1: "server_inv ?s" using executed(5) by (rule server_inv_set_ledger)
  from execute_effect [OF executed(6)] server_inv_fresh [OF inv1] obtain eff where
    eff: "effect_holds eff sid ?l ?s s2" "sv_max_sessions s2 = sv_max_sessions ?s" by blast
  have inv2: "server_inv s2" using inv1 _ eff by (rule server_inv_effect) simp
  obtain l2 where l2: "dget (sv_sessions s2) sid = Some l2"
    using execute_sessions [OF executed(6)] by auto
  have "server_inv (set_ledger sid (ledger_complete ?r l2) s2)"
    using inv2 _ _ by (rule server_inv_set_ledger) (use l2 in \<open>simp_all add: ledger_complete_def owns_instance_iff\<close>)
  with executed(7) l2 show ?thesis by (simp add: complete_session_def)
qed

lemma server_inv_serve: "server_inv s \<Longrightarrow> server_inv (serve ops H s raws)"
  by (induction raws arbitrary: s) (simp_all add: server_inv_step)

lemma server_inv_init: "init_server epoch n x = Inr s \<Longrightarrow> server_inv s"
  by (auto simp: init_server_def server_inv_def owns_instance_iff dhas_def split: if_splits)

text \<open>The instance a request registers, as an issued identifier.\<close>

definition started_instance ::
  "('i, 'x) instance_ops \<Rightarrow> (string \<Rightarrow> string) \<Rightarrow> ('i, 'x) rl_server \<Rightarrow> json \<Rightarrow> string option \<times> ('i, 'x) rl_server" where
  "started_instance ops H s raw =
     (let s' = snd (handle_request ops H raw s); i = instance_name (sv_serial s)
      in (if sv_serial s < sv_serial s' \<and> dhas (sv_instances s') i then Some i else None, s'))"

lemma serial_step: "sv_serial s \<le> sv_serial (snd (handle_request ops H raw s))"
proof (cases rule: handle_request_cases [of ops H raw s])
  case (unchanged r)
  then show ?thesis by simp
next
  case (executed p sid outcome s2)
  with execute_sessions [OF executed(6)] show ?thesis
    by (simp add: complete_session_def split: option.split)
qed

interpretation instance_ids: id_issuer "started_instance ops H" sv_serial "\<lambda>n (u :: unit). instance_name n"
  for ops :: "('i, 'x) instance_ops" and H
  by unfold_locales (auto simp: started_instance_def Let_def serial_step split: if_splits)

text \<open>The stored response of a session answers its latest request.\<close>

definition responses_inv :: "('i, 'x) rl_server \<Rightarrow> bool" where
  "responses_inv s \<longleftrightarrow> (\<forall>sid l r. dget (sv_sessions s) sid = Some l \<longrightarrow> last_response l = Some r \<longrightarrow>
       jget r ''client_session_id'' = JStr sid \<and> jget r ''request_seq'' = JInt (last_seq l)
     \<and> jget r ''request_id'' = JStr (request_id_for sid (last_seq l))
     \<and> jget r ''schema_version'' = JStr SCHEMA_VERSION \<and> jget r ''server_epoch'' = JStr (sv_epoch s))"

lemma wrap_identity:
  "jget (wrap s p r) ''client_session_id'' = jget p ''client_session_id''"
  "jget (wrap s p r) ''request_seq'' = jget p ''request_seq''"
  "jget (wrap s p r) ''request_id'' = jget p ''request_id''"
  "jget (wrap s p r) ''operation'' = jget p ''operation''"
  "jget (wrap s p r) ''schema_version'' = JStr SCHEMA_VERSION"
  "jget (wrap s p r) ''server_epoch'' = JStr (sv_epoch s)"
  by (simp_all add: wrap_def Let_def)

lemma well_formed_identity:
  assumes "well_formed_request p"
  obtains sid q where "jget p ''client_session_id'' = JStr sid" "jget p ''request_seq'' = JInt q"
    "jget p ''request_id'' = JStr (request_id_for sid q)"
proof -
  from assms obtain sid q where "dget p ''client_session_id'' = Some (JStr sid)"
      "dget p ''request_seq'' = Some (JInt q)" "dget p ''request_id'' = Some (JStr (request_id_for sid q))"
    unfolding well_formed_request_def by blast
  then show ?thesis by (intro that) (simp_all add: jget_def)
qed

lemma responses_inv_step:
  assumes "responses_inv s"
  shows "responses_inv (snd (handle_request ops H raw s))
    \<and> sv_epoch (snd (handle_request ops H raw s)) = sv_epoch s"
proof (cases rule: handle_request_cases [of ops H raw s])
  case (unchanged r)
  with assms show ?thesis by simp
next
  case (executed p sid outcome s2)
  let ?r = "wrap s2 p (outcome_response p outcome)"
  let ?s = "complete_session sid ?r s2"
  obtain a where a: "dget (sv_sessions ?s) sid =
      Some ((begun H p (session_before s sid))\<lparr>active_instance_id := a, last_response := Some ?r\<rparr>)"
    "\<And>i. i \<noteq> sid \<Longrightarrow> dget (sv_sessions ?s) i = dget (sv_sessions s) i" "sv_epoch s2 = sv_epoch s"
    using executed_session [OF executed(6), of ?r] by blast
  have e: "sv_epoch ?s = sv_epoch s" using a(3) by (simp add: complete_session_def split: option.split)
  have "responses_inv ?s"
    unfolding responses_inv_def
  proof (intro allI impI)
    fix i l r
    assume l: "dget (sv_sessions ?s) i = Some l" and r: "last_response l = Some r"
    show "jget r ''client_session_id'' = JStr i \<and> jget r ''request_seq'' = JInt (last_seq l)
      \<and> jget r ''request_id'' = JStr (request_id_for i (last_seq l))
      \<and> jget r ''schema_version'' = JStr SCHEMA_VERSION \<and> jget r ''server_epoch'' = JStr (sv_epoch ?s)"
    proof (cases "i = sid")
      case True
      with l r a(1) have "r = ?r" "last_seq l = json_int (jget p ''request_seq'')"
        using executed(4) by (auto simp: session_before_seq)
      moreover obtain sid' q where "jget p ''client_session_id'' = JStr sid'" "jget p ''request_seq'' = JInt q"
          "jget p ''request_id'' = JStr (request_id_for sid' q)"
        using well_formed_identity [OF executed(2)] by blast
      ultimately show ?thesis using True e a(3) executed(3) by (simp add: wrap_identity)
    next
      case False
      with l r a(2) e assms show ?thesis by (simp add: responses_inv_def)
    qed
  qed
  with e executed(7) show ?thesis by simp
qed

lemma responses_inv_serve:
  "responses_inv s \<Longrightarrow> responses_inv (serve ops H s raws) \<and> sv_epoch (serve ops H s raws) = sv_epoch s"
  by (induction raws arbitrary: s) (simp_all add: responses_inv_step)

lemma responses_inv_init: "init_server epoch n x = Inr s \<Longrightarrow> responses_inv s \<and> sv_epoch s = epoch"
  by (auto simp: init_server_def responses_inv_def split: if_splits)

lemma response_identity:
  assumes inv: "responses_inv s" and resp: "fst (handle_request ops H (JObj p) s) = Inr r"
  shows "jget r ''schema_version'' = JStr SCHEMA_VERSION \<and> jget r ''server_epoch'' = JStr (sv_epoch s)
    \<and> jget r ''client_session_id'' = jget p ''client_session_id''
    \<and> jget r ''request_seq'' = jget p ''request_seq'' \<and> jget r ''request_id'' = jget p ''request_id''"
proof (cases rule: handle_request_cases [of ops H "JObj p" s])
  case (unchanged x)
  with resp have "x = Inr r" by simp
  from unchanged(2) [OF this] show ?thesis
  proof
    assume "\<exists>p' e f. JObj p = JObj p' \<and> r = wrap s p' (rejection e f)"
    then show ?thesis by (auto simp: wrap_identity)
  next
    assume "\<exists>p' l. JObj p = JObj p' \<and> well_formed_request p'
        \<and> dget (sv_sessions s) (json_str (jget p' ''client_session_id'')) = Some l
        \<and> last_response l = Some r \<and> last_seq l = json_int (jget p' ''request_seq'')"
    then obtain l where "well_formed_request p" "last_response l = Some r"
        "dget (sv_sessions s) (json_str (jget p ''client_session_id'')) = Some l"
        "last_seq l = json_int (jget p ''request_seq'')" by blast
    moreover from this obtain sid q where "jget p ''client_session_id'' = JStr sid"
        "jget p ''request_seq'' = JInt q" "jget p ''request_id'' = JStr (request_id_for sid q)"
      using well_formed_identity by blast
    ultimately show ?thesis using inv by (simp add: responses_inv_def)
  qed
next
  case (executed p' sid outcome s2)
  with resp execute_sessions [OF executed(6)] show ?thesis by (auto simp: wrap_identity)
qed

lemma isolation_lemma:
  assumes inv: "server_inv s" and own: "owns_instance s sid iid"
    and other: "json_str (jget p ''client_session_id'') \<noteq> sid"
  shows "dget (sv_instances (snd (handle_request ops H (JObj p) s))) iid = dget (sv_instances s) iid
    \<and> owns_instance (snd (handle_request ops H (JObj p) s)) sid iid
    \<and> (\<exists>new. sv_called (snd (handle_request ops H (JObj p) s)) = sv_called s @ new \<and> iid \<notin> set new)"
proof (cases rule: handle_request_cases [of ops H "JObj p" s])
  case (unchanged r)
  with own show ?thesis by simp
next
  case (executed p' sid' outcome s2)
  let ?l = "begun H p' (session_before s sid')"
  let ?s = "set_ledger sid' ?l s"
  have ne: "sid \<noteq> sid'" using executed(1,3) other by simp
  have has: "dhas (sv_instances s) iid" using inv own unfolding server_inv_def by blast
  have fresh: "\<not> dhas (sv_instances ?s) (instance_name (sv_serial ?s))"
    using server_inv_fresh [OF inv] by simp
  have foreign: "active_instance_id ?l \<noteq> Some iid"
  proof
    assume "active_instance_id ?l = Some iid"
    then have "owns_instance s sid' iid"
      by (auto simp: session_before_def owns_instance_iff new_ledger_def split: option.splits)
    with inv own ne show False unfolding server_inv_def by blast
  qed
  have old: "iid \<noteq> instance_name (sv_serial ?s)" using has fresh by auto
  with foreign have same: "dget (sv_instances s2) iid = dget (sv_instances s) iid"
    using execute_effect [OF executed(6) fresh] by simp
  obtain new where "sv_called s2 = sv_called s @ new" "iid \<notin> set new"
    using execute_history [OF executed(6)] foreign old by auto
  then have called: "\<exists>new. sv_called (complete_session sid' (wrap s2 p' (outcome_response p' outcome)) s2)
      = sv_called s @ new \<and> iid \<notin> set new" by simp
  have "dget (sv_sessions s2) sid = dget (sv_sessions s) sid"
    using execute_sessions [OF executed(6)] ne by auto
  with own ne have "owns_instance (complete_session sid' (wrap s2 p' (outcome_response p' outcome)) s2) sid iid"
    by (auto simp: complete_session_def owns_instance_iff split: option.splits)
  with same called executed(7) show ?thesis by simp
qed

lemma dispatch_call_total:
  assumes "well_formed_request p" "op = json_str (jget p ''operation'')"
    and "op \<noteq> OP_START_INSTANCE" "op \<noteq> OP_CLOSE_INSTANCE"
  shows "\<exists>c. dispatch_call op p = Inr c"
proof -
  from assms obtain op' where "dget p ''operation'' = Some (JStr op')" "op' \<in> set OPERATIONS"
      "well_formed_operation op' p" unfolding well_formed_request_def by blast
  with assms have "op \<in> set OPERATIONS" "well_formed_operation op p" by (simp_all add: jget_def)
  with assms(3,4) show ?thesis
    unfolding OPERATIONS_cases
    by (elim disjE) (auto simp: dispatch_call_def subscript_def well_formed_operation_def str_field_def
        int_field_def well_formed_items_def)
qed

text \<open>Instances of a concrete game that counts the calls of all of them, for the examples.\<close>

definition counting_instance :: "(string, nat) instance_ops" where
  "counting_instance =
     \<lparr> io_construct = \<lambda>ty iid config n. (Inr iid, n),
       io_start = \<lambda>i n. (Inr (JObj [(''status'', JStr STATUS_COMPLETED)]), n),
       io_call = \<lambda>c i n. (Inr (JObj [(''status'', JStr STATUS_COMPLETED), (''operation'', JStr ''spoofed'')]), Suc n),
       io_close = \<lambda>i n. (Inr (), n),
       io_type = \<lambda>i. INSTANCE_TYPE_COMBAT \<rparr>"

definition example_server :: "(string, nat) rl_server" where
  "example_server = \<lparr> sv_epoch = ''epoch'', sv_max_sessions = 2, sv_sessions = [], sv_instances = [], sv_serial = 1,
                      sv_world = 0, sv_executed = [], sv_called = [] \<rparr>"

definition start_request :: "string \<Rightarrow> json" where
  "start_request sid = JObj
     [(''schema_version'', JStr SCHEMA_VERSION), (''client_session_id'', JStr sid), (''request_seq'', JInt 1),
      (''request_id'', JStr (request_id_for sid 1)), (''operation'', JStr OP_START_INSTANCE),
      (''instance_config'', JObj [(''instance_type'', JStr INSTANCE_TYPE_COMBAT)])]"

lemma example_server_init: "init_server ''epoch'' 2 0 = Inr example_server"
  by (simp add: init_server_def example_server_def)

section \<open>Properties\<close>

text \<open>
  C5.  Retrying is safe: sending any payload a second time returns the very response of the
  first time and changes nothing.  An operation is thus executed at most once, whatever it
  returned or raised, and refused payloads are refused again.
\<close>

theorem retry_replays_response:
  "handle_request ops H raw (snd (handle_request ops H raw s)) = handle_request ops H raw s"
  by (rule retry_lemma)

text \<open>
  C6.  Strict order: whatever payloads arrive, in whatever interleaving of sessions, the
  requests given to \<open>_execute_new_request\<close> for a session carry the consecutive sequence numbers that
  follow its last one, each exactly once.  A handler that executed a replayed request again, or
  one out of order, would record it.
\<close>

theorem sessions_execute_in_order:
  "\<exists>new. sv_executed (serve ops H s raws) = sv_executed s @ new
     \<and> map snd (filter (\<lambda>x. fst x = sid) new)
         = [session_seq sid s + 1 .. session_seq sid (serve ops H s raws)]"
  by (rule executions_of_session)

text \<open>
  Ownership: after any requests to a fresh server the registered instances are exactly the
  active instances of the sessions, no instance belongs to two sessions, and there are never
  more sessions than the configured maximum.  A failed or refused start leaks no instance.
\<close>

theorem instances_owned_by_one_session:
  assumes "init_server epoch n x = Inr s"
  shows "(\<forall>iid. dhas (sv_instances (serve ops H s raws)) iid
            \<longleftrightarrow> (\<exists>!sid. owns_instance (serve ops H s raws) sid iid))
    \<and> length (sv_sessions (serve ops H s raws)) \<le> sv_max_sessions (serve ops H s raws)"
  using server_inv_serve [OF server_inv_init [OF assms], of ops H raws]
  unfolding server_inv_def by blast

theorem instances_owned_by_one_session_witness:
  "(\<forall>iid. dhas (sv_instances (serve counting_instance rev example_server [start_request ''a''])) iid
      \<longleftrightarrow> (\<exists>!sid. owns_instance (serve counting_instance rev example_server [start_request ''a'']) sid iid))
   \<and> length (sv_sessions (serve counting_instance rev example_server [start_request ''a'']))
      \<le> sv_max_sessions (serve counting_instance rev example_server [start_request ''a''])"
  by (rule instances_owned_by_one_session [OF example_server_init])

text \<open>
  C7.  Isolation of the registry: a request of one session, whatever instance id it names, calls no
  method of an instance that another session owns, neither the operations nor \<open>close\<close>, and
  leaves it registered as the same object with the same owner.  What the instances do to each other
  through the one game of the process is the business of the game access lease.
\<close>

theorem sessions_isolated:
  assumes "init_server epoch n x = Inr s0" "owns_instance (serve ops H s0 raws) sid iid"
    and "json_str (jget p ''client_session_id'') \<noteq> sid"
  shows "dget (sv_instances (serve ops H s0 (raws @ [JObj p]))) iid = dget (sv_instances (serve ops H s0 raws)) iid
    \<and> owns_instance (serve ops H s0 (raws @ [JObj p])) sid iid
    \<and> (\<exists>new. sv_called (serve ops H s0 (raws @ [JObj p])) = sv_called (serve ops H s0 raws) @ new \<and> iid \<notin> set new)"
  using isolation_lemma [OF server_inv_serve [OF server_inv_init [OF assms(1)]] assms(2,3)] by simp

theorem sessions_isolated_witness:
  "dget (sv_instances (serve counting_instance rev example_server ([start_request ''a''] @ [start_request ''b'']))) (instance_name 1)
     = dget (sv_instances (serve counting_instance rev example_server [start_request ''a''])) (instance_name 1)
   \<and> owns_instance (serve counting_instance rev example_server ([start_request ''a''] @ [start_request ''b''])) ''a'' (instance_name 1)
   \<and> (\<exists>new. sv_called (serve counting_instance rev example_server ([start_request ''a''] @ [start_request ''b'']))
        = sv_called (serve counting_instance rev example_server [start_request ''a'']) @ new
        \<and> instance_name 1 \<notin> set new)"
  unfolding start_request_def [of "''b''"]
proof (rule sessions_isolated [OF example_server_init])
  show "owns_instance (serve counting_instance rev example_server [start_request ''a'']) ''a'' (instance_name 1)"
    by code_simp
qed (simp add: jget_def)

text \<open>
  Identity: every response to a JSON object carries the schema version and epoch of the
  server and the session, sequence number and request id of the payload it answers.  An instance
  cannot spoof them, and a replay cannot hand out the response of another request.
\<close>

theorem responses_answer_their_request:
  assumes "init_server epoch n x = Inr s0" "fst (handle_request ops H (JObj p) (serve ops H s0 raws)) = Inr r"
  shows "jget r ''schema_version'' = JStr SCHEMA_VERSION \<and> jget r ''server_epoch'' = JStr epoch
    \<and> jget r ''client_session_id'' = jget p ''client_session_id''
    \<and> jget r ''request_seq'' = jget p ''request_seq'' \<and> jget r ''request_id'' = jget p ''request_id''"
  using response_identity [OF _ assms(2)] responses_inv_serve [of s0 ops H raws]
    responses_inv_init [OF assms(1)] by simp

theorem responses_answer_their_request_witness:
  "let r = projr (fst (handle_request counting_instance rev (start_request ''a'') example_server));
       p = json_obj (start_request ''a'')
   in jget r ''schema_version'' = JStr SCHEMA_VERSION \<and> jget r ''server_epoch'' = JStr ''epoch''
    \<and> jget r ''client_session_id'' = jget p ''client_session_id''
    \<and> jget r ''request_seq'' = jget p ''request_seq'' \<and> jget r ''request_id'' = jget p ''request_id''"
proof -
  have "isl (fst (handle_request counting_instance rev (start_request ''a'') example_server)) = False"
    by code_simp
  then have "fst (handle_request counting_instance rev (JObj (json_obj (start_request ''a'')))
      (serve counting_instance rev example_server [])) =
      Inr (projr (fst (handle_request counting_instance rev (start_request ''a'') example_server)))"
    by (simp add: start_request_def sum.collapse(2))
  from responses_answer_their_request [OF example_server_init this] show ?thesis by (simp add: Let_def)
qed

text \<open>
  Instance ids are never reused: over any sequence of requests, the ids of the instances
  that get registered are pairwise distinct.
\<close>

theorem instance_ids_unique: "distinct (issued_ids (started_instance ops H) s raws)"
  by (rule instance_ids.issued_distinct)

text \<open>
  Validation covers the dispatcher: for an accepted payload of an instance operation,
  building the instance call never fails, so no \<open>KeyError\<close> is reported as an emulator fault.
\<close>

theorem validated_requests_dispatch:
  assumes "validate_request raw = Inr p" "op = json_str (jget p ''operation'')"
    and "op \<noteq> OP_START_INSTANCE" "op \<noteq> OP_CLOSE_INSTANCE"
  shows "\<exists>c. dispatch_call op p = Inr c"
  using assms by (intro dispatch_call_total) (simp_all add: validate_request_iff)

theorem validated_requests_dispatch_witness:
  "\<exists>c. dispatch_call OP_GET_DECISION
     [(''schema_version'', JStr SCHEMA_VERSION), (''client_session_id'', JStr ''a''), (''request_seq'', JInt 2),
      (''request_id'', JStr (request_id_for ''a'' 2)), (''operation'', JStr OP_GET_DECISION),
      (''instance_id'', JStr ''inst-000001''), (''branch_id'', JStr ROOT_BRANCH_ID)] = Inr c"
proof (rule validated_requests_dispatch)
  show "validate_request (JObj
     [(''schema_version'', JStr SCHEMA_VERSION), (''client_session_id'', JStr ''a''), (''request_seq'', JInt 2),
      (''request_id'', JStr (request_id_for ''a'' 2)), (''operation'', JStr OP_GET_DECISION),
      (''instance_id'', JStr ''inst-000001''), (''branch_id'', JStr ROOT_BRANCH_ID)]) = Inr
     [(''schema_version'', JStr SCHEMA_VERSION), (''client_session_id'', JStr ''a''), (''request_seq'', JInt 2),
      (''request_id'', JStr (request_id_for ''a'' 2)), (''operation'', JStr OP_GET_DECISION),
      (''instance_id'', JStr ''inst-000001''), (''branch_id'', JStr ROOT_BRANCH_ID)]"
    by code_simp
qed (simp_all add: jget_def)

end
