(* ===== verification/Api_Tcp.thy ===== *)
theory Api_Tcp
  imports Api_Server
begin

text \<open>
  The TCP front end of \<open>API/tcp_server.py\<close>: the NDJSON stream of one client, the transport
  handshake that binds a stream to one client session, the lock that serialises the handler over
  all streams, and the start-up configuration from arguments and environment.

  \<open>json.loads\<close> is the parameter \<open>loads\<close> (a decoding error or the value).  A stream is the list of
  what \<open>reader.readline()\<close> returns or raises, after which it returns the empty bytes.  The part
  on concurrent streams is a step relation with one step per point at which the event loop can
  switch tasks around the handler lock.
\<close>

section \<open>Configuration\<close>

record tcp_config =
  tc_host :: string
  tc_port :: int
  tc_max_bytes :: int
  tc_epoch :: string

definition value_error :: "string \<Rightarrow> py_exc" where
  "value_error msg = PyExc ''ValueError'' msg"

definition make_tcp_config :: "string \<Rightarrow> int \<Rightarrow> int \<Rightarrow> string \<Rightarrow> tcp_config res" where
  "make_tcp_config host port max_bytes epoch =
     (if host = [] then Inl (value_error ''host must not be empty'')
      else if \<not> (0 \<le> port \<and> port \<le> 65535) then Inl (value_error ''port must be between 0 and 65535'')
      else if max_bytes \<le> 0 then Inl (value_error ''max_message_bytes must be positive'')
      else Inr \<lparr> tc_host = host, tc_port = port, tc_max_bytes = max_bytes, tc_epoch = epoch \<rparr>)"

definition positive_int_from_env :: "(string \<Rightarrow> string option) \<Rightarrow> string \<Rightarrow> int option res" where
  "positive_int_from_env env name = (case env name of
       None \<Rightarrow> Inr None
     | Some raw \<Rightarrow>
         if str_strip raw = [] then Inr None
         else case int_of_text raw of
           None \<Rightarrow> Inl (value_error (name @ '' must be a positive integer''))
         | Some v \<Rightarrow> if v \<le> 0 then Inl (value_error (name @ '' must be a positive integer'')) else Inr (Some v))"

definition ALC_BACKENDS :: "string list" where
  "ALC_BACKENDS = [''alc'', ''assemblyloadcontext'', ''assembly_load_context'', ''isolated'']"

text \<open>\<open>a or b\<close> on optional strings.\<close>

definition str_or :: "string option \<Rightarrow> string option \<Rightarrow> string option" where
  "str_or a b = (case a of Some (c # cs) \<Rightarrow> a | _ \<Rightarrow> b)"

definition combat_instance_factory_kwargs ::
  "(string \<Rightarrow> string option) \<Rightarrow> string option \<Rightarrow> int option \<Rightarrow> int option
     \<Rightarrow> (string, (string, json) dict) dict option res" where
  "combat_instance_factory_kwargs env worker_pool_backend worker_count max_branches =
     (let backend = str_or worker_pool_backend (env ''STS2_COMBAT_BRANCH_POOL'');
          backend_key = str_lower (str_strip (case backend of None \<Rightarrow> [] | Some b \<Rightarrow> b));
          alc_selected = backend_key \<in> set ALC_BACKENDS
      in sbind (if worker_count = None \<and> alc_selected
                then positive_int_from_env env ''STS2_COMBAT_ALC_WORKERS'' else Inr worker_count) (\<lambda>workers.
         sbind (if max_branches = None
                then positive_int_from_env env ''STS2_COMBAT_MAX_BRANCHES'' else Inr max_branches) (\<lambda>branches.
           let kwargs = (case backend of
                   Some b \<Rightarrow> if str_strip b \<noteq> [] then [(''worker_pool_backend'', JStr b)] else []
                 | None \<Rightarrow> [])
               @ (case workers of Some n \<Rightarrow> [(''worker_count'', JInt n)] | None \<Rightarrow> [])
               @ (case branches of Some n \<Rightarrow> [(''max_branches'', JInt n)] | None \<Rightarrow> [])
           in Inr (if kwargs = [] then None else Some [(''combat'', kwargs)]))))"

section \<open>One line of a stream\<close>

datatype read_event = Line string | ReadOverrun

text \<open>\<open>_read_line\<close>: the line to process, the end of the stream, or the end with a response.\<close>

datatype line_read = GotLine string | EndOfStream | TooLarge "(string, json) dict"

definition newline :: char where "newline = CHR 0x0A"

definition read_line :: "tcp_config \<Rightarrow> read_event list \<Rightarrow> line_read \<times> read_event list" where
  "read_line cfg events =
     (let too_large = TooLarge [(''transport_error'', JStr ''message_too_large''), (''direction'', JStr ''request''),
                                (''max_message_bytes'', JInt (tc_max_bytes cfg))]
      in case events of
        [] \<Rightarrow> (EndOfStream, [])
      | Line line # rest \<Rightarrow>
          (if line = [] then EndOfStream
           else if int (length line) \<le> tc_max_bytes cfg
           then (if last line \<noteq> newline then EndOfStream else GotLine line)
           else too_large, rest)
      | ReadOverrun # rest \<Rightarrow> (too_large, rest))"

definition transport_error :: "string \<Rightarrow> string \<Rightarrow> (string, json) dict" where
  "transport_error kind text = [(''transport_error'', JStr kind), (''error'', JStr text)]"

definition handle_hello ::
  "tcp_config \<Rightarrow> (string, json) dict \<Rightarrow> string option \<Rightarrow> (string, json) dict \<times> string option" where
  "handle_hello cfg payload current =
     (if set (dkeys payload) \<noteq> {''transport_operation'', ''schema_version'', ''client_session_id''} then
        (transport_error ''invalid_hello''
           ''hello must contain exactly transport_operation, schema_version, and client_session_id'', None)
      else case jget payload ''client_session_id'' of
        JStr session_id \<Rightarrow>
          if session_id = [] then
            (transport_error ''invalid_hello'' ''client_session_id must be a non-empty string'', None)
          else if jget payload ''schema_version'' \<noteq> JStr SCHEMA_VERSION then
            ([(''transport_error'', JStr ''unsupported_schema''),
              (''requested_schema_version'', jget payload ''schema_version''),
              (''supported_schema_version'', JStr SCHEMA_VERSION)], None)
          else if current \<noteq> None \<and> current \<noteq> Some session_id then
            (transport_error ''session_mismatch'' ''one TCP stream may bind only one client_session_id'', None)
          else
            ([(''transport_operation'', JStr ''hello''), (''schema_version'', JStr SCHEMA_VERSION),
              (''server_epoch'', JStr (tc_epoch cfg)), (''client_session_id'', JStr session_id)],
             Some session_id)
      | _ \<Rightarrow> (transport_error ''invalid_hello'' ''client_session_id must be a non-empty string'', None))"

text \<open>What a line leads to: an answer of the transport (with the binding afterwards) or a handler call.\<close>

datatype line_outcome =
    Answer "(string, json) dict" "string option"
  | ToHandler "(string, json) dict"

definition process_line ::
  "tcp_config \<Rightarrow> (string \<Rightarrow> string + json) \<Rightarrow> string option \<Rightarrow> string \<Rightarrow> line_outcome" where
  "process_line cfg loads bound line = (case loads line of
       Inl err \<Rightarrow> Answer (transport_error ''invalid_json'' err) bound
     | Inr (JObj payload) \<Rightarrow>
         if payload = [(''transport_operation'', JStr ''ping'')] then
           Answer [(''transport_operation'', JStr ''pong''), (''server_epoch'', JStr (tc_epoch cfg))] bound
         else if jget payload ''transport_operation'' = JStr ''hello'' then
           (case handle_hello cfg payload bound of
              (response, None) \<Rightarrow> Answer response bound
            | (response, Some sid) \<Rightarrow> Answer response (Some sid))
         else (case bound of
             None \<Rightarrow> Answer (transport_error ''hello_required'' ''send transport hello before API traffic'') None
           | Some sid \<Rightarrow>
               if jget payload ''client_session_id'' \<noteq> JStr sid
               then Answer (transport_error ''session_mismatch''
                              ''API client_session_id differs from stream hello'') bound
               else ToHandler payload)
     | Inr _ \<Rightarrow> Answer (transport_error ''invalid_message'' ''top-level JSON value must be an object'') bound)"

section \<open>The stream of one client\<close>

definition handler_response :: "(string, json) dict \<Rightarrow> json res \<Rightarrow> (string, json) dict" where
  "handler_response payload r = (case r of
       Inl exc \<Rightarrow> fault_response (JObj payload) exc
     | Inr (JObj response) \<Rightarrow> response
     | Inr _ \<Rightarrow> fault_response (JObj payload) (PyExc ''TypeError'' ''RL handler returned a non-dict response''))"

text \<open>
  \<open>_handle_client\<close> on a handler with a state of its own: the responses written, and the state of
  the handler at the end.
\<close>

function handle_client ::
  "tcp_config \<Rightarrow> (string \<Rightarrow> string + json) \<Rightarrow> ((string, json) dict \<Rightarrow> ('s, json) stateop)
     \<Rightarrow> string option \<Rightarrow> read_event list \<Rightarrow> 's \<Rightarrow> (string, json) dict list \<times> 's" where
  "handle_client cfg loads handler bound events s =
     (case read_line cfg events of
        (EndOfStream, _) \<Rightarrow> ([], s)
      | (TooLarge response, _) \<Rightarrow> ([response], s)
      | (GotLine line, rest) \<Rightarrow>
          (case process_line cfg loads bound line of
             Answer response bound' \<Rightarrow>
               (case handle_client cfg loads handler bound' rest s of (rs, s') \<Rightarrow> (response # rs, s'))
           | ToHandler payload \<Rightarrow>
               (case handler payload s of (r, s1) \<Rightarrow>
                (case handle_client cfg loads handler bound rest s1 of
                   (rs, s') \<Rightarrow> (handler_response payload r # rs, s')))))"
  by pat_completeness auto

lemma read_line_shorter: "read_line cfg events = (GotLine line, rest) \<Longrightarrow> length rest < length events"
  by (auto simp: read_line_def Let_def split: list.splits read_event.splits if_splits)

termination handle_client
  by (relation "measure (\<lambda>(cfg, loads, handler, bound, events, s). length events)")
    (auto dest: read_line_shorter [OF sym])

declare handle_client.simps [simp del]

text \<open>A handler that also records the payloads it is called with.\<close>

definition recording ::
  "((string, json) dict \<Rightarrow> ('s, json) stateop) \<Rightarrow> (string, json) dict
     \<Rightarrow> ('s \<times> (string, json) dict list, json) stateop" where
  "recording handler payload sl = (case handler payload (fst sl) of
       (r, s') \<Rightarrow> (r, (s', snd sl @ [payload])))"

section \<open>Concurrent streams and the handler lock\<close>

text \<open>
  Each stream is reading, waits for the lock with its payload, holds it while its handler runs in
  a thread (cancelled or not), or is closed.  A stream that is cancelled once while its handler runs
  keeps the lock until the thread has ended: the first \<open>await\<close> of \<open>_call_handler\<close> is shielded.  The
  second, in its \<open>except\<close> branch, is not: another cancellation, or one of the handler task
  itself, gives the lock back at once.  A thread that has not started then never runs; one that
  has goes on without the lock, beside whatever handler the lock admits next.  \<open>ts_detached\<close> lists the
  payloads of those threads.  What they and the handlers beside them make of the server is not
  the result of any order of requests, so the model leaves it open (\<open>detached\<close>).
\<close>

datatype stream_phase =
    Reading
  | Waiting "(string, json) dict"
  | Running "(string, json) dict" bool
  | Closed_stream

record stream =
  st_bound :: "string option"
  st_phase :: stream_phase

record ('i, 'x) tcp_system =
  ts_server :: "('i, 'x) rl_server"
  ts_lock :: "nat option"
  ts_streams :: "nat \<Rightarrow> stream"
  ts_served :: "json list"
  ts_detached :: "(string, json) dict list"

definition set_phase :: "nat \<Rightarrow> stream_phase \<Rightarrow> ('i, 'x) tcp_system \<Rightarrow> ('i, 'x) tcp_system" where
  "set_phase c ph t = t\<lparr>ts_streams := (ts_streams t)(c := (ts_streams t c)\<lparr>st_phase := ph\<rparr>)\<rparr>"

definition run_handler ::
  "('i, 'x) instance_ops \<Rightarrow> (string \<Rightarrow> string) \<Rightarrow> (string, json) dict \<Rightarrow> ('i, 'x) tcp_system \<Rightarrow> ('i, 'x) tcp_system" where
  "run_handler ops H p t = t\<lparr>ts_server := snd (handle_request ops H (JObj p) (ts_server t)), ts_lock := None,
                             ts_served := ts_served t @ [JObj p]\<rparr>"

inductive tcp_step ::
  "tcp_config \<Rightarrow> (string \<Rightarrow> string + json) \<Rightarrow> ('i, 'x) instance_ops \<Rightarrow> (string \<Rightarrow> string)
     \<Rightarrow> ('i, 'x) tcp_system \<Rightarrow> ('i, 'x) tcp_system \<Rightarrow> bool"
  for cfg loads ops H where
  answer: "st_phase (ts_streams t c) = Reading \<Longrightarrow>
     process_line cfg loads (st_bound (ts_streams t c)) line = Answer r b \<Longrightarrow>
     tcp_step cfg loads ops H t (t\<lparr>ts_streams := (ts_streams t)(c := \<lparr>st_bound = b, st_phase = Reading\<rparr>)\<rparr>)"
| request: "st_phase (ts_streams t c) = Reading \<Longrightarrow>
     process_line cfg loads (st_bound (ts_streams t c)) line = ToHandler p \<Longrightarrow>
     tcp_step cfg loads ops H t (set_phase c (Waiting p) t)"
| acquire: "st_phase (ts_streams t c) = Waiting p \<Longrightarrow> ts_lock t = None \<Longrightarrow>
     tcp_step cfg loads ops H t (set_phase c (Running p False) (t\<lparr>ts_lock := Some c\<rparr>))"
| finish: "st_phase (ts_streams t c) = Running p False \<Longrightarrow>
     tcp_step cfg loads ops H t (set_phase c Reading (run_handler ops H p t))"
| cancel_running: "st_phase (ts_streams t c) = Running p False \<Longrightarrow>
     tcp_step cfg loads ops H t (set_phase c (Running p True) t)"
| finish_cancelled: "st_phase (ts_streams t c) = Running p True \<Longrightarrow>
     tcp_step cfg loads ops H t (set_phase c Closed_stream (run_handler ops H p t))"
| abandon: "st_phase (ts_streams t c) = Running p b \<Longrightarrow>
     tcp_step cfg loads ops H t
       (set_phase c Closed_stream (t\<lparr>ts_lock := None, ts_detached := ts_detached t @ [p]\<rparr>))"
| abandon_unstarted: "st_phase (ts_streams t c) = Running p b \<Longrightarrow>
     tcp_step cfg loads ops H t (set_phase c Closed_stream (t\<lparr>ts_lock := None\<rparr>))"
| detached: "ts_detached t \<noteq> [] \<Longrightarrow> tcp_step cfg loads ops H t (t\<lparr>ts_server := s'\<rparr>)"
| close: "st_phase (ts_streams t c) = Reading \<or> st_phase (ts_streams t c) = Waiting p \<Longrightarrow>
     tcp_step cfg loads ops H t (set_phase c Closed_stream t)"

definition tcp_init :: "('i, 'x) rl_server \<Rightarrow> ('i, 'x) tcp_system" where
  "tcp_init s = \<lparr> ts_server = s, ts_lock = None,
                  ts_streams = \<lambda>_. \<lparr>st_bound = None, st_phase = Reading\<rparr>, ts_served = [],
                  ts_detached = [] \<rparr>"

inductive tcp_reachable ::
  "tcp_config \<Rightarrow> (string \<Rightarrow> string + json) \<Rightarrow> ('i, 'x) instance_ops \<Rightarrow> (string \<Rightarrow> string)
     \<Rightarrow> ('i, 'x) rl_server \<Rightarrow> ('i, 'x) tcp_system \<Rightarrow> bool"
  for cfg loads ops H s where
  start: "tcp_reachable cfg loads ops H s (tcp_init s)"
| step: "tcp_reachable cfg loads ops H s t \<Longrightarrow> tcp_step cfg loads ops H t t'
     \<Longrightarrow> tcp_reachable cfg loads ops H s t'"

text \<open>The payload a stream has handed over, and the safety invariant of the front end.\<close>

fun phase_payload :: "stream_phase \<Rightarrow> (string, json) dict option" where
  "phase_payload (Waiting p) = Some p"
| "phase_payload (Running p b) = Some p"
| "phase_payload _ = None"

fun is_running :: "stream_phase \<Rightarrow> bool" where
  "is_running (Running p b) = True"
| "is_running _ = False"

definition bound_payload :: "stream \<Rightarrow> (string, json) dict \<Rightarrow> bool" where
  "bound_payload st p \<longleftrightarrow> (\<exists>sid. st_bound st = Some sid \<and> jget p ''client_session_id'' = JStr sid)"

definition tcp_inv :: "('i, 'x) instance_ops \<Rightarrow> (string \<Rightarrow> string) \<Rightarrow> ('i, 'x) rl_server \<Rightarrow> ('i, 'x) tcp_system \<Rightarrow> bool" where
  "tcp_inv ops H s t \<longleftrightarrow> (ts_detached t = [] \<longrightarrow> ts_server t = serve ops H s (ts_served t))
     \<and> (\<forall>c. is_running (st_phase (ts_streams t c)) \<longleftrightarrow> ts_lock t = Some c)
     \<and> (\<forall>c p. phase_payload (st_phase (ts_streams t c)) = Some p \<longrightarrow> bound_payload (ts_streams t c) p)"

section \<open>Lemmas\<close>

lemma handle_hello_binding:
  "handle_hello cfg payload (Some sid) = (r, Some sid') \<Longrightarrow> sid' = sid"
  by (auto simp: handle_hello_def split: json.splits if_splits)

lemma process_line_keeps_binding:
  "process_line cfg loads (Some sid) line = Answer r b \<Longrightarrow> b = Some sid"
  by (auto simp: process_line_def dest: handle_hello_binding
      split: sum.splits json.splits if_splits option.splits prod.splits)

lemma process_line_to_handler:
  "process_line cfg loads b line = ToHandler p \<Longrightarrow>
     \<exists>sid. b = Some sid \<and> jget p ''client_session_id'' = JStr sid"
  by (auto simp: process_line_def split: sum.splits json.splits if_splits option.splits prod.splits)

text \<open>Once a stream is bound, every payload its handler gets is of that session.\<close>

lemma recorded_bound:
  "handle_client cfg loads (recording h) (Some sid) events sl = (rs, sl') \<Longrightarrow>
     \<exists>ps. snd sl' = snd sl @ ps \<and> (\<forall>p \<in> set ps. jget p ''client_session_id'' = JStr sid)"
proof (induction "length events" arbitrary: events sl rs sl' rule: less_induct)
  case less
  obtain lr rest where rd: "read_line cfg events = (lr, rest)" by fastforce
  show ?case
  proof (cases lr)
    case EndOfStream
    with less.prems rd show ?thesis by (simp add: handle_client.simps [of cfg loads _ _ events])
  next
    case (TooLarge r)
    with less.prems rd show ?thesis by (auto simp: handle_client.simps [of cfg loads _ _ events])
  next
    case (GotLine line)
    with rd have shorter: "length rest < length events" by (simp add: read_line_shorter)
    show ?thesis
    proof (cases "process_line cfg loads (Some sid) line")
      case (Answer r b)
      then have "b = Some sid" by (rule process_line_keeps_binding)
      with Answer GotLine rd less.prems less.hyps [OF shorter] show ?thesis
        by (auto simp: handle_client.simps [of cfg loads _ _ events] split: prod.splits)
    next
      case (ToHandler p)
      then have p: "jget p ''client_session_id'' = JStr sid" using process_line_to_handler by blast
      obtain r s1 where h: "h p (fst sl) = (r, s1)" by fastforce
      obtain rs' where "handle_client cfg loads (recording h) (Some sid) rest (s1, snd sl @ [p]) = (rs', sl')"
        using ToHandler GotLine rd less.prems h
        by (auto simp: handle_client.simps [of cfg loads _ _ events] recording_def split: prod.splits)
      from less.hyps [OF shorter this] p show ?thesis by auto
    qed
  qed
qed

lemma recorded_unbound:
  "handle_client cfg loads (recording h) None events sl = (rs, sl') \<Longrightarrow>
     \<exists>sid ps. snd sl' = snd sl @ ps \<and> (\<forall>p \<in> set ps. jget p ''client_session_id'' = JStr sid)"
proof (induction "length events" arbitrary: events rs rule: less_induct)
  case less
  obtain lr rest where rd: "read_line cfg events = (lr, rest)" by fastforce
  show ?case
  proof (cases lr)
    case EndOfStream
    with less.prems rd show ?thesis by (simp add: handle_client.simps [of cfg loads _ _ events])
  next
    case (TooLarge r)
    with less.prems rd show ?thesis by (auto simp: handle_client.simps [of cfg loads _ _ events])
  next
    case (GotLine line)
    with rd have shorter: "length rest < length events" by (simp add: read_line_shorter)
    show ?thesis
    proof (cases "process_line cfg loads None line")
      case (Answer r b)
      then obtain rs' where rest_run: "handle_client cfg loads (recording h) b rest sl = (rs', sl')"
        using GotLine rd less.prems
        by (auto simp: handle_client.simps [of cfg loads _ _ events] split: prod.splits)
      show ?thesis
      proof (cases b)
        case None
        with rest_run less.hyps [OF shorter] show ?thesis by blast
      next
        case (Some sid)
        with rest_run recorded_bound show ?thesis by blast
      qed
    next
      case (ToHandler p)
      then show ?thesis using process_line_to_handler by blast
    qed
  qed
qed

lemma tcp_inv_init: "tcp_inv ops H s (tcp_init s)"
  by (simp add: tcp_inv_def tcp_init_def)

lemma bound_payload_phase [simp]: "bound_payload (st\<lparr>st_phase := ph\<rparr>) p = bound_payload st p"
  by (simp add: bound_payload_def)

lemma tcp_inv_lock:
  "tcp_inv ops H s t \<Longrightarrow> is_running (st_phase (ts_streams t c)) \<longleftrightarrow> ts_lock t = Some c"
  by (simp add: tcp_inv_def)

lemma tcp_inv_payload:
  "tcp_inv ops H s t \<Longrightarrow> phase_payload (st_phase (ts_streams t c)) = Some p \<Longrightarrow> bound_payload (ts_streams t c) p"
  by (simp add: tcp_inv_def)

text \<open>One stream changes phase; the handler may end, and the lock with it.\<close>

lemma tcp_inv_phase:
  assumes "tcp_inv ops H s t"
    and "is_running ph \<longleftrightarrow> is_running (st_phase (ts_streams t c))"
    and "\<And>p. phase_payload ph = Some p \<Longrightarrow> bound_payload (ts_streams t c) p"
  shows "tcp_inv ops H s (set_phase c ph t)"
  using assms by (auto simp: tcp_inv_def set_phase_def)

lemma tcp_inv_handler_ends:
  assumes "tcp_inv ops H s t" "st_phase (ts_streams t c) = Running p b" "ph = Reading \<or> ph = Closed_stream"
  shows "tcp_inv ops H s (set_phase c ph (run_handler ops H p t))"
  using assms tcp_inv_lock [OF assms(1), of c]
  by (auto simp: tcp_inv_def set_phase_def run_handler_def)

lemma tcp_inv_step:
  assumes "tcp_step cfg loads ops H t t'" and inv: "tcp_inv ops H s t"
  shows "tcp_inv ops H s t'"
  using assms(1)
proof (cases rule: tcp_step.cases)
  case (answer c line r b)
  with inv tcp_inv_lock [OF inv, of c] show ?thesis by (auto simp: tcp_inv_def)
next
  case (request c line p)
  then show ?thesis
    using inv process_line_to_handler [OF request(3)] by (auto simp: bound_payload_def intro!: tcp_inv_phase)
next
  case (acquire c p)
  with inv tcp_inv_lock [OF inv, of c] tcp_inv_payload [OF inv, of c p] show ?thesis
    by (auto simp: tcp_inv_def set_phase_def)
next
  case (finish c p)
  with tcp_inv_handler_ends [OF inv finish(2)] show ?thesis by simp
next
  case (cancel_running c p)
  with inv tcp_inv_payload [OF inv, of c p] show ?thesis by (auto intro!: tcp_inv_phase)
next
  case (finish_cancelled c p)
  with tcp_inv_handler_ends [OF inv finish_cancelled(2)] show ?thesis by simp
next
  case (abandon c p b)
  with inv tcp_inv_lock [OF inv, of c] show ?thesis by (auto simp: tcp_inv_def set_phase_def)
next
  case (abandon_unstarted c p b)
  with inv tcp_inv_lock [OF inv, of c] show ?thesis by (auto simp: tcp_inv_def set_phase_def)
next
  case (detached s')
  with inv show ?thesis by (simp add: tcp_inv_def)
next
  case (close c p)
  with inv show ?thesis by (auto intro!: tcp_inv_phase)
qed

lemma tcp_reachable_inv: "tcp_reachable cfg loads ops H s t \<Longrightarrow> tcp_inv ops H s t"
  by (induction rule: tcp_reachable.induct) (auto simp: tcp_inv_init intro: tcp_inv_step)

text \<open>A decoder of three lines and a run of one stream, for the example.\<close>

definition example_loads :: "string \<Rightarrow> string + json" where
  "example_loads line =
     (if line = ''hello'' then Inr (JObj [(''transport_operation'', JStr ''hello''),
        (''schema_version'', JStr SCHEMA_VERSION), (''client_session_id'', JStr ''a'')])
      else if line = ''start'' then Inr (start_request ''a'')
      else Inl ''Expecting value'')"

definition example_config :: tcp_config where
  "example_config = \<lparr> tc_host = ''127.0.0.1'', tc_port = 8765, tc_max_bytes = 5242880, tc_epoch = ''epoch'' \<rparr>"

definition example_system :: "(string, nat) tcp_system" where
  "example_system = (let t1 = (tcp_init example_server)\<lparr>ts_streams :=
       (ts_streams (tcp_init example_server))(7 := \<lparr>st_bound = Some ''a'', st_phase = Reading\<rparr>)\<rparr>;
     t2 = set_phase 7 (Waiting (json_obj (start_request ''a''))) t1;
     t3 = set_phase 7 (Running (json_obj (start_request ''a'')) False) (t2\<lparr>ts_lock := Some 7\<rparr>);
     t4 = set_phase 7 (Running (json_obj (start_request ''a'')) True) t3
     in set_phase 7 Closed_stream (run_handler counting_instance rev (json_obj (start_request ''a'')) t4))"

lemma example_system_reachable:
  "tcp_reachable example_config example_loads counting_instance rev example_server example_system"
proof -
  let ?R = "tcp_reachable example_config example_loads counting_instance rev example_server"
  let ?t1 = "(tcp_init example_server)\<lparr>ts_streams :=
       (ts_streams (tcp_init example_server))(7 := \<lparr>st_bound = Some ''a'', st_phase = Reading\<rparr>)\<rparr>"
  let ?p = "json_obj (start_request ''a'')"
  have "process_line example_config example_loads None ''hello'' = Answer
      [(''transport_operation'', JStr ''hello''), (''schema_version'', JStr SCHEMA_VERSION),
       (''server_epoch'', JStr ''epoch''), (''client_session_id'', JStr ''a'')] (Some ''a'')"
    by code_simp
  then have r1: "?R ?t1"
    by (intro tcp_reachable.step [OF tcp_reachable.start] tcp_step.answer) (auto simp: tcp_init_def)
  have "process_line example_config example_loads (Some ''a'') ''start'' = ToHandler ?p" by code_simp
  then have r2: "?R (set_phase 7 (Waiting ?p) ?t1)"
    by (intro tcp_reachable.step [OF r1] tcp_step.request) auto
  let ?t2 = "set_phase 7 (Waiting ?p) ?t1"
  let ?t3 = "set_phase 7 (Running ?p False) (?t2\<lparr>ts_lock := Some 7\<rparr>)"
  have r3: "?R ?t3"
    by (intro tcp_reachable.step [OF r2] tcp_step.acquire) (auto simp: set_phase_def tcp_init_def)
  have r4: "?R (set_phase 7 (Running ?p True) ?t3)"
    by (intro tcp_reachable.step [OF r3] tcp_step.cancel_running) (auto simp: set_phase_def)
  show ?thesis
    unfolding example_system_def Let_def
    by (intro tcp_reachable.step [OF r4] tcp_step.finish_cancelled) (auto simp: set_phase_def)
qed

text \<open>
  After two cancellations of the stream that runs the handler, another stream runs its own
  while the first thread still does.
\<close>

lemma second_cancellation_loses_exclusion:
  assumes "tcp_reachable cfg loads ops H s t" "st_phase (ts_streams t c) = Running p False"
    and "st_phase (ts_streams t c') = Waiting p'"
  shows "\<exists>t'. tcp_reachable cfg loads ops H s t' \<and> ts_detached t' = ts_detached t @ [p]
    \<and> st_phase (ts_streams t' c') = Running p' False"
proof -
  have ne: "c' \<noteq> c" using assms by auto
  let ?t1 = "set_phase c (Running p True) t"
  let ?t2 = "set_phase c Closed_stream (?t1\<lparr>ts_lock := None, ts_detached := ts_detached ?t1 @ [p]\<rparr>)"
  let ?t3 = "set_phase c' (Running p' False) (?t2\<lparr>ts_lock := Some c'\<rparr>)"
  have "tcp_step cfg loads ops H t ?t1" using assms(2) by (rule tcp_step.cancel_running)
  then have "tcp_reachable cfg loads ops H s ?t1" by (rule tcp_reachable.step [OF assms(1)])
  moreover have "tcp_step cfg loads ops H ?t1 ?t2"
    by (rule tcp_step.abandon [where b = True]) (simp add: set_phase_def)
  ultimately have "tcp_reachable cfg loads ops H s ?t2" by (rule tcp_reachable.step)
  moreover have "tcp_step cfg loads ops H ?t2 ?t3"
    by (rule tcp_step.acquire) (use assms(3) ne in \<open>simp_all add: set_phase_def\<close>)
  ultimately have "tcp_reachable cfg loads ops H s ?t3" by (rule tcp_reachable.step)
  then show ?thesis by (rule exI [of _ ?t3, OF conjI]) (simp add: set_phase_def)
qed

section \<open>Properties\<close>

text \<open>
  C8.  One stream speaks for one session: whatever bytes a client sends, all payloads that reach
  the handler carry one and the same client session id.
\<close>

theorem stream_speaks_for_one_session:
  "\<exists>sid. list_all (\<lambda>p. jget p ''client_session_id'' = JStr sid)
     (snd (snd (handle_client cfg loads (recording handler) None events (s, []))))"
  using recorded_unbound [of cfg loads handler events "(s, [])"]
  by (cases "handle_client cfg loads (recording handler) None events (s, [])") (auto simp: list_all_iff)

definition at_most_one_running :: "(nat \<Rightarrow> stream) \<Rightarrow> bool" where
  "at_most_one_running streams \<longleftrightarrow>
     (\<forall>c c'. is_running (st_phase (streams c)) \<and> is_running (st_phase (streams c')) \<longrightarrow> c = c')"

definition payloads_bound :: "(nat \<Rightarrow> stream) \<Rightarrow> bool" where
  "payloads_bound streams \<longleftrightarrow>
     (\<forall>c p. phase_payload (st_phase (streams c)) = Some p \<longrightarrow> bound_payload (streams c) p)"

text \<open>
  C9.  The concurrent front end refines the sequential dispatcher: in every reachable
  interleaving of streams, in which streams may be closed or cancelled at any point, the server state
  is the one that serving the finished payloads one after the other gives, as long as no
  handler thread was abandoned by a second cancellation (or by one of the handler task).  Whatever
  is cancelled, at most one stream holds the handler, and a payload waiting for it or in it
  carries the session its stream is bound to.
\<close>

theorem tcp_serialises_the_dispatcher:
  assumes "tcp_reachable cfg loads ops H s t"
  shows "(ts_detached t = [] \<longrightarrow> ts_server t = serve ops H s (ts_served t))
    \<and> at_most_one_running (ts_streams t) \<and> payloads_bound (ts_streams t)"
  using tcp_reachable_inv [OF assms]
  unfolding tcp_inv_def at_most_one_running_def payloads_bound_def by auto

theorem tcp_serialises_the_dispatcher_witness:
  "ts_server example_system = serve counting_instance rev example_server (ts_served example_system)
   \<and> length (ts_served example_system) = 1
   \<and> at_most_one_running (ts_streams example_system) \<and> payloads_bound (ts_streams example_system)"
  using tcp_serialises_the_dispatcher [OF example_system_reachable]
  by (simp add: example_system_def Let_def set_phase_def run_handler_def tcp_init_def)

end
