(* ===== verification/Choice_Cards.thy ===== *)
theory Choice_Cards
  imports Api_Validation
begin

text \<open>
  The public normalisation of a pending card choice: \<open>API/choice_card_semantics.py\<close>.  The closed
  vocabularies are lists; \<open>normalize_choice_semantics\<close> degrades anything it does not know to
  \<open>unknown\<close>, \<open>normalize_pending_choice\<close> keeps an explicit list of keys and attaches semantics only
  to a consistent identity.
\<close>

abbreviation (input) CHOICE_SEMANTICS_VERSION :: int where "CHOICE_SEMANTICS_VERSION \<equiv> 1"

definition CHOICE_OPERATIONS :: "string list" where
  "CHOICE_OPERATIONS = [''gain'', ''discard'', ''exhaust'', ''upgrade'', ''retrieve'', ''play'', ''replay'',
     ''remove'', ''transform'', ''unknown'']"

definition CHOICE_EFFECTS :: "string list" where
  "CHOICE_EFFECTS = [''move'', ''modify'', ''play'', ''replace'']"

definition CHOICE_ZONES :: "string list" where
  "CHOICE_ZONES = [''hand'', ''draw'', ''draw_pile'', ''discard'', ''discard_pile'', ''exhaust'', ''exhaust_pile'',
     ''play'', ''play_pile'', ''deck'', ''master_deck'', ''reward'', ''generated'', ''none'', ''unknown'']"

definition CHOICE_MODIFIERS :: "string list" where
  "CHOICE_MODIFIERS = [''upgrade'']"

definition PUBLIC_PENDING_CHOICE_KEYS :: "string list" where
  "PUBLIC_PENDING_CHOICE_KEYS = [''choiceType'', ''scope'', ''scenarioRestorable'', ''minSelect'', ''maxSelect'',
     ''selectedCount'', ''choiceSemantics'', ''sourceEffectId'', ''selectedOptionIds'', ''options'']"

definition PUBLIC_CHOICE_SEMANTICS_KEYS :: "string list" where
  "PUBLIC_CHOICE_SEMANTICS_KEYS = [''version'', ''operation'', ''effect'', ''sourceZone'', ''destinationZone'',
     ''modifier'', ''orderMatters'', ''replacementAllowed'']"

definition PUBLIC_SOURCE_EFFECT_PREFIXES :: "string list" where
  "PUBLIC_SOURCE_EFFECT_PREFIXES = [''card:'']"

section \<open>Tokens and enumerations\<close>

definition unknown_semantics :: "(string, json) dict" where
  "unknown_semantics = [(''version'', JInt CHOICE_SEMANTICS_VERSION), (''operation'', JStr ''unknown'')]"

definition token_head :: "char \<Rightarrow> bool" where
  "token_head c = (let n = of_char c :: nat in
     65 \<le> n \<and> n \<le> 90 \<or> 97 \<le> n \<and> n \<le> 122 \<or> 48 \<le> n \<and> n \<le> 57)"

definition token_char :: "char \<Rightarrow> bool" where
  "token_char c \<longleftrightarrow> token_head c \<or> c \<in> set ''._:/-''"

text \<open>\<open>_OPAQUE_TOKEN_RE.fullmatch\<close>: one head character and up to 127 token characters.\<close>

definition opaque_token :: "string \<Rightarrow> bool" where
  "opaque_token s = (case s of [] \<Rightarrow> False
     | c # cs \<Rightarrow> token_head c \<and> list_all token_char cs \<and> length cs \<le> 127)"

definition valid_token :: "json \<Rightarrow> bool" where
  "valid_token v = (case v of JStr s \<Rightarrow> opaque_token s | _ \<Rightarrow> False)"

definition safe_source_effect_id :: "json \<Rightarrow> string option" where
  "safe_source_effect_id v =
     (if \<not> valid_token v then None
      else if \<not> list_ex (\<lambda>pre. str_startswith (json_str v) pre \<and> length pre < length (json_str v))
                PUBLIC_SOURCE_EFFECT_PREFIXES then None
      else Some (json_str v))"

definition nonnegative_int_or_none :: "json \<Rightarrow> int option" where
  "nonnegative_int_or_none v = (case v of JInt i \<Rightarrow> if i < 0 then None else Some i | _ \<Rightarrow> None)"

text \<open>\<open>_enum_or_none\<close>: \<open>Inl ()\<close> is the \<open>ValueError\<close> its caller catches.\<close>

definition enum_or_none :: "json \<Rightarrow> string list \<Rightarrow> unit + string option" where
  "enum_or_none v allowed = (case v of
       JNull \<Rightarrow> Inr None
     | JStr s \<Rightarrow> if s \<in> set allowed then Inr (Some s) else Inl ()
     | _ \<Rightarrow> Inl ())"

definition bool_or_none :: "json \<Rightarrow> unit + bool option" where
  "bool_or_none v = (case v of JNull \<Rightarrow> Inr None | JBool b \<Rightarrow> Inr (Some b) | _ \<Rightarrow> Inl ())"

text \<open>A key that is written only when there is a value.\<close>

definition opt_entry :: "string \<Rightarrow> json option \<Rightarrow> (string, json) dict" where
  "opt_entry k v = (case v of None \<Rightarrow> [] | Some x \<Rightarrow> [(k, x)])"

section \<open>Semantics\<close>

definition semantics_fields :: "(string, json) dict \<Rightarrow> unit + (string, json) dict" where
  "semantics_fields raw =
     sbind (enum_or_none (jget raw ''effect'') CHOICE_EFFECTS) (\<lambda>effect.
     sbind (enum_or_none (jget raw ''sourceZone'') CHOICE_ZONES) (\<lambda>source_zone.
     sbind (enum_or_none (jget raw ''destinationZone'') CHOICE_ZONES) (\<lambda>destination_zone.
     sbind (enum_or_none (jget raw ''modifier'') CHOICE_MODIFIERS) (\<lambda>modifier.
     sbind (bool_or_none (jget raw ''orderMatters'')) (\<lambda>order_matters.
     sbind (bool_or_none (jget raw ''replacementAllowed'')) (\<lambda>replacement_allowed.
       Inr (opt_entry ''effect'' (map_option JStr effect)
          @ opt_entry ''sourceZone'' (map_option JStr source_zone)
          @ opt_entry ''destinationZone'' (map_option JStr destination_zone)
          @ opt_entry ''modifier'' (map_option JStr modifier)
          @ opt_entry ''orderMatters'' (map_option JBool order_matters)
          @ opt_entry ''replacementAllowed'' (map_option JBool replacement_allowed))))))))"

definition known_operation :: "json \<Rightarrow> bool" where
  "known_operation v = (case v of JStr s \<Rightarrow> s \<in> set CHOICE_OPERATIONS | _ \<Rightarrow> False)"

definition normalize_choice_semantics :: "json \<Rightarrow> (string, json) dict" where
  "normalize_choice_semantics v = (case v of
     JObj raw \<Rightarrow>
       (let version = jget raw ''version''; operation = jget raw ''operation'' in
        if version \<noteq> JInt CHOICE_SEMANTICS_VERSION \<or> \<not> known_operation operation then unknown_semantics
        else if operation = JStr ''unknown'' then unknown_semantics
        else case semantics_fields raw of
          Inl _ \<Rightarrow> unknown_semantics
        | Inr optional \<Rightarrow> [(''version'', JInt CHOICE_SEMANTICS_VERSION), (''operation'', operation)] @ optional)
   | _ \<Rightarrow> unknown_semantics)"

section \<open>Pending choices\<close>

definition string_entry :: "(string, json) dict \<Rightarrow> string \<Rightarrow> (string, json) dict" where
  "string_entry raw k = (case jget raw k of JStr s \<Rightarrow> [(k, JStr s)] | _ \<Rightarrow> [])"

definition count_entry :: "(string, json) dict \<Rightarrow> string \<Rightarrow> (string, json) dict" where
  "count_entry raw k = opt_entry k (map_option JInt (nonnegative_int_or_none (jget raw k)))"

definition bool_entry :: "(string, json) dict \<Rightarrow> string \<Rightarrow> (string, json) dict" where
  "bool_entry raw k = (case jget raw k of JBool b \<Rightarrow> [(k, JBool b)] | _ \<Rightarrow> [])"

text \<open>The option objects that are published, and their valid ids.\<close>

definition published_option :: "(string, json) dict \<Rightarrow> (string, json) dict" where
  "published_option raw = (if valid_token (jget raw ''optionId'') then raw else dpop ''optionId'' raw)"

definition option_objects :: "json list \<Rightarrow> (string, json) dict list" where
  "option_objects xs = concat (map (\<lambda>x. case x of JObj d \<Rightarrow> [d] | _ \<Rightarrow> []) xs)"

definition option_ids_of :: "json list \<Rightarrow> string list" where
  "option_ids_of xs = map (\<lambda>d. json_str (jget d ''optionId''))
     (filter (\<lambda>d. valid_token (jget d ''optionId'')) (option_objects xs))"

definition selected_ids_of :: "(string, json) dict \<Rightarrow> string list" where
  "selected_ids_of raw = (case jget raw ''selectedOptionIds'' of
       JArr xs \<Rightarrow> map json_str (filter valid_token xs) | _ \<Rightarrow> [])"

definition selected_entry :: "(string, json) dict \<Rightarrow> (string, json) dict" where
  "selected_entry raw = (case jget raw ''selectedOptionIds'' of
     JArr _ \<Rightarrow> [(''selectedOptionIds'', JArr (map JStr (selected_ids_of raw)))] | _ \<Rightarrow> [])"

definition options_entry :: "(string, json) dict \<Rightarrow> (string, json) dict" where
  "options_entry raw = (case jget raw ''options'' of
     JArr xs \<Rightarrow> [(''options'', JArr (map (\<lambda>d. JObj (published_option d)) (option_objects xs)))] | _ \<Rightarrow> [])"

definition options_of :: "(string, json) dict \<Rightarrow> json list" where
  "options_of raw = (case jget raw ''options'' of JArr xs \<Rightarrow> xs | _ \<Rightarrow> [])"

definition identity_valid :: "(string, json) dict \<Rightarrow> bool" where
  "identity_valid raw \<longleftrightarrow>
     (case jget raw ''selectedOptionIds'' of JArr xs \<Rightarrow> list_all valid_token xs | _ \<Rightarrow> False)
   \<and> (case jget raw ''options'' of
        JArr xs \<Rightarrow> list_all (\<lambda>x. case x of JObj d \<Rightarrow> valid_token (jget d ''optionId'') | _ \<Rightarrow> False) xs
      | _ \<Rightarrow> False)
   \<and> nonnegative_int_or_none (jget raw ''selectedCount'') = Some (int (length (selected_ids_of raw)))
   \<and> distinct (selected_ids_of raw) \<and> distinct (option_ids_of (options_of raw))
   \<and> list_all (\<lambda>i. i \<notin> set (option_ids_of (options_of raw))) (selected_ids_of raw)"

definition normalize_pending_choice :: "json \<Rightarrow> (string, json) dict" where
  "normalize_pending_choice v = (case v of
     JObj raw \<Rightarrow>
       (let normalized = normalize_choice_semantics (jget raw ''choiceSemantics'');
            semantics = (if \<not> identity_valid raw \<and> jget normalized ''operation'' \<noteq> JStr ''unknown''
                         then unknown_semantics else normalized)
        in string_entry raw ''choiceType'' @ string_entry raw ''scope''
         @ bool_entry raw ''scenarioRestorable''
         @ count_entry raw ''minSelect'' @ count_entry raw ''maxSelect'' @ count_entry raw ''selectedCount''
         @ selected_entry raw @ options_entry raw
         @ [(''choiceSemantics'', JObj semantics)]
         @ (if jget semantics ''operation'' \<noteq> JStr ''unknown''
            then opt_entry ''sourceEffectId'' (map_option JStr (safe_source_effect_id (jget raw ''sourceEffectId'')))
            else []))
   | _ \<Rightarrow> [])"

section \<open>Lemmas\<close>

lemma valid_token_iff: "valid_token v \<longleftrightarrow> (\<exists>s. v = JStr s \<and> opaque_token s)"
  by (cases v) (simp_all add: valid_token_def)

text \<open>Lookups in the pieces a normalised dict is put together from.\<close>

lemma jget_append: "jget (d @ e) k = (if dhas d k then jget d k else jget e k)"
  by (auto simp: jget_def dhas_def map_add_def split: option.split)

lemma jget_Nil [simp]: "jget [] k = JNull"
  by (simp add: jget_def)

lemma jget_Cons [simp]: "jget ((k', v) # d) k = (if k = k' then v else jget d k)"
  by (simp add: jget_def)

lemma dhas_Nil [simp]: "\<not> dhas [] k"
  by (simp add: dhas_def)

lemma dhas_Cons [simp]: "dhas ((k', v) # d) k \<longleftrightarrow> k = k' \<or> dhas d k"
  by (auto simp: dhas_def)

lemma dhas_append [simp]: "dhas (d @ e) k \<longleftrightarrow> dhas d k \<or> dhas e k"
  by (auto simp: dhas_def map_add_def split: option.split)

lemma opt_entry_simps [simp]:
  "opt_entry k None = []"
  "opt_entry k (Some x) = [(k, x)]"
  "dhas (opt_entry k v) k' \<longleftrightarrow> k' = k \<and> v \<noteq> None"
  "jget (opt_entry k v) k' = (if k' = k then (case v of None \<Rightarrow> JNull | Some x \<Rightarrow> x) else JNull)"
  by (auto simp: opt_entry_def split: option.split)

text \<open>An accepted value normalises to itself, \<open>None\<close> to a missing key.\<close>

definition opt_json :: "('a \<Rightarrow> json) \<Rightarrow> 'a option \<Rightarrow> json" where
  "opt_json f v = (case v of None \<Rightarrow> JNull | Some x \<Rightarrow> f x)"

lemma enum_or_none_again: "enum_or_none v allowed = Inr r \<Longrightarrow> enum_or_none (opt_json JStr r) allowed = Inr r"
  by (auto simp: enum_or_none_def opt_json_def split: json.splits if_splits)

lemma bool_or_none_again: "bool_or_none v = Inr r \<Longrightarrow> bool_or_none (opt_json JBool r) = Inr r"
  by (auto simp: bool_or_none_def opt_json_def split: json.splits)

lemma opt_json_entry:
  "jget (opt_entry k (map_option f v) @ d) k' = (if k' = k \<and> v \<noteq> None then opt_json f v else jget d k')"
  by (auto simp: jget_append opt_json_def split: option.split)

lemma semantics_fields_Inr:
  assumes "semantics_fields raw = Inr opt"
  obtains e s d m o' r where
    "opt = opt_entry ''effect'' (map_option JStr e) @ opt_entry ''sourceZone'' (map_option JStr s)
       @ opt_entry ''destinationZone'' (map_option JStr d) @ opt_entry ''modifier'' (map_option JStr m)
       @ opt_entry ''orderMatters'' (map_option JBool o') @ opt_entry ''replacementAllowed'' (map_option JBool r)"
    "enum_or_none (opt_json JStr e) CHOICE_EFFECTS = Inr e" "enum_or_none (opt_json JStr s) CHOICE_ZONES = Inr s"
    "enum_or_none (opt_json JStr d) CHOICE_ZONES = Inr d" "enum_or_none (opt_json JStr m) CHOICE_MODIFIERS = Inr m"
    "bool_or_none (opt_json JBool o') = Inr o'" "bool_or_none (opt_json JBool r) = Inr r"
  using assms unfolding semantics_fields_def sbind_eq_Inr
  by (elim exE conjE) (rule that; (erule enum_or_none_again bool_or_none_again | simp))

lemma opt_json_get:
  "(case map_option f v of None \<Rightarrow> JNull | Some x \<Rightarrow> x) = opt_json f v"
  by (simp add: opt_json_def split: option.split)

lemma semantics_fields_again:
  assumes "semantics_fields raw = Inr opt"
  shows "semantics_fields ([(''version'', a), (''operation'', b)] @ opt) = Inr opt"
  using assms
  by (elim semantics_fields_Inr) (simp add: semantics_fields_def jget_append opt_json_get opt_json_def
      split: option.splits)

lemma semantics_idempotent:
  "normalize_choice_semantics (JObj (normalize_choice_semantics v)) = normalize_choice_semantics v"
proof -
  have u: "normalize_choice_semantics (JObj unknown_semantics) = unknown_semantics"
    by (simp add: normalize_choice_semantics_def unknown_semantics_def Let_def known_operation_def
        CHOICE_OPERATIONS_def)
  show ?thesis
  proof (cases "\<exists>raw opt. v = JObj raw \<and> jget raw ''version'' = JInt 1 \<and> known_operation (jget raw ''operation'')
      \<and> jget raw ''operation'' \<noteq> JStr ''unknown'' \<and> semantics_fields raw = Inr opt")
    case True
    then obtain raw opt where v: "v = JObj raw" "jget raw ''version'' = JInt 1"
        "known_operation (jget raw ''operation'')" "jget raw ''operation'' \<noteq> JStr ''unknown''"
        "semantics_fields raw = Inr opt" by blast
    then have n: "normalize_choice_semantics v = [(''version'', JInt 1), (''operation'', jget raw ''operation'')] @ opt"
      by (simp add: normalize_choice_semantics_def)
    show ?thesis
      unfolding n using v semantics_fields_again [OF v(5), of "JInt 1" "jget raw ''operation''"]
      by (simp add: normalize_choice_semantics_def)
  next
    case False
    then have "normalize_choice_semantics v = unknown_semantics"
      by (auto simp: normalize_choice_semantics_def Let_def split: json.split sum.split)
    with u show ?thesis by simp
  qed
qed

lemma semantics_vocabulary:
  "list_all (\<lambda>k. k \<in> set PUBLIC_CHOICE_SEMANTICS_KEYS) (dkeys (normalize_choice_semantics v))"
proof -
  have "list_all (\<lambda>k. k \<in> set PUBLIC_CHOICE_SEMANTICS_KEYS) (dkeys opt)" if "semantics_fields raw = Inr opt" for raw opt
    using that
    by (elim semantics_fields_Inr)
      (auto simp: PUBLIC_CHOICE_SEMANTICS_KEYS_def opt_entry_def split: option.splits)
  then show ?thesis
    by (auto simp: normalize_choice_semantics_def unknown_semantics_def Let_def PUBLIC_CHOICE_SEMANTICS_KEYS_def
        split: json.split sum.split)
qed

text \<open>Each piece of a published choice has at most the one key it is named after.\<close>

lemma entry_keys [simp]:
  "P k \<Longrightarrow> list_all P (dkeys (string_entry raw k))"
  "P k \<Longrightarrow> list_all P (dkeys (count_entry raw k))"
  "P k \<Longrightarrow> list_all P (dkeys (bool_entry raw k))"
  "P k \<Longrightarrow> list_all P (dkeys (opt_entry k v))"
  "P ''selectedOptionIds'' \<Longrightarrow> list_all P (dkeys (selected_entry raw))"
  "P ''options'' \<Longrightarrow> list_all P (dkeys (options_entry raw))"
  by (simp_all add: string_entry_def count_entry_def bool_entry_def opt_entry_def selected_entry_def
      options_entry_def split: json.split option.split)

lemma entry_has [simp]:
  "k' \<noteq> k \<Longrightarrow> \<not> dhas (string_entry raw k) k'"
  "k' \<noteq> k \<Longrightarrow> \<not> dhas (count_entry raw k) k'"
  "k' \<noteq> k \<Longrightarrow> \<not> dhas (bool_entry raw k) k'"
  "k' \<noteq> ''selectedOptionIds'' \<Longrightarrow> \<not> dhas (selected_entry raw) k'"
  "k' \<noteq> ''options'' \<Longrightarrow> \<not> dhas (options_entry raw) k'"
  by (simp_all add: string_entry_def count_entry_def bool_entry_def selected_entry_def
      options_entry_def split: json.split)

lemma pending_keys:
  "list_all (\<lambda>k. k \<in> set PUBLIC_PENDING_CHOICE_KEYS) (dkeys (normalize_pending_choice v))"
proof (cases v)
  case (JObj raw)
  have "list_all P (dkeys (normalize_pending_choice v))" if "list_all P PUBLIC_PENDING_CHOICE_KEYS" for P
    using that by (simp add: JObj normalize_pending_choice_def PUBLIC_PENDING_CHOICE_KEYS_def Let_def)
  from this [of "\<lambda>k. k \<in> set PUBLIC_PENDING_CHOICE_KEYS"] show ?thesis by (simp add: list_all_iff)
qed (simp_all add: normalize_pending_choice_def)

text \<open>What a reader of the published choice sees as its identity.\<close>

definition public_ids :: "json \<Rightarrow> string list" where
  "public_ids v = (case v of JArr xs \<Rightarrow> map json_str xs | _ \<Rightarrow> [])"

definition public_option_ids :: "json \<Rightarrow> string list" where
  "public_option_ids v = (case v of JArr xs \<Rightarrow> map (\<lambda>x. json_str (jget (json_obj x) ''optionId'')) xs | _ \<Rightarrow> [])"

definition public_operation :: "(string, json) dict \<Rightarrow> json" where
  "public_operation d = jget (json_obj (jget d ''choiceSemantics'')) ''operation''"

lemma jget_absent: "\<not> dhas d k \<Longrightarrow> jget d k = JNull"
  by (simp add: dhas_def jget_def)

lemma jget_skip: "\<not> dhas d k \<Longrightarrow> jget (d @ e) k = jget e k"
  by (simp add: jget_append)

lemma jget_stop: "\<not> dhas e k \<Longrightarrow> jget (d @ e) k = jget d k"
  by (simp add: jget_append jget_absent)

lemma pending_lookups:
  "jget (normalize_pending_choice (JObj raw)) ''selectedOptionIds'' =
     (case jget raw ''selectedOptionIds'' of JArr _ \<Rightarrow> JArr (map JStr (selected_ids_of raw)) | _ \<Rightarrow> JNull)"
  "jget (normalize_pending_choice (JObj raw)) ''options'' =
     (case jget raw ''options'' of
        JArr xs \<Rightarrow> JArr (map (\<lambda>d. JObj (published_option d)) (option_objects xs)) | _ \<Rightarrow> JNull)"
  "jget (normalize_pending_choice (JObj raw)) ''selectedCount'' =
     opt_json JInt (nonnegative_int_or_none (jget raw ''selectedCount''))"
  "public_operation (normalize_pending_choice (JObj raw)) =
     (if identity_valid raw then jget (normalize_choice_semantics (jget raw ''choiceSemantics'')) ''operation''
      else JStr ''unknown'')"
proof -
  show "jget (normalize_pending_choice (JObj raw)) ''selectedOptionIds'' =
     (case jget raw ''selectedOptionIds'' of JArr _ \<Rightarrow> JArr (map JStr (selected_ids_of raw)) | _ \<Rightarrow> JNull)"
    by (simp add: normalize_pending_choice_def Let_def jget_skip jget_stop)
      (simp add: selected_entry_def split: json.split)
  show "jget (normalize_pending_choice (JObj raw)) ''options'' =
     (case jget raw ''options'' of
        JArr xs \<Rightarrow> JArr (map (\<lambda>d. JObj (published_option d)) (option_objects xs)) | _ \<Rightarrow> JNull)"
    by (simp add: normalize_pending_choice_def Let_def jget_skip jget_stop)
      (simp add: options_entry_def split: json.split)
  show "jget (normalize_pending_choice (JObj raw)) ''selectedCount'' =
     opt_json JInt (nonnegative_int_or_none (jget raw ''selectedCount''))"
    by (simp add: normalize_pending_choice_def Let_def jget_skip jget_stop)
      (simp add: count_entry_def opt_json_def split: option.split)
  show "public_operation (normalize_pending_choice (JObj raw)) =
     (if identity_valid raw then jget (normalize_choice_semantics (jget raw ''choiceSemantics'')) ''operation''
      else JStr ''unknown'')"
    by (simp add: normalize_pending_choice_def public_operation_def Let_def jget_skip)
      (simp add: unknown_semantics_def)
qed

lemma all_options_valid:
  "list_all (\<lambda>x. case x of JObj d \<Rightarrow> valid_token (jget d ''optionId'') | _ \<Rightarrow> False) xs \<Longrightarrow>
   public_option_ids (JArr (map (\<lambda>d. JObj (published_option d)) (option_objects xs))) = option_ids_of xs
   \<and> list_all valid_token (map JStr (option_ids_of xs))"
proof (induction xs)
  case (Cons x xs)
  then show ?case
    by (cases x) (auto simp: public_option_ids_def option_objects_def option_ids_of_def published_option_def
        valid_token_def split: json.splits)
qed (simp add: public_option_ids_def option_objects_def option_ids_of_def)

lemma all_selected_valid: "list_all valid_token (map JStr (selected_ids_of raw))"
  by (auto simp: selected_ids_of_def list_all_iff valid_token_iff split: json.splits)

section \<open>Properties\<close>

text \<open>
  The normalised semantics are a fixed point: normalising what was published gives the same
  descriptor again, and every key of it belongs to the public vocabulary.
\<close>

theorem choice_semantics_canonical:
  "normalize_choice_semantics (JObj (normalize_choice_semantics v)) = normalize_choice_semantics v
   \<and> list_all (\<lambda>k. k \<in> set PUBLIC_CHOICE_SEMANTICS_KEYS) (dkeys (normalize_choice_semantics v))"
  using semantics_idempotent semantics_vocabulary by blast

text \<open>
  Identity is all or nothing: a published choice whose operation is not \<open>unknown\<close> has
  valid, pairwise distinct selected ids and option ids, the two sets are disjoint, and the
  published count is the number of selected ids.
\<close>

theorem choice_identity_all_or_nothing:
  assumes "public_operation d \<noteq> JStr ''unknown''" "d = normalize_pending_choice (JObj raw)"
  shows "distinct (public_ids (jget d ''selectedOptionIds'') @ public_option_ids (jget d ''options''))
    \<and> list_all opaque_token (public_ids (jget d ''selectedOptionIds'') @ public_option_ids (jget d ''options''))
    \<and> jget d ''selectedCount'' = JInt (int (length (public_ids (jget d ''selectedOptionIds''))))"
proof -
  have iv: "identity_valid raw" using assms by (auto simp: pending_lookups split: if_splits)
  then obtain xs ys where xs: "jget raw ''selectedOptionIds'' = JArr xs" and ys: "jget raw ''options'' = JArr ys"
      "list_all (\<lambda>x. case x of JObj d \<Rightarrow> valid_token (jget d ''optionId'') | _ \<Rightarrow> False) ys"
    by (auto simp: identity_valid_def split: json.splits)
  have sel: "public_ids (jget d ''selectedOptionIds'') = selected_ids_of raw"
    by (simp add: assms(2) pending_lookups xs public_ids_def comp_def)
  have opts: "public_option_ids (jget d ''options'') = option_ids_of ys"
    using all_options_valid [OF ys(2)] by (simp add: assms(2) pending_lookups ys)
  have "list_all opaque_token (selected_ids_of raw)" "list_all opaque_token (option_ids_of ys)"
    using all_selected_valid [of raw] all_options_valid [OF ys(2)]
    by (simp_all add: list_all_iff valid_token_def)
  moreover have "jget d ''selectedCount'' = JInt (int (length (selected_ids_of raw)))"
    using iv by (simp add: assms(2) pending_lookups identity_valid_def opt_json_def)
  ultimately show ?thesis
    using iv unfolding sel opts by (auto simp: identity_valid_def options_of_def ys list_all_iff)
qed

theorem choice_identity_all_or_nothing_witness:
  "let raw = [(''selectedCount'', JInt 1), (''selectedOptionIds'', JArr [JStr ''o1'']),
        (''options'', JArr [JObj [(''optionId'', JStr ''o2'')]]),
        (''choiceSemantics'', JObj [(''version'', JInt 1), (''operation'', JStr ''exhaust'')])];
       d = normalize_pending_choice (JObj raw)
   in distinct (public_ids (jget d ''selectedOptionIds'') @ public_option_ids (jget d ''options''))
    \<and> list_all opaque_token (public_ids (jget d ''selectedOptionIds'') @ public_option_ids (jget d ''options''))
    \<and> jget d ''selectedCount'' = JInt (int (length (public_ids (jget d ''selectedOptionIds''))))"
  unfolding Let_def
  by (rule choice_identity_all_or_nothing [OF _ refl]) code_simp

end
