(* ===== verification/Api_Masking.thy ===== *)
theory Api_Masking
  imports Choice_Cards Py_Numbers
begin

text \<open>
  The public state the trainer sees: \<open>API/masking.py\<close>.  \<open>scrub\<close> walks the whole value, drops every
  key that matches a forbidden pattern, replaces the ordered piles by counted multisets and
  normalises a pending choice.  It may raise: a pile with an unhashable or malformed field does.
  Cards are counted together when \<open>num_key\<close> (\<open>Py_Numbers\<close>) maps their fields to the same values.
\<close>

section \<open>Piles as multisets\<close>

definition FORBIDDEN_KEY_SUBSTRINGS :: "string list" where
  "FORBIDDEN_KEY_SUBSTRINGS =
     [''snapshot'', ''savestate'', ''save_state'', ''replay'', ''lease'', ''worker'', ''pid'',
      ''generation'', ''combatsessionid'', ''combat_session_id'', ''sessionid'', ''session_id'',
      ''context_id'', ''contextid'', ''rngstate'', ''rng_state'', ''runrng'', ''run_rng'', ''seed'',
      ''hypothesis'', ''shuffle'', ''cursor'', ''eventqueue'', ''event_queue'', ''encounterqueue'',
      ''encounter_queue'', ''futureevents'', ''future_events'', ''upcomingencounters'',
      ''upcoming_encounters'', ''bossqueue'', ''boss_queue'', ''ancientqueue'', ''ancient_queue'',
      ''unknown_fields'']"

definition MULTISET_PILE_KEYS :: "string list" where
  "MULTISET_PILE_KEYS = [''drawPile'', ''discardPile'', ''exhaustPile'']"

definition DELETE_KEYS :: "string list" where
  "DELETE_KEYS = [''playPile'', ''reward'']"

definition ALLOWLISTED_METRICS_EXTRAS_INFO_KEYS :: "string list" where
  "ALLOWLISTED_METRICS_EXTRAS_INFO_KEYS = []"

definition METRICS_EXTRAS_INFO_KEY_NAMES :: "string list" where
  "METRICS_EXTRAS_INFO_KEY_NAMES = [''metrics'', ''extras'', ''info'']"

definition upgrade_level :: "(string, json) dict \<Rightarrow> int res" where
  "upgrade_level entry = int_of_json (py_or (jget entry ''upgradeLevel'') (JInt 0))"

definition card_identity_key :: "(string, json) dict \<Rightarrow> json list res" where
  "card_identity_key entry =
     sbind (upgrade_level entry) (\<lambda>level.
       case py_or (jget entry ''enchantment'') (JObj []) of
         JObj enchantment \<Rightarrow> Inr
           [jget entry ''id'', jget entry ''type'', jget entry ''rarity'', jget entry ''cost'', jget entry ''targetType'',
            JBool (truthy (jget entry ''upgraded'')), JInt level,
            jget entry ''tinkerTimeType'', jget entry ''tinkerTimeRider'',
            jget enchantment ''id'', jget enchantment ''amount'', jget enchantment ''status'']
       | v \<Rightarrow> Inl (PyExc ''AttributeError''
               ([CHR 0x27] @ type_of_json v @ [CHR 0x27] @ '' object has no attribute '' @ repr_str ''get'')))"

text \<open>Using the tuple as a dict key.\<close>

definition hashed_key :: "(string, json) dict \<Rightarrow> json list res" where
  "hashed_key entry = sbind (card_identity_key entry) (\<lambda>key.
     if list_all hashable key then Inr key
     else Inl (PyExc ''TypeError'' (''unhashable type: '' @ [CHR 0x27]
                 @ type_of_json (hd (filter (\<lambda>p. \<not> hashable p) key)) @ [CHR 0x27])))"

definition key_sort_text :: "json list \<Rightarrow> string list" where
  "key_sort_text key = map (\<lambda>part. type_of_json part @ '':'' @ repr_json part) key"

definition public_enchantment :: "json \<Rightarrow> json" where
  "public_enchantment v = (case v of
       JObj e \<Rightarrow> JObj [(''id'', jget e ''id''), (''amount'', jget e ''amount''), (''status'', jget e ''status'')]
     | _ \<Rightarrow> JNull)"

definition public_card :: "(string, json) dict \<Rightarrow> nat \<Rightarrow> json" where
  "public_card entry n = JObj
     [(''id'', jget entry ''id''), (''type'', jget entry ''type''), (''rarity'', jget entry ''rarity''),
      (''cost'', jget entry ''cost''), (''targetType'', jget entry ''targetType''),
      (''upgraded'', JBool (truthy (jget entry ''upgraded''))),
      (''upgradeLevel'', JInt (case upgrade_level entry of Inr i \<Rightarrow> i | Inl _ \<Rightarrow> 0)),
      (''tinkerTimeType'', jget entry ''tinkerTimeType''), (''tinkerTimeRider'', jget entry ''tinkerTimeRider''),
      (''enchantment'', public_enchantment (jget entry ''enchantment'')), (''count'', JInt (int n))]"

text \<open>The cards that are counted, and the counter with its representatives, in insertion order.\<close>

definition pile_cards :: "json list \<Rightarrow> (string, json) dict list" where
  "pile_cards pile = concat (map (\<lambda>e. case e of JObj d \<Rightarrow> if jget d ''id'' = JNull then [] else [d] | _ \<Rightarrow> []) pile)"

type_synonym counted = "json list \<times> (string, json) dict \<times> nat"

fun count_card :: "json list \<Rightarrow> (string, json) dict \<Rightarrow> counted list \<Rightarrow> counted list" where
  "count_card key entry [] = [(key, entry, 1)]"
| "count_card key entry ((k, e, n) # cs) =
     (if map num_key k = map num_key key then (k, e, Suc n) # cs else (k, e, n) # count_card key entry cs)"

definition count_cards :: "(json list \<times> (string, json) dict) list \<Rightarrow> counted list" where
  "count_cards kes = foldl (\<lambda>cs (k, e). count_card k e cs) [] kes"

definition multiset_of :: "json \<Rightarrow> json list res" where
  "multiset_of v = (case v of
     JArr pile \<Rightarrow>
       sbind (map_res (\<lambda>e. sbind (hashed_key e) (\<lambda>k. Inr (k, e))) (pile_cards pile)) (\<lambda>kes.
         Inr (map (\<lambda>(k, e, n). public_card e n)
                (sort_key (\<lambda>(k, e, n). key_sort_text k) (count_cards kes))))
   | _ \<Rightarrow> Inr [])"

section \<open>Scrubbing\<close>

definition is_forbidden_key :: "string \<Rightarrow> bool" where
  "is_forbidden_key key = list_ex (\<lambda>pattern. str_contains pattern (str_lower key)) FORBIDDEN_KEY_SUBSTRINGS"

text \<open>A weight that goes down in every recursive call, also into a normalised pending choice.\<close>

fun jweight :: "json \<Rightarrow> nat" where
  "jweight (JArr xs) = 1 + sum_list (map jweight xs)"
| "jweight (JObj d) = 1 + sum_list (map (\<lambda>(k, v). (if k = ''pendingChoice'' then 40 else 1) + jweight v) d)"
| "jweight _ = 1"

definition entry_weight :: "string \<times> json \<Rightarrow> nat" where
  "entry_weight kv = (if fst kv = ''pendingChoice'' then 40 else 1) + jweight (snd kv)"

definition dict_weight :: "(string, json) dict \<Rightarrow> nat" where
  "dict_weight d = sum_list (map entry_weight d)"

lemma map_res_cong [fundef_cong]:
  "xs = ys \<Longrightarrow> (\<And>x. x \<in> set ys \<Longrightarrow> f x = g x) \<Longrightarrow> map_res f xs = map_res g ys"
  by (induction ys arbitrary: xs) (auto simp: sbind_def split: sum.split)

lemma sbind_cong [fundef_cong]:
  "m = n \<Longrightarrow> (\<And>x. n = Inr x \<Longrightarrow> f x = g x) \<Longrightarrow> sbind m f = sbind n g"
  by (cases n) simp_all

lemma jweight_JObj: "jweight (JObj d) = 1 + dict_weight d"
proof -
  have "map entry_weight d = map (\<lambda>(k, v). (if k = ''pendingChoice'' then 40 else 1) + jweight v) d"
    by (auto simp: entry_weight_def)
  then show ?thesis unfolding dict_weight_def by (simp only: jweight.simps)
qed

lemma jweight_pos [simp]: "0 < jweight v"
  by (cases v) simp_all

lemma entry_weight_le: "kv \<in> set d \<Longrightarrow> entry_weight kv \<le> dict_weight d"
  by (simp add: dict_weight_def member_le_sum_list)

lemma jweight_member: "x \<in> set xs \<Longrightarrow> jweight x < jweight (JArr xs)"
  by (simp add: less_Suc_eq_le member_le_sum_list)

lemma jweight_value: "(k, v) \<in> set d \<Longrightarrow> jweight v < jweight (JObj d)"
  using entry_weight_le [of "(k, v)" d] by (simp add: jweight_JObj entry_weight_def del: jweight.simps split: if_splits)

lemma jweight_pending:
  "(''pendingChoice'', v) \<in> set d \<Longrightarrow> 40 + jweight v < jweight (JObj d)"
  using entry_weight_le [of "(''pendingChoice'', v)" d] by (simp add: jweight_JObj entry_weight_def del: jweight.simps)

lemma dict_weight_simps [simp]:
  "dict_weight [] = 0"
  "dict_weight (kv # d) = entry_weight kv + dict_weight d"
  "dict_weight (d @ e) = dict_weight d + dict_weight e"
  by (simp_all add: dict_weight_def)

lemma dict_weight_dpop: "dict_weight (dpop k d) \<le> dict_weight d"
  by (induction d) (auto simp: dpop_def)

text \<open>The values under distinct keys weigh together no more than the dict.\<close>

definition key_weight :: "(string, json) dict \<Rightarrow> string \<Rightarrow> nat" where
  "key_weight d k = (case dget d k of None \<Rightarrow> 0 | Some v \<Rightarrow> entry_weight (k, v))"

lemma sum_if_distinct: "distinct ks \<Longrightarrow> sum_list (map (\<lambda>k. if k = a then w else (0 :: nat)) ks) \<le> w"
proof (induction ks)
  case (Cons k ks)
  have "a \<notin> set ks \<Longrightarrow> sum_list (map (\<lambda>k. if k = a then w else 0) ks) = 0"
    by (simp add: sum_list_eq_0_iff)
  with Cons show ?case by auto
qed simp

lemma key_weights_le: "distinct ks \<Longrightarrow> sum_list (map (key_weight d) ks) \<le> dict_weight d"
proof (induction d)
  case Nil
  have "sum_list (map (key_weight []) ks) = 0" by (simp add: key_weight_def sum_list_eq_0_iff)
  then show ?case by simp
next
  case (Cons kv d)
  obtain k0 v0 where kv: "kv = (k0, v0)" by (cases kv)
  have "key_weight (kv # d) k \<le> (if k = k0 then entry_weight kv else 0) + key_weight d k" for k
    by (simp add: key_weight_def kv)
  then have "sum_list (map (key_weight (kv # d)) ks)
      \<le> sum_list (map (\<lambda>k. (if k = k0 then entry_weight kv else 0) + key_weight d k) ks)"
    by (intro sum_list_mono)
  also have "\<dots> = sum_list (map (\<lambda>k. if k = k0 then entry_weight kv else 0) ks) + sum_list (map (key_weight d) ks)"
    by (rule sum_list_addf)
  also have "\<dots> \<le> entry_weight kv + dict_weight d"
    using Cons sum_if_distinct by (intro add_mono) auto
  finally show ?case by simp
qed

lemma jget_weight: "k \<noteq> ''pendingChoice'' \<Longrightarrow> jget d k \<noteq> JNull \<Longrightarrow> key_weight d k = 1 + jweight (jget d k)"
  by (simp add: jget_def key_weight_def entry_weight_def split: option.splits)

lemma sum_filter_map: "(\<And>x. x \<in> set xs \<Longrightarrow> f x \<le> g x) \<Longrightarrow>
    sum_list (map f (filter P xs)) \<le> sum_list (map (g :: 'a \<Rightarrow> nat) xs)"
  by (induction xs) (auto intro: add_mono le_trans trans_le_add2)

lemma published_options_weight:
  "sum_list (map (jweight \<circ> (\<lambda>d. JObj (published_option d))) (option_objects xs)) \<le> sum_list (map jweight xs)"
proof (induction xs)
  case (Cons x xs)
  then show ?case
    using dict_weight_dpop [of "''optionId''"]
    by (cases x) (auto simp: option_objects_def published_option_def jweight_JObj simp del: jweight.simps(2)
        intro!: add_mono)
qed (simp add: option_objects_def)

lemma selected_weight:
  "sum_list (map (jweight \<circ> (JStr \<circ> json_str)) (filter valid_token xs)) \<le> sum_list (map jweight xs)"
  by (rule sum_filter_map) (simp add: Suc_le_eq)

lemma entry_weights:
  assumes "k \<noteq> ''pendingChoice''"
  shows "dict_weight (string_entry raw k) \<le> key_weight raw k"
    and "dict_weight (count_entry raw k) \<le> key_weight raw k"
    and "dict_weight (bool_entry raw k) \<le> key_weight raw k"
    and "dict_weight (opt_entry k (map_option JStr (safe_source_effect_id (jget raw k)))) \<le> key_weight raw k"
  using assms jget_weight [OF assms, of raw]
  by (auto simp: string_entry_def count_entry_def bool_entry_def opt_entry_def entry_weight_def
      nonnegative_int_or_none_def safe_source_effect_id_def valid_token_iff split: json.splits option.splits if_splits)

lemma entry_weights_lists:
  "dict_weight (selected_entry raw) \<le> key_weight raw ''selectedOptionIds''"
  "dict_weight (options_entry raw) \<le> key_weight raw ''options''"
  using jget_weight [of "''selectedOptionIds''" raw] jget_weight [of "''options''" raw]
    selected_weight published_options_weight
  by (auto simp: selected_entry_def options_entry_def entry_weight_def selected_ids_of_def split: json.splits)

lemma semantics_weight: "dict_weight (normalize_choice_semantics v) \<le> 16"
proof -
  have "dict_weight opt \<le> 12" if "semantics_fields raw = Inr opt" for raw opt
    using that by (elim semantics_fields_Inr) (auto simp: opt_entry_def entry_weight_def split: option.split)
  moreover have "jweight (jget raw ''operation'') = 1" if "known_operation (jget raw ''operation'')" for raw
    using that by (simp add: known_operation_def split: json.splits)
  ultimately show ?thesis
    by (fastforce simp: normalize_choice_semantics_def unknown_semantics_def entry_weight_def Let_def
        split: json.split sum.split)
qed

lemma normalized_weight: "jweight (JObj (normalize_pending_choice v)) < 40 + jweight v"
proof (cases v)
  case (JObj raw)
  let ?ks = "[''choiceType'', ''scope'', ''scenarioRestorable'', ''minSelect'', ''maxSelect'', ''selectedCount'',
    ''selectedOptionIds'', ''options'', ''sourceEffectId'']"
  have "sum_list (map (key_weight raw) ?ks) \<le> dict_weight raw" by (rule key_weights_le) simp
  moreover have "dict_weight (normalize_pending_choice v) \<le> 18 + sum_list (map (key_weight raw) ?ks)"
    using entry_weights [of "''choiceType''" raw] entry_weights [of "''scope''" raw]
      entry_weights [of "''scenarioRestorable''" raw] entry_weights [of "''minSelect''" raw]
      entry_weights [of "''maxSelect''" raw] entry_weights [of "''selectedCount''" raw]
      entry_weights [of "''sourceEffectId''" raw] entry_weights_lists [of raw]
      semantics_weight [of "jget raw ''choiceSemantics''"]
    by (simp add: JObj normalize_pending_choice_def Let_def entry_weight_def jweight_JObj unknown_semantics_def
        del: jweight.simps(2))
  ultimately show ?thesis by (simp add: JObj jweight_JObj del: jweight.simps)
qed (simp_all add: normalize_pending_choice_def)

text \<open>
  \<open>_scrub\<close>: each entry of a dict is dropped (\<open>None\<close>) or kept with its scrubbed value; the first
  exception ends the walk.
\<close>

definition kept_entries :: "(string \<times> json) option list \<Rightarrow> (string, json) dict" where
  "kept_entries es = concat (map (\<lambda>e. case e of None \<Rightarrow> [] | Some kv \<Rightarrow> [kv]) es)"

function scrub :: "json \<Rightarrow> json res" where
  "scrub (JObj d) = sbind (map_res (\<lambda>(key, v).
       if is_forbidden_key key then Inr None
       else if key \<in> set DELETE_KEYS then Inr None
       else if key \<in> set MULTISET_PILE_KEYS then
         sbind (multiset_of v) (\<lambda>m. Inr (Some (key, JArr m)))
       else if key = ''pendingChoice'' then
         sbind (scrub (JObj (normalize_pending_choice v))) (\<lambda>w. Inr (Some (key, w)))
       else if str_lower key \<in> set METRICS_EXTRAS_INFO_KEY_NAMES \<and> isinstance v TDict then
         sbind (map_res (\<lambda>(k', v'). sbind (scrub v') (\<lambda>w. Inr (k', w)))
                  (filter (\<lambda>kv. fst kv \<in> set ALLOWLISTED_METRICS_EXTRAS_INFO_KEYS) (json_obj v)))
           (\<lambda>kvs. Inr (Some (key, JObj kvs)))
       else sbind (scrub v) (\<lambda>w. Inr (Some (key, w)))) d)
     (\<lambda>es. Inr (JObj (kept_entries es)))"
| "scrub (JArr xs) = sbind (map_res scrub xs) (\<lambda>ys. Inr (JArr ys))"
| "scrub JNull = Inr JNull"
| "scrub (JBool b) = Inr (JBool b)"
| "scrub (JInt i) = Inr (JInt i)"
| "scrub (JFloat f) = Inr (JFloat f)"
| "scrub (JStr t) = Inr (JStr t)"
  by pat_completeness auto

lemma scrub_descends:
  "x \<in> set d \<Longrightarrow> (''pendingChoice'', v) = x \<Longrightarrow> jweight (JObj (normalize_pending_choice v)) < jweight (JObj d)"
  "x \<in> set d \<Longrightarrow> (k, v) = x \<Longrightarrow> jweight v < jweight (JObj d)"
  "x \<in> set d \<Longrightarrow> (k, v) = x \<Longrightarrow> isinstance v TDict \<Longrightarrow> y \<in> set (json_obj v) \<Longrightarrow> (k', v') = y
     \<Longrightarrow> jweight v' < jweight (JObj d)"
proof -
  show "jweight (JObj (normalize_pending_choice v)) < jweight (JObj d)" if "x \<in> set d" "(''pendingChoice'', v) = x"
    using jweight_pending [of v d] normalized_weight [of v] that by (simp del: jweight.simps)
  show *: "jweight v < jweight (JObj d)" if "x \<in> set d" "(k, v) = x"
    using that jweight_value by (metis)
  show "jweight v' < jweight (JObj d)" if "x \<in> set d" "(k, v) = x" "isinstance v TDict"
      "y \<in> set (json_obj v)" "(k', v') = y"
    using that * jweight_value [of k' v' "json_obj v"] by (cases v) (auto simp del: jweight.simps)
qed

termination scrub
  by (relation "measure jweight") (auto simp del: jweight.simps intro: scrub_descends jweight_member)

definition mask_public_fragment :: "json \<Rightarrow> json res" where
  "mask_public_fragment v = scrub v"

text \<open>The stamping of a masked state: terminal checks, then the versions.\<close>

definition stamp_masked :: "(string, json) dict \<Rightarrow> (string, json) dict res" where
  "stamp_masked masked =
     (let combat_terminal = (jget masked ''terminal'' = JBool True);
          run_terminal = (jget masked ''run_terminal'' = JBool True)
      in if combat_terminal \<and> run_terminal
         then Inl (PyExc ''RuntimeError'' ''masked_emulator_dto cannot be both terminal and run_terminal'')
         else
           let masked1 = (if combat_terminal then dset ''legal_actions'' (JArr []) masked
                          else if run_terminal \<and> dhas masked ''legal_actions''
                          then dset ''legal_actions'' (JArr []) masked else masked)
           in Inr (dset ''mask_version'' (JStr MASK_VERSION) (dset ''dto_version'' (JStr DTO_VERSION) masked1)))"

definition build_masked_emulator_dto :: "(string, json) dict \<Rightarrow> (string, json) dict \<Rightarrow> (string, json) dict res" where
  "build_masked_emulator_dto raw_state extra =
     sbind (mask_public_fragment (JObj raw_state)) (\<lambda>masked0.
     sbind (if extra \<noteq> [] then
              sbind (mask_public_fragment (JObj extra)) (\<lambda>e. Inr (dupdate (json_obj masked0) (json_obj e)))
            else Inr (json_obj masked0)) stamp_masked)"

definition mask_legal_actions :: "(string, json) dict list \<Rightarrow> json list res" where
  "mask_legal_actions actions = map_res (\<lambda>action.
     sbind (mask_public_fragment (JObj action)) (\<lambda>scrubbed.
       let d = json_obj scrubbed in
       Inr (JObj (if dhas d ''action_id'' then dset ''action_id'' (JStr (str_json (jget d ''action_id''))) d else d))))
     actions"

text \<open>What a value may show: no forbidden or deleted key at any depth.\<close>

definition public_key :: "string \<Rightarrow> bool" where
  "public_key k \<longleftrightarrow> \<not> is_forbidden_key k \<and> k \<notin> set DELETE_KEYS"

fun public_json :: "json \<Rightarrow> bool" where
  "public_json (JObj d) = list_all (\<lambda>(k, v). public_key k \<and> public_json v) d"
| "public_json (JArr xs) = list_all public_json xs"
| "public_json _ = True"

section \<open>Lemmas\<close>

lemma public_json_JObj: "public_json (JObj d) \<longleftrightarrow> (\<forall>(k, v) \<in> set d. public_key k \<and> public_json v)"
  by (auto simp: list_all_iff)

lemma public_hashable: "hashable v \<Longrightarrow> public_json v"
  by (cases v) simp_all

lemma hashed_key_cases:
  assumes "hashed_key e = Inr k"
  obtains level en where "py_or (jget e ''enchantment'') (JObj []) = JObj en" "list_all hashable
     [jget e ''id'', jget e ''type'', jget e ''rarity'', jget e ''cost'', jget e ''targetType'',
      jget e ''tinkerTimeType'', jget e ''tinkerTimeRider'', jget en ''id'', jget en ''amount'', jget en ''status'']"
proof (cases "py_or (jget e ''enchantment'') (JObj [])")
  case (JObj en)
  with assms show ?thesis
    by (intro that [of en]) (auto simp: hashed_key_def card_identity_key_def sbind_eq_Inr split: if_splits)
qed (use assms in \<open>auto simp: hashed_key_def card_identity_key_def sbind_eq_Inr\<close>)

lemma public_enchantment_public:
  assumes "hashed_key e = Inr k"
  shows "public_json (public_enchantment (jget e ''enchantment''))"
proof -
  have pk: "public_key ''id''" "public_key ''amount''" "public_key ''status''" by code_simp+
  obtain en where en: "py_or (jget e ''enchantment'') (JObj []) = JObj en"
      "list_all hashable [jget en ''id'', jget en ''amount'', jget en ''status'']"
    using assms by (elim hashed_key_cases) simp
  show ?thesis
  proof (cases "jget e ''enchantment''")
    case (JObj d)
    with en(1) have "en = d" by (auto simp: py_or_def split: if_splits)
    moreover have "public_json (jget en ''id'')" "public_json (jget en ''amount'')" "public_json (jget en ''status'')"
      using en(2) by (auto intro: public_hashable)
    ultimately show ?thesis using JObj pk by (simp add: public_enchantment_def)
  qed (simp_all add: public_enchantment_def)
qed

lemma card_keys_public:
  "list_all public_key [''id'', ''type'', ''rarity'', ''cost'', ''targetType'', ''upgraded'', ''upgradeLevel'',
     ''tinkerTimeType'', ''tinkerTimeRider'', ''enchantment'', ''count'']"
  by code_simp

lemma public_card_public:
  assumes "hashed_key e = Inr k"
  shows "public_json (public_card e n)"
  using card_keys_public public_enchantment_public [OF assms] assms
  by (elim hashed_key_cases) (auto simp: public_card_def intro: public_hashable)

lemma count_card_entries:
  "(k, e, n) \<in> set (count_card key entry cs) \<Longrightarrow> e = entry \<or> (\<exists>k n. (k, e, n) \<in> set cs)"
  by (induction key entry cs rule: count_card.induct) (auto split: if_splits)

lemma foldl_count_entries:
  "(k, e, n) \<in> set (foldl (\<lambda>cs (k, e). count_card k e cs) cs kes)
    \<Longrightarrow> (\<exists>k. (k, e) \<in> set kes) \<or> (\<exists>k n. (k, e, n) \<in> set cs)"
proof (induction kes arbitrary: cs)
  case (Cons ke kes)
  then show ?case by (cases ke) (fastforce dest: count_card_entries)
qed auto

lemma map_res_pair:
  "map_res (\<lambda>e. sbind (f e) (\<lambda>k. Inr (k, e))) es = Inr kes \<Longrightarrow> (k, e) \<in> set kes \<Longrightarrow> e \<in> set es \<and> f e = Inr k"
  by (induction es arbitrary: kes) (auto simp: sbind_eq_Inr)

lemma multiset_public: "multiset_of v = Inr m \<Longrightarrow> public_json (JArr m)"
proof (cases v)
  case (JArr pile)
  assume "multiset_of v = Inr m"
  then obtain kes where kes: "map_res (\<lambda>e. sbind (hashed_key e) (\<lambda>k. Inr (k, e))) (pile_cards pile) = Inr kes"
      "m = map (\<lambda>(k, e, n). public_card e n) (sort_key (\<lambda>(k, e, n). key_sort_text k) (count_cards kes))"
    by (auto simp: multiset_of_def JArr sbind_eq_Inr)
  have "public_json (public_card e n)" if "(k, e, n) \<in> set (count_cards kes)" for k e n
    using that foldl_count_entries [of k e n "[]" kes] map_res_pair [OF kes(1)] public_card_public
    by (auto simp: count_cards_def)
  then show ?thesis by (auto simp: kes(2) list_all_iff)
qed (auto simp: multiset_of_def)

lemma kept_entries_set: "kv \<in> set (kept_entries es) \<longleftrightarrow> Some kv \<in> set es"
proof (induction es)
  case (Cons e es)
  then show ?case by (cases e) (auto simp: kept_entries_def)
qed (simp add: kept_entries_def)

lemma scrub_public: "scrub v = Inr w \<Longrightarrow> public_json w"
proof (induction v arbitrary: w rule: scrub.induct)
  case (1 d)
  from "1.prems" obtain es where es: "w = JObj (kept_entries es)" and run: "map_res (\<lambda>(key, v).
       if is_forbidden_key key then Inr None
       else if key \<in> set DELETE_KEYS then Inr None
       else if key \<in> set MULTISET_PILE_KEYS then sbind (multiset_of v) (\<lambda>m. Inr (Some (key, JArr m)))
       else if key = ''pendingChoice'' then
         sbind (scrub (JObj (normalize_pending_choice v))) (\<lambda>w. Inr (Some (key, w)))
       else if str_lower key \<in> set METRICS_EXTRAS_INFO_KEY_NAMES \<and> isinstance v TDict then
         sbind (map_res (\<lambda>(k', v'). sbind (scrub v') (\<lambda>w. Inr (k', w)))
                  (filter (\<lambda>kv. fst kv \<in> set ALLOWLISTED_METRICS_EXTRAS_INFO_KEYS) (json_obj v)))
           (\<lambda>kvs. Inr (Some (key, JObj kvs)))
       else sbind (scrub v) (\<lambda>w. Inr (Some (key, w)))) d = Inr es"
    by (auto simp: sbind_eq_Inr)
  have "public_key k \<and> public_json v" if "Some (k, v) \<in> set es" for k v
  proof -
    from map_res_set [OF run that] obtain k0 v0 where x: "(k0, v0) \<in> set d" and f:
      "(if is_forbidden_key k0 then Inr None
       else if k0 \<in> set DELETE_KEYS then Inr None
       else if k0 \<in> set MULTISET_PILE_KEYS then sbind (multiset_of v0) (\<lambda>m. Inr (Some (k0, JArr m)))
       else if k0 = ''pendingChoice'' then
         sbind (scrub (JObj (normalize_pending_choice v0))) (\<lambda>w. Inr (Some (k0, w)))
       else if str_lower k0 \<in> set METRICS_EXTRAS_INFO_KEY_NAMES \<and> isinstance v0 TDict then
         sbind (map_res (\<lambda>(k', v'). sbind (scrub v') (\<lambda>w. Inr (k', w)))
                  (filter (\<lambda>kv. fst kv \<in> set ALLOWLISTED_METRICS_EXTRAS_INFO_KEYS) (json_obj v0)))
           (\<lambda>kvs. Inr (Some (k0, JObj kvs)))
       else sbind (scrub v0) (\<lambda>w. Inr (Some (k0, w)))) = Inr (Some (k, v))"
      by auto
    have k: "public_key k" "k0 = k"
      using f by (auto simp: public_key_def sbind_eq_Inr split: if_splits)
    have allow: "filter (\<lambda>kv. fst kv \<in> set ALLOWLISTED_METRICS_EXTRAS_INFO_KEYS) (json_obj v0) = []"
      by (simp add: ALLOWLISTED_METRICS_EXTRAS_INFO_KEYS_def)
    from f k consider
        m where "multiset_of v0 = Inr m" "v = JArr m"
      | "k = ''pendingChoice''" "k \<notin> set MULTISET_PILE_KEYS" "scrub (JObj (normalize_pending_choice v0)) = Inr v"
      | "v = JObj []"
      | "k \<notin> set MULTISET_PILE_KEYS" "k \<noteq> ''pendingChoice''"
        "\<not> (str_lower k \<in> set METRICS_EXTRAS_INFO_KEY_NAMES \<and> isinstance v0 TDict)" "scrub v0 = Inr v"
      unfolding allow public_key_def by (auto simp: sbind_eq_Inr split: if_splits)
    then have "public_json v"
    proof cases
      case 1
      then show ?thesis using multiset_public by blast
    next
      case 2
      then show ?thesis using "1.IH"(1) [OF x refl] k by (simp add: public_key_def)
    next
      case 3
      then show ?thesis by simp
    next
      case 4
      then show ?thesis using "1.IH"(3) [OF x refl] k by (simp add: public_key_def)
    qed
    with k show ?thesis by blast
  qed
  then show ?case using kept_entries_set by (auto simp: es list_all_iff)
next
  case (2 xs)
  then show ?case by (fastforce simp: sbind_eq_Inr list_all_iff dest: map_res_set)
qed auto

text \<open>The sort text of a hashable key determines the key.\<close>

lemma type_name_split:
  assumes "type_of_json v @ CHR '':'' # a = type_of_json w @ CHR '':'' # b"
  shows "type_of_json v = type_of_json w \<and> a = b"
  using assms by (cases v; cases w) simp_all

lemma part_text_inj:
  assumes "hashable v" "hashable w"
    and "type_of_json v @ '':'' @ repr_json v = type_of_json w @ '':'' @ repr_json w"
  shows "v = w"
  using type_name_split [of v "repr_json v" w "repr_json w"] assms
  by (cases v; cases w) (auto split: if_splits)

lemma key_sort_text_inj:
  assumes "list_all hashable j" "list_all hashable k" "key_sort_text j = key_sort_text k"
  shows "j = k"
proof (rule nth_equalityI)
  from assms(3) show len: "length j = length k" unfolding key_sort_text_def by (metis length_map)
  fix i assume i: "i < length j"
  then have "key_sort_text j ! i = key_sort_text k ! i" using assms(3) by simp
  with i len assms(1,2) show "j ! i = k ! i"
    by (intro part_text_inj) (simp_all add: key_sort_text_def list_all_length)
qed

text \<open>The counter: one entry per class of keys, with the number of its cards.\<close>

abbreviation key_class :: "json list \<Rightarrow> json list" where "key_class k \<equiv> map num_key k"

lemma count_card_classes:
  "map (key_class \<circ> fst) (count_card key entry cs)
     = (let c = map (key_class \<circ> fst) cs in if key_class key \<in> set c then c else c @ [key_class key])"
  by (induction key entry cs rule: count_card.induct) (auto simp: Let_def)

lemma count_card_member:
  assumes "(k, e, n) \<in> set (count_card key entry cs)" "distinct (map (key_class \<circ> fst) cs)"
  shows "key_class k \<noteq> key_class key \<and> (k, e, n) \<in> set cs
    \<or> key_class k = key_class key \<and> (\<exists>m. n = Suc m \<and> (k, e, m) \<in> set cs)
    \<or> key_class key \<notin> set (map (key_class \<circ> fst) cs) \<and> k = key \<and> e = entry \<and> n = 1"
  using assms
proof (induction key entry cs rule: count_card.induct)
  case (2 key entry k' e' n' cs)
  show ?case
  proof (cases "key_class k' = key_class key")
    case True
    with "2.prems" show ?thesis by (auto simp: rev_image_eqI)
  next
    case False
    then consider "(k, e, n) = (k', e', n')" | "(k, e, n) \<in> set (count_card key entry cs)"
      using "2.prems"(1) by auto
    then show ?thesis
    proof cases
      case 1
      with False show ?thesis by simp
    next
      case 2
      with "2.IH" [OF False] "2.prems"(2) False show ?thesis by auto
    qed
  qed
qed simp

definition class_count :: "json list \<Rightarrow> (json list \<times> (string, json) dict) list \<Rightarrow> nat" where
  "class_count c kes = length (filter (\<lambda>ke. key_class (fst ke) = c) kes)"

lemma count_cards_snoc: "count_cards (kes @ [(k, e)]) = count_card k e (count_cards kes)"
  by (simp add: count_cards_def)

lemma count_cards_spec:
  "distinct (map (key_class \<circ> fst) (count_cards kes))
   \<and> set (map (key_class \<circ> fst) (count_cards kes)) = set (map (key_class \<circ> fst) kes)
   \<and> (\<forall>(k, e, n) \<in> set (count_cards kes). (k, e) \<in> set kes \<and> n = class_count (key_class k) kes)"
proof (induction kes rule: rev_induct)
  case Nil
  show ?case by (simp add: count_cards_def)
next
  case (snoc ke kes)
  obtain key entry where ke: "ke = (key, entry)" by (cases ke)
  have d: "distinct (map (key_class \<circ> fst) (count_cards kes))"
    and s: "set (map (key_class \<circ> fst) (count_cards kes)) = set (map (key_class \<circ> fst) kes)"
    using snoc.IH by blast+
  have "(k, e) \<in> set (kes @ [ke]) \<and> n = class_count (key_class k) (kes @ [ke])"
    if "(k, e, n) \<in> set (count_cards (kes @ [ke]))" for k e n
  proof -
    have zero: "class_count (key_class key) kes = 0" if "key_class key \<notin> set (map (key_class \<circ> fst) (count_cards kes))"
      using that unfolding s by (force simp: class_count_def filter_empty_conv)
    show ?thesis
      using count_card_member [OF that [unfolded ke count_cards_snoc] d] snoc.IH zero
      by (auto simp: ke class_count_def)
  qed
  then show ?case
    using d s unfolding ke count_cards_snoc count_card_classes by (auto simp: Let_def)
qed

text \<open>
  Cards that are counted together are shown the same.  (The code does not guarantee it: an empty
  enchantment object and a missing one, or a cost of \<open>1\<close> and \<open>True\<close>, fall into one class.)
\<close>

definition uniform_pile :: "json list \<Rightarrow> bool" where
  "uniform_pile pile \<longleftrightarrow> (\<forall>d \<in> set (pile_cards pile). \<forall>e \<in> set (pile_cards pile).
     case (hashed_key d, hashed_key e) of
       (Inr j, Inr k) \<Rightarrow> key_class j = key_class k \<longrightarrow> j = k \<and> public_card d 0 = public_card e 0
     | _ \<Rightarrow> True)"

lemma public_card_count: "public_card d 0 = public_card e 0 \<Longrightarrow> public_card d n = public_card e n"
  by (simp add: public_card_def)

lemma map_res_pairs_mset:
  "map_res (\<lambda>e. sbind (f e) (\<lambda>k. Inr (k, e))) es = Inr kes \<longleftrightarrow>
     (\<forall>e \<in> set es. \<exists>k. f e = Inr k) \<and> kes = map (\<lambda>e. (projr (f e), e)) es"
  by (induction es arbitrary: kes) (auto simp: sbind_eq_Inr)

lemma mset_concat_map: "mset (concat (map g xs)) = sum_mset (image_mset (\<lambda>x. mset (g x)) (mset xs))"
  by (induction xs) simp_all

lemma pile_cards_mset: "mset p = mset q \<Longrightarrow> mset (pile_cards p) = mset (pile_cards q)"
  by (simp add: pile_cards_def mset_concat_map)

lemma class_count_mset: "mset kes = mset kes' \<Longrightarrow> class_count c kes = class_count c kes'"
  by (metis class_count_def mset_filter size_mset)

text \<open>What is shown of a counter entry, with its sort text.\<close>

definition shown :: "counted \<Rightarrow> string list \<times> json" where
  "shown x = (case x of (k, e, n) \<Rightarrow> (key_sort_text k, public_card e n))"

lemma shown_subset:
  assumes kes: "mset kes = mset kes'"
    and keyed: "\<forall>(k, e) \<in> set kes. hashed_key e = Inr k"
    and uniform: "\<And>j d k e. (j, d) \<in> set kes \<Longrightarrow> (k, e) \<in> set kes \<Longrightarrow> key_class j = key_class k
        \<Longrightarrow> j = k \<and> public_card d 0 = public_card e 0"
  shows "shown ` set (count_cards kes) \<subseteq> shown ` set (count_cards kes')"
proof
  fix y assume "y \<in> shown ` set (count_cards kes)"
  then obtain k e n where x: "(k, e, n) \<in> set (count_cards kes)" "y = shown (k, e, n)" by auto
  then have ke: "(k, e) \<in> set kes" "n = class_count (key_class k) kes"
    using count_cards_spec [of kes] by blast+
  have "key_class k \<in> set (map (key_class \<circ> fst) kes')"
    using ke(1) kes mset_eq_setD [OF kes] by (force simp: rev_image_eqI)
  then have "key_class k \<in> set (map (key_class \<circ> fst) (count_cards kes'))"
    using count_cards_spec [of kes'] by blast
  then obtain k' e' n' where x': "(k', e', n') \<in> set (count_cards kes')" "key_class k' = key_class k" by auto
  then have ke': "(k', e') \<in> set kes'" "n' = class_count (key_class k) kes'"
    using count_cards_spec [of kes'] by fastforce+
  from ke'(1) have "(k', e') \<in> set kes" by (simp only: mset_eq_setD [OF kes])
  from uniform [OF this ke(1) x'(2)] have "k' = k" "public_card e' 0 = public_card e 0" by simp_all
  moreover have "n' = n" using ke(2) ke'(2) class_count_mset [OF kes] by simp
  ultimately show "y \<in> shown ` set (count_cards kes')"
    using x x' public_card_count [of e' e n] by (auto simp: shown_def intro!: rev_image_eqI)
qed

lemma sorted_shown_unique:
  assumes set_eq: "shown ` set xs = shown ` set ys"
    and "distinct (map (fst \<circ> shown) xs)" "distinct (map (fst \<circ> shown) ys)"
  shows "map (snd \<circ> shown) (sort_key (fst \<circ> shown) xs) = map (snd \<circ> shown) (sort_key (fst \<circ> shown) ys)"
proof -
  let ?X = "map shown (sort_key (fst \<circ> shown) xs)" and ?Y = "map shown (sort_key (fst \<circ> shown) ys)"
  have "sorted (map fst ?X)" "sorted (map fst ?Y)"
    using sorted_sort_key [of "fst \<circ> shown"] by simp_all
  moreover have dx: "distinct (map fst ?X)" and dy: "distinct (map fst ?Y)"
    using assms(2,3) by (simp_all add: distinct_map)
  moreover have sets: "set ?X = set ?Y" using set_eq by simp
  moreover have "inj_on fst (set ?X \<union> set ?Y)" using dx unfolding sets distinct_map using dy by (simp add: distinct_map)
  ultimately have "?X = ?Y" by (metis map_sorted_distinct_set_unique)
  then show ?thesis by (metis map_map)
qed

lemma multiset_of_permutation:
  assumes perm: "mset p = mset q" and uniform: "uniform_pile p" and run: "multiset_of (JArr p) = Inr m"
  shows "multiset_of (JArr q) = Inr m"
proof -
  define kes where "kes = map (\<lambda>e. (projr (hashed_key e), e)) (pile_cards p)"
  define kes' where "kes' = map (\<lambda>e. (projr (hashed_key e), e)) (pile_cards q)"
  have ms: "mset kes = mset kes'"
    using pile_cards_mset [OF perm] by (simp add: kes_def kes'_def)
  have ok: "\<forall>e \<in> set (pile_cards p). \<exists>k. hashed_key e = Inr k"
    using run by (auto simp: multiset_of_def sbind_eq_Inr map_res_pairs_mset)
  then have ok': "\<forall>e \<in> set (pile_cards q). \<exists>k. hashed_key e = Inr k"
    using mset_eq_setD [OF pile_cards_mset [OF perm]] by simp
  have show_eq: "map (\<lambda>(k, e, n). public_card e n) (sort_key (\<lambda>(k, e, n). key_sort_text k) xs)
      = map (snd \<circ> shown) (sort_key (fst \<circ> shown) xs)" for xs
  proof -
    have "(\<lambda>(k, e, n). public_card e n) = snd \<circ> shown" "(\<lambda>(k, e, n). key_sort_text k) = fst \<circ> shown"
      by (auto simp: shown_def fun_eq_iff)
    then show ?thesis by simp
  qed
  have keyed: "\<forall>(k, e) \<in> set kes. hashed_key e = Inr k" using ok by (fastforce simp: kes_def)
  have unif: "j = k \<and> public_card d 0 = public_card e 0"
    if "(j, d) \<in> set kes" "(k, e) \<in> set kes" "key_class j = key_class k" for j d k e
  proof -
    have "hashed_key d = Inr j" "hashed_key e = Inr k" using that(1,2) keyed by auto
    moreover have "d \<in> set (pile_cards p)" "e \<in> set (pile_cards p)" using that(1,2) by (auto simp: kes_def)
    ultimately show ?thesis using uniform that(3) unfolding uniform_pile_def by force
  qed
  have dist: "distinct (map (fst \<circ> shown) (count_cards xs))" if "set xs = set kes" for xs
  proof -
    have "inj_on (fst \<circ> shown) (set (count_cards xs))"
    proof (rule inj_onI)
      fix x y assume x: "x \<in> set (count_cards xs)" and y: "y \<in> set (count_cards xs)"
        and eq: "(fst \<circ> shown) x = (fst \<circ> shown) y"
      obtain j d m where xd: "x = (j, d, m)" by (cases x)
      obtain k e n where ye: "y = (k, e, n)" by (cases y)
      have mem: "(j, d) \<in> set kes" "(k, e) \<in> set kes"
        using x y that count_cards_spec [of xs] unfolding xd ye by blast+
      then have "hashed_key d = Inr j" "hashed_key e = Inr k" using keyed by auto
      then have "list_all hashable j" "list_all hashable k"
        by (auto simp: hashed_key_def sbind_eq_Inr split: if_splits)
      with eq have "j = k" by (auto simp: xd ye shown_def intro: key_sort_text_inj)
      then have "(key_class \<circ> fst) x = (key_class \<circ> fst) y" by (simp add: xd ye)
      moreover have "inj_on (key_class \<circ> fst) (set (count_cards xs))"
        using count_cards_spec [of xs] by (simp only: distinct_map)
      ultimately show "x = y" using x y by (simp only: inj_on_eq_iff)
    qed
    moreover have "distinct (count_cards xs)" using count_cards_spec [of xs] by (simp add: distinct_map)
    ultimately show ?thesis by (simp add: distinct_map)
  qed
  have "shown ` set (count_cards kes) = shown ` set (count_cards kes')"
  proof
    show "shown ` set (count_cards kes) \<subseteq> shown ` set (count_cards kes')"
      using ms keyed unif by (rule shown_subset)
    have sets: "set kes' = set kes" using mset_eq_setD [OF ms] by simp
    show "shown ` set (count_cards kes') \<subseteq> shown ` set (count_cards kes)"
      using ms [symmetric] keyed unif unfolding sets [symmetric] by (rule shown_subset)
  qed
  moreover have "distinct (map (fst \<circ> shown) (count_cards kes))" by (rule dist) simp
  moreover have "distinct (map (fst \<circ> shown) (count_cards kes'))"
    by (rule dist) (simp only: mset_eq_setD [OF ms])
  ultimately have "map (snd \<circ> shown) (sort_key (fst \<circ> shown) (count_cards kes))
      = map (snd \<circ> shown) (sort_key (fst \<circ> shown) (count_cards kes'))"
    by (rule sorted_shown_unique)
  with run ok ok' show ?thesis
    by (auto simp: multiset_of_def sbind_eq_Inr map_res_pairs_mset show_eq simp flip: kes_def kes'_def)
qed

lemma set_dset: "set (dset k v d) \<subseteq> insert (k, v) (set d)"
  by (induction d) (auto simp: dset_def)

definition public_dict :: "(string, json) dict \<Rightarrow> bool" where
  "public_dict d \<longleftrightarrow> (\<forall>(k, v) \<in> set d. public_key k \<and> public_json v)"

lemma public_dset: "public_dict d \<Longrightarrow> public_key k \<Longrightarrow> public_json v \<Longrightarrow> public_dict (dset k v d)"
  using set_dset [of k v d] unfolding public_dict_def by blast

lemma public_dupdate: "public_dict d \<Longrightarrow> public_dict e \<Longrightarrow> public_dict (dupdate d e)"
proof (induction d e rule: dupdate.induct)
  case (2 d k v e)
  then show ?case by (auto simp: public_dset public_dict_def [of "(k, v) # e"] public_dict_def [of e])
qed simp

lemma scrub_public_dict: "scrub (JObj d) = Inr w \<Longrightarrow> public_dict (json_obj w)"
  using scrub_public [of "JObj d" w] by (auto simp: sbind_eq_Inr public_dict_def list_all_iff)

declare scrub.simps [simp del]

lemma stamp_keys_public: "public_key ''legal_actions''" "public_key ''dto_version''" "public_key ''mask_version''"
  by code_simp+

text \<open>
  Without uniformity the order shows: an empty enchantment and a missing one are counted together,
  and the first card of the pile decides which of the two is published.
\<close>

lemma representative_depends_on_order:
  "multiset_of (JArr [JObj [(''id'', JStr ''STRIKE''), (''enchantment'', JObj [])], JObj [(''id'', JStr ''STRIKE'')]])
   \<noteq> multiset_of (JArr [JObj [(''id'', JStr ''STRIKE'')], JObj [(''id'', JStr ''STRIKE''), (''enchantment'', JObj [])]])"
  by code_simp

section \<open>Properties\<close>

text \<open>
  C10.  Nothing hidden leaks: in every masked state no key at any depth matches a forbidden
  pattern or names a deleted field, whatever the emulator state and the extra fields contain, a
  finished combat offers no legal action, and the versions are stamped.
\<close>

theorem masked_state_hides_secrets:
  assumes "build_masked_emulator_dto raw_state extra = Inr d"
  shows "public_json (JObj d) \<and> jget d ''dto_version'' = JStr DTO_VERSION
    \<and> jget d ''mask_version'' = JStr MASK_VERSION
    \<and> \<not> (jget d ''terminal'' = JBool True \<and> jget d ''legal_actions'' \<noteq> JArr [])"
proof -
  from assms obtain m0 masked where m0: "scrub (JObj raw_state) = Inr m0"
    and m: "(if extra \<noteq> [] then sbind (scrub (JObj extra)) (\<lambda>e. Inr (dupdate (json_obj m0) (json_obj e)))
            else Inr (json_obj m0)) = Inr masked"
    and stamp: "stamp_masked masked = Inr d"
    unfolding build_masked_emulator_dto_def mask_public_fragment_def sbind_eq_Inr by blast
  have pub: "public_dict masked"
  proof (cases "extra = []")
    case True
    with m scrub_public_dict [OF m0] show ?thesis by simp
  next
    case False
    with m obtain e where "scrub (JObj extra) = Inr e" "masked = dupdate (json_obj m0) (json_obj e)"
      by (auto simp: sbind_eq_Inr)
    then show ?thesis using public_dupdate [OF scrub_public_dict [OF m0] scrub_public_dict] by simp
  qed
  from stamp have "public_dict d"
    using pub stamp_keys_public by (auto simp: stamp_masked_def Let_def public_dset split: if_splits)
  moreover from stamp have "jget d ''dto_version'' = JStr DTO_VERSION \<and> jget d ''mask_version'' = JStr MASK_VERSION
      \<and> \<not> (jget d ''terminal'' = JBool True \<and> jget d ''legal_actions'' \<noteq> JArr [])"
    by (auto simp: stamp_masked_def Let_def split: if_splits)
  ultimately show ?thesis by (simp add: public_dict_def public_json_JObj del: public_json.simps(1))
qed

theorem masked_state_hides_secrets_witness:
  "let d = projr (build_masked_emulator_dto
        [(''player'', JObj [(''hp'', JInt 7), (''rngState'', JInt 42)]), (''drawPile'', JArr [JObj [(''id'', JStr ''STRIKE'')]]),
         (''terminal'', JBool True), (''legal_actions'', JArr [JInt 1])] [])
   in public_json (JObj d) \<and> jget d ''dto_version'' = JStr DTO_VERSION
    \<and> jget d ''mask_version'' = JStr MASK_VERSION
    \<and> \<not> (jget d ''terminal'' = JBool True \<and> jget d ''legal_actions'' \<noteq> JArr [])"
  unfolding Let_def
proof (rule masked_state_hides_secrets)
  let ?r = "build_masked_emulator_dto
        [(''player'', JObj [(''hp'', JInt 7), (''rngState'', JInt 42)]), (''drawPile'', JArr [JObj [(''id'', JStr ''STRIKE'')]]),
         (''terminal'', JBool True), (''legal_actions'', JArr [JInt 1])] []"
  have "isl ?r = False" by code_simp
  then show "?r = Inr (projr ?r)" by (simp add: sum.collapse(2))
qed

text \<open>
  The order of a pile is hidden: two piles that are permutations of each other are published
  as the same list, provided cards that are counted together look the same.
\<close>

theorem pile_order_hidden:
  assumes "mset p = mset q" "uniform_pile p" "multiset_of (JArr p) = Inr m"
  shows "multiset_of (JArr q) = Inr m"
  using assms by (rule multiset_of_permutation)

theorem pile_order_hidden_witness:
  "multiset_of (JArr [JObj [(''id'', JStr ''DEFEND'')], JObj [(''id'', JStr ''STRIKE'')]])
     = Inr (projr (multiset_of (JArr [JObj [(''id'', JStr ''STRIKE'')], JObj [(''id'', JStr ''DEFEND'')]])))"
proof (rule pile_order_hidden)
  show "mset [JObj [(''id'', JStr ''STRIKE'')], JObj [(''id'', JStr ''DEFEND'')]]
      = mset [JObj [(''id'', JStr ''DEFEND'')], JObj [(''id'', JStr ''STRIKE'')]]"
    by simp
  show "uniform_pile [JObj [(''id'', JStr ''STRIKE'')], JObj [(''id'', JStr ''DEFEND'')]]"
    by code_simp
  let ?r = "multiset_of (JArr [JObj [(''id'', JStr ''STRIKE'')], JObj [(''id'', JStr ''DEFEND'')]])"
  have "isl ?r = False" by code_simp
  then show "?r = Inr (projr ?r)" by (simp add: sum.collapse(2))
qed

end
