(* ===== verification/Event_Rng.thy ===== *)
theory Event_Rng
  imports Py_Prelude "HOL-Library.Word"
begin

text \<open>
  The event-RNG hypotheses of a whole run (\<open>API/whole_run_event_rng.py\<close>): their derivation from
  an observed state, and the registry that shares one derived state between the branches that
  use it.  SHA-256 is the parameter \<open>H\<close> from byte strings to byte strings; a byte string is a
  list of characters.
\<close>

section \<open>Derivation\<close>

record rng_stream =
  rs_counter :: int
  rs_s0 :: int
  rs_s1 :: int
  rs_s2 :: int
  rs_s3 :: int

record event_state =
  es_event_id :: json
  es_streams :: "(string, rng_stream) dict"

definition STREAM_KEYS :: "string list" where
  "STREAM_KEYS = [''event_rng'', ''player_rewards_rng'', ''player_shops_rng'', ''player_transformations_rng'']"

definition COUNTER_SIGN_BIT :: int where "COUNTER_SIGN_BIT = 2 ^ 31"
definition COUNTER_MOD :: int where "COUNTER_MOD = 2 ^ 32"
definition U64_MOD :: int where "U64_MOD = 2 ^ 64"

definition canonical_stream_seed :: "json \<Rightarrow> string \<Rightarrow> rng_stream \<Rightarrow> int \<Rightarrow> string" where
  "canonical_stream_seed event_id name st rng_id =
     join_with ''|'' [str_json event_id, name, str_int rng_id, str_int (rs_counter st), str_int (rs_s0 st),
                      str_int (rs_s1 st), str_int (rs_s2 st), str_int (rs_s3 st)]"

definition hash_word :: "(string \<Rightarrow> string) \<Rightarrow> string \<Rightarrow> string \<Rightarrow> string" where
  "hash_word H seed word = H (seed @ ''|word='' @ word)"

text \<open>\<open>int.from_bytes(b, "big")\<close>.\<close>

definition int_from_bytes :: "string \<Rightarrow> int" where
  "int_from_bytes bs = foldl (\<lambda>a c. 256 * a + int (of_char c)) 0 bs"

definition counter_from_digest :: "string \<Rightarrow> int" where
  "counter_from_digest digest = (let v = int_from_bytes (take 4 digest) in
     if COUNTER_SIGN_BIT \<le> v then v - COUNTER_MOD else v)"

definition u64_from_digest :: "string \<Rightarrow> int" where
  "u64_from_digest digest = int_from_bytes (take 8 digest) mod U64_MOD"

definition derive_stream :: "(string \<Rightarrow> string) \<Rightarrow> string \<Rightarrow> rng_stream" where
  "derive_stream H seed =
     (let s0 = u64_from_digest (hash_word H seed ''s0'');
          s1 = u64_from_digest (hash_word H seed ''s1'');
          s2 = u64_from_digest (hash_word H seed ''s2'');
          s3 = u64_from_digest (hash_word H seed ''s3'')
      in \<lparr> rs_counter = counter_from_digest (hash_word H seed ''counter''),
           rs_s0 = (if s0 = 0 \<and> s1 = 0 \<and> s2 = 0 \<and> s3 = 0 then 1 else s0),
           rs_s1 = s1, rs_s2 = s2, rs_s3 = s3 \<rparr>)"

definition derive_event_rng_hypothesis ::
  "(string \<Rightarrow> string) \<Rightarrow> event_state \<Rightarrow> int \<Rightarrow> event_state res" where
  "derive_event_rng_hypothesis H base rng_id =
     (if rng_id \<le> 0 then Inl (PyExc ''ValueError'' ''rng_id must be a positive int'')
      else sbind (map_res (\<lambda>name. case dget (es_streams base) name of
                     None \<Rightarrow> Inl (PyExc ''KeyError'' (repr_str name))
                   | Some st \<Rightarrow> Inr (name, derive_stream H (canonical_stream_seed (es_event_id base) name st rng_id)))
                   STREAM_KEYS)
             (\<lambda>streams. Inr \<lparr> es_event_id = es_event_id base, es_streams = streams \<rparr>))"

section \<open>Registry\<close>

type_synonym hyp_key = "string \<times> string \<times> int"

record hypothesis_entry =
  he_state :: event_state
  he_generation :: nat

record hypothesis_registry =
  hr_entries :: "(hyp_key, hypothesis_entry) dict"
  hr_refs :: "(hyp_key, string list) dict"
  hr_generations :: "(hyp_key, nat) dict"

definition new_hypothesis_registry :: hypothesis_registry where
  "new_hypothesis_registry = \<lparr> hr_entries = [], hr_refs = [], hr_generations = [] \<rparr>"

definition generation_of :: "hyp_key \<Rightarrow> hypothesis_registry \<Rightarrow> nat" where
  "generation_of key r = (case dget (hr_generations r) key of None \<Rightarrow> 0 | Some n \<Rightarrow> n)"

definition is_live :: "hyp_key \<Rightarrow> hypothesis_registry \<Rightarrow> bool" where
  "is_live key r \<longleftrightarrow> dhas (hr_entries r) key"

definition prepare_state ::
  "(string \<Rightarrow> string) \<Rightarrow> hyp_key \<Rightarrow> event_state \<Rightarrow> int \<Rightarrow> hypothesis_registry \<Rightarrow> event_state res" where
  "prepare_state H key base rng_id r = (case dget (hr_entries r) key of
       Some e \<Rightarrow> Inr (he_state e)
     | None \<Rightarrow> derive_event_rng_hypothesis H base rng_id)"

definition ensure_entry :: "hyp_key \<Rightarrow> event_state \<Rightarrow> (hypothesis_registry, hypothesis_entry) stateop" where
  "ensure_entry key st r = (case dget (hr_entries r) key of
       Some e \<Rightarrow>
         if he_state e \<noteq> st
         then (Inl (PyExc ''RuntimeError'' ''prepared Event RNG state no longer matches live hypothesis''), r)
         else (Inr e, r)
     | None \<Rightarrow>
         let g = Suc (generation_of key r); e = \<lparr> he_state = st, he_generation = g \<rparr> in
         (Inr e, r\<lparr>hr_generations := dset key g (hr_generations r), hr_entries := dset key e (hr_entries r)\<rparr>))"

definition set_add :: "'a \<Rightarrow> 'a list \<Rightarrow> 'a list" where
  "set_add x xs = (if x \<in> set xs then xs else xs @ [x])"

definition register_ref :: "hyp_key \<Rightarrow> string \<Rightarrow> hypothesis_registry \<Rightarrow> hypothesis_registry" where
  "register_ref key branch_id r =
     r\<lparr>hr_refs := dset key (set_add branch_id (case dget (hr_refs r) key of None \<Rightarrow> [] | Some s \<Rightarrow> s)) (hr_refs r)\<rparr>"

definition commit_branch :: "hyp_key \<Rightarrow> event_state \<Rightarrow> string \<Rightarrow> (hypothesis_registry, unit) stateop" where
  "commit_branch key st branch_id r = (case ensure_entry key st r of
       (Inl e, r') \<Rightarrow> (Inl e, r')
     | (Inr _, r') \<Rightarrow> (Inr (), register_ref key branch_id r'))"

definition get_or_create ::
  "(string \<Rightarrow> string) \<Rightarrow> hyp_key \<Rightarrow> event_state \<Rightarrow> int \<Rightarrow> (hypothesis_registry, event_state) stateop" where
  "get_or_create H key base rng_id r = (case prepare_state H key base rng_id r of
       Inl e \<Rightarrow> (Inl e, r)
     | Inr st \<Rightarrow> (case ensure_entry key st r of
           (Inl e, r') \<Rightarrow> (Inl e, r')
         | (Inr e, r') \<Rightarrow> (Inr (he_state e), r')))"

definition release_ref :: "hyp_key \<Rightarrow> string \<Rightarrow> hypothesis_registry \<Rightarrow> hypothesis_registry" where
  "release_ref key branch_id r = (case dget (hr_refs r) key of
       Some refs \<Rightarrow>
         (let refs' = removeAll branch_id refs in
          if refs' = [] then r\<lparr>hr_refs := dpop key (hr_refs r), hr_entries := dpop key (hr_entries r)\<rparr>
          else r\<lparr>hr_refs := dset key refs' (hr_refs r)\<rparr>)
     | None \<Rightarrow> r\<lparr>hr_entries := dpop key (hr_entries r)\<rparr>)"

definition of_decision :: "string \<Rightarrow> string \<Rightarrow> hyp_key \<Rightarrow> bool" where
  "of_decision parent decision key \<longleftrightarrow> fst key = parent \<and> fst (snd key) = decision"

definition release_all_for_decision :: "string \<Rightarrow> string \<Rightarrow> hypothesis_registry \<Rightarrow> hypothesis_registry" where
  "release_all_for_decision parent decision r =
     r\<lparr>hr_entries := filter (\<lambda>e. \<not> of_decision parent decision (fst e)) (hr_entries r),
       hr_refs := filter (\<lambda>e. \<not> of_decision parent decision (fst e)) (hr_refs r)\<rparr>"

definition release_all :: "hypothesis_registry \<Rightarrow> hypothesis_registry" where
  "release_all r = r\<lparr>hr_entries := [], hr_refs := []\<rparr>"

definition snapshot_generations :: "hyp_key list \<Rightarrow> hypothesis_registry \<Rightarrow> (hyp_key, nat) dict" where
  "snapshot_generations keys r = map (\<lambda>k. (k, generation_of k r)) (remdups keys)"

text \<open>\<open>restore_generations\<close> on a snapshot of counters, entry by entry.\<close>

fun restore_generations :: "(hyp_key, nat) dict \<Rightarrow> (hypothesis_registry, unit) stateop" where
  "restore_generations [] r = (Inr (), r)"
| "restore_generations ((key, g) # snap) r =
     (if generation_of key r < g
      then (Inl (PyExc ''RuntimeError'' ''Event RNG generation cannot be restored forward''), r)
      else restore_generations snap
             (r\<lparr>hr_generations := (if g = 0 then dpop key (hr_generations r) else dset key g (hr_generations r))\<rparr>))"

text \<open>The operations that change the registry, as steps; one that raises leaves it as it was.\<close>

datatype hyp_op =
    Commit_hyp hyp_key event_state string
  | Get_or_create hyp_key event_state int
  | Register_hyp hyp_key string
  | Restore_counters "(hyp_key, nat) dict"
  | Release_hyp hyp_key string
  | Release_decision string string
  | Release_every

fun hyp_step :: "(string \<Rightarrow> string) \<Rightarrow> hypothesis_registry \<Rightarrow> hyp_op \<Rightarrow> hypothesis_registry" where
  "hyp_step H r (Commit_hyp key st b) = snd (commit_branch key st b r)"
| "hyp_step H r (Get_or_create key base rng_id) = snd (get_or_create H key base rng_id r)"
| "hyp_step H r (Register_hyp key b) = register_ref key b r"
| "hyp_step H r (Restore_counters snap) = snd (restore_generations snap r)"
| "hyp_step H r (Release_hyp key b) = release_ref key b r"
| "hyp_step H r (Release_decision p d) = release_all_for_decision p d r"
| "hyp_step H r Release_every = release_all r"

text \<open>
  \<open>get_or_create\<close> makes an entry that no branch refers to, and \<open>register_branch\<close> alone a reference
  to what may be no entry: the halves of \<open>commit_branch\<close>, kept for other callers.
\<close>

fun half_commit :: "hyp_key \<Rightarrow> hyp_op \<Rightarrow> bool" where
  "half_commit key (Get_or_create k base rng_id) \<longleftrightarrow> k = key"
| "half_commit key (Register_hyp k b) \<longleftrightarrow> k = key"
| "half_commit key x \<longleftrightarrow> False"

definition refs_of :: "hyp_key \<Rightarrow> hypothesis_registry \<Rightarrow> string list" where
  "refs_of key r = (case dget (hr_refs r) key of None \<Rightarrow> [] | Some s \<Rightarrow> s)"

text \<open>The commits of a batch, stopping at the first that raises, and the releases of its rollback.\<close>

fun commit_batch :: "(hyp_key \<times> event_state \<times> string) list \<Rightarrow> (hypothesis_registry, unit) stateop" where
  "commit_batch [] r = (Inr (), r)"
| "commit_batch ((key, st, b) # items) r = (case commit_branch key st b r of
       (Inl e, r') \<Rightarrow> (Inl e, r')
     | (Inr _, r') \<Rightarrow> commit_batch items r')"

fun release_batch :: "(hyp_key \<times> event_state \<times> string) list \<Rightarrow> hypothesis_registry \<Rightarrow> hypothesis_registry" where
  "release_batch [] r = r"
| "release_batch ((key, st, b) # items) r = release_ref key b (release_batch items r)"

definition key_inv :: "hyp_key \<Rightarrow> hypothesis_registry \<Rightarrow> bool" where
  "key_inv k r \<longleftrightarrow> (dhas (hr_refs r) k \<longleftrightarrow> dhas (hr_entries r) k) \<and> dget (hr_refs r) k \<noteq> Some []"

definition registry_inv :: "hypothesis_registry \<Rightarrow> bool" where
  "registry_inv r \<longleftrightarrow> (\<forall>k. key_inv k r)"

text \<open>Equal up to the order of the dicts, the generation counters apart.\<close>

definition same_hypotheses :: "hypothesis_registry \<Rightarrow> hypothesis_registry \<Rightarrow> bool" where
  "same_hypotheses r r' \<longleftrightarrow> (\<forall>k. dget (hr_entries r) k = dget (hr_entries r') k
     \<and> dget (hr_refs r) k = dget (hr_refs r') k)"

section \<open>Lemmas\<close>

declare split_paired_All [simp del] split_paired_Ex [simp del]

lemma int_from_bytes_snoc: "int_from_bytes (bs @ [c]) = 256 * int_from_bytes bs + int (of_char c)"
  by (simp add: int_from_bytes_def)

lemma int_from_bytes_bounds: "0 \<le> int_from_bytes bs \<and> int_from_bytes bs < 256 ^ length bs"
proof (induction bs rule: rev_induct)
  case (snoc c bs)
  moreover have "int (of_char c) < 256" using of_char_bound [of c] by linarith
  ultimately show ?case unfolding int_from_bytes_snoc length_append_singleton power_Suc by linarith
qed (simp add: int_from_bytes_def)

lemma first_bytes_bound: "0 \<le> int_from_bytes (take 4 d) \<and> int_from_bytes (take 4 d) < 2 ^ 32"
proof -
  have "(256 :: int) ^ length (take 4 d) \<le> 256 ^ 4" by (rule power_increasing) simp_all
  with int_from_bytes_bounds [of "take 4 d"] show ?thesis by simp
qed

lemma counter_range: "- 2147483648 \<le> counter_from_digest d \<and> counter_from_digest d < 2147483648"
  using first_bytes_bound [of d]
  by (simp add: counter_from_digest_def Let_def COUNTER_SIGN_BIT_def COUNTER_MOD_def)

text \<open>The counter is the two's complement reading of the first four bytes.\<close>

lemma counter_is_signed:
  "counter_from_digest d = sint (word_of_int (int_from_bytes (take 4 d)) :: 32 word)"
proof -
  let ?v = "int_from_bytes (take 4 d)"
  have v: "0 \<le> ?v" "?v < 2 ^ 32" using first_bytes_bound [of d] by simp_all
  have "?v div 2 ^ 31 = (if 2 ^ 31 \<le> ?v then 1 else 0)"
    using v by (auto simp: div_pos_pos_trivial intro!: int_div_pos_eq [where r = "?v - 2 ^ 31"])
  then have top: "bit ?v 31 \<longleftrightarrow> 2 ^ 31 \<le> ?v" by (simp add: bit_iff_odd)
  have "sint (word_of_int ?v :: 32 word) = signed_take_bit 31 ?v"
    by (simp add: sint_sbintrunc')
  also have "\<dots> = (if 2 ^ 31 \<le> ?v then ?v - 2 ^ 32 else ?v)"
    using v top by (simp add: signed_take_bit_eq_take_bit_minus take_bit_eq_mod)
  finally show ?thesis
    by (simp add: counter_from_digest_def Let_def COUNTER_SIGN_BIT_def COUNTER_MOD_def)
qed

lemma u64_range: "0 \<le> u64_from_digest d \<and> u64_from_digest d < 18446744073709551616"
  by (simp add: u64_from_digest_def U64_MOD_def)

definition proper_stream :: "rng_stream \<Rightarrow> bool" where
  "proper_stream st \<longleftrightarrow> - (2 ^ 31) \<le> rs_counter st \<and> rs_counter st < 2 ^ 31
     \<and> (\<forall>x \<in> {rs_s0 st, rs_s1 st, rs_s2 st, rs_s3 st}. 0 \<le> x \<and> x < 2 ^ 64)
     \<and> (rs_s0 st \<noteq> 0 \<or> rs_s1 st \<noteq> 0 \<or> rs_s2 st \<noteq> 0 \<or> rs_s3 st \<noteq> 0)"

lemma derived_stream_proper: "proper_stream (derive_stream H seed)"
  by (auto simp: proper_stream_def derive_stream_def Let_def counter_range u64_range)

lemma key_inv_new: "key_inv k new_hypothesis_registry"
  by (simp add: key_inv_def new_hypothesis_registry_def dhas_def)

lemma set_add_nonempty [simp]: "set_add x xs \<noteq> []"
  by (auto simp: set_add_def)

lemma dhas_dset' [simp]: "dhas (dset k v d) k' \<longleftrightarrow> k' = k \<or> dhas d k'"
  by (simp add: dhas_def)

lemma dhas_dpop' [simp]: "dhas (dpop k d) k' \<longleftrightarrow> k' \<noteq> k \<and> dhas d k'"
  by (simp add: dhas_def)

lemma dget_filter_decision:
  "dget (filter (\<lambda>e. \<not> of_decision p q (fst e)) d) k = (if of_decision p q k then None else dget d k)"
  by (induction d) auto

lemma key_inv_None: "key_inv k r \<Longrightarrow> dget (hr_refs r) k = None \<longleftrightarrow> dget (hr_entries r) k = None"
  unfolding key_inv_def dhas_def by metis

lemma restore_keeps_hypotheses:
  "hr_entries (snd (restore_generations snap r)) = hr_entries r
    \<and> hr_refs (snd (restore_generations snap r)) = hr_refs r"
  by (induction snap r rule: restore_generations.induct) simp_all

lemma get_or_create_other:
  "k \<noteq> key \<Longrightarrow> dget (hr_entries (snd (get_or_create H key base rng_id r))) k = dget (hr_entries r) k
     \<and> hr_refs (snd (get_or_create H key base rng_id r)) = hr_refs r"
  by (auto simp: get_or_create_def ensure_entry_def Let_def split: sum.splits option.splits prod.splits if_splits)

lemma key_inv_step: "key_inv key r \<Longrightarrow> \<not> half_commit key x \<Longrightarrow> key_inv key (hyp_step H r x)"
proof (cases x)
  case (Commit_hyp k st b)
  assume "key_inv key r"
  with Commit_hyp show ?thesis
    by (auto simp: key_inv_def commit_branch_def ensure_entry_def register_ref_def Let_def dhas_def
        split: option.splits if_splits)
next
  case (Get_or_create k base rng_id)
  assume "key_inv key r" "\<not> half_commit key x"
  with Get_or_create get_or_create_other [of key k H base rng_id r] show ?thesis
    by (simp add: key_inv_def dhas_def)
next
  case (Register_hyp k b)
  assume "key_inv key r" "\<not> half_commit key x"
  with Register_hyp show ?thesis by (simp add: key_inv_def register_ref_def dhas_def)
next
  case (Restore_counters snap)
  assume "key_inv key r"
  with Restore_counters show ?thesis by (simp add: key_inv_def restore_keeps_hypotheses)
next
  case (Release_hyp k b)
  assume "key_inv key r"
  with Release_hyp key_inv_None [of k r] show ?thesis
    by (cases "dget (hr_refs r) k") (auto simp: key_inv_def release_ref_def Let_def dhas_def)
next
  case (Release_decision p q)
  assume "key_inv key r"
  with Release_decision show ?thesis
    by (auto simp: key_inv_def release_all_for_decision_def dhas_def dget_filter_decision)
next
  case Release_every
  then show ?thesis by (simp add: key_inv_def release_all_def dhas_def)
qed

lemma key_inv_run:
  "key_inv key r \<Longrightarrow> list_all (\<lambda>x. \<not> half_commit key x) xs \<Longrightarrow> key_inv key (foldl (hyp_step H) r xs)"
  by (induction xs arbitrary: r) (simp_all add: key_inv_step)

lemma live_iff_referenced: "key_inv k r \<Longrightarrow> is_live k r \<longleftrightarrow> refs_of k r \<noteq> []"
  by (cases "dget (hr_refs r) k") (auto simp: key_inv_def is_live_def dhas_def refs_of_def)

lemma live_after_release: "is_live k (release_ref k b r) \<longleftrightarrow> is_live k r \<and> removeAll b (refs_of k r) \<noteq> []"
  by (cases "dget (hr_refs r) k") (auto simp: is_live_def release_ref_def refs_of_def Let_def)

text \<open>Rollback of one commit and of a batch.\<close>

lemma commit_branch_inv: "registry_inv r \<Longrightarrow> registry_inv (snd (commit_branch k st b r))"
  using key_inv_step [where x = "Commit_hyp k st b" and r = r] by (simp add: registry_inv_def)

lemma release_undoes_commit:
  assumes "registry_inv r" "commit_branch k st b r = (Inr (), r')" "b \<notin> set (refs_of k r)"
  shows "same_hypotheses (release_ref k b r') r"
proof -
  have entry: "dget (hr_entries r') j = (if j = k \<and> dget (hr_entries r) k = None
        then Some \<lparr>he_state = st, he_generation = Suc (generation_of k r)\<rparr> else dget (hr_entries r) j)"
    and refs: "dget (hr_refs r') j = (if j = k then Some (set_add b (refs_of k r)) else dget (hr_refs r) j)" for j
    using assms(2) by (auto simp: commit_branch_def ensure_entry_def register_ref_def refs_of_def Let_def
        split: option.splits if_splits prod.splits sum.splits)
  have add: "removeAll b (set_add b (refs_of k r)) = refs_of k r"
    using assms(3) by (simp add: set_add_def)
  show ?thesis
  proof (cases "dget (hr_refs r) k")
    case None
    then have "dget (hr_entries r) k = None" "refs_of k r = []"
      using key_inv_None [of k r] assms(1) by (simp_all add: refs_of_def registry_inv_def)
    with None entry refs add show ?thesis
      by (simp add: same_hypotheses_def release_ref_def)
  next
    case (Some s)
    then have "dget (hr_entries r) k \<noteq> None" "refs_of k r = s" "s \<noteq> []"
      using assms(1) key_inv_None [of k r] by (auto simp: registry_inv_def key_inv_def refs_of_def)
    with Some entry refs add show ?thesis
      by (auto simp: same_hypotheses_def release_ref_def)
  qed
qed

lemma release_same: "same_hypotheses r r' \<Longrightarrow> same_hypotheses (release_ref k b r) (release_ref k b r')"
  by (auto simp: same_hypotheses_def release_ref_def Let_def split: option.split)

lemma refs_after_commit:
  "commit_branch k st b r = (Inr (), r') \<Longrightarrow> set (refs_of j r') \<subseteq> insert b (set (refs_of j r))"
  by (auto simp: commit_branch_def ensure_entry_def register_ref_def refs_of_def set_add_def Let_def
      split: option.splits if_splits prod.splits sum.splits)

lemma release_batch_undoes:
  assumes "registry_inv r" "commit_batch items r = (Inr (), r')"
    and "distinct (map (snd \<circ> snd) items)" "\<forall>(k, st, b) \<in> set items. \<forall>j. b \<notin> set (refs_of j r)"
  shows "same_hypotheses (release_batch items r') r"
  using assms
proof (induction items arbitrary: r)
  case Nil
  then show ?case by (simp add: same_hypotheses_def)
next
  case (Cons item items)
  obtain k st b where item: "item = (k, st, b)" by (cases item)
  obtain r1 where c: "commit_branch k st b r = (Inr (), r1)" "commit_batch items r1 = (Inr (), r')"
    using Cons.prems(2) by (auto simp: item split: prod.splits sum.splits)
  have "same_hypotheses (release_batch items r') r1"
  proof (rule Cons.IH)
    show "registry_inv r1" using commit_branch_inv [OF Cons.prems(1), of k st b] c(1) by simp
    show "\<forall>(k, st, b) \<in> set items. \<forall>j. b \<notin> set (refs_of j r1)"
    proof safe
      fix k' st' b' j
      assume m: "(k', st', b') \<in> set items" and bad: "b' \<in> set (refs_of j r1)"
      have "b' \<noteq> b" using Cons.prems(3) m by (force simp: item)
      moreover have "b' \<notin> set (refs_of j r)" using Cons.prems(4) m by auto
      ultimately show False using refs_after_commit [OF c(1), of j] bad by blast
    qed
  qed (use c Cons.prems(3) in auto)
  then have "same_hypotheses (release_ref k b (release_batch items r')) (release_ref k b r1)"
    by (rule release_same)
  moreover have "same_hypotheses (release_ref k b r1) r"
    using release_undoes_commit [OF Cons.prems(1) c(1)] Cons.prems(4) by (simp add: item)
  ultimately show ?case by (simp add: item same_hypotheses_def)
qed

lemma release_batch_generation: "generation_of j (release_batch items r) = generation_of j r"
proof -
  have "hr_generations (release_ref k b s) = hr_generations s" for k b s
    by (simp add: release_ref_def Let_def split: option.split)
  then show ?thesis by (induction items) (auto simp: generation_of_def)
qed

lemma commit_batch_generation:
  "commit_batch items r = (Inr (), r') \<Longrightarrow> generation_of j r \<le> generation_of j r'
     \<and> (j \<notin> fst ` set items \<longrightarrow> generation_of j r' = generation_of j r)"
proof (induction items arbitrary: r)
  case (Cons item items)
  obtain k st b where item: "item = (k, st, b)" by (cases item)
  obtain r1 where c: "commit_branch k st b r = (Inr (), r1)" "commit_batch items r1 = (Inr (), r')"
    using Cons.prems by (auto simp: item split: prod.splits sum.splits)
  have "generation_of j r \<le> generation_of j r1 \<and> (j \<noteq> k \<longrightarrow> generation_of j r1 = generation_of j r)"
    using c(1) by (auto simp: commit_branch_def ensure_entry_def register_ref_def generation_of_def Let_def
        split: option.splits if_splits)
  with Cons.IH [OF c(2)] show ?case by (auto simp: item)
qed simp

lemma restore_generations_spec:
  assumes "distinct (dkeys snap)" "\<forall>(k, g) \<in> set snap. g \<le> generation_of k r"
  shows "\<exists>r'. restore_generations snap r = (Inr (), r') \<and> same_hypotheses r' r
    \<and> (\<forall>j. generation_of j r' = (case dget snap j of None \<Rightarrow> generation_of j r | Some g \<Rightarrow> g))"
  using assms
proof (induction snap arbitrary: r)
  case Nil
  then show ?case by (simp add: same_hypotheses_def)
next
  case (Cons kg snap)
  obtain k g where kg: "kg = (k, g)" by (cases kg)
  let ?r = "r\<lparr>hr_generations := (if g = 0 then dpop k (hr_generations r) else dset k g (hr_generations r))\<rparr>"
  have gen: "generation_of j ?r = (if j = k then g else generation_of j r)" for j
    by (simp add: generation_of_def)
  have "\<exists>r'. restore_generations snap ?r = (Inr (), r') \<and> same_hypotheses r' ?r
    \<and> (\<forall>j. generation_of j r' = (case dget snap j of None \<Rightarrow> generation_of j ?r | Some g \<Rightarrow> g))"
  proof (rule Cons.IH)
    show "distinct (dkeys snap)" using Cons.prems(1) by simp
    show "\<forall>(j, h) \<in> set snap. h \<le> generation_of j ?r"
    proof safe
      fix j h assume m: "(j, h) \<in> set snap"
      then have "j \<noteq> k" using Cons.prems(1) by (force simp: kg)
      with m Cons.prems(2) show "h \<le> generation_of j ?r" unfolding gen by auto
    qed
  qed
  then obtain r' where r': "restore_generations snap ?r = (Inr (), r')" "same_hypotheses r' ?r"
      "\<And>j. generation_of j r' = (case dget snap j of None \<Rightarrow> generation_of j ?r | Some g \<Rightarrow> g)" by blast
  have none: "dget snap k = None" using Cons.prems(1) by (simp add: kg dget_None_iff)
  have "g \<le> generation_of k r" using Cons.prems(2) by (simp add: kg)
  then have "restore_generations (kg # snap) r = (Inr (), r')" using r'(1) by (simp add: kg)
  moreover have "same_hypotheses r' r" using r'(2) by (simp add: same_hypotheses_def)
  moreover have "generation_of j r' = (case dget (kg # snap) j of None \<Rightarrow> generation_of j r | Some g \<Rightarrow> g)" for j
    using none unfolding r'(3) gen by (cases "j = k") (simp_all add: kg)
  ultimately show ?case by blast
qed

section \<open>Properties\<close>

text \<open>
  C11.  Every derived hypothesis is a state the emulator's generators accept: for a positive id
  and a base state with the four streams the derivation succeeds, each derived counter is a
  signed 32-bit integer, each word an unsigned 64-bit one, and no generator is all zero.
\<close>

theorem derived_hypotheses_proper:
  assumes "0 < rng_id" "set STREAM_KEYS \<subseteq> set (dkeys (es_streams base))"
  shows "\<exists>d. derive_event_rng_hypothesis H base rng_id = Inr d \<and> es_event_id d = es_event_id base
    \<and> dkeys (es_streams d) = STREAM_KEYS \<and> list_all (\<lambda>(k, st). proper_stream st) (es_streams d)"
proof -
  let ?f = "\<lambda>name. (case dget (es_streams base) name of
      None \<Rightarrow> Inl (PyExc ''KeyError'' (repr_str name))
    | Some st \<Rightarrow> Inr (name, derive_stream H (canonical_stream_seed (es_event_id base) name st rng_id)))"
  have "\<exists>ys. map_res ?f names = Inr ys \<and> dkeys ys = names \<and> list_all (\<lambda>(k, st). proper_stream st) ys"
    if "set names \<subseteq> set (dkeys (es_streams base))" for names
    using that
  proof (induction names)
    case (Cons n names)
    then obtain st where "dget (es_streams base) n = Some st"
      by (metis dget_iff_dkeys list.set_intros(1) option.exhaust subsetD)
    with Cons show ?case by (auto simp: derived_stream_proper)
  qed simp
  from this [OF assms(2)] assms(1) show ?thesis by (auto simp: derive_event_rng_hypothesis_def)
qed

theorem derived_hypotheses_proper_witness:
  "let base = \<lparr>es_event_id = JStr ''E'', es_streams = map (\<lambda>k. (k, \<lparr>rs_counter = 0, rs_s0 = 1, rs_s1 = 2, rs_s2 = 3, rs_s3 = 4\<rparr>)) STREAM_KEYS\<rparr>
   in \<exists>d. derive_event_rng_hypothesis rev base 5 = Inr d \<and> es_event_id d = es_event_id base
    \<and> dkeys (es_streams d) = STREAM_KEYS \<and> list_all (\<lambda>(k, st). proper_stream st) (es_streams d)"
  unfolding Let_def by (rule derived_hypotheses_proper) (simp_all add: STREAM_KEYS_def)

text \<open>
  C12.  Reference counting is exact: whatever operations ran on the registry, a hypothesis that no
  caller made or referenced by the halves \<open>get_or_create\<close> and \<open>register_branch\<close> is live if and only if
  some branch still refers to it, so no state is dropped early or kept for ever; and however
  it was made, releasing a branch drops it exactly when no other branch refers to it.
\<close>

theorem hypothesis_live_iff_referenced:
  "(list_all (\<lambda>x. \<not> half_commit key x) ops \<longrightarrow>
      (is_live key (foldl (hyp_step H) new_hypothesis_registry ops)
         \<longleftrightarrow> refs_of key (foldl (hyp_step H) new_hypothesis_registry ops) \<noteq> []))
   \<and> (is_live key (foldl (hyp_step H) new_hypothesis_registry (ops @ [Release_hyp key b]))
         \<longleftrightarrow> is_live key (foldl (hyp_step H) new_hypothesis_registry ops)
           \<and> removeAll b (refs_of key (foldl (hyp_step H) new_hypothesis_registry ops)) \<noteq> [])"
  using live_iff_referenced [OF key_inv_run [OF key_inv_new]] by (auto simp: live_after_release)

definition sample_hyp_ops :: "hyp_op list" where
  "sample_hyp_ops = [Get_or_create (''root'', ''e'', 2) \<lparr>es_event_id = JNull, es_streams = []\<rparr> 2,
     Commit_hyp (''root'', ''d'', 1) \<lparr>es_event_id = JNull, es_streams = []\<rparr> ''b1'',
     Commit_hyp (''root'', ''d'', 1) \<lparr>es_event_id = JNull, es_streams = []\<rparr> ''b2'',
     Release_hyp (''root'', ''d'', 1) ''b1'']"

theorem hypothesis_live_iff_referenced_witness:
  "let r = foldl (hyp_step rev) new_hypothesis_registry sample_hyp_ops in
     (is_live (''root'', ''d'', 1) r \<longleftrightarrow> refs_of (''root'', ''d'', 1) r \<noteq> [])
   \<and> refs_of (''root'', ''d'', 1) r = [''b2'']
   \<and> \<not> is_live (''root'', ''d'', 1) (foldl (hyp_step rev) new_hypothesis_registry (sample_hyp_ops @ [Release_hyp (''root'', ''d'', 1) ''b2'']))"
proof -
  have "refs_of (''root'', ''d'', 1) (foldl (hyp_step rev) new_hypothesis_registry sample_hyp_ops) = [''b2'']"
    "list_all (\<lambda>x. \<not> half_commit (''root'', ''d'', 1) x) sample_hyp_ops"
    by code_simp+
  with hypothesis_live_iff_referenced [of "(''root'', ''d'', 1)" sample_hyp_ops rev "''b2''"] show ?thesis
    by (simp add: Let_def)
qed

text \<open>
  Rolling back a batch that never became visible leaves no trace: releasing its committed
  branches and restoring the generation snapshot gives back the live states, the references and
  every generation counter, and the restore cannot fail.
\<close>

theorem event_rng_batch_rollback:
  assumes "r = foldl (hyp_step H) new_hypothesis_registry ops" "\<forall>k. list_all (\<lambda>x. \<not> half_commit k x) ops"
    and "commit_batch items r = (Inr (), r')"
    and "distinct (map (snd \<circ> snd) items)" "list_all (\<lambda>(k, st, b). \<forall>j. b \<notin> set (refs_of j r)) items"
  shows "\<exists>r''. restore_generations (snapshot_generations (map fst items) r) (release_batch items r') = (Inr (), r'')
    \<and> same_hypotheses r'' r \<and> (\<forall>j. generation_of j r'' = generation_of j r)"
proof -
  have inv: "registry_inv r"
    using assms(1,2) key_inv_run [OF key_inv_new] by (simp add: registry_inv_def)
  let ?snap = "snapshot_generations (map fst items) r"
  have same: "same_hypotheses (release_batch items r') r"
    using assms inv by (intro release_batch_undoes) (auto simp: list_all_iff)
  have snap: "dget ?snap j = (if j \<in> fst ` set items then Some (generation_of j r) else None)" for j
    by (simp add: snapshot_generations_def map_of_map_keys map_of_eq_None_iff image_image
        map_of_map_restrict restrict_map_def)
  have "distinct (dkeys ?snap)" by (simp add: snapshot_generations_def comp_def)
  moreover have "\<forall>(k, g) \<in> set ?snap. g \<le> generation_of k (release_batch items r')"
    using commit_batch_generation [OF assms(3)] by (auto simp: snapshot_generations_def release_batch_generation)
  ultimately obtain r'' where r'': "restore_generations ?snap (release_batch items r') = (Inr (), r'')"
      "same_hypotheses r'' (release_batch items r')"
      "\<And>j. generation_of j r'' = (case dget ?snap j of None \<Rightarrow> generation_of j (release_batch items r') | Some g \<Rightarrow> g)"
    using restore_generations_spec by blast
  have "generation_of j r'' = generation_of j r" for j
    using commit_batch_generation [OF assms(3), of j] by (simp add: r''(3) snap release_batch_generation)
  with r'' same show ?thesis by (auto simp: same_hypotheses_def)
qed

theorem event_rng_batch_rollback_witness:
  "\<exists>r''. restore_generations (snapshot_generations (map fst [((''root'', ''d'', 1), \<lparr>es_event_id = JNull, es_streams = []\<rparr>, ''b1'')])
        (foldl (hyp_step rev) new_hypothesis_registry []))
      (release_batch [((''root'', ''d'', 1), \<lparr>es_event_id = JNull, es_streams = []\<rparr>, ''b1'')]
        (snd (commit_batch [((''root'', ''d'', 1), \<lparr>es_event_id = JNull, es_streams = []\<rparr>, ''b1'')] new_hypothesis_registry)))
      = (Inr (), r'')
    \<and> same_hypotheses r'' (foldl (hyp_step rev) new_hypothesis_registry [])
    \<and> (\<forall>j. generation_of j r'' = generation_of j (foldl (hyp_step rev) new_hypothesis_registry []))"
  by (rule event_rng_batch_rollback [OF refl])
    (simp_all add: commit_branch_def ensure_entry_def new_hypothesis_registry_def Let_def refs_of_def)

end
