(* ===== verification/Replay_Draw.thy ===== *)
theory Replay_Draw
  imports Py_Prelude
begin

text \<open>
  Draw order proven by public states: \<open>Combat/search/replay_draw_restore.py\<close>.  A committed
  transition that consumes one hand card and appends the cards that left the draw pile to the
  hand proves which cards were on top of the pile.  \<open>Counter\<close> is a multiset; the engine state of
  a battle state is a JSON value, which may fail to be a dict.

  The lemmas say what the evidence recorded along a run of public states is: every transition up
  to the first blocked one is explained by the cards recorded for it, and nothing is recorded
  from there on.  The order inside the draw pile is no part of the public state, so that the
  cards recorded were the first of the pile is what the game's rules add to this.
\<close>

section \<open>Public cards\<close>

record card_key =
  ck_id :: string
  ck_type :: string
  ck_rarity :: string
  ck_cost :: int
  ck_target_type :: string
  ck_upgraded :: bool
  ck_upgrade_level :: int
  ck_tinker_type :: "string option"
  ck_tinker_rider :: "string option"
  ck_enchantment :: "(string \<times> int \<times> string) option"

text \<open>\<open>(False, None)\<close> is \<open>None\<close>, \<open>(True, k)\<close> is \<open>Some k\<close>.\<close>

definition enchantment_key :: "json \<Rightarrow> (string \<times> int \<times> string) option option" where
  "enchantment_key v = (case v of
       JNull \<Rightarrow> Some None
     | JObj d \<Rightarrow>
         if set (dkeys d) \<noteq> {''id'', ''amount'', ''status''} then None
         else (case (jget d ''id'', jget d ''amount'', jget d ''status'') of
             (JStr i, JInt a, JStr s) \<Rightarrow> if i = [] \<or> s = [] then None else Some (Some (i, a, s))
           | _ \<Rightarrow> None)
     | _ \<Rightarrow> None)"

definition str_or_none :: "json \<Rightarrow> string option option" where
  "str_or_none v = (case v of JNull \<Rightarrow> Some None | JStr s \<Rightarrow> Some (Some s) | _ \<Rightarrow> None)"

definition observable_card_key_from_public :: "json \<Rightarrow> card_key option" where
  "observable_card_key_from_public v = (case v of
       JObj d \<Rightarrow>
         if \<not> dhas d ''upgraded'' \<or> \<not> dhas d ''upgradeLevel'' then None
         else (case (jget d ''id'', jget d ''type'', jget d ''rarity'', jget d ''targetType'') of
             (JStr i, JStr ty, JStr r, JStr tt) \<Rightarrow>
               (if i = [] then None
                else case (jget d ''cost'', jget d ''upgraded'', jget d ''upgradeLevel'') of
                  (JInt c, JBool u, JInt l) \<Rightarrow>
                    (case (str_or_none (jget d ''tinkerTimeType''), str_or_none (jget d ''tinkerTimeRider''),
                           enchantment_key (jget d ''enchantment'')) of
                       (Some tk, Some rd, Some en) \<Rightarrow>
                         Some \<lparr> ck_id = i, ck_type = ty, ck_rarity = r, ck_cost = c, ck_target_type = tt,
                                ck_upgraded = u, ck_upgrade_level = l, ck_tinker_type = tk,
                                ck_tinker_rider = rd, ck_enchantment = en \<rparr>
                     | _ \<Rightarrow> None)
                | _ \<Rightarrow> None)
           | _ \<Rightarrow> None)
     | _ \<Rightarrow> None)"

definition card_id_from_observable_key :: "card_key \<Rightarrow> string" where
  "card_id_from_observable_key key = ck_id key"

definition keys_from_public_cards :: "json \<Rightarrow> card_key list option" where
  "keys_from_public_cards cards = (case cards of
       JArr xs \<Rightarrow>
         (let keys = map observable_card_key_from_public xs
          in if None \<in> set keys then None else Some (map the keys))
     | _ \<Rightarrow> None)"

section \<open>Transition evidence\<close>

definition counter_subset :: "card_key multiset \<Rightarrow> card_key multiset \<Rightarrow> bool" where
  "counter_subset left right \<longleftrightarrow> left \<subseteq># right"

definition draw_multiset_changed :: "json \<Rightarrow> json \<Rightarrow> bool" where
  "draw_multiset_changed pre post = (case (pre, post) of
       (JObj pre', JObj post') \<Rightarrow>
         (case (keys_from_public_cards (jget pre' ''drawPile''), keys_from_public_cards (jget post' ''drawPile'')) of
            (Some a, Some b) \<Rightarrow> mset a \<noteq> mset b
          | _ \<Rightarrow> True)
     | _ \<Rightarrow> True)"

definition matches_one_card_consumed :: "card_key list \<Rightarrow> card_key list \<Rightarrow> bool" where
  "matches_one_card_consumed pre_hand surviving \<longleftrightarrow>
     length pre_hand = length surviving + 1
     \<and> list_ex (\<lambda>i. take i pre_hand @ drop (i + 1) pre_hand = surviving) [0..<length pre_hand]"

definition drawn_by_piles ::
  "card_key list \<Rightarrow> card_key list \<Rightarrow> card_key list \<Rightarrow> card_key list \<Rightarrow> card_key list option" where
  "drawn_by_piles pre_draw post_draw pre_hand post_hand =
     (let d0 = mset pre_draw; d1 = mset post_draw in
      if \<not> counter_subset d1 d0 then None
      else (let removed = d0 - d1 in
        if removed = {#} then Some []
        else (let n = size removed in
          if length post_hand < n then None
          else (let surviving = take (length post_hand - n) post_hand;
                    drawn = drop (length post_hand - n) post_hand
                in if mset drawn \<noteq> removed then None
                   else if \<not> matches_one_card_consumed pre_hand surviving then None
                   else Some drawn))))"

definition visible_hand_draw_sequence :: "json \<Rightarrow> json \<Rightarrow> card_key list option" where
  "visible_hand_draw_sequence pre post = (case (pre, post) of
       (JObj pre', JObj post') \<Rightarrow>
         (case (keys_from_public_cards (jget pre' ''drawPile''), keys_from_public_cards (jget post' ''drawPile''),
                keys_from_public_cards (jget pre' ''hand''), keys_from_public_cards (jget post' ''hand'')) of
            (Some pre_draw, Some post_draw, Some pre_hand, Some post_hand) \<Rightarrow>
              drawn_by_piles pre_draw post_draw pre_hand post_hand
          | _ \<Rightarrow> None)
     | _ \<Rightarrow> None)"

type_synonym draw_constraint = "nat \<times> card_key"

record draw_evidence =
  de_constraints :: "draw_constraint list"
  de_blocks :: bool
  de_error :: "string option"

text \<open>Of a replay prefix entry the function reads its constraints and its blocked flag.\<close>

record draw_tracking =
  dt_constraints :: "draw_constraint list"
  dt_blocked :: bool

definition visible_draw_transition_evidence :: "json \<Rightarrow> draw_tracking list \<Rightarrow> json \<Rightarrow> draw_evidence" where
  "visible_draw_transition_evidence post pref pre =
     (if list_ex dt_blocked pref
      then \<lparr> de_constraints = [], de_blocks = True,
             de_error = Some ''draw tracking was already blocked by an earlier Replay Prefix transition'' \<rparr>
      else case visible_hand_draw_sequence pre post of
        None \<Rightarrow>
          (let changed = draw_multiset_changed pre post in
           \<lparr> de_constraints = [], de_blocks = changed,
             de_error = (if changed then Some (''observed DrawPile mutation was not explained by one-card Hand consumption ''
               @ ''followed by appending exactly the removed observable cards'') else None) \<rparr>)
      | Some s \<Rightarrow>
          if s = [] then \<lparr> de_constraints = [], de_blocks = False, de_error = None \<rparr>
          else (let cursor = sum_list (map (length \<circ> dt_constraints) pref) in
            \<lparr> de_constraints = map (\<lambda>(i, k). (cursor + i, k)) (enumerate 0 s), de_blocks = False, de_error = None \<rparr>))"

section \<open>Runs of public states\<close>

text \<open>The tracking of a run from its public states, one entry per committed transition.\<close>

definition track :: "json \<Rightarrow> json \<Rightarrow> draw_tracking list \<Rightarrow> draw_tracking list" where
  "track pre post pref = (let e = visible_draw_transition_evidence post pref pre in
     pref @ [\<lparr> dt_constraints = de_constraints e, dt_blocked = de_blocks e \<rparr>])"

fun track_run :: "json \<Rightarrow> json list \<Rightarrow> draw_tracking list \<Rightarrow> draw_tracking list" where
  "track_run e [] pref = pref"
| "track_run e (e' # es) pref = track_run e' es (track e e' pref)"

definition recorded :: "draw_tracking list \<Rightarrow> draw_constraint list" where
  "recorded pref = concat (map dt_constraints pref)"

text \<open>
  What it means that drawing some cards explains the change from one public state to the next:
  the draw pile lost exactly these cards, and if there are any, one card left the hand and they
  were appended to it, in their order.
\<close>

definition public_cards :: "string \<Rightarrow> json \<Rightarrow> card_key list option" where
  "public_cards zone e = (case e of JObj d \<Rightarrow> keys_from_public_cards (jget d zone) | _ \<Rightarrow> None)"

definition explained :: "json \<Rightarrow> json \<Rightarrow> card_key list \<Rightarrow> bool" where
  "explained pre post drawn \<longleftrightarrow>
     (\<exists>p q. public_cards ''drawPile'' pre = Some p \<and> public_cards ''drawPile'' post = Some q
        \<and> mset p = mset q + mset drawn)
   \<and> (drawn = [] \<or> (\<exists>h i. public_cards ''hand'' pre = Some h \<and> i < length h
        \<and> public_cards ''hand'' post = Some (take i h @ drop (Suc i) h @ drawn)))"

text \<open>
  Evidence of a run, when \<open>c\<close> cards were drawn before it: as long as no transition is blocked, the
  recorded cards explain the transition and take the next positions; the first blocked one has no
  explanation at all, and neither it nor any later one records a card.
\<close>

fun draws_explained :: "nat \<Rightarrow> json \<Rightarrow> json list \<Rightarrow> draw_tracking list \<Rightarrow> bool" where
  "draws_explained c e [] new \<longleftrightarrow> new = []"
| "draws_explained c e (e' # es) [] \<longleftrightarrow> False"
| "draws_explained c e (e' # es) (x # new) \<longleftrightarrow>
     (if dt_blocked x
      then (\<nexists>drawn. explained e e' drawn) \<and> length new = length es
           \<and> list_all (\<lambda>y. dt_blocked y \<and> dt_constraints y = []) new \<and> dt_constraints x = []
      else explained e e' (map snd (dt_constraints x))
           \<and> map fst (dt_constraints x) = [c ..< c + length (dt_constraints x)]
           \<and> draws_explained (c + length (dt_constraints x)) e' es new)"

definition open_transitions :: "draw_tracking list \<Rightarrow> nat" where
  "open_transitions pref = length (takeWhile (\<lambda>x. \<not> dt_blocked x) pref)"

section \<open>Lemmas\<close>

lemma drawn_by_piles_sound:
  assumes "drawn_by_piles pre_draw post_draw pre_hand post_hand = Some s"
  shows "mset pre_draw = mset post_draw + mset s"
    and "s \<noteq> [] \<Longrightarrow> \<exists>surviving. post_hand = surviving @ s \<and> matches_one_card_consumed pre_hand surviving"
proof -
  let ?r = "mset pre_draw - mset post_draw"
  have sub: "mset post_draw \<subseteq># mset pre_draw"
    using assms by (auto simp: drawn_by_piles_def Let_def counter_subset_def split: if_splits)
  have s: "mset s = ?r"
    using assms by (auto simp: drawn_by_piles_def Let_def counter_subset_def split: if_splits)
  show "mset pre_draw = mset post_draw + mset s" using sub unfolding s by simp
  assume "s \<noteq> []"
  with assms show "\<exists>surviving. post_hand = surviving @ s \<and> matches_one_card_consumed pre_hand surviving"
    unfolding drawn_by_piles_def Let_def
    by (auto split: if_splits intro!: exI [of _ "take (length post_hand - size ?r) post_hand"])
qed

lemma drawn_by_piles_mset:
  "mset a = mset a' \<Longrightarrow> mset b = mset b' \<Longrightarrow> drawn_by_piles a b h h' = drawn_by_piles a' b' h h'"
  by (simp add: drawn_by_piles_def)

text \<open>A play that draws is recognised, with the drawn cards in their order.\<close>

lemma play_and_draw_recognised:
  assumes "i < length hand" "n \<le> length pile"
  shows "drawn_by_piles pile (drop n pile) hand (take i hand @ drop (i + 1) hand @ take n pile) = Some (take n pile)"
proof -
  have split: "mset pile = mset (take n pile) + mset (drop n pile)"
    by (metis append_take_drop_id mset_append)
  then have removed: "mset pile - mset (drop n pile) = mset (take n pile)" by simp
  have sub: "counter_subset (mset (drop n pile)) (mset pile)" using split by (simp add: counter_subset_def)
  show ?thesis
  proof (cases "n = 0")
    case True
    then show ?thesis by (simp add: drawn_by_piles_def counter_subset_def)
  next
    case False
    let ?sur = "take i hand @ drop (i + 1) hand"
    have ne: "mset (take n pile) \<noteq> {#}" using False assms(2) by auto
    have len: "length (?sur @ take n pile) - n = length ?sur" using assms(2) by simp
    have cut: "take (length xs) (xs @ ys) = xs \<and> drop (length xs) (xs @ ys) = ys" for xs ys :: "card_key list"
      by simp
    have "matches_one_card_consumed hand ?sur"
      using assms(1) by (auto simp: matches_one_card_consumed_def list_ex_iff intro!: bexI [of _ i])
    moreover have "size (mset (take n pile)) = n" using assms(2) by simp
    ultimately show ?thesis
      using assms sub removed ne len cut
      unfolding drawn_by_piles_def Let_def removed append_assoc [symmetric]
      by (simp only: if_True if_False not_True_eq_False len cut [of ?sur] size_mset) simp
  qed
qed

lemma visible_draw_public:
  "visible_hand_draw_sequence pre post =
     (case (public_cards ''drawPile'' pre, public_cards ''drawPile'' post, public_cards ''hand'' pre, public_cards ''hand'' post) of
        (Some p, Some q, Some h, Some k) \<Rightarrow> drawn_by_piles p q h k | _ \<Rightarrow> None)"
  by (auto simp: visible_hand_draw_sequence_def public_cards_def split: json.split option.split)

lemma multiset_changed_public:
  "draw_multiset_changed pre post \<longleftrightarrow>
     \<not> (\<exists>p q. public_cards ''drawPile'' pre = Some p \<and> public_cards ''drawPile'' post = Some q \<and> mset p = mset q)"
  by (auto simp: draw_multiset_changed_def public_cards_def split: json.split option.split)

lemma explained_by_draw:
  assumes "visible_hand_draw_sequence pre post = Some s"
  shows "explained pre post s"
proof -
  obtain p q h k where z: "public_cards ''drawPile'' pre = Some p" "public_cards ''drawPile'' post = Some q"
      "public_cards ''hand'' pre = Some h" "public_cards ''hand'' post = Some k" "drawn_by_piles p q h k = Some s"
    using assms by (auto simp: visible_draw_public split: option.splits)
  have "\<exists>i. i < length h \<and> k = take i h @ drop (Suc i) h @ s" if drawn: "s \<noteq> []"
  proof -
    from drawn_by_piles_sound(2) [OF z(5) drawn] obtain surviving where
      k: "k = surviving @ s" "matches_one_card_consumed h surviving" by (elim exE conjE)
    from k(2) have "\<exists>i \<in> set [0..<length h]. take i h @ drop (i + 1) h = surviving"
      unfolding matches_one_card_consumed_def list_ex_iff by (rule conjunct2)
    then obtain i where i: "i < length h" "surviving = take i h @ drop (i + 1) h"
      by (metis atLeastLessThan_iff set_upt)
    show ?thesis by (rule exI [of _ i]) (simp add: k(1) i)
  qed
  then have "s = [] \<or> (\<exists>i. i < length h \<and> k = take i h @ drop (Suc i) h @ s)" by blast
  with z(1-4) drawn_by_piles_sound(1) [OF z(5)] show ?thesis unfolding explained_def by simp
qed

lemma draw_recognised:
  assumes "explained pre post s" "s \<noteq> []"
  shows "visible_hand_draw_sequence pre post = Some s"
proof -
  obtain p q h i where z: "public_cards ''drawPile'' pre = Some p" "public_cards ''drawPile'' post = Some q"
      "mset p = mset q + mset s" "public_cards ''hand'' pre = Some h" "i < length h"
      "public_cards ''hand'' post = Some (take i h @ drop (Suc i) h @ s)"
    using assms by (auto simp: explained_def)
  have "drawn_by_piles p q h (take i h @ drop (Suc i) h @ s) = drawn_by_piles (s @ q) q h (take i h @ drop (Suc i) h @ s)"
    using z(3) by (intro drawn_by_piles_mset) simp_all
  also have "\<dots> = Some s"
    using play_and_draw_recognised [of i h "length s" "s @ q"] z(5) by simp
  finally show ?thesis using z by (simp add: visible_draw_public)
qed

lemma unexplained:
  assumes "visible_hand_draw_sequence pre post = None"
  shows "draw_multiset_changed pre post \<Longrightarrow> \<not> explained pre post s"
    and "\<not> draw_multiset_changed pre post \<Longrightarrow> explained pre post []"
proof -
  show "\<not> explained pre post s" if "draw_multiset_changed pre post"
  proof (cases "s = []")
    case True
    with that show ?thesis by (auto simp: multiset_changed_public explained_def)
  next
    case False
    with draw_recognised [of pre post s] assms show ?thesis by auto
  qed
  show "explained pre post []" if "\<not> draw_multiset_changed pre post"
    using that by (auto simp: multiset_changed_public explained_def)
qed

lemma enumerate_Suc_shift: "map (\<lambda>(i, k). (c + i, k)) (enumerate m s) = enumerate (c + m) s"
  by (induction s arbitrary: m) simp_all

lemma recorded_length: "sum_list (map (length \<circ> dt_constraints) pref) = length (recorded pref)"
  by (simp add: recorded_def length_concat comp_def)

lemma track_blocked:
  "list_ex dt_blocked pref \<Longrightarrow> track e e' pref = pref @ [\<lparr> dt_constraints = [], dt_blocked = True \<rparr>]"
  by (simp add: track_def Let_def visible_draw_transition_evidence_def)

lemma track_open:
  assumes "\<not> list_ex dt_blocked pref"
  shows "\<exists>x. track e e' pref = pref @ [x] \<and>
    (if dt_blocked x then (\<nexists>s. explained e e' s) \<and> dt_constraints x = []
     else explained e e' (map snd (dt_constraints x))
       \<and> map fst (dt_constraints x) = [length (recorded pref) ..< length (recorded pref) + length (dt_constraints x)])"
proof (cases "visible_hand_draw_sequence e e'")
  case None
  with assms unexplained [OF None] show ?thesis
    by (cases "draw_multiset_changed e e'") (simp_all add: track_def Let_def visible_draw_transition_evidence_def)
next
  case (Some s)
  have "track e e' pref = pref @ [\<lparr> dt_constraints = enumerate (length (recorded pref)) s, dt_blocked = False \<rparr>]"
    using assms Some
    by (cases s) (simp_all add: track_def Let_def visible_draw_transition_evidence_def recorded_length enumerate_Suc_shift)
  with explained_by_draw [OF Some] show ?thesis by (simp add: map_snd_enumerate map_fst_enumerate)
qed

lemma track_run_blocked:
  "list_ex dt_blocked pref \<Longrightarrow> \<exists>new. track_run e es pref = pref @ new \<and> length new = length es
     \<and> list_all (\<lambda>y. dt_blocked y \<and> dt_constraints y = []) new"
proof (induction es arbitrary: e pref)
  case (Cons e' es)
  from Cons.IH [of "track e e' pref" e'] Cons.prems show ?case by (auto simp: track_blocked)
qed simp

lemma track_run_explained:
  "\<not> list_ex dt_blocked pref \<Longrightarrow>
     \<exists>new. track_run e es pref = pref @ new \<and> draws_explained (length (recorded pref)) e es new"
proof (induction es arbitrary: e pref)
  case (Cons e' es)
  from track_open [OF Cons.prems, of e e'] obtain x where x: "track e e' pref = pref @ [x]"
    "if dt_blocked x then (\<nexists>s. explained e e' s) \<and> dt_constraints x = []
     else explained e e' (map snd (dt_constraints x))
       \<and> map fst (dt_constraints x) = [length (recorded pref) ..< length (recorded pref) + length (dt_constraints x)]"
    by blast
  show ?case
  proof (cases "dt_blocked x")
    case True
    then have "list_ex dt_blocked (pref @ [x])" by simp
    from track_run_blocked [OF this, of e' es] x True show ?thesis by auto
  next
    case False
    then have "\<not> list_ex dt_blocked (pref @ [x])" using Cons.prems by simp
    from Cons.IH [OF this, of e'] x False show ?thesis by (auto simp: recorded_def)
  qed
qed simp

text \<open>What follows for the run as a whole.\<close>

lemma recorded_nothing: "list_all (\<lambda>y. dt_blocked y \<and> dt_constraints y = []) new \<Longrightarrow> recorded new = []"
  by (auto simp: recorded_def list_all_iff)

lemma recorded_Cons: "recorded (x # new) = dt_constraints x @ recorded new"
  by (simp add: recorded_def)

lemma draws_explained_positions:
  "draws_explained c e es new \<Longrightarrow> map fst (recorded new) = [c ..< c + length (recorded new)]"
proof (induction c e es new rule: draws_explained.induct)
  case (3 c e e' es x new)
  show ?case
  proof (cases "dt_blocked x")
    case True
    with 3(2) show ?thesis by (simp add: recorded_Cons recorded_nothing)
  next
    case False
    let ?n = "length (dt_constraints x)"
    from False 3(2) have x: "map fst (dt_constraints x) = [c ..< c + ?n]" "draws_explained (c + ?n) e' es new"
      by simp_all
    from 3(1) [OF False x(2)] x(1)
    have "map fst (recorded (x # new)) = [c ..< c + ?n] @ [c + ?n ..< (c + ?n) + length (recorded new)]"
      by (simp only: recorded_Cons map_append)
    also have "\<dots> = [c ..< (c + ?n) + length (recorded new)]" by (rule upt_add_eq_append [symmetric]) simp
    finally show ?thesis by (simp add: recorded_Cons add.assoc)
  qed
qed (simp_all add: recorded_def)

lemma draws_explained_pile:
  "draws_explained c e es new \<Longrightarrow> open_transitions new = 0 \<and> recorded new = []
     \<or> (\<exists>p q. public_cards ''drawPile'' e = Some p
          \<and> public_cards ''drawPile'' ((e # es) ! open_transitions new) = Some q
          \<and> mset p = mset q + mset (map snd (recorded new)))"
proof (induction c e es new rule: draws_explained.induct)
  case (3 c e e' es x new)
  show ?case
  proof (cases "dt_blocked x")
    case True
    with 3(2) show ?thesis by (simp add: open_transitions_def recorded_Cons recorded_nothing)
  next
    case False
    with 3(2) obtain p q where pq: "public_cards ''drawPile'' e = Some p" "public_cards ''drawPile'' e' = Some q"
        "mset p = mset q + mset (map snd (dt_constraints x))"
      by (auto simp: explained_def)
    have n: "open_transitions (x # new) = Suc (open_transitions new)" using False by (simp add: open_transitions_def)
    from 3(1) 3(2) False have IH: "open_transitions new = 0 \<and> recorded new = []
     \<or> (\<exists>p q. public_cards ''drawPile'' e' = Some p
          \<and> public_cards ''drawPile'' ((e' # es) ! open_transitions new) = Some q
          \<and> mset p = mset q + mset (map snd (recorded new)))" by simp
    then show ?thesis
    proof
      assume "open_transitions new = 0 \<and> recorded new = []"
      with pq n show ?thesis by (simp add: recorded_Cons)
    next
      assume "\<exists>p q. public_cards ''drawPile'' e' = Some p
          \<and> public_cards ''drawPile'' ((e' # es) ! open_transitions new) = Some q
          \<and> mset p = mset q + mset (map snd (recorded new))"
      with pq n show ?thesis by (auto simp: recorded_Cons)
    qed
  qed
qed (simp_all add: open_transitions_def recorded_def)

section \<open>Properties\<close>

text \<open>
  C13.  The recorded draws explain the public states.  Along any run of public states, up to the first
  blocked transition the cards recorded for a transition are exactly those the public draw pile
  lost, appended to the hand in their order after one hand card left it (or none were lost);
  the first blocked transition admits no such explanation, and nothing is recorded from there on.
  So the constraints have the positions 0, 1, 2, and so on, and up to that transition the public pile
  lost precisely the recorded cards.
\<close>

theorem draw_constraints_explain_run:
  "let pref = track_run e es []; n = open_transitions pref in
     draws_explained 0 e es pref
   \<and> map fst (recorded pref) = [0 ..< length (recorded pref)]
   \<and> (n = 0 \<and> recorded pref = []
      \<or> (\<exists>p q. public_cards ''drawPile'' e = Some p \<and> public_cards ''drawPile'' ((e # es) ! n) = Some q
           \<and> mset p = mset q + mset (map snd (recorded pref))))"
proof -
  from track_run_explained [of "[]" e es] have "draws_explained 0 e es (track_run e es [])"
    by (simp add: recorded_def)
  with draws_explained_positions [OF this] draws_explained_pile [OF this] show ?thesis by (simp add: Let_def)
qed

definition sample_card :: "string \<Rightarrow> json" where
  "sample_card i = JObj [(''id'', JStr i), (''type'', JStr ''Attack''), (''rarity'', JStr ''Basic''), (''cost'', JInt 1),
     (''targetType'', JStr ''AnyEnemy''), (''upgraded'', JBool False), (''upgradeLevel'', JInt 0)]"

definition sample_key :: "string \<Rightarrow> card_key" where
  "sample_key i = \<lparr> ck_id = i, ck_type = ''Attack'', ck_rarity = ''Basic'', ck_cost = 1, ck_target_type = ''AnyEnemy'',
     ck_upgraded = False, ck_upgrade_level = 0, ck_tinker_type = None, ck_tinker_rider = None, ck_enchantment = None \<rparr>"

definition sample_engine :: "string list \<Rightarrow> string list \<Rightarrow> json" where
  "sample_engine pile hand = JObj [(''drawPile'', JArr (map sample_card pile)), (''hand'', JArr (map sample_card hand))]"

lemma sample_keys: "i \<noteq> [] \<Longrightarrow> observable_card_key_from_public (sample_card i) = Some (sample_key i)"
  by (simp add: sample_card_def observable_card_key_from_public_def dhas_def jget_def str_or_none_def
      enchantment_key_def sample_key_def)

text \<open>A play that draws two cards, a reshuffle (blocked), and a play that draws one.\<close>

definition sample_run :: "json list" where
  "sample_run = [sample_engine [''C''] [''Y'', ''A'', ''B''], sample_engine [''C'', ''X''] [''Y'', ''A'', ''B''],
     sample_engine [''X''] [''A'', ''B'', ''C'']]"

theorem draw_constraints_explain_run_witness:
  "let pref = track_run (sample_engine [''B'', ''A'', ''C''] [''X'', ''Y'']) sample_run [] in
     draws_explained 0 (sample_engine [''B'', ''A'', ''C''] [''X'', ''Y'']) sample_run pref
   \<and> open_transitions pref = 1
   \<and> recorded pref = [(0, sample_key ''A''), (1, sample_key ''B'')]"
proof -
  let ?pref = "track_run (sample_engine [''B'', ''A'', ''C''] [''X'', ''Y'']) sample_run []"
  have "open_transitions ?pref = 1 \<and> recorded ?pref = [(0, sample_key ''A''), (1, sample_key ''B'')]"
    by code_simp
  with draw_constraints_explain_run [of "sample_engine [''B'', ''A'', ''C''] [''X'', ''Y'']" sample_run]
  show ?thesis by (simp add: Let_def)
qed

end
