(* ===== verification/Decision_Context.thy ===== *)
theory Decision_Context
  imports Replay_Draw Py_Numbers
begin

text \<open>
  Decision contexts and their replay: \<open>Combat/search/decision_context.py\<close>, with \<open>BattleState\<close> and
  the pending-choice predicates of \<open>Combat/battle_emulator.py\<close> and \<open>canonical_json\<close> of
  \<open>Combat/combat_state_snapshot.py\<close>.

  The live combat session is the record \<open>session_ops\<close> of its operations on a session state of any
  type; each may raise and may change the session when it raises.  \<open>json.loads\<close> is the parameter
  \<open>loads\<close>, the hexadecimal SHA-256 is \<open>sha\<close>.  A root is one of the types that \<open>search_root()\<close>
  distinguishes; of a CLR object the code reads its type test, its serialised text, its \<open>repr\<close>
  and the capture boundary of its metadata.
\<close>

section \<open>Battle states\<close>

type_synonym action = "(string, json) dict"

record decision_frame =
  fr_session :: "string option"
  fr_step :: int
  fr_continuation :: "int option"

record combat_completion =
  cc_observation :: "(string, json) dict"
  cc_terminal :: bool
  cc_outcome :: string
  cc_transition :: string

record battle_state =
  bs_engine :: "(string, json) dict"
  bs_terminal :: bool
  bs_outcome :: string
  bs_turn :: int
  bs_enemy_max_hps :: "(string, json) dict"
  bs_shuffle_seed :: "int option"
  bs_cached :: "action list option"
  bs_frame :: "decision_frame option"
  bs_completion :: "combat_completion option"

definition no_attribute :: "json \<Rightarrow> string \<Rightarrow> py_exc" where
  "no_attribute v a = PyExc ''AttributeError''
     ([CHR 0x27] @ type_of_json v @ [CHR 0x27] @ '' object has no attribute '' @ [CHR 0x27] @ a @ [CHR 0x27])"

definition as_dict :: "json \<Rightarrow> (string, json) dict res" where
  "as_dict v = (case v of JObj d \<Rightarrow> Inr d | _ \<Rightarrow> Inl (no_attribute v ''get''))"

definition PENDING_METADATA_KEYS :: "string list" where
  "PENDING_METADATA_KEYS =
     [''choiceType'', ''scope'', ''scenarioRestorable'', ''minSelect'', ''maxSelect'', ''selectedCount'']"

definition pending_choice_metadata :: "(string, json) dict \<Rightarrow> (string, json) dict option res" where
  "pending_choice_metadata st =
     (let p = jget st ''pendingChoice'' in
      if \<not> truthy p then Inr None
      else sbind (as_dict p) (\<lambda>d. Inr (Some (map (\<lambda>k. (k, jget d k)) PENDING_METADATA_KEYS))))"

definition is_action_continuation_pending_choice :: "(string, json) dict \<Rightarrow> bool res" where
  "is_action_continuation_pending_choice st =
     sbind (pending_choice_metadata st) (\<lambda>pending. Inr (case pending of
         None \<Rightarrow> False
       | Some d \<Rightarrow> py_eq (jget d ''scope'') (JStr ''ActionContinuation'') \<or> jget d ''scenarioRestorable'' = JBool False))"

definition is_scenario_restorable_pending_choice :: "(string, json) dict \<Rightarrow> bool res" where
  "is_scenario_restorable_pending_choice st =
     sbind (pending_choice_metadata st) (\<lambda>pending. Inr (case pending of
         None \<Rightarrow> False
       | Some d \<Rightarrow> jget d ''scenarioRestorable'' = JBool True \<or> py_eq (jget d ''scope'') (JStr ''StartOfCombat'')))"

definition BOUNDARY_STABLE :: string where "BOUNDARY_STABLE = ''stable''"
definition BOUNDARY_PENDING :: string where "BOUNDARY_PENDING = ''pending''"
definition BOUNDARY_TERMINAL :: string where "BOUNDARY_TERMINAL = ''terminal''"
definition BOUNDARY_FAULT :: string where "BOUNDARY_FAULT = ''fault''"

definition BOUNDARY_VALUES :: "string list" where
  "BOUNDARY_VALUES = [BOUNDARY_STABLE, BOUNDARY_PENDING, BOUNDARY_TERMINAL, BOUNDARY_FAULT]"

definition boundary_of_battle_state :: "battle_state \<Rightarrow> string res" where
  "boundary_of_battle_state bs =
     (if bs_terminal bs then Inr BOUNDARY_TERMINAL
      else sbind (pending_choice_metadata (bs_engine bs))
             (\<lambda>p. Inr (if p \<noteq> None then BOUNDARY_PENDING else BOUNDARY_STABLE)))"

section \<open>Semantic actions\<close>

record semantic_action =
  sa_type :: json
  sa_key :: json

definition semantic_key_of :: "action \<Rightarrow> json" where
  "semantic_key_of a = (case dget a ''semantic_key'' of None \<Rightarrow> JStr [] | Some v \<Rightarrow> v)"

definition same_action :: "semantic_action \<Rightarrow> action \<Rightarrow> bool" where
  "same_action sa a \<longleftrightarrow> py_eq (jget a ''action_type'') (sa_type sa) \<and> py_eq (semantic_key_of a) (sa_key sa)"

definition repr_semantic_action :: "semantic_action \<Rightarrow> string" where
  "repr_semantic_action sa = ''SemanticAction(action_type='' @ repr_json (sa_type sa)
     @ '', semantic_key='' @ repr_json (sa_key sa) @ '')''"

text \<open>\<open>SemanticAction.resolve\<close>; \<open>Inl\<close> is the text of \<open>SemanticActionUnresolvedError\<close>.\<close>

definition resolve :: "semantic_action \<Rightarrow> action list \<Rightarrow> string + action" where
  "resolve sa legal = (case List.find (same_action sa) legal of
       Some a \<Rightarrow> Inr a
     | None \<Rightarrow> Inl (repr_semantic_action sa @ '' did not resolve against any of ''
                    @ digits (length legal) @ '' legal action(s)''))"

type_synonym candidate_key = "json \<times> json"

definition candidate_semantic_key :: "action \<Rightarrow> candidate_key" where
  "candidate_semantic_key a = (jget a ''action_type'', semantic_key_of a)"

definition key_norm :: "candidate_key \<Rightarrow> candidate_key" where
  "key_norm k = (py_norm (fst k), py_norm (snd k))"

definition repr_candidate_key :: "candidate_key \<Rightarrow> string" where
  "repr_candidate_key k = ''('' @ repr_json (fst k) @ '', '' @ repr_json (snd k) @ '')''"

text \<open>A \<open>Counter\<close>: the first key of each class of equal keys, in order of appearance.\<close>

fun counter_add :: "candidate_key \<Rightarrow> (candidate_key \<times> nat) list \<Rightarrow> (candidate_key \<times> nat) list" where
  "counter_add k [] = [(k, 1)]"
| "counter_add k ((k', n) # c) = (if key_norm k' = key_norm k then (k', Suc n) # c else (k', n) # counter_add k c)"

definition unhashable :: "json \<Rightarrow> py_exc" where
  "unhashable v = PyExc ''TypeError'' (''unhashable type: '' @ [CHR 0x27] @ type_of_json v @ [CHR 0x27])"

definition hashed :: "json \<Rightarrow> json res" where
  "hashed v = (if hashable v then Inr v else Inl (unhashable v))"

definition candidate_multiset :: "action list \<Rightarrow> (candidate_key \<times> nat) list res" where
  "candidate_multiset legal =
     sbind (map_res (\<lambda>a. sbind (hashed (jget a ''action_type'')) (\<lambda>_.
              sbind (hashed (semantic_key_of a)) (\<lambda>_. Inr (candidate_semantic_key a)))) legal)
       (\<lambda>keys. Inr (sort_key (repr_candidate_key \<circ> fst) (foldl (\<lambda>c k. counter_add k c) [] keys)))"

section \<open>Signatures\<close>

record decision_signature =
  sg_session :: "string option"
  sg_step :: int
  sg_continuation :: "int option"
  sg_action :: semantic_action
  sg_action_id :: int
  sg_key :: json
  sg_target :: "int option"
  sg_target_slot :: "int option"
  sg_boundary :: string
  sg_scope :: "string option"
  sg_kind :: json
  sg_candidates :: "(candidate_key \<times> nat) list option"

definition signature_checked :: "decision_signature \<Rightarrow> decision_signature res" where
  "signature_checked g =
     (if sg_boundary g \<notin> set BOUNDARY_VALUES
      then Inl (PyExc ''ValueError'' (''unknown Boundary '' @ repr_str (sg_boundary g) @ '' (known: [''
             @ join_with '', '' (map repr_str (sort_key id BOUNDARY_VALUES)) @ ''])''))
      else if sg_boundary g \<noteq> BOUNDARY_PENDING
           \<and> (sg_scope g \<noteq> None \<or> sg_kind g \<noteq> JNull \<or> sg_candidates g \<noteq> None)
      then Inl (PyExc ''ValueError'' (''choice_scope/choice_kind/candidate_semantic_keys are Pending-only fields ''
             @ ''(boundary='' @ repr_str (sg_boundary g) @ '')''))
      else Inr g)"

definition CHOICE_SCOPE_TOP_LEVEL :: string where "CHOICE_SCOPE_TOP_LEVEL = ''TopLevel''"
definition CHOICE_SCOPE_ACTION_CONTINUATION :: string where
  "CHOICE_SCOPE_ACTION_CONTINUATION = ''ActionContinuation''"

text \<open>The pending-only fields of \<open>from_battle_state\<close>: scope, kind and candidates.\<close>

definition pending_fields ::
  "battle_state \<Rightarrow> action list option \<Rightarrow> string \<Rightarrow> (string option \<times> json \<times> (candidate_key \<times> nat) list option) res" where
  "pending_fields bs legal boundary =
     (if boundary \<noteq> BOUNDARY_PENDING then Inr (None, JNull, None)
      else sbind (pending_choice_metadata (bs_engine bs)) (\<lambda>p.
           sbind (is_action_continuation_pending_choice (bs_engine bs)) (\<lambda>cont.
           sbind (candidate_multiset (case legal of Some l \<Rightarrow> l | None \<Rightarrow>
                    (case bs_cached bs of Some l \<Rightarrow> l | None \<Rightarrow> []))) (\<lambda>keys.
             Inr (Some (if cont then CHOICE_SCOPE_ACTION_CONTINUATION else CHOICE_SCOPE_TOP_LEVEL),
                  (case p of None \<Rightarrow> JNull | Some d \<Rightarrow> jget d ''choiceType''), Some keys)))))"

definition from_battle_state ::
  "battle_state \<Rightarrow> semantic_action \<Rightarrow> action \<Rightarrow> int option \<Rightarrow> int option \<Rightarrow> action list option \<Rightarrow> decision_signature res" where
  "from_battle_state bs sa resolved target enemy legal =
     sbind (boundary_of_battle_state bs) (\<lambda>boundary.
     sbind (pending_fields bs legal boundary) (\<lambda>(scope, kind, keys).
     sbind (subscript resolved ''action_id'') (\<lambda>v.
     sbind (int_of_json v) (\<lambda>aid.
       signature_checked
         \<lparr> sg_session = (case bs_frame bs of Some f \<Rightarrow> fr_session f | None \<Rightarrow> None),
           sg_step = (case bs_frame bs of Some f \<Rightarrow> fr_step f | None \<Rightarrow> - 1),
           sg_continuation = (case bs_frame bs of Some f \<Rightarrow> fr_continuation f | None \<Rightarrow> None),
           sg_action = sa, sg_action_id = aid, sg_key = semantic_key_of resolved,
           sg_target = target, sg_target_slot = enemy, sg_boundary = boundary,
           sg_scope = scope, sg_kind = kind, sg_candidates = keys \<rparr>))))"

definition action_norm :: "semantic_action \<Rightarrow> json \<times> json" where
  "action_norm sa = (py_norm (sa_type sa), py_norm (sa_key sa))"

definition candidates_norm :: "(candidate_key \<times> nat) list option \<Rightarrow> (candidate_key \<times> nat) list option" where
  "candidates_norm c = map_option (map (\<lambda>(k, n). (key_norm k, n))) c"

text \<open>The fields of the signature in declaration order, each with whether it agrees.\<close>

definition field_agreement :: "decision_signature \<Rightarrow> decision_signature \<Rightarrow> (string \<times> bool) list" where
  "field_agreement a b =
     [(''combat_session_id'', sg_session a = sg_session b),
      (''step_index'', sg_step a = sg_step b),
      (''continuation_step_index'', sg_continuation a = sg_continuation b),
      (''semantic_action'', action_norm (sg_action a) = action_norm (sg_action b)),
      (''resolved_action_id'', sg_action_id a = sg_action_id b),
      (''resolved_semantic_key'', py_eq (sg_key a) (sg_key b)),
      (''resolved_target_index'', sg_target a = sg_target b),
      (''resolved_target_slot_index'', sg_target_slot a = sg_target_slot b),
      (''boundary'', sg_boundary a = sg_boundary b),
      (''choice_scope'', sg_scope a = sg_scope b),
      (''choice_kind'', py_eq (sg_kind a) (sg_kind b)),
      (''candidate_semantic_keys'', candidates_norm (sg_candidates a) = candidates_norm (sg_candidates b))]"

definition diff :: "decision_signature \<Rightarrow> decision_signature \<Rightarrow> string list" where
  "diff a b = map fst (filter (\<lambda>e. \<not> snd e) (field_agreement a b))"

definition REPLAY_INCOMPARABLE_FIELDS :: "string list" where
  "REPLAY_INCOMPARABLE_FIELDS = [''combat_session_id'', ''resolved_action_id'']"

definition CHOICE_KIND_UNCLASSIFIED :: json where
  "CHOICE_KIND_UNCLASSIFIED = JStr ''Unsupported''"

definition diff_for_replay :: "decision_signature \<Rightarrow> decision_signature \<Rightarrow> string list" where
  "diff_for_replay a b =
     (let diffs = filter (\<lambda>n. n \<notin> set REPLAY_INCOMPARABLE_FIELDS) (diff a b) in
      if ''choice_kind'' \<in> set diffs
         \<and> (py_eq CHOICE_KIND_UNCLASSIFIED (sg_kind a) \<or> py_eq CHOICE_KIND_UNCLASSIFIED (sg_kind b))
      then filter (\<lambda>n. n \<noteq> ''choice_kind'') diffs else diffs)"

definition matches_for_replay :: "decision_signature \<Rightarrow> decision_signature \<Rightarrow> bool" where
  "matches_for_replay a b \<longleftrightarrow> diff_for_replay a b = []"

section \<open>Roots\<close>

record clr_object =
  co_is_snapshot :: bool
  co_serialized :: string
  co_repr :: string
  co_capture_boundary :: "string option"

datatype root =
    Combat_start json
  | Room_entry string int
  | Json_text string
  | Json_dict "(string, json) dict"
  | Snapshot "(string, json) dict"
  | Other_dataclass string
  | Object clr_object

definition VOLATILE_METADATA_KEYS :: "string list" where
  "VOLATILE_METADATA_KEYS = [''SnapshotId'', ''CapturedAtUtc'']"

fun strip_volatile :: "bool \<Rightarrow> json \<Rightarrow> json" where
  "strip_volatile ex (JObj d) =
     JObj (map (\<lambda>(k, v). (k, strip_volatile ex v)) (filter (\<lambda>(k, v). \<not> (ex \<and> k \<in> set VOLATILE_METADATA_KEYS)) d))"
| "strip_volatile ex (JArr xs) = JArr (map (strip_volatile ex) xs)"
| "strip_volatile ex v = v"

definition canonical_json :: "bool \<Rightarrow> json \<Rightarrow> string" where
  "canonical_json exclude_volatile v = json_dumps True (strip_volatile exclude_volatile v)"

definition root_digest :: "(string \<Rightarrow> string) \<Rightarrow> string \<Rightarrow> string" where
  "root_digest sha v = take 64 (sha (json_dumps True (JStr v)))"

fun is_decode_error :: "py_exc \<Rightarrow> bool" where
  "is_decode_error (PyExc ty _) = (ty = ''JSONDecodeError'')"
| "is_decode_error _ = False"

text \<open>The session operations, and the adapter of a root (\<open>SearchRoot\<close>).\<close>

record 's session_ops =
  so_start :: "json \<Rightarrow> ('s, battle_state) stateop"
  so_restore :: "root \<Rightarrow> ('s, battle_state) stateop"
  so_room :: "string \<Rightarrow> int \<Rightarrow> ('s, battle_state) stateop"
  so_step :: "battle_state \<Rightarrow> action \<Rightarrow> int option \<Rightarrow> int option \<Rightarrow> ('s, battle_state) stateop"
  so_legal :: "('s, action list) stateop"

record 's search_adapter =
  sr_is_combat_start :: bool
  sr_supports_hypotheses :: bool
  sr_bootstrap :: "'s session_ops \<Rightarrow> ('s, battle_state) stateop"
  sr_identity :: "(string \<Rightarrow> json res) \<Rightarrow> (string \<Rightarrow> string) \<Rightarrow> string res"
  sr_ipc :: root

definition combat_start_search_root :: "json \<Rightarrow> 's search_adapter" where
  "combat_start_search_root spec =
     \<lparr> sr_is_combat_start = True, sr_supports_hypotheses = True,
       sr_bootstrap = (\<lambda>ops. so_start ops spec),
       sr_identity = (\<lambda>loads sha. Inr (json_dumps True (JObj [(''scenario_spec'', spec)]))),
       sr_ipc = Combat_start spec \<rparr>"

definition room_entry_search_root :: "string \<Rightarrow> int \<Rightarrow> 's search_adapter" where
  "room_entry_search_root snap room =
     \<lparr> sr_is_combat_start = False, sr_supports_hypotheses = False,
       sr_bootstrap = (\<lambda>ops. so_room ops snap room),
       sr_identity = (\<lambda>loads sha. Inr (json_dumps True
          (JObj [(''map_snapshot'', JStr snap), (''room_id'', JInt room)]))),
       sr_ipc = Room_entry snap room \<rparr>"

definition json_text_identity :: "(string \<Rightarrow> json res) \<Rightarrow> (string \<Rightarrow> string) \<Rightarrow> string \<Rightarrow> string res" where
  "json_text_identity loads sha s = (case loads s of
       Inr v \<Rightarrow> Inr (canonical_json True v)
     | Inl e \<Rightarrow> if is_decode_error e then Inr (root_digest sha (repr_str s)) else Inl e)"

text \<open>The root is a text or a dict.\<close>

definition json_search_root :: "string + (string, json) dict \<Rightarrow> 's search_adapter" where
  "json_search_root r =
     (let self = (case r of Inl s \<Rightarrow> Json_text s | Inr d \<Rightarrow> Json_dict d) in
     \<lparr> sr_is_combat_start = False, sr_supports_hypotheses = True,
       sr_bootstrap = (\<lambda>ops. so_restore ops self),
       sr_identity = (\<lambda>loads sha. case r of
            Inl s \<Rightarrow> json_text_identity loads sha s
          | Inr d \<Rightarrow> Inr (canonical_json True (JObj d))),
       sr_ipc = self \<rparr>)"

definition dataclass_search_root :: "(string, json) dict \<Rightarrow> 's search_adapter" where
  "dataclass_search_root d =
     \<lparr> sr_is_combat_start = False, sr_supports_hypotheses = True,
       sr_bootstrap = (\<lambda>ops. so_restore ops (Snapshot d)),
       sr_identity = (\<lambda>loads sha. Inr (canonical_json True (JObj d))),
       sr_ipc = Json_text (canonical_json False (JObj d)) \<rparr>"

definition object_search_root :: "clr_object \<Rightarrow> 's search_adapter" where
  "object_search_root c =
     \<lparr> sr_is_combat_start = False, sr_supports_hypotheses = True,
       sr_bootstrap = (\<lambda>ops. so_restore ops (Object c)),
       sr_identity = (\<lambda>loads sha.
          if \<not> co_is_snapshot c then Inr (root_digest sha (co_repr c))
          else sbind (loads (co_serialized c)) (\<lambda>v. Inr (canonical_json True v))),
       sr_ipc = (if co_is_snapshot c then Json_text (co_serialized c) else Object c) \<rparr>"

text \<open>Every supported root has an adapter, an unknown dataclass has none.\<close>

definition search_root :: "root \<Rightarrow> 's search_adapter res" where
  "search_root r = (case r of
       Combat_start spec \<Rightarrow> Inr (combat_start_search_root spec)
     | Room_entry snap room \<Rightarrow> Inr (room_entry_search_root snap room)
     | Json_text s \<Rightarrow> Inr (json_search_root (Inl s))
     | Json_dict d \<Rightarrow> Inr (json_search_root (Inr d))
     | Snapshot d \<Rightarrow> Inr (dataclass_search_root d)
     | Other_dataclass n \<Rightarrow> Inl (PyExc ''TypeError'' (''unsupported DecisionContext root '' @ repr_str n
         @ '': add an arm to search_root() saying how to bootstrap, identify and ship it''))
     | Object c \<Rightarrow> Inr (object_search_root c))"

lemmas adapter_defs = combat_start_search_root_def room_entry_search_root_def json_search_root_def
  dataclass_search_root_def object_search_root_def

section \<open>Contexts\<close>

record prefix_entry =
  rp_action :: semantic_action
  rp_expected :: decision_signature
  rp_target :: "int option"
  rp_enemy :: "int option"
  rp_constraints :: "draw_constraint list"
  rp_blocked :: bool
  rp_error :: "string option"

record decision_context =
  dc_root :: root
  dc_prefix :: "prefix_entry list"
  dc_plan :: "prefix_entry list"
  dc_result :: battle_state
  dc_signature :: decision_signature
  dc_hypothesis :: "string option"

definition from_main_stable_capture :: "root \<Rightarrow> battle_state \<Rightarrow> decision_signature \<Rightarrow> decision_context" where
  "from_main_stable_capture r result g =
     \<lparr> dc_root = r, dc_prefix = [], dc_plan = [], dc_result = result, dc_signature = g, dc_hypothesis = None \<rparr>"

definition from_combat_start_pending :: "json \<Rightarrow> battle_state \<Rightarrow> decision_signature \<Rightarrow> decision_context" where
  "from_combat_start_pending spec result g =
     \<lparr> dc_root = Combat_start spec, dc_prefix = [], dc_plan = [], dc_result = result, dc_signature = g,
       dc_hypothesis = None \<rparr>"

definition from_room_entry_pending :: "string \<Rightarrow> int \<Rightarrow> battle_state \<Rightarrow> decision_signature \<Rightarrow> decision_context" where
  "from_room_entry_pending snap room result g =
     \<lparr> dc_root = Room_entry snap room, dc_prefix = [], dc_plan = [], dc_result = result, dc_signature = g,
       dc_hypothesis = None \<rparr>"

definition from_prev_child ::
  "root \<Rightarrow> battle_state \<Rightarrow> decision_signature \<Rightarrow> prefix_entry list \<Rightarrow> decision_context" where
  "from_prev_child r result g parent_plan =
     \<lparr> dc_root = r, dc_prefix = [], dc_plan = parent_plan, dc_result = result, dc_signature = g,
       dc_hypothesis = None \<rparr>"

definition start_new_replay_prefix_from_stable :: "prefix_entry list" where
  "start_new_replay_prefix_from_stable = []"

definition append_replay_prefix_entry :: "prefix_entry list \<Rightarrow> prefix_entry \<Rightarrow> prefix_entry list" where
  "append_replay_prefix_entry pref e = pref @ [e]"

definition representative_signature :: "battle_state \<Rightarrow> decision_signature res" where
  "representative_signature result = (case bs_cached result of
       Some (a # as) \<Rightarrow>
         from_battle_state result \<lparr> sa_type = jget a ''action_type'', sa_key = semantic_key_of a \<rparr> a None None None
     | _ \<Rightarrow>
         if bs_terminal result
         then from_battle_state result \<lparr> sa_type = JStr ''system'', sa_key = JStr [] \<rparr>
                [(''action_type'', JStr ''system''), (''parameters'', JObj []), (''action_id'', JInt (- 1)), (''semantic_key'', JStr [])]
                None None None
         else Inl (PyExc ''RuntimeError''
           ''cannot build a Decision Context signature: Current Decision Result reports no candidates''))"

definition arrival_signature :: "prefix_entry list \<Rightarrow> battle_state \<Rightarrow> decision_signature res" where
  "arrival_signature pref result =
     (if pref \<noteq> [] then Inr (rp_expected (last pref)) else representative_signature result)"

definition build_decision_context_from_held_stable ::
  "root \<Rightarrow> prefix_entry list \<Rightarrow> battle_state \<Rightarrow> decision_context res" where
  "build_decision_context_from_held_stable r pref result =
     sbind (arrival_signature pref result)
       (\<lambda>g. let c = from_main_stable_capture r result g in Inr (if pref \<noteq> [] then c\<lparr>dc_prefix := pref\<rparr> else c))"

definition build_decision_context_from_room_entry ::
  "string \<Rightarrow> int \<Rightarrow> prefix_entry list \<Rightarrow> battle_state \<Rightarrow> decision_context res" where
  "build_decision_context_from_room_entry snap room pref result =
     sbind (arrival_signature pref result)
       (\<lambda>g. let c = from_room_entry_pending snap room result g in Inr (if pref \<noteq> [] then c\<lparr>dc_prefix := pref\<rparr> else c))"

section \<open>Replay\<close>

definition RESTORE_ELIGIBLE_CAPTURE_BOUNDARY_VALUES :: "string list" where
  "RESTORE_ELIGIBLE_CAPTURE_BOUNDARY_VALUES = [''normal_player_decision'']"

definition capture_boundary_is_restore_eligible :: "json \<Rightarrow> bool res" where
  "capture_boundary_is_restore_eligible b =
     sbind (hashed b) (\<lambda>b. Inr (b \<in> JStr ` set RESTORE_ELIGIBLE_CAPTURE_BOUNDARY_VALUES))"

definition metadata_boundary :: "(string, json) dict \<Rightarrow> json res" where
  "metadata_boundary d = (case dget d ''Metadata'' of
       None \<Rightarrow> Inr JNull
     | Some m \<Rightarrow> sbind (as_dict m) (\<lambda>md. Inr (jget md ''CaptureBoundary'')))"

definition root_snapshot_capture_boundary :: "(string \<Rightarrow> json res) \<Rightarrow> root \<Rightarrow> json res" where
  "root_snapshot_capture_boundary loads r = (case r of
       Json_text s \<Rightarrow> sbind (loads s) (\<lambda>v. sbind (as_dict v) metadata_boundary)
     | Json_dict d \<Rightarrow> metadata_boundary d
     | Snapshot d \<Rightarrow> (case jget d ''Metadata'' of
           JObj md \<Rightarrow> Inr (case jget md ''CaptureBoundary'' of JNull \<Rightarrow> JNull | b \<Rightarrow> JStr (str_json b))
         | _ \<Rightarrow> Inr JNull)
     | Object c \<Rightarrow> Inr (case co_capture_boundary c of Some b \<Rightarrow> JStr b | None \<Rightarrow> JNull)
     | _ \<Rightarrow> Inr JNull)"

definition restore_violation :: "json \<Rightarrow> py_exc" where
  "restore_violation b = PyExc ''PendingSnapshotRestoreViolationError''
     (''DecisionContext root_snapshot has capture_boundary='' @ repr_json b
      @ '', which is not Restore-eligible. This is a design violation of NOTE_NO_REGEN: Pending must be reached by ''
      @ ''Restoring the prior Stable root snapshot and replaying the semantic action ''
      @ ''prefix, never by Restoring a Pending snapshot directly.'')"

definition raise_if_root_snapshot_not_restore_eligible :: "(string \<Rightarrow> json res) \<Rightarrow> root \<Rightarrow> unit res" where
  "raise_if_root_snapshot_not_restore_eligible loads r =
     sbind (search_root r :: unit search_adapter res) (\<lambda>a.
       if sr_is_combat_start a then Inr ()
       else sbind (root_snapshot_capture_boundary loads r) (\<lambda>b.
         if b = JNull then Inr ()
         else sbind (capture_boundary_is_restore_eligible b)
                (\<lambda>ok. if ok then Inr () else Inl (restore_violation b))))"

datatype replay_outcome =
    Replay_success battle_state
  | Replay_mismatch "nat option" string string "string list"

definition current_legal :: "'s session_ops \<Rightarrow> battle_state \<Rightarrow> ('s, action list) stateop" where
  "current_legal ops st = (case bs_cached st of Some (a # as) \<Rightarrow> oreturn (a # as) | _ \<Rightarrow> so_legal ops)"

definition ROOM_ENTRY_REPLAY_MAX_STEPS :: nat where
  "ROOM_ENTRY_REPLAY_MAX_STEPS = 400"

text \<open>The check of a room-entry bootstrap; \<open>Some\<close> is the mismatch it reports.\<close>

definition room_entry_check ::
  "'s session_ops \<Rightarrow> decision_signature \<Rightarrow> battle_state \<Rightarrow> ('s, replay_outcome option) stateop" where
  "room_entry_check ops expected st =
     obind (current_legal ops st) (\<lambda>legal.
       case resolve (sg_action expected) legal of
         Inl detail \<Rightarrow> oreturn (Some (Replay_mismatch None ''context_signature''
            (''room-entry root action was not resolvable: '' @ detail) []))
       | Inr act \<Rightarrow>
           obind (olift (from_battle_state st (sg_action expected) act None None None)) (\<lambda>observed.
             oreturn (if \<not> matches_for_replay observed expected
               then Some (Replay_mismatch None ''context_signature'' ''room-entry bootstrap diverged from root DecisionSignature''
                           (diff_for_replay observed expected))
               else None)))"

fun replay_prefix_from ::
  "'s session_ops \<Rightarrow> nat \<Rightarrow> prefix_entry list \<Rightarrow> battle_state \<Rightarrow> decision_signature option
   \<Rightarrow> ('s, replay_outcome + battle_state \<times> decision_signature option) stateop" where
  "replay_prefix_from ops index [] st last_observed = oreturn (Inr (st, last_observed))"
| "replay_prefix_from ops index (e # es) st last_observed =
     obind (current_legal ops st) (\<lambda>legal.
       case resolve (rp_action e) legal of
         Inl detail \<Rightarrow> oreturn (Inl (Replay_mismatch (Some index) ''resolve'' detail []))
       | Inr act \<Rightarrow>
           obind (so_step ops st act (rp_target e) (rp_enemy e)) (\<lambda>st'.
           obind (olift (from_battle_state st' (rp_action e) act (rp_target e) (rp_enemy e) None)) (\<lambda>observed.
             if \<not> matches_for_replay observed (rp_expected e)
             then oreturn (Inl (Replay_mismatch (Some index) ''signature''
                    (''observed post-step signature diverged from replay prefix entry '' @ digits index)
                    (diff_for_replay observed (rp_expected e))))
             else replay_prefix_from ops (Suc index) es st' (Some observed))))"

definition arrival_check ::
  "decision_signature \<Rightarrow> battle_state \<Rightarrow> decision_signature option \<Rightarrow> replay_outcome res" where
  "arrival_check expected st last_observed = (case last_observed of
       Some observed \<Rightarrow> Inr (
         if \<not> matches_for_replay observed expected
         then Replay_mismatch None ''context_signature'' ''arrival state's signature diverged from Current Context Signature''
                (diff_for_replay observed expected)
         else Replay_success st)
     | None \<Rightarrow> sbind (boundary_of_battle_state st) (\<lambda>b. Inr (
         if b \<noteq> sg_boundary expected
         then Replay_mismatch None ''context_signature''
                (''restored root's Boundary ('' @ repr_str b
                 @ '') diverged from Current Context Signature's recorded Boundary ('' @ repr_str (sg_boundary expected) @ '')'')
                [''boundary'']
         else Replay_success st)))"

definition is_room_entry :: "root \<Rightarrow> bool" where
  "is_room_entry r = (case r of Room_entry _ _ \<Rightarrow> True | _ \<Rightarrow> False)"

definition replay_and_arrive ::
  "'s session_ops \<Rightarrow> decision_context \<Rightarrow> battle_state \<Rightarrow> ('s, replay_outcome) stateop" where
  "replay_and_arrive ops c st =
     (if is_room_entry (dc_root c) \<and> ROOM_ENTRY_REPLAY_MAX_STEPS < length (dc_prefix c)
      then oreturn (Replay_mismatch (Some ROOM_ENTRY_REPLAY_MAX_STEPS) ''replay_bound''
             (''room-entry replay prefix exceeded the maximum of '' @ digits ROOM_ENTRY_REPLAY_MAX_STEPS @ '' steps'') [])
      else obind (replay_prefix_from ops 0 (dc_prefix c) st None) (\<lambda>r. case r of
          Inl mismatch \<Rightarrow> oreturn mismatch
        | Inr (st', last_observed) \<Rightarrow> olift (arrival_check (dc_signature c) st' last_observed)))"

definition replay_decision_context ::
  "(string \<Rightarrow> json res) \<Rightarrow> 's session_ops \<Rightarrow> decision_context \<Rightarrow> ('s, replay_outcome) stateop" where
  "replay_decision_context loads ops c =
     obind (olift (raise_if_root_snapshot_not_restore_eligible loads (dc_root c))) (\<lambda>_.
     obind (olift (search_root (dc_root c))) (\<lambda>adapter.
     obind (sr_bootstrap adapter ops) (\<lambda>st.
     obind (if is_room_entry (dc_root c) then room_entry_check ops (dc_signature c) st else oreturn None) (\<lambda>bad.
       case bad of
         Some mismatch \<Rightarrow> oreturn mismatch
       | None \<Rightarrow> replay_and_arrive ops c st))))"

section \<open>Lemmas\<close>

lemma resolve_sound: "resolve sa legal = Inr a \<Longrightarrow> a \<in> set legal \<and> same_action sa a"
  by (auto simp: resolve_def find_Some_iff split: option.splits)

lemma resolve_complete: "resolve sa legal = Inl e \<longleftrightarrow>
    (\<forall>a \<in> set legal. \<not> same_action sa a) \<and> e = repr_semantic_action sa @ '' did not resolve against any of ''
      @ digits (length legal) @ '' legal action(s)''"
  by (auto simp: resolve_def find_Some_iff find_None_iff split: option.splits)

lemma from_battle_state_boundary:
  "from_battle_state bs sa a t e l = Inr g \<Longrightarrow> sg_boundary g \<in> set BOUNDARY_VALUES
     \<and> sg_action g = sa \<and> sg_target g = t \<and> sg_target_slot g = e"
  by (auto simp: from_battle_state_def sbind_eq_Inr signature_checked_def split: if_splits prod.splits)

text \<open>Agreement in every field that survives a restore.\<close>

definition portable_agreement :: "decision_signature \<Rightarrow> decision_signature \<Rightarrow> bool" where
  "portable_agreement a b \<longleftrightarrow>
     sg_step a = sg_step b \<and> sg_continuation a = sg_continuation b
     \<and> action_norm (sg_action a) = action_norm (sg_action b) \<and> py_eq (sg_key a) (sg_key b)
     \<and> sg_target a = sg_target b \<and> sg_target_slot a = sg_target_slot b
     \<and> sg_boundary a = sg_boundary b \<and> sg_scope a = sg_scope b
     \<and> candidates_norm (sg_candidates a) = candidates_norm (sg_candidates b)"

lemma filter_disagreement:
  "filter Q (map fst (filter (\<lambda>e. \<not> snd e) xs)) = [] \<longleftrightarrow> list_all (\<lambda>e. snd e \<or> \<not> Q (fst e)) xs"
  by (induction xs) auto

lemma in_disagreement: "n \<in> set (map fst (filter (\<lambda>e. \<not> snd e) xs)) \<longleftrightarrow> list_ex (\<lambda>e. \<not> snd e \<and> fst e = n) xs"
  by (induction xs) auto

lemma kind_in_diff: "''choice_kind'' \<in> set (diff a b) \<longleftrightarrow> \<not> py_eq (sg_kind a) (sg_kind b)"
  unfolding diff_def in_disagreement by (simp add: field_agreement_def)

lemma kind_unclassified: "py_eq CHOICE_KIND_UNCLASSIFIED v \<longleftrightarrow> v = CHOICE_KIND_UNCLASSIFIED"
  by (auto simp: py_eq_def CHOICE_KIND_UNCLASSIFIED_def eq_commute [of "JStr _"])

lemma matches_iff:
  "matches_for_replay a b \<longleftrightarrow> portable_agreement a b
     \<and> (py_eq (sg_kind a) (sg_kind b) \<or> sg_kind a = CHOICE_KIND_UNCLASSIFIED \<or> sg_kind b = CHOICE_KIND_UNCLASSIFIED)"
proof -
  let ?Q = "\<lambda>n. n \<notin> set REPLAY_INCOMPARABLE_FIELDS"
  have inc: "''choice_kind'' \<notin> set REPLAY_INCOMPARABLE_FIELDS" by (simp add: REPLAY_INCOMPARABLE_FIELDS_def)
  have all: "filter ?Q (diff a b) = [] \<longleftrightarrow> portable_agreement a b \<and> py_eq (sg_kind a) (sg_kind b)"
    unfolding diff_def filter_disagreement portable_agreement_def
    by (simp add: field_agreement_def REPLAY_INCOMPARABLE_FIELDS_def conj_ac)
  have rest: "filter (\<lambda>n. n \<noteq> ''choice_kind'') (filter ?Q (diff a b)) = [] \<longleftrightarrow> portable_agreement a b"
    unfolding diff_def filter_filter filter_disagreement portable_agreement_def
    by (simp add: field_agreement_def REPLAY_INCOMPARABLE_FIELDS_def conj_ac)
  have ck: "''choice_kind'' \<in> set (filter ?Q (diff a b)) \<longleftrightarrow> \<not> py_eq (sg_kind a) (sg_kind b)"
    using inc kind_in_diff [of a b] by simp
  show ?thesis
    unfolding matches_for_replay_def diff_for_replay_def Let_def kind_unclassified ck
    using all rest by auto
qed

text \<open>The runs of a replay: every entry resolves, steps and reproduces its signature.\<close>

inductive replays ::
  "'s session_ops \<Rightarrow> prefix_entry list \<Rightarrow> battle_state \<Rightarrow> 's \<Rightarrow> decision_signature option
   \<Rightarrow> battle_state \<Rightarrow> 's \<Rightarrow> decision_signature option \<Rightarrow> bool"
  for ops where
  done_replaying: "replays ops [] st s g st s g"
| replay_step: "current_legal ops st s = (Inr legal, s1) \<Longrightarrow> a \<in> set legal \<Longrightarrow> same_action (rp_action e) a \<Longrightarrow>
    so_step ops st a (rp_target e) (rp_enemy e) s1 = (Inr st', s2) \<Longrightarrow>
    from_battle_state st' (rp_action e) a (rp_target e) (rp_enemy e) None = Inr obs \<Longrightarrow>
    matches_for_replay obs (rp_expected e) \<Longrightarrow>
    replays ops es st' s2 (Some obs) stf sf gf \<Longrightarrow>
    replays ops (e # es) st s g stf sf gf"

lemma replay_prefix_sound:
  "replay_prefix_from ops i es st g s = (Inr (Inr (stf, gf)), sf) \<Longrightarrow> replays ops es st s g stf sf gf"
proof (induction es arbitrary: i st g s)
  case Nil
  then show ?case by (auto intro: done_replaying)
next
  case (Cons e es)
  from Cons.prems obtain legal s1 where legal: "current_legal ops st s = (Inr legal, s1)"
    by (auto simp: obind_Inr)
  with Cons.prems obtain a where a: "resolve (rp_action e) legal = Inr a"
    by (auto simp: obind_Inr split: sum.splits)
  with Cons.prems legal obtain st' s2 obs where
      "so_step ops st a (rp_target e) (rp_enemy e) s1 = (Inr st', s2)"
      "from_battle_state st' (rp_action e) a (rp_target e) (rp_enemy e) None = Inr obs"
      "matches_for_replay obs (rp_expected e)"
      "replay_prefix_from ops (Suc i) es st' (Some obs) s2 = (Inr (Inr (stf, gf)), sf)"
    by (auto simp: obind_Inr split: if_splits)
  with legal resolve_sound [OF a] Cons.IH show ?case by (blast intro: replay_step)
qed

lemma replays_last: "replays ops es st s g stf sf gf \<Longrightarrow> es \<noteq> [] \<Longrightarrow> \<exists>o'. gf = Some o' \<and> matches_for_replay o' (rp_expected (last es))"
proof (induction rule: replays.induct)
  case (replay_step st s legal s1 a e st' s2 obs es stf sf gf g)
  show ?case
  proof (cases "es = []")
    case True
    with replay_step.hyps(7) have "gf = Some obs" by (auto elim: replays.cases)
    with True replay_step.hyps(6) show ?thesis by simp
  next
    case False
    with replay_step.IH show ?thesis by simp
  qed
qed simp

definition is_combat_start :: "root \<Rightarrow> bool" where
  "is_combat_start r = (case r of Combat_start _ \<Rightarrow> True | _ \<Rightarrow> False)"

lemma adapter_combat_start: "search_root r = Inr a \<Longrightarrow> sr_is_combat_start a = is_combat_start r"
  by (cases r) (auto simp: search_root_def adapter_defs is_combat_start_def Let_def)

lemma eligible_boundary:
  "raise_if_root_snapshot_not_restore_eligible loads r = Inr () \<Longrightarrow> is_combat_start r
    \<or> root_snapshot_capture_boundary loads r \<in> {Inr JNull, Inr (JStr ''normal_player_decision'')}"
  by (auto simp: raise_if_root_snapshot_not_restore_eligible_def sbind_eq_Inr adapter_combat_start
      capture_boundary_is_restore_eligible_def RESTORE_ELIGIBLE_CAPTURE_BOUNDARY_VALUES_def hashed_def split: if_splits)

lemma room_entry_check_mismatch:
  "room_entry_check ops g st s \<noteq> (Inr (Some (Replay_success x)), s')"
  by (auto simp: room_entry_check_def obind_Inr split: sum.splits if_splits)

lemma replay_prefix_mismatch: "replay_prefix_from ops i es st g s \<noteq> (Inr (Inl (Replay_success x)), s')"
proof (induction es arbitrary: i st g s)
  case (Cons e es)
  then show ?case by (auto simp: obind_Inr split: sum.splits if_splits)
qed simp

lemma replay_and_arrive_sound:
  assumes "replay_and_arrive ops c st s = (Inr (Replay_success final), s')"
  obtains g where "is_room_entry (dc_root c) \<longrightarrow> length (dc_prefix c) \<le> 400"
    "replays ops (dc_prefix c) st s None final s' g"
    "arrival_check (dc_signature c) final g = Inr (Replay_success final)"
proof -
  from assms obtain r s1 where bound: "is_room_entry (dc_root c) \<longrightarrow> length (dc_prefix c) \<le> 400"
    and r: "replay_prefix_from ops 0 (dc_prefix c) st None s = (Inr r, s1)"
      "(case r of Inl m \<Rightarrow> oreturn m | Inr (st', g) \<Rightarrow> olift (arrival_check (dc_signature c) st' g)) s1
        = (Inr (Replay_success final), s')"
    by (auto simp: replay_and_arrive_def obind_Inr ROOM_ENTRY_REPLAY_MAX_STEPS_def split: if_splits)
  show thesis
  proof (cases r)
    case (Inl m)
    with r have False using replay_prefix_mismatch by (metis oreturn_run old.sum.simps(5) prod.inject sum.inject(2))
    then show thesis ..
  next
    case (Inr p)
    obtain st' g where p: "p = (st', g)" by (cases p)
    with Inr r(2) have a: "arrival_check (dc_signature c) st' g = Inr (Replay_success final)" "s1 = s'" by simp_all
    then have "st' = final" by (auto simp: arrival_check_def sbind_eq_Inr split: option.splits if_splits)
    with a Inr p r(1) bound show thesis by (intro that) (auto intro: replay_prefix_sound)
  qed
qed

text \<open>Counting keys that are strings.\<close>

definition string_key :: "candidate_key \<Rightarrow> bool" where
  "string_key k = (case k of (JStr _, JStr _) \<Rightarrow> True | _ \<Rightarrow> False)"

lemma string_key_iff: "string_key k \<longleftrightarrow> (\<exists>s t. k = (JStr s, JStr t))"
proof (cases k)
  case (Pair a b)
  then show ?thesis by (cases a; cases b) (simp_all add: string_key_def)
qed

lemma string_key_norm: "string_key k \<Longrightarrow> key_norm k = k"
  by (auto simp: string_key_iff key_norm_def)

lemma repr_string_key_inj: "string_key k \<Longrightarrow> string_key k' \<Longrightarrow> repr_candidate_key k = repr_candidate_key k' \<Longrightarrow> k = k'"
  by (auto simp: string_key_iff repr_candidate_key_def repr_str_prefix_inj)

lemma counter_add_keys:
  assumes "string_key k" "list_all string_key (dkeys c)"
  shows "dkeys (counter_add k c) = (if k \<in> set (dkeys c) then dkeys c else dkeys c @ [k])"
    and "dget (counter_add k c) k' = (if k' = k then Some (Suc (case dget c k of None \<Rightarrow> 0 | Some n \<Rightarrow> n)) else dget c k')"
proof -
  have "dkeys (counter_add k c) = (if k \<in> set (dkeys c) then dkeys c else dkeys c @ [k])
    \<and> dget (counter_add k c) k' = (if k' = k then Some (Suc (case dget c k of None \<Rightarrow> 0 | Some n \<Rightarrow> n)) else dget c k')"
    using assms(2)
  proof (induction c)
    case (Cons e c)
    obtain j n where e: "e = (j, n)" by (cases e)
    have eq: "key_norm j = key_norm k \<longleftrightarrow> j = k" using Cons.prems assms(1) e by (simp add: string_key_norm)
    show ?case
    proof (cases "j = k")
      case False
      with Cons eq e show ?thesis by auto
    qed (simp add: e)
  qed simp
  then show "dkeys (counter_add k c) = (if k \<in> set (dkeys c) then dkeys c else dkeys c @ [k])"
    and "dget (counter_add k c) k' = (if k' = k then Some (Suc (case dget c k of None \<Rightarrow> 0 | Some n \<Rightarrow> n)) else dget c k')"
    by blast+
qed

lemma counter_of_string_keys:
  assumes "list_all string_key keys"
  defines "c \<equiv> foldl (\<lambda>c k. counter_add k c) [] keys"
  shows "distinct (dkeys c) \<and> set (dkeys c) = set keys
    \<and> (\<forall>k \<in> set keys. dget c k = Some (count (mset keys) k)) \<and> sum_list (map snd c) = length keys"
  using assms(1) unfolding c_def
proof (induction keys rule: rev_induct)
  case (snoc k keys)
  let ?c = "foldl (\<lambda>c k. counter_add k c) [] keys"
  have IH: "distinct (dkeys ?c)" "set (dkeys ?c) = set keys"
      "\<forall>k \<in> set keys. dget ?c k = Some (count (mset keys) k)" "sum_list (map snd ?c) = length keys"
    using snoc by simp_all
  have str: "string_key k" "list_all string_key (dkeys ?c)" using snoc.prems IH(2) by (auto simp: list_all_iff)
  note add = counter_add_keys [OF str]
  have total: "sum_list (map snd (counter_add k c)) = Suc (sum_list (map snd c))" for c
    by (induction c) auto
  have none: "k \<notin> set keys \<Longrightarrow> dget ?c k = None" using IH(2) by (simp add: dget_None_iff)
  have "dget (counter_add k ?c) j = Some (count (mset (keys @ [k])) j)" if "j \<in> set (keys @ [k])" for j
    using that IH(3) none by (cases "k \<in> set keys") (auto simp: add(2) split: option.splits)
  with IH add(1) total [of ?c] show ?case by auto
qed simp

lemma counter_order:
  assumes "list_all string_key ks" "mset ks = mset ks'"
  shows "sort_key (repr_candidate_key \<circ> fst) (foldl (\<lambda>c k. counter_add k c) [] ks)
    = sort_key (repr_candidate_key \<circ> fst) (foldl (\<lambda>c k. counter_add k c) [] ks')"
proof (rule sort_key_unique_keys)
  let ?c = "\<lambda>ks. foldl (\<lambda>c k. counter_add k c) [] ks"
  have sets: "set ks' = set ks" using assms(2) by (metis set_mset_mset)
  with assms(1) have str': "list_all string_key ks'" by (simp add: list_all_iff)
  note c = counter_of_string_keys [OF assms(1)] counter_of_string_keys [OF str']
  have entries: "set (?c ls) = {(k, count (mset ls) k) |k. k \<in> set ls}" if "list_all string_key ls" for ls
  proof -
    have "distinct (dkeys (?c ls))" "set (dkeys (?c ls)) = set ls"
        "\<forall>k \<in> set ls. dget (?c ls) k = Some (count (mset ls) k)"
      using counter_of_string_keys [OF that] by simp_all
    then have "(k, n) \<in> set (?c ls) \<longleftrightarrow> k \<in> set ls \<and> n = count (mset ls) k" for k n
      by (metis (no_types, lifting) dget_iff_dkeys map_of_SomeD map_of_is_SomeI option.inject option.distinct(1))
    then show ?thesis by (auto simp del: count_mset)
  qed
  show "set (?c ks) = set (?c ks')" unfolding entries [OF assms(1)] entries [OF str'] using assms(2) sets by simp
  show "distinct (?c ks)" "distinct (?c ks')" using c by (simp_all add: distinct_map)
  show "inj_on (repr_candidate_key \<circ> fst) (set (?c ks))"
  proof (rule inj_onI)
    fix x y assume xy: "x \<in> set (?c ks)" "y \<in> set (?c ks)" "(repr_candidate_key \<circ> fst) x = (repr_candidate_key \<circ> fst) y"
    then have "fst x \<in> set ks" "fst y \<in> set ks" using entries [OF assms(1)] by auto
    with assms(1) xy(3) have "fst x = fst y" by (intro repr_string_key_inj) (auto simp: list_all_iff)
    with xy(1,2) show "x = y" using entries [OF assms(1)] by auto
  qed
qed

lemma candidate_multiset_named:
  assumes "list_all (string_key \<circ> candidate_semantic_key) legal"
  shows "candidate_multiset legal = Inr (sort_key (repr_candidate_key \<circ> fst)
    (foldl (\<lambda>c k. counter_add k c) [] (map candidate_semantic_key legal)))"
proof -
  have "map_res (\<lambda>a. sbind (hashed (jget a ''action_type'')) (\<lambda>_.
            sbind (hashed (semantic_key_of a)) (\<lambda>_. Inr (candidate_semantic_key a)))) legal
      = Inr (map candidate_semantic_key legal)"
    using assms
    by (induction legal) (auto simp: string_key_def candidate_semantic_key_def hashed_def split: json.splits)
  then show ?thesis by (simp add: candidate_multiset_def)
qed

text \<open>Sorting the keys of a value, at every depth, as a serialiser with sorted keys does.\<close>

fun key_sorted :: "json \<Rightarrow> json" where
  "key_sorted (JObj d) = JObj (sort_key fst (map (\<lambda>(k, v). (k, key_sorted v)) d))"
| "key_sorted (JArr xs) = JArr (map key_sorted xs)"
| "key_sorted v = v"

lemma dumps_key_sorted:
  "json_dumps ea (strip_volatile ex (key_sorted v)) = json_dumps ea (strip_volatile ex v)"
proof (induction v rule: key_sorted.induct)
  case (1 d)
  let ?keep = "\<lambda>(k :: string, v :: json). \<not> (ex \<and> k \<in> set VOLATILE_METADATA_KEYS)"
  let ?txt = "\<lambda>(k, v). (k, dumps_str ea k @ '':'' @ json_dumps ea (strip_volatile ex v))"
  have keep: "filter ?keep (sort_key fst xs) = sort_key fst (filter ?keep xs)" for xs
    by (rule filter_sort)
  have dumped: "map ?txt (sort_key fst xs) = sort_key fst (map ?txt xs)" for xs
    by (rule sort_key_map) (simp add: split_beta)
  let ?ks = "map (\<lambda>(k, v). (k, key_sorted v))"
  have kept: "filter ?keep (?ks d) = ?ks (filter ?keep d)" by (induction d) auto
  have "map ?txt (?ks (filter ?keep d)) = map ?txt (filter ?keep d)"
    unfolding map_map by (rule map_cong [OF refl]) (use 1 in auto)
  then have "sort_key fst (map ?txt (filter ?keep (sort_key fst (?ks d)))) = sort_key fst (map ?txt (filter ?keep d))"
    by (simp only: keep dumped kept sort_key_idem)
  moreover have "map (\<lambda>(k, v). (k, dumps_str ea k @ '':'' @ json_dumps ea v)) (map (\<lambda>(k, v). (k, strip_volatile ex v)) xs)
      = map ?txt xs" for xs
    by (simp add: comp_def split_beta)
  ultimately show ?case by (simp only: key_sorted.simps strip_volatile.simps json_dumps.simps)
qed (simp_all add: comp_def cong: map_cong)

text \<open>
  A room-entry context that has committed steps is never replayed: \<open>replay_decision_context\<close>
  compares the bootstrapped root with the signature of the context, which for a non-empty prefix
  is the signature of the arrival, and the two have different step indices.
\<close>

lemma from_battle_state_step:
  "from_battle_state bs sa a t e l = Inr g \<Longrightarrow> sg_step g = (case bs_frame bs of Some f \<Rightarrow> fr_step f | None \<Rightarrow> - 1)"
  by (auto simp: from_battle_state_def sbind_eq_Inr signature_checked_def split: if_splits prod.splits)

lemma room_entry_prefix_never_replays:
  assumes "build_decision_context_from_room_entry snap room pref result = Inr c" "pref \<noteq> []"
    and moved: "\<And>s st s1. so_room ops snap room s = (Inr st, s1) \<Longrightarrow>
      (case bs_frame st of Some f \<Rightarrow> fr_step f | None \<Rightarrow> - 1) \<noteq> sg_step (rp_expected (last pref))"
  shows "replay_decision_context loads ops c s \<noteq> (Inr (Replay_success final), s')"
proof
  assume ok: "replay_decision_context loads ops c s = (Inr (Replay_success final), s')"
  have c: "dc_root c = Room_entry snap room" "dc_signature c = rp_expected (last pref)"
    using assms(1,2) by (auto simp: build_decision_context_from_room_entry_def arrival_signature_def
        from_room_entry_pending_def Let_def)
  from ok obtain st s1 bad s2 where r: "so_room ops snap room s = (Inr st, s1)"
      "room_entry_check ops (dc_signature c) st s1 = (Inr bad, s2)"
      "(case bad of Some m \<Rightarrow> oreturn m | None \<Rightarrow> replay_and_arrive ops c st) s2 = (Inr (Replay_success final), s')"
    unfolding replay_decision_context_def c(1)
    by (auto simp: obind_Inr search_root_def room_entry_search_root_def is_room_entry_def)
  have "bad = None"
    using r(2,3) room_entry_check_mismatch [of ops "dc_signature c" st s1 final s2] by (cases bad) auto
  with r(2) obtain legal s3 where "(case resolve (sg_action (dc_signature c)) legal of
         Inl detail \<Rightarrow> oreturn (Some (Replay_mismatch None ''context_signature''
            (''room-entry root action was not resolvable: '' @ detail) []))
       | Inr act \<Rightarrow>
           obind (olift (from_battle_state st (sg_action (dc_signature c)) act None None None)) (\<lambda>observed.
             oreturn (if \<not> matches_for_replay observed (dc_signature c)
               then Some (Replay_mismatch None ''context_signature'' ''room-entry bootstrap diverged from root DecisionSignature''
                           (diff_for_replay observed (dc_signature c)))
               else None))) s3 = (Inr None, s2)"
    unfolding room_entry_check_def obind_Inr by blast
  then obtain a obs where "from_battle_state st (sg_action (dc_signature c)) a None None None = Inr obs"
      "matches_for_replay obs (dc_signature c)"
    by (cases "resolve (sg_action (dc_signature c)) legal") (auto simp: obind_Inr split: if_splits)
  with moved [OF r(1)] show False by (auto simp: c matches_iff portable_agreement_def dest: from_battle_state_step)
qed

section \<open>Properties\<close>

text \<open>How a root is bootstrapped, and what a room-entry root has to reproduce before its replay.\<close>

definition bootstrap_of :: "'s session_ops \<Rightarrow> root \<Rightarrow> ('s, battle_state) stateop option" where
  "bootstrap_of ops r = (case r of
       Combat_start spec \<Rightarrow> Some (so_start ops spec)
     | Room_entry snap room \<Rightarrow> Some (so_room ops snap room)
     | Other_dataclass _ \<Rightarrow> None
     | _ \<Rightarrow> Some (so_restore ops r))"

definition reproduces_root ::
  "'s session_ops \<Rightarrow> decision_signature \<Rightarrow> battle_state \<Rightarrow> 's \<Rightarrow> 's \<Rightarrow> bool" where
  "reproduces_root ops expected st s s' \<longleftrightarrow> (\<exists>legal a observed.
     current_legal ops st s = (Inr legal, s') \<and> a \<in> set legal \<and> same_action (sg_action expected) a
     \<and> from_battle_state st (sg_action expected) a None None None = Inr observed
     \<and> matches_for_replay observed expected)"

lemma bootstrap_of_root:
  "search_root r = Inr adapter \<Longrightarrow> bootstrap_of ops r = Some (sr_bootstrap adapter ops)"
  by (cases r) (auto simp: search_root_def adapter_defs bootstrap_of_def Let_def)

lemma room_entry_check_sound:
  assumes "room_entry_check ops expected st s = (Inr None, s')"
  shows "reproduces_root ops expected st s s'"
proof -
  from assms obtain legal s1 where legal: "current_legal ops st s = (Inr legal, s1)"
    "(case resolve (sg_action expected) legal of
         Inl detail \<Rightarrow> oreturn (Some (Replay_mismatch None ''context_signature''
            (''room-entry root action was not resolvable: '' @ detail) []))
       | Inr act \<Rightarrow>
           obind (olift (from_battle_state st (sg_action expected) act None None None)) (\<lambda>observed.
             oreturn (if \<not> matches_for_replay observed expected
               then Some (Replay_mismatch None ''context_signature'' ''room-entry bootstrap diverged from root DecisionSignature''
                           (diff_for_replay observed expected))
               else None))) s1 = (Inr None, s')"
    unfolding room_entry_check_def obind_Inr by blast
  then obtain a observed where "resolve (sg_action expected) legal = Inr a" "s' = s1"
      "from_battle_state st (sg_action expected) a None None None = Inr observed" "matches_for_replay observed expected"
    by (cases "resolve (sg_action expected) legal") (auto simp: obind_Inr split: if_splits)
  with legal(1) resolve_sound show ?thesis unfolding reproduces_root_def by blast
qed

text \<open>
  C14.  A successful replay is a real run to the recorded decision: the root was restorable (a
  snapshot taken at a pending choice never is), the run starts in the state and the session that
  bootstrapping the root gives (for a room-entry root, after it reproduced the signature of the
  root), every entry of the prefix resolved to an offered action of the same semantic key and
  reproduced its recorded signature, the arrival agrees with the signature of the context, and a
  room-entry root took at most 400 steps.
\<close>

theorem replay_success_sound:
  assumes "replay_decision_context loads ops c s = (Inr (Replay_success final), s')"
  shows "(is_combat_start (dc_root c)
      \<or> root_snapshot_capture_boundary loads (dc_root c) \<in> {Inr JNull, Inr (JStr ''normal_player_decision'')})
    \<and> \<not> (is_room_entry (dc_root c) \<and> 400 < length (dc_prefix c))
    \<and> (\<exists>boot st s1 s2 g. bootstrap_of ops (dc_root c) = Some boot \<and> boot s = (Inr st, s1)
      \<and> (if is_room_entry (dc_root c) then reproduces_root ops (dc_signature c) st s1 s2 else s2 = s1)
      \<and> replays ops (dc_prefix c) st s2 None final s' g
      \<and> (case g of Some observed \<Rightarrow> matches_for_replay observed (dc_signature c)
         | None \<Rightarrow> dc_prefix c = [] \<and> boundary_of_battle_state final = Inr (sg_boundary (dc_signature c))))"
proof -
  from assms obtain adapter st s1 bad s2 where r:
      "raise_if_root_snapshot_not_restore_eligible loads (dc_root c) = Inr ()"
      "search_root (dc_root c) = Inr adapter \<and> sr_bootstrap adapter ops s = (Inr st, s1)"
      "(if is_room_entry (dc_root c) then room_entry_check ops (dc_signature c) st else oreturn None) s1 = (Inr bad, s2)"
      "(case bad of Some m \<Rightarrow> oreturn m | None \<Rightarrow> replay_and_arrive ops c st) s2 = (Inr (Replay_success final), s')"
    by (auto simp: replay_decision_context_def obind_Inr)
  have "bad = None"
    using r(3,4) room_entry_check_mismatch [of ops "dc_signature c" st s1 final s2]
    by (cases bad) (auto split: if_splits)
  with r(4) have arrive: "replay_and_arrive ops c st s2 = (Inr (Replay_success final), s')" by simp
  have start: "if is_room_entry (dc_root c) then reproduces_root ops (dc_signature c) st s1 s2 else s2 = s1"
    using r(3) \<open>bad = None\<close> by (auto intro: room_entry_check_sound split: if_splits)
  have boot: "bootstrap_of ops (dc_root c) = Some (sr_bootstrap adapter ops)" "sr_bootstrap adapter ops s = (Inr st, s1)"
    using r(2) by (simp_all add: bootstrap_of_root)
  from arrive obtain g where g: "is_room_entry (dc_root c) \<longrightarrow> length (dc_prefix c) \<le> 400"
      "replays ops (dc_prefix c) st s2 None final s' g"
      "arrival_check (dc_signature c) final g = Inr (Replay_success final)" by (rule replay_and_arrive_sound)
  have "case g of Some observed \<Rightarrow> matches_for_replay observed (dc_signature c)
      | None \<Rightarrow> dc_prefix c = [] \<and> boundary_of_battle_state final = Inr (sg_boundary (dc_signature c))"
    using g(3) replays_last [OF g(2)]
    by (cases g) (auto simp: arrival_check_def sbind_eq_Inr split: if_splits)
  moreover have "\<not> (is_room_entry (dc_root c) \<and> 400 < length (dc_prefix c))" using g(1) by auto
  ultimately show ?thesis using boot start g(2) eligible_boundary [OF r(1)] by blast
qed

definition sample_action :: action where
  "sample_action = [(''action_type'', JStr ''card''), (''semantic_key'', JStr ''card:STRIKE''), (''action_id'', JInt 3)]"

definition sample_state :: "int \<Rightarrow> battle_state" where
  "sample_state n = \<lparr> bs_engine = [], bs_terminal = False, bs_outcome = ''InProgress'', bs_turn = 1, bs_enemy_max_hps = [],
     bs_shuffle_seed = None, bs_cached = Some [sample_action],
     bs_frame = Some \<lparr> fr_session = Some ''c1'', fr_step = n, fr_continuation = None \<rparr>, bs_completion = None \<rparr>"

definition sample_semantic :: semantic_action where
  "sample_semantic = \<lparr> sa_type = JStr ''card'', sa_key = JStr ''card:STRIKE'' \<rparr>"

definition sample_signature :: decision_signature where
  "sample_signature = \<lparr> sg_session = Some ''c0'', sg_step = 1, sg_continuation = None, sg_action = sample_semantic,
     sg_action_id = 9, sg_key = JStr ''card:STRIKE'', sg_target = None, sg_target_slot = Some 0, sg_boundary = ''stable'',
     sg_scope = None, sg_kind = JNull, sg_candidates = None \<rparr>"

definition sample_ops :: "nat session_ops" where
  "sample_ops = \<lparr> so_start = (\<lambda>_. oreturn (sample_state 0)), so_restore = (\<lambda>_. oreturn (sample_state 0)),
     so_room = (\<lambda>_ _. oreturn (sample_state 0)), so_step = (\<lambda>_ _ _ _ s. (Inr (sample_state 1), Suc s)),
     so_legal = oreturn [] \<rparr>"

definition sample_context :: decision_context where
  "sample_context = \<lparr> dc_root = Json_dict [],
     dc_prefix = [\<lparr> rp_action = sample_semantic, rp_expected = sample_signature, rp_target = None, rp_enemy = Some 0,
       rp_constraints = [], rp_blocked = False, rp_error = None \<rparr>],
     dc_plan = [], dc_result = sample_state 1, dc_signature = sample_signature, dc_hypothesis = None \<rparr>"

lemmas sample_defs = sample_action_def sample_state_def sample_semantic_def sample_signature_def sample_ops_def sample_context_def

lemma sample_resolve: "resolve sample_semantic [sample_action] = Inr sample_action"
  by (simp add: resolve_def same_action_def sample_semantic_def sample_action_def jget_def semantic_key_of_def)

lemma sample_observed:
  "from_battle_state (sample_state 1) sample_semantic sample_action None (Some 0) None
     = Inr (sample_signature\<lparr>sg_session := Some ''c1'', sg_action_id := 3\<rparr>)"
  by (simp add: from_battle_state_def boundary_of_battle_state_def pending_choice_metadata_def pending_fields_def
      signature_checked_def sample_defs jget_def subscript_def int_of_json_def semantic_key_of_def
      BOUNDARY_STABLE_def BOUNDARY_PENDING_def BOUNDARY_VALUES_def)

lemma sample_matches: "matches_for_replay (sample_signature\<lparr>sg_session := Some ''c1'', sg_action_id := 3\<rparr>) sample_signature"
  by (simp add: matches_iff portable_agreement_def)

lemma sample_replay:
  "replay_decision_context (\<lambda>_. Inr JNull) sample_ops sample_context 0 = (Inr (Replay_success (sample_state 1)), 1)"
proof -
  have legal: "current_legal sample_ops (sample_state n) = oreturn [sample_action]" for n
    by (simp add: current_legal_def sample_state_def)
  have "replay_prefix_from sample_ops 0 (dc_prefix sample_context) (sample_state 0) None 0
      = (Inr (Inr (sample_state 1, Some (sample_signature\<lparr>sg_session := Some ''c1'', sg_action_id := 3\<rparr>))), 1)"
    by (simp add: sample_context_def legal sample_resolve sample_observed sample_matches obind_def)
      (simp add: sample_ops_def sample_observed sample_matches)
  moreover have "arrival_check (dc_signature sample_context) (sample_state 1)
      (Some (sample_signature\<lparr>sg_session := Some ''c1'', sg_action_id := 3\<rparr>)) = Inr (Replay_success (sample_state 1))"
    by (simp add: arrival_check_def sample_matches sample_context_def)
  moreover have "raise_if_root_snapshot_not_restore_eligible (\<lambda>_. Inr JNull) (dc_root sample_context) = Inr ()"
    by (simp add: sample_context_def raise_if_root_snapshot_not_restore_eligible_def search_root_def json_search_root_def
        root_snapshot_capture_boundary_def metadata_boundary_def)
  moreover have "search_root (dc_root sample_context) = Inr (json_search_root (Inr []) :: nat search_adapter)"
      "sr_bootstrap (json_search_root (Inr [])) sample_ops = oreturn (sample_state 0)"
    by (simp_all add: search_root_def json_search_root_def sample_context_def sample_ops_def Let_def)
  moreover have "\<not> is_room_entry (dc_root sample_context)" by (simp add: is_room_entry_def sample_context_def)
  ultimately show ?thesis by (simp add: replay_decision_context_def replay_and_arrive_def obind_def olift_def)
qed

theorem replay_success_sound_witness:
  "(is_combat_start (dc_root sample_context)
      \<or> root_snapshot_capture_boundary (\<lambda>_. Inr JNull) (dc_root sample_context) \<in> {Inr JNull, Inr (JStr ''normal_player_decision'')})
    \<and> \<not> (is_room_entry (dc_root sample_context) \<and> 400 < length (dc_prefix sample_context))
    \<and> (\<exists>boot st s1 s2 g. bootstrap_of sample_ops (dc_root sample_context) = Some boot \<and> boot 0 = (Inr st, s1)
      \<and> (if is_room_entry (dc_root sample_context) then reproduces_root sample_ops (dc_signature sample_context) st s1 s2
          else s2 = s1)
      \<and> replays sample_ops (dc_prefix sample_context) st s2 None (sample_state 1) 1 g
      \<and> (case g of Some observed \<Rightarrow> matches_for_replay observed (dc_signature sample_context)
         | None \<Rightarrow> dc_prefix sample_context = []
             \<and> boundary_of_battle_state (sample_state 1) = Inr (sg_boundary (dc_signature sample_context))))"
  by (rule replay_success_sound [OF sample_replay])

text \<open>
  Two signatures match for replay exactly when every field that survives a restore agrees
  and the choice kinds are equal or one of them is the catch-all \<open>Unsupported\<close>; the session id and
  the resolved action id never matter, and the comparison is symmetric.
\<close>

theorem matches_for_replay_portable:
  "(matches_for_replay a b \<longleftrightarrow> portable_agreement a b
      \<and> (py_eq (sg_kind a) (sg_kind b) \<or> CHOICE_KIND_UNCLASSIFIED \<in> {sg_kind a, sg_kind b}))
   \<and> (matches_for_replay a b \<longleftrightarrow> matches_for_replay b a)
   \<and> matches_for_replay a (a\<lparr>sg_session := x, sg_action_id := i\<rparr>)
   \<and> (matches_for_replay a b \<longleftrightarrow> matches_for_replay (a\<lparr>sg_session := x, sg_action_id := i\<rparr>) b)"
proof -
  have sym: "matches_for_replay a b \<longleftrightarrow> matches_for_replay b a"
    unfolding matches_iff portable_agreement_def py_eq_def by (simp only: eq_commute disj_commute)
  have "matches_for_replay a (a\<lparr>sg_session := x, sg_action_id := i\<rparr>)"
    "matches_for_replay a b \<longleftrightarrow> matches_for_replay (a\<lparr>sg_session := x, sg_action_id := i\<rparr>) b"
    by (simp_all add: matches_iff portable_agreement_def)
  moreover have "matches_for_replay a b \<longleftrightarrow> portable_agreement a b
      \<and> (py_eq (sg_kind a) (sg_kind b) \<or> CHOICE_KIND_UNCLASSIFIED \<in> {sg_kind a, sg_kind b})"
    by (auto simp only: matches_iff insert_iff empty_iff)
  ultimately show ?thesis using sym by blast
qed

text \<open>
  The candidates of a pending choice are recorded as a multiset: permuting the legal
  actions does not change the record, and the counts add up to the number of actions, so
  duplicates are never lost.
\<close>

theorem candidate_multiset_order_independent:
  assumes "mset legal = mset legal'" "list_all (string_key \<circ> candidate_semantic_key) legal"
  shows "\<exists>c. candidate_multiset legal = Inr c \<and> candidate_multiset legal' = Inr c
    \<and> sum_list (map snd c) = length legal"
proof -
  let ?ks = "map candidate_semantic_key legal" and ?ks' = "map candidate_semantic_key legal'"
  have named': "list_all (string_key \<circ> candidate_semantic_key) legal'"
    using assms by (metis list.pred_set set_mset_mset)
  have str: "list_all string_key ?ks" using assms(2) by (simp add: list_all_iff)
  have "mset ?ks = mset ?ks'" using assms(1) by simp
  note eq = counter_order [OF str this]
  let ?c = "foldl (\<lambda>c k. counter_add k c) [] ?ks"
  have "mset (map snd (sort_key (repr_candidate_key \<circ> fst) ?c)) = mset (map snd ?c)" by simp
  then have "sum_list (map snd (sort_key (repr_candidate_key \<circ> fst) ?c)) = sum_list (map snd ?c)"
    by (metis sum_mset_sum_list)
  with counter_of_string_keys [OF str] eq show ?thesis
    by (simp add: candidate_multiset_named [OF assms(2)] candidate_multiset_named [OF named'])
qed

theorem candidate_multiset_order_independent_witness:
  "\<exists>c. candidate_multiset [[(''action_type'', JStr ''card'')], [(''action_type'', JStr ''system'')], [(''action_type'', JStr ''card'')]] = Inr c
    \<and> candidate_multiset [[(''action_type'', JStr ''system'')], [(''action_type'', JStr ''card'')], [(''action_type'', JStr ''card'')]] = Inr c
    \<and> sum_list (map snd c) = length [[(''action_type'', JStr ''card'')], [(''action_type'', JStr ''system'')], [(''action_type'', JStr ''card'')]]"
  by (rule candidate_multiset_order_independent)
    (simp_all add: string_key_def candidate_semantic_key_def jget_def semantic_key_of_def)

text \<open>
  A root keeps its identity when it is shipped to a worker: the payload that crosses the
  process boundary is adapted to a root with the same identity text and the same flags, whatever
  the order of its keys became on the way, and shipping it again changes nothing.
\<close>

theorem shipping_keeps_identity:
  assumes "search_root r = Inr a"
    and "case r of Snapshot d \<Rightarrow> loads (canonical_json False (JObj d)) = Inr (key_sorted (JObj d))
      | Object c \<Rightarrow> \<exists>v. loads (co_serialized c) = Inr v
      | _ \<Rightarrow> True"
  shows "\<exists>b. search_root (sr_ipc a) = Inr b \<and> sr_identity b loads sha = sr_identity a loads sha
    \<and> sr_is_combat_start b = sr_is_combat_start a \<and> sr_supports_hypotheses b = sr_supports_hypotheses a
    \<and> sr_ipc b = sr_ipc a"
  using assms by (cases r) (auto simp: search_root_def adapter_defs Let_def json_text_identity_def
      dumps_key_sorted canonical_json_def simp del: strip_volatile.simps key_sorted.simps json_dumps.simps)

definition sample_snapshot :: "(string, json) dict" where
  "sample_snapshot = [(''Turn'', JInt 2), (''Metadata'', JObj [(''SnapshotId'', JStr ''s1''), (''CaptureBoundary'', JStr ''normal_player_decision'')])]"

theorem shipping_keeps_identity_witness:
  "let a = dataclass_search_root sample_snapshot :: unit search_adapter; loads = (\<lambda>_. Inr (key_sorted (JObj sample_snapshot))) in
   \<exists>b :: unit search_adapter. search_root (sr_ipc a) = Inr b \<and> sr_identity b loads id = sr_identity a loads id
    \<and> sr_is_combat_start b = sr_is_combat_start a \<and> sr_supports_hypotheses b = sr_supports_hypotheses a
    \<and> sr_ipc b = sr_ipc a"
  unfolding Let_def by (rule shipping_keeps_identity [where r = "Snapshot sample_snapshot"]) (simp_all add: search_root_def)

end
