(* ===== verification/Candidate_Pipeline.thy ===== *)
theory Candidate_Pipeline
  imports Decision_Context "HOL-Library.Product_Lexorder"
begin

text \<open>
  The candidate pipeline: \<open>Combat/search/candidate_pipeline.py\<close>.  Candidates are read from the
  legal actions of the current result, scored from aggregate features, ranked, pruned and split
  into a continuation and sub-branches; or taken as the caller names them.

  Scores are rational: every score of the source is a sum of the constants below and of
  \<open>3.0 - cost\<close>, which floats compute exactly for costs below 2 to the 53.  A float argument comes
  with its \<open>repr\<close>.
\<close>

section \<open>Reading the state\<close>

type_synonym py_float = "rat \<times> string"

definition no_len :: "json \<Rightarrow> py_exc" where
  "no_len v = PyExc ''TypeError'' (''object of type '' @ [CHR 0x27] @ type_of_json v @ [CHR 0x27] @ '' has no len()'')"

text \<open>\<open>len(v)\<close>.\<close>

definition py_len :: "json \<Rightarrow> nat res" where
  "py_len v = (case v of
       JArr xs \<Rightarrow> Inr (length xs)
     | JObj d \<Rightarrow> Inr (length d)
     | JStr s \<Rightarrow> Inr (length s)
     | _ \<Rightarrow> Inl (no_len v))"

text \<open>\<open>state.get(k) or []\<close>.\<close>

definition list_at :: "(string, json) dict \<Rightarrow> string \<Rightarrow> json" where
  "list_at d k = py_or (jget d k) (JArr [])"

record candidate =
  cd_action :: semantic_action
  cd_kind :: json
  cd_scope :: string
  cd_index :: nat
  cd_label :: string
  cd_target :: "int option"
  cd_enemy :: "int option"
  cd_cost :: "int option"
  cd_potion :: "int option"
  cd_type :: json
  cd_rarity :: json

record observation =
  ob_hand_size :: nat
  ob_draw_size :: nat
  ob_discard_size :: nat
  ob_exhaust_size :: nat
  ob_play_size :: nat
  ob_alive :: nat
  ob_energy :: int
  ob_hand_ids :: "(json \<times> nat) list"
  ob_hand_types :: "(json \<times> nat) list"
  ob_draw_ids :: "(json \<times> nat) list"
  ob_discard_ids :: "(json \<times> nat) list"
  ob_exhaust_ids :: "(json \<times> nat) list"
  ob_pending_type :: json
  ob_min_select :: "int option"
  ob_max_select :: "int option"
  ob_selected :: int

definition legal_actions_from_current_result :: "battle_state \<Rightarrow> action list" where
  "legal_actions_from_current_result bs = (case bs_cached bs of Some l \<Rightarrow> l | None \<Rightarrow> [])"

text \<open>\<open>_int_or_none\<close>: only \<open>TypeError\<close> and \<open>ValueError\<close> read as \<open>None\<close>.\<close>

definition int_or_none :: "json \<Rightarrow> int option res" where
  "int_or_none v =
     (if v = JNull then Inr None
      else case int_of_json v of
        Inr i \<Rightarrow> Inr (Some i)
      | Inl e \<Rightarrow> if exc_type e \<in> {''TypeError'', ''ValueError''} then Inr None else Inl e)"

fun find_card :: "json \<Rightarrow> json list \<Rightarrow> (string, json) dict option res" where
  "find_card card_id [] = Inr None"
| "find_card card_id (c # cs) = sbind (as_dict c) (\<lambda>d.
     if py_eq (jget d ''id'') card_id then Inr (Some d) else find_card card_id cs)"

definition card_feature_by_id :: "(string, json) dict \<Rightarrow> json \<Rightarrow> (string, json) dict res" where
  "card_feature_by_id st card_id =
     (if card_id = JNull then Inr []
      else sbind (py_iter (list_at st ''hand'')) (\<lambda>hand.
           sbind (find_card card_id hand) (\<lambda>found. case found of
             Some d \<Rightarrow> Inr d
           | None \<Rightarrow>
               sbind (as_dict (py_or (jget st ''pendingChoice'') (JObj []))) (\<lambda>pending.
               sbind (py_iter (list_at pending ''options'')) (\<lambda>options.
               sbind (find_card card_id options) (\<lambda>found. Inr (case found of Some d \<Rightarrow> d | None \<Rightarrow> [])))))))"

definition choice_scope_from_current_result :: "battle_state \<Rightarrow> action list \<Rightarrow> string res" where
  "choice_scope_from_current_result bs legal =
     sbind (is_action_continuation_pending_choice (bs_engine bs)) (\<lambda>cont.
       Inr (if cont then CHOICE_SCOPE_ACTION_CONTINUATION
            else if list_ex (\<lambda>a. py_eq (jget a ''action_type'') (JStr ''choice_target'')) legal
            then CHOICE_SCOPE_ACTION_CONTINUATION else CHOICE_SCOPE_TOP_LEVEL))"

definition extract_candidate :: "(string, json) dict \<Rightarrow> string \<Rightarrow> nat \<times> action \<Rightarrow> candidate res" where
  "extract_candidate st scope ia =
     (let i = fst ia; a = snd ia in
      sbind (as_dict (py_or (jget a ''parameters'') (JObj []))) (\<lambda>params.
      sbind (card_feature_by_id st (jget params ''cardId'')) (\<lambda>feature.
      sbind (int_or_none (jget params ''targetIndex'')) (\<lambda>target.
      sbind (int_or_none (jget params ''enemyIndex'')) (\<lambda>enemy.
      sbind (int_or_none (if jget params ''cost'' \<noteq> JNull then jget params ''cost'' else jget feature ''cost'')) (\<lambda>cost.
      sbind (int_or_none (jget params ''potionSlot'')) (\<lambda>potion.
        Inr \<lparr> cd_action = \<lparr> sa_type = jget a ''action_type'', sa_key = semantic_key_of a \<rparr>,
              cd_kind = jget a ''action_type'', cd_scope = scope, cd_index = i,
              cd_label = str_json (py_or (jget a ''label'') (JStr [])),
              cd_target = target, cd_enemy = enemy, cd_cost = cost, cd_potion = potion,
              cd_type = jget feature ''type'', cd_rarity = jget feature ''rarity'' \<rparr>)))))))"

definition extract_candidates :: "battle_state \<Rightarrow> candidate list res" where
  "extract_candidates bs =
     (let legal = legal_actions_from_current_result bs in
      sbind (choice_scope_from_current_result bs legal) (\<lambda>scope.
        map_res (extract_candidate (bs_engine bs) scope) (enumerate 0 legal)))"

text \<open>\<open>dict(Counter(...))\<close> of a field of the cards that have it.\<close>

fun tally :: "json \<Rightarrow> (json \<times> nat) list \<Rightarrow> (json \<times> nat) list" where
  "tally v [] = [(v, 1)]"
| "tally v ((w, n) # c) = (if py_eq w v then (w, Suc n) # c else (w, n) # tally v c)"

fun field_counts :: "string \<Rightarrow> json list \<Rightarrow> (json \<times> nat) list \<Rightarrow> (json \<times> nat) list res" where
  "field_counts f [] acc = Inr acc"
| "field_counts f (c # cs) acc =
     (if \<not> truthy c then field_counts f cs acc
      else sbind (as_dict c) (\<lambda>d.
        if jget d f = JNull then field_counts f cs acc
        else sbind (hashed (jget d f)) (\<lambda>v. field_counts f cs (tally v acc))))"

definition card_id_counts :: "json \<Rightarrow> (json \<times> nat) list res" where
  "card_id_counts cards = sbind (py_iter cards) (\<lambda>cs. field_counts ''id'' cs [])"

definition card_type_counts :: "json \<Rightarrow> (json \<times> nat) list res" where
  "card_type_counts cards = sbind (py_iter cards) (\<lambda>cs. field_counts ''type'' cs [])"

fun living :: "json list \<Rightarrow> nat res" where
  "living [] = Inr 0"
| "living (e # es) = sbind (as_dict e) (\<lambda>d. sbind (living es) (\<lambda>n.
     Inr (if truthy (case dget d ''isAlive'' of None \<Rightarrow> JBool True | Some v \<Rightarrow> v) then Suc n else n)))"

definition build_order_masked_observation :: "battle_state \<Rightarrow> observation res" where
  "build_order_masked_observation bs =
     (let st = bs_engine bs; hand = list_at st ''hand''; draw = list_at st ''drawPile'';
          discard = list_at st ''discardPile''; exhaust = list_at st ''exhaustPile''; play = list_at st ''playPile'';
          pending = py_or (jget st ''pendingChoice'') (JObj []) in
      sbind (py_iter (list_at st ''enemies'')) (\<lambda>es. sbind (living es) (\<lambda>alive.
      sbind (py_len hand) (\<lambda>nh. sbind (py_len draw) (\<lambda>nd. sbind (py_len discard) (\<lambda>ni.
      sbind (py_len exhaust) (\<lambda>ne. sbind (py_len play) (\<lambda>np.
      sbind (int_of_json (py_or (jget st ''energy'') (JInt 0))) (\<lambda>energy.
      sbind (card_id_counts hand) (\<lambda>hi. sbind (card_type_counts hand) (\<lambda>ht.
      sbind (card_id_counts draw) (\<lambda>di. sbind (card_id_counts discard) (\<lambda>ci. sbind (card_id_counts exhaust) (\<lambda>xi.
      sbind (as_dict pending) (\<lambda>p.
      sbind (int_or_none (jget p ''minSelect'')) (\<lambda>mn. sbind (int_or_none (jget p ''maxSelect'')) (\<lambda>mx.
      sbind (int_of_json (py_or (jget p ''selectedCount'') (JInt 0))) (\<lambda>sel.
        Inr \<lparr> ob_hand_size = nh, ob_draw_size = nd, ob_discard_size = ni, ob_exhaust_size = ne, ob_play_size = np,
              ob_alive = alive, ob_energy = energy, ob_hand_ids = hi, ob_hand_types = ht, ob_draw_ids = di,
              ob_discard_ids = ci, ob_exhaust_ids = xi, ob_pending_type = jget p ''choiceType'',
              ob_min_select = mn, ob_max_select = mx, ob_selected = sel \<rparr>))))))))))))))))))"

section \<open>Scoring\<close>

definition cheapness :: "int \<Rightarrow> rat" where
  "cheapness cost = max 0 (3 - of_int cost)"

definition card_score :: "observation \<Rightarrow> candidate \<Rightarrow> rat" where
  "card_score obs c =
     20
     + (case cd_cost c of None \<Rightarrow> 0 | Some k \<Rightarrow> cheapness k - (if ob_energy obs < k then 4 else 0))
     + (if cd_type c = JStr ''Attack'' \<and> ob_alive obs \<noteq> 0 then 2
        else if cd_type c = JStr ''Skill'' then 1
        else if cd_type c = JStr ''Power'' then 1 / 2
        else if cd_type c \<in> {JStr ''Curse'', JStr ''Status''} then - 20 else 0)"

definition target_score :: "observation \<Rightarrow> candidate \<Rightarrow> rat" where
  "target_score obs c = 15 + (if cd_enemy c \<noteq> None then 1 else 0)"

definition hand_choice_score :: "observation \<Rightarrow> candidate \<Rightarrow> rat" where
  "hand_choice_score obs c =
     12
     - (if cd_type c \<in> {JStr ''Curse'', JStr ''Status''} then 10 else 0)
     + (if cd_rarity c = JStr ''Rare'' then 3
        else if cd_rarity c = JStr ''Uncommon'' then 2
        else if cd_rarity c = JStr ''Common'' then 1 else 0)
     + (case cd_cost c of None \<Rightarrow> 0 | Some k \<Rightarrow> cheapness k)"

definition confirm_score :: "observation \<Rightarrow> candidate \<Rightarrow> rat" where
  "confirm_score obs c =
     (if cd_kind c = JStr ''choice_skip'' then - 5
      else case ob_min_select obs of
        Some m \<Rightarrow> if ob_selected obs < m then - 20 else 8
      | None \<Rightarrow> 8)"

definition other_score :: "observation \<Rightarrow> candidate \<Rightarrow> rat" where
  "other_score obs c =
     (if cd_kind c = JStr ''system'' then 0 else if cd_kind c = JStr ''potion'' then 10 else 1)"

definition EVALUATORS_BY_CHOICE_KIND :: "(string \<times> (string \<times> (observation \<Rightarrow> candidate \<Rightarrow> rat))) list" where
  "EVALUATORS_BY_CHOICE_KIND =
     [(''card'', ''card'', card_score), (''choice_target'', ''target'', target_score),
      (''choice_card'', ''hand'', hand_choice_score), (''choice_confirm'', ''confirm'', confirm_score),
      (''choice_skip'', ''confirm'', confirm_score), (''potion'', ''other'', other_score), (''system'', ''other'', other_score)]"

definition evaluator_for :: "json \<Rightarrow> string \<times> (observation \<Rightarrow> candidate \<Rightarrow> rat)" where
  "evaluator_for kind = (case kind of
       JStr k \<Rightarrow> (case map_of EVALUATORS_BY_CHOICE_KIND k of Some e \<Rightarrow> e | None \<Rightarrow> (''other'', other_score))
     | _ \<Rightarrow> (''other'', other_score))"

record scored_candidate =
  sc_candidate :: candidate
  sc_score :: rat
  sc_evaluator :: string

definition score_candidate :: "observation \<Rightarrow> candidate \<Rightarrow> scored_candidate res" where
  "score_candidate obs c = sbind (hashed (cd_kind c)) (\<lambda>kind.
     let e = evaluator_for kind in
     Inr \<lparr> sc_candidate = c, sc_score = snd e obs c, sc_evaluator = fst e \<rparr>)"

definition rank_key :: "scored_candidate \<Rightarrow> rat \<times> nat" where
  "rank_key s = (- sc_score s, cd_index (sc_candidate s))"

definition rank_candidates :: "observation \<Rightarrow> candidate list \<Rightarrow> scored_candidate list res" where
  "rank_candidates obs cs = sbind (map_res (score_candidate obs) cs) (\<lambda>scored. Inr (sort_key rank_key scored))"

definition prune_candidates :: "int \<Rightarrow> py_float option \<Rightarrow> scored_candidate list \<Rightarrow> scored_candidate list" where
  "prune_candidates width threshold cs =
     (if width \<le> 0 then []
      else take (nat width) (filter (\<lambda>c. case threshold of None \<Rightarrow> True | Some t \<Rightarrow> fst t \<le> sc_score c) cs))"

section \<open>Results\<close>

record pipeline_ref =
  pr_signature :: decision_signature
  pr_action :: semantic_action
  pr_target :: "int option"
  pr_enemy :: "int option"
  pr_score :: rat
  pr_kind :: json
  pr_scope :: string

definition to_pipeline_ref :: "decision_signature \<Rightarrow> scored_candidate \<Rightarrow> pipeline_ref" where
  "to_pipeline_ref g s = (let c = sc_candidate s in
     \<lparr> pr_signature = g, pr_action = cd_action c, pr_target = cd_target c, pr_enemy = cd_enemy c,
       pr_score = sc_score s, pr_kind = cd_kind c, pr_scope = cd_scope c \<rparr>)"

definition split_candidates :: "decision_signature \<Rightarrow> scored_candidate list \<Rightarrow> (pipeline_ref \<times> pipeline_ref list) res" where
  "split_candidates g pruned = (case pruned of
       [] \<Rightarrow> Inl (PyExc ''NoViableCandidatesError'' ''cannot split zero pruned candidates'')
     | c # cs \<Rightarrow> Inr (to_pipeline_ref g c, map (to_pipeline_ref g) cs))"

datatype pipeline_result =
    Pipeline_success (ps_continuation: pipeline_ref) (ps_sub_branches: "pipeline_ref list")
      (ps_ranked: "scored_candidate list") (ps_pruned: "scored_candidate list") (ps_observation: observation)
  | No_viable_candidates (nv_detail: string) (nv_ranked: "scored_candidate list") (nv_observation: observation)

definition no_viable_detail :: "int \<Rightarrow> py_float option \<Rightarrow> string" where
  "no_viable_detail width threshold =
     ''no viable candidates after pruning (width='' @ str_int width @ '', score_threshold=''
     @ (case threshold of None \<Rightarrow> ''None'' | Some t \<Rightarrow> snd t) @ '')''"

definition build_candidate_pipeline_result ::
  "int \<Rightarrow> py_float option \<Rightarrow> decision_context \<Rightarrow> pipeline_result res" where
  "build_candidate_pipeline_result width threshold c =
     sbind (build_order_masked_observation (dc_result c)) (\<lambda>obs.
     sbind (extract_candidates (dc_result c)) (\<lambda>cands.
     sbind (rank_candidates obs cands) (\<lambda>ranked.
       let pruned = prune_candidates width threshold ranked in
       if pruned = [] then Inr (No_viable_candidates (no_viable_detail width threshold) ranked obs)
       else sbind (split_candidates (dc_signature c) pruned) (\<lambda>(cont, subs).
              Inr (Pipeline_success cont subs ranked pruned obs)))))"

definition repr_int_list :: "int list \<Rightarrow> string" where
  "repr_int_list xs = ''['' @ join_with '', '' (map str_int xs) @ '']''"

definition select_explicit :: "candidate list \<Rightarrow> int \<Rightarrow> scored_candidate res" where
  "select_explicit cands i =
     (if 0 \<le> i \<and> nat i < length cands
      then Inr \<lparr> sc_candidate = cands ! nat i, sc_score = 0, sc_evaluator = ''explicit'' \<rparr>
      else Inl (PyExc ''ValueError'' (''candidate index '' @ str_int i @ '' not present among current legal actions (valid indices: ''
              @ repr_int_list (map int [0..<length cands]) @ '')'')))"

definition build_candidate_pipeline_result_for_explicit_candidates ::
  "decision_context \<Rightarrow> int list \<Rightarrow> pipeline_result res" where
  "build_candidate_pipeline_result_for_explicit_candidates c indices =
     (if indices = []
      then Inl (PyExc ''ValueError'' (''build_candidate_pipeline_result_for_explicit_candidates requires at least one ''
             @ ''candidate index - it never implicitly expands all Legal Actions''))
      else sbind (build_order_masked_observation (dc_result c)) (\<lambda>obs.
           sbind (extract_candidates (dc_result c)) (\<lambda>cands.
           sbind (map_res (select_explicit cands) indices) (\<lambda>selected.
           sbind (split_candidates (dc_signature c) selected) (\<lambda>(cont, subs).
             Inr (Pipeline_success cont subs selected selected obs))))))"

section \<open>Lemmas\<close>

lemma score_candidate_Inr:
  "score_candidate obs c = Inr s \<Longrightarrow> sc_candidate s = c \<and> sc_score s = snd (evaluator_for (cd_kind c)) obs c"
  by (auto simp: score_candidate_def sbind_eq_Inr hashed_def Let_def split: if_splits)

lemma rank_candidates_Inr:
  assumes "rank_candidates obs cs = Inr ranked"
  shows "mset (map sc_candidate ranked) = mset cs" and "sorted (map rank_key ranked)"
proof -
  from assms obtain scored where sc: "map_res (score_candidate obs) cs = Inr scored" "ranked = sort_key rank_key scored"
    by (auto simp: rank_candidates_def sbind_eq_Inr)
  have "map sc_candidate scored = cs"
    using sc(1) by (intro nth_equalityI) (auto simp: map_res_Inr_nth dest: score_candidate_Inr)
  moreover have "mset (map sc_candidate ranked) = mset (map sc_candidate scored)" by (simp add: sc(2))
  ultimately show "mset (map sc_candidate ranked) = mset cs" by simp
  show "sorted (map rank_key ranked)" by (simp add: sc(2))
qed

lemma rank_key_score: "rank_key a \<le> rank_key b \<Longrightarrow> sc_score b \<le> sc_score a"
  by (auto simp: rank_key_def less_eq_prod_def less_prod_def)

lemma prune_rest:
  assumes "sorted (map rank_key ranked)" "s \<in> set ranked" "s \<notin> set (prune_candidates width threshold ranked)"
    "0 < width" "case threshold of None \<Rightarrow> True | Some t \<Rightarrow> fst t \<le> sc_score s"
  shows "length (prune_candidates width threshold ranked) = nat width
    \<and> list_all (\<lambda>p. rank_key p \<le> rank_key s) (prune_candidates width threshold ranked)"
proof -
  let ?ok = "\<lambda>c. case threshold of None \<Rightarrow> True | Some t \<Rightarrow> fst t \<le> sc_score c"
  let ?f = "filter ?ok ranked"
  have pr: "prune_candidates width threshold ranked = take (nat width) ?f"
    using assms(4) by (simp add: prune_candidates_def)
  have "s \<in> set ?f" using assms(2,5) by simp
  then have d: "s \<in> set (drop (nat width) ?f)"
    using assms(3) unfolding pr by (metis Un_iff append_take_drop_id set_append)
  then have len: "nat width < length ?f" by (metis drop_all empty_iff list.set(1) not_le)
  have "sorted (map rank_key ?f)" using assms(1) by (rule sorted_filter)
  then have "sorted (map rank_key (take (nat width) ?f @ drop (nat width) ?f))" by simp
  then have "rank_key p \<le> rank_key s" if "p \<in> set (take (nat width) ?f)" for p
    using that d unfolding map_append sorted_append by force
  with len show ?thesis by (simp add: pr list_all_iff)
qed

lemma split_candidates_Inr:
  "split_candidates g pruned = Inr (cont, subs) \<Longrightarrow> cont # subs = map (to_pipeline_ref g) pruned"
  by (auto simp: split_candidates_def split: list.splits)

lemma select_explicit_Inr:
  "select_explicit cands i = Inr s \<longleftrightarrow> 0 \<le> i \<and> nat i < length cands
     \<and> s = \<lparr> sc_candidate = cands ! nat i, sc_score = 0, sc_evaluator = ''explicit'' \<rparr>"
  by (auto simp: select_explicit_def)

text \<open>Explicit selection takes exactly the named candidates, in the order named, or raises.\<close>

lemma explicit_candidates_exact:
  assumes "build_candidate_pipeline_result_for_explicit_candidates c indices = Inr r"
  shows "\<exists>cands cont subs. extract_candidates (dc_result c) = Inr cands
    \<and> (\<forall>i \<in> set indices. 0 \<le> i \<and> nat i < length cands)
    \<and> ps_continuation r = cont \<and> ps_sub_branches r = subs
    \<and> map pr_action (cont # subs) = map (\<lambda>i. cd_action (cands ! nat i)) indices"
proof -
  from assms obtain cands obs selected cont subs where r: "extract_candidates (dc_result c) = Inr cands"
      "map_res (select_explicit cands) indices = Inr selected"
      "split_candidates (dc_signature c) selected = Inr (cont, subs)"
      "r = Pipeline_success cont subs selected selected obs"
    by (auto simp: build_candidate_pipeline_result_for_explicit_candidates_def sbind_eq_Inr split: if_splits prod.splits)
  have sel: "length selected = length indices"
      "\<And>i. i < length indices \<Longrightarrow> select_explicit cands (indices ! i) = Inr (selected ! i)"
    using r(2) by (simp_all add: map_res_Inr_nth)
  have "map pr_action (cont # subs) = map (cd_action \<circ> sc_candidate) selected"
    unfolding split_candidates_Inr [OF r(3)] by (simp add: to_pipeline_ref_def Let_def)
  also have "\<dots> = map (\<lambda>i. cd_action (cands ! nat i)) indices"
    using sel by (intro nth_equalityI) (auto simp: select_explicit_Inr)
  finally have "map pr_action (cont # subs) = map (\<lambda>i. cd_action (cands ! nat i)) indices" .
  moreover have "\<forall>i \<in> set indices. 0 \<le> i \<and> nat i < length cands"
    using sel(2) by (auto simp: select_explicit_Inr in_set_conv_nth)
  ultimately show ?thesis using r by auto
qed

text \<open>The parts of a state that the ranking reads.\<close>

definition same_outside_draw_pile :: "battle_state \<Rightarrow> battle_state \<Rightarrow> bool" where
  "same_outside_draw_pile bs bs' \<longleftrightarrow> bs_cached bs = bs_cached bs'
     \<and> (\<forall>k. k \<noteq> ''drawPile'' \<longrightarrow> jget (bs_engine bs) k = jget (bs_engine bs') k)"

definition score_inputs :: "observation \<Rightarrow> int \<times> nat \<times> int option \<times> int" where
  "score_inputs obs = (ob_energy obs, ob_alive obs, ob_min_select obs, ob_selected obs)"

lemma evaluator_inputs:
  assumes "score_inputs obs = score_inputs obs'"
  shows "snd (evaluator_for k) obs c = snd (evaluator_for k) obs' c"
proof -
  have "card_score obs c = card_score obs' c" "confirm_score obs c = confirm_score obs' c"
    "target_score obs c = target_score obs' c" "hand_choice_score obs c = hand_choice_score obs' c"
    "other_score obs c = other_score obs' c"
    using assms by (auto simp: score_inputs_def card_score_def confirm_score_def target_score_def
        hand_choice_score_def other_score_def split: option.splits)
  then show ?thesis
    by (simp add: evaluator_for_def EVALUATORS_BY_CHOICE_KIND_def split: json.split)
qed

lemma rank_candidates_inputs:
  assumes "score_inputs obs = score_inputs obs'"
  shows "rank_candidates obs cs = rank_candidates obs' cs"
proof -
  have "score_candidate obs = score_candidate obs'"
    by (rule ext) (simp add: score_candidate_def Let_def evaluator_inputs [OF assms])
  then show ?thesis by (simp add: rank_candidates_def)
qed

lemma same_state_reads:
  assumes "same_outside_draw_pile bs bs'"
  shows "k \<noteq> ''drawPile'' \<Longrightarrow> jget (bs_engine bs) k = jget (bs_engine bs') k"
    and "k \<noteq> ''drawPile'' \<Longrightarrow> list_at (bs_engine bs) k = list_at (bs_engine bs') k"
    and "legal_actions_from_current_result bs = legal_actions_from_current_result bs'"
  using assms by (simp_all add: same_outside_draw_pile_def list_at_def legal_actions_from_current_result_def)

lemma extract_same:
  assumes "same_outside_draw_pile bs bs'"
  shows "extract_candidates bs = extract_candidates bs'"
proof -
  note reads = same_state_reads [OF assms]
  have "card_feature_by_id (bs_engine bs) = card_feature_by_id (bs_engine bs')"
    by (rule ext) (simp add: card_feature_by_id_def reads(1) [of "''pendingChoice''"] reads(2) [of "''hand''"])
  then have "extract_candidate (bs_engine bs) = extract_candidate (bs_engine bs')"
    by (intro ext) (simp add: extract_candidate_def)
  moreover have "choice_scope_from_current_result bs = choice_scope_from_current_result bs'"
    by (rule ext) (simp add: choice_scope_from_current_result_def is_action_continuation_pending_choice_def
        pending_choice_metadata_def reads(1) [of "''pendingChoice''"])
  ultimately show ?thesis by (simp add: extract_candidates_def reads(3))
qed

lemma observation_same:
  assumes "same_outside_draw_pile bs bs'"
    "build_order_masked_observation bs = Inr obs" "build_order_masked_observation bs' = Inr obs'"
  shows "score_inputs obs = score_inputs obs'"
  using assms(2,3) same_state_reads(1,2) [OF assms(1)]
  by (auto simp: build_order_masked_observation_def Let_def sbind_eq_Inr score_inputs_def)

lemma prune_head_best:
  assumes "sorted (map rank_key ranked)" "prune_candidates width threshold ranked = p # ps" "s \<in> set ranked"
  shows "sc_score s \<le> sc_score p"
proof -
  let ?ok = "\<lambda>c. case threshold of None \<Rightarrow> True | Some t \<Rightarrow> fst t \<le> sc_score c"
  have pr: "take (nat width) (filter ?ok ranked) = p # ps"
    using assms(2) by (simp add: prune_candidates_def split: if_splits)
  then obtain rest where f: "filter ?ok ranked = p # rest" by (cases "filter ?ok ranked"; cases "nat width") auto
  have "p \<in> set (filter ?ok ranked)" unfolding f by simp
  then have p: "?ok p" by simp
  show ?thesis
  proof (cases "?ok s")
    case True
    then have "s \<in> set (p # rest)" using assms(3) f [symmetric] by simp
    moreover have "sorted (map rank_key (p # rest))" unfolding f [symmetric] by (rule sorted_filter [OF assms(1)])
    ultimately show ?thesis by (auto intro: rank_key_score)
  next
    case False
    with p show ?thesis by (cases threshold) auto
  qed
qed

section \<open>Properties\<close>

text \<open>
  C15.  The pipeline ranks every legal action and keeps the best: the ranking is a permutation of
  the candidates in descending score with ties in the order of the legal actions, the
  continuation has the highest score of all, at most \<open>width\<close> candidates are kept, and whatever
  was dropped is below the threshold or ranks behind \<open>width\<close> kept ones.
\<close>

theorem pipeline_ranks_best_first:
  assumes "build_candidate_pipeline_result width threshold c = Inr (Pipeline_success cont subs ranked pruned obs)"
  shows "\<exists>cands. extract_candidates (dc_result c) = Inr cands \<and> mset (map sc_candidate ranked) = mset cands
    \<and> sorted (map rank_key ranked) \<and> cont # subs = map (to_pipeline_ref (dc_signature c)) pruned
    \<and> list_all (\<lambda>s. sc_score s \<le> pr_score cont) ranked \<and> int (length pruned) \<le> width
    \<and> list_all (\<lambda>s. s \<in> set pruned \<or> (case threshold of None \<Rightarrow> False | Some t \<Rightarrow> sc_score s < fst t)
        \<or> int (length pruned) = width \<and> list_all (\<lambda>p. rank_key p \<le> rank_key s) pruned) ranked"
proof -
  from assms obtain cands where r: "extract_candidates (dc_result c) = Inr cands" "rank_candidates obs cands = Inr ranked"
      "pruned = prune_candidates width threshold ranked" "pruned \<noteq> []"
      "split_candidates (dc_signature c) pruned = Inr (cont, subs)"
    by (auto simp: build_candidate_pipeline_result_def sbind_eq_Inr Let_def split: if_splits prod.splits)
  note ranked = rank_candidates_Inr [OF r(2)]
  have refs: "cont # subs = map (to_pipeline_ref (dc_signature c)) pruned" by (rule split_candidates_Inr [OF r(5)])
  obtain p ps where p: "pruned = p # ps" using r(4) by (cases pruned) auto
  have best: "list_all (\<lambda>s. sc_score s \<le> pr_score cont) ranked"
    using prune_head_best [OF ranked(2)] r(3) p refs by (auto simp: list_all_iff to_pipeline_ref_def Let_def)
  have pos: "0 < width" using r(3,4) by (auto simp: prune_candidates_def split: if_splits)
  then have len: "int (length pruned) \<le> width" by (simp add: r(3) prune_candidates_def)
  have "s \<in> set pruned \<or> (case threshold of None \<Rightarrow> False | Some t \<Rightarrow> sc_score s < fst t)
        \<or> int (length pruned) = width \<and> list_all (\<lambda>p. rank_key p \<le> rank_key s) pruned" if "s \<in> set ranked" for s
    using prune_rest [OF ranked(2) that, of width threshold] pos unfolding r(3) by (cases threshold) auto
  with r(1) ranked refs best len show ?thesis by (auto simp: list_all_iff)
qed

definition sample_choice :: "string list \<Rightarrow> decision_context" where
  "sample_choice pile = sample_context\<lparr>dc_result := (sample_state 1)\<lparr>
     bs_engine := [(''hand'', JArr [JObj [(''id'', JStr ''BASH''), (''type'', JStr ''Attack''), (''cost'', JInt 2)],
                                    JObj [(''id'', JStr ''DAZED''), (''type'', JStr ''Status'')]]),
                   (''drawPile'', JArr (map (\<lambda>i. JObj [(''id'', JStr i)]) pile)),
                   (''enemies'', JArr [JObj [(''hp'', JInt 9)]]), (''energy'', JInt 3)],
     bs_cached := Some [[(''action_type'', JStr ''system''), (''semantic_key'', JStr ''end'')],
       [(''action_type'', JStr ''card''), (''semantic_key'', JStr ''DAZED''), (''parameters'', JObj [(''cardId'', JStr ''DAZED'')])],
       [(''action_type'', JStr ''card''), (''semantic_key'', JStr ''BASH''), (''parameters'', JObj [(''cardId'', JStr ''BASH'')])]]\<rparr>\<rparr>"

definition is_success :: "pipeline_result res \<Rightarrow> bool" where
  "is_success r = (case r of Inr (Pipeline_success _ _ _ _ _) \<Rightarrow> True | _ \<Rightarrow> False)"

lemma sample_choice_success:
  "is_success (build_candidate_pipeline_result 2 None (sample_choice [''A'', ''B'']))"
  "is_success (build_candidate_pipeline_result 2 None (sample_choice [''C'']))"
  by code_simp+

lemma is_success_Inr: "is_success r \<Longrightarrow> r = Inr (projr r)"
  by (auto simp: is_success_def split: sum.splits)

lemma is_success_result:
  assumes "is_success r"
  shows "r = Inr (Pipeline_success (ps_continuation (projr r)) (ps_sub_branches (projr r)) (ps_ranked (projr r))
    (ps_pruned (projr r)) (ps_observation (projr r)))"
  using assms by (auto simp: is_success_def split: sum.splits pipeline_result.splits)

definition sample_pipeline :: "string list \<Rightarrow> pipeline_result" where
  "sample_pipeline pile = projr (build_candidate_pipeline_result 2 None (sample_choice pile))"

lemmas sample_pipelines = sample_choice_success [THEN is_success_result, folded sample_pipeline_def]

theorem pipeline_ranks_best_first_witness:
  "let c = sample_choice [''A'', ''B'']; r = sample_pipeline [''A'', ''B''] in
   \<exists>cands. extract_candidates (dc_result c) = Inr cands \<and> mset (map sc_candidate (ps_ranked r)) = mset cands
    \<and> sorted (map rank_key (ps_ranked r))
    \<and> ps_continuation r # ps_sub_branches r = map (to_pipeline_ref (dc_signature c)) (ps_pruned r)
    \<and> list_all (\<lambda>s. sc_score s \<le> pr_score (ps_continuation r)) (ps_ranked r) \<and> int (length (ps_pruned r)) \<le> 2
    \<and> list_all (\<lambda>s. s \<in> set (ps_pruned r) \<or> (case None :: py_float option of None \<Rightarrow> False | Some t \<Rightarrow> sc_score s < fst t)
        \<or> int (length (ps_pruned r)) = 2 \<and> list_all (\<lambda>p. rank_key p \<le> rank_key s) (ps_pruned r)) (ps_ranked r)"
  unfolding Let_def by (rule pipeline_ranks_best_first [OF sample_pipelines(1)])

text \<open>What the caller acts on: the split and the ranking, without the observation.\<close>

fun pipeline_choice :: "pipeline_result \<Rightarrow> (pipeline_ref \<times> pipeline_ref list) option \<times> scored_candidate list" where
  "pipeline_choice (Pipeline_success cont subs ranked _ _) = (Some (cont, subs), ranked)"
| "pipeline_choice (No_viable_candidates _ ranked _) = (None, ranked)"

text \<open>
  The draw pile cannot influence the choice: two contexts whose states differ only in the
  draw pile, its order or its contents, are ranked, pruned and split alike.
\<close>

theorem ranking_ignores_draw_pile:
  assumes "same_outside_draw_pile (dc_result c) (dc_result c')" "dc_signature c = dc_signature c'"
    and "build_candidate_pipeline_result width threshold c = Inr r"
    and "build_candidate_pipeline_result width threshold c' = Inr r'"
  shows "pipeline_choice r = pipeline_choice r'"
proof -
  from assms(3) obtain obs cands ranked where r: "build_order_masked_observation (dc_result c) = Inr obs"
      "extract_candidates (dc_result c) = Inr cands" "rank_candidates obs cands = Inr ranked"
    by (auto simp: build_candidate_pipeline_result_def sbind_eq_Inr)
  from assms(4) obtain obs' where r': "build_order_masked_observation (dc_result c') = Inr obs'"
    by (auto simp: build_candidate_pipeline_result_def sbind_eq_Inr)
  have "score_inputs obs = score_inputs obs'" by (rule observation_same [OF assms(1) r(1) r'])
  then have "rank_candidates obs' cands = Inr ranked" using r(3) rank_candidates_inputs by metis
  moreover have "extract_candidates (dc_result c') = Inr cands" using extract_same [OF assms(1)] r(2) by simp
  ultimately show ?thesis
    using assms(2-4) r r'
    by (auto simp: build_candidate_pipeline_result_def sbind_eq_Inr Let_def split: if_splits prod.splits)
qed

theorem ranking_ignores_draw_pile_witness:
  "pipeline_choice (sample_pipeline [''A'', ''B'']) = pipeline_choice (sample_pipeline [''C''])"
proof (rule ranking_ignores_draw_pile)
  show "same_outside_draw_pile (dc_result (sample_choice [''A'', ''B''])) (dc_result (sample_choice [''C'']))"
    by (auto simp: same_outside_draw_pile_def sample_choice_def sample_context_def jget_def)
  show "build_candidate_pipeline_result 2 None (sample_choice [''A'', ''B'']) = Inr (sample_pipeline [''A'', ''B''])"
    "build_candidate_pipeline_result 2 None (sample_choice [''C'']) = Inr (sample_pipeline [''C''])"
    by (simp_all only: sample_pipeline_def sample_choice_success [THEN is_success_Inr, symmetric])
qed (simp add: sample_choice_def sample_context_def)

end
