(* ===== verification/Branch_Leases.thy ===== *)
theory Branch_Leases
  imports Candidate_Pipeline Generation_Guard
begin

text \<open>
  Work items, leases and the worker that executes them: \<open>Combat/search/branch_worker_pool.py\<close>.

  A worker is the state \<open>worker_runtime\<close> with its session; \<open>execute\<close> is its step.  The queues of
  the pool are not modelled here: a worker is driven by the requests it receives.  \<open>str(exc)\<close> and
  the class name of an exception are the parts of \<open>py_exc\<close>; the text of a traceback is an argument.
  The hexadecimal SHA-256 is \<open>sha\<close>.
\<close>

section \<open>Digests\<close>

definition json_digest :: "(string \<Rightarrow> string) \<Rightarrow> json \<Rightarrow> string" where
  "json_digest sha payload = take 16 (sha (json_dumps True payload))"

definition opt_str_json :: "string option \<Rightarrow> json" where
  "opt_str_json v = (case v of None \<Rightarrow> JNull | Some s \<Rightarrow> JStr s)"

definition opt_int_json :: "int option \<Rightarrow> json" where
  "opt_int_json v = (case v of None \<Rightarrow> JNull | Some i \<Rightarrow> JInt i)"

definition semantic_action_json :: "semantic_action \<Rightarrow> json" where
  "semantic_action_json a = JObj [(''action_type'', sa_type a), (''semantic_key'', sa_key a)]"

definition candidates_json :: "(candidate_key \<times> nat) list option \<Rightarrow> json" where
  "candidates_json c = (case c of None \<Rightarrow> JNull
     | Some ks \<Rightarrow> JArr (map (\<lambda>(k, n). JArr [JArr [fst k, snd k], JInt (int n)]) ks))"

text \<open>\<open>dataclasses.asdict(signature)\<close>.\<close>

definition signature_json :: "decision_signature \<Rightarrow> json" where
  "signature_json g = JObj
     [(''combat_session_id'', opt_str_json (sg_session g)), (''step_index'', JInt (sg_step g)),
      (''continuation_step_index'', opt_int_json (sg_continuation g)),
      (''semantic_action'', semantic_action_json (sg_action g)), (''resolved_action_id'', JInt (sg_action_id g)),
      (''resolved_semantic_key'', sg_key g), (''resolved_target_index'', opt_int_json (sg_target g)),
      (''resolved_target_slot_index'', opt_int_json (sg_target_slot g)), (''boundary'', JStr (sg_boundary g)),
      (''choice_scope'', opt_str_json (sg_scope g)), (''choice_kind'', sg_kind g),
      (''candidate_semantic_keys'', candidates_json (sg_candidates g))]"

definition decision_result_digest :: "(string \<Rightarrow> string) \<Rightarrow> decision_signature \<Rightarrow> string" where
  "decision_result_digest sha g = json_digest sha (signature_json g)"

definition prefix_entry_json :: "prefix_entry \<Rightarrow> json" where
  "prefix_entry_json e = JObj
     [(''semantic_action'', semantic_action_json (rp_action e)), (''expected_signature'', signature_json (rp_expected e)),
      (''target_index'', opt_int_json (rp_target e)), (''target_enemy_index'', opt_int_json (rp_enemy e))]"

definition root_identity :: "(string \<Rightarrow> json res) \<Rightarrow> (string \<Rightarrow> string) \<Rightarrow> root \<Rightarrow> string res" where
  "root_identity loads sha r =
     sbind (search_root r :: unit search_adapter res) (\<lambda>a. sr_identity a loads sha)"

definition derive_context_id :: "(string \<Rightarrow> json res) \<Rightarrow> (string \<Rightarrow> string) \<Rightarrow> decision_context \<Rightarrow> string res" where
  "derive_context_id loads sha c = sbind (root_identity loads sha (dc_root c)) (\<lambda>payload.
     Inr (json_digest sha (JObj
       [(''root_snapshot_sha256'', JStr (sha payload)),
        (''replay_prefix'', JArr (map prefix_entry_json (dc_prefix c))),
        (''search_hypothesis_id'', opt_str_json (dc_hypothesis c))])))"

section \<open>Work items\<close>

definition WORK_KIND_CONTINUATION :: string where "WORK_KIND_CONTINUATION = ''continuation''"
definition WORK_KIND_SUB_BRANCH :: string where "WORK_KIND_SUB_BRANCH = ''sub_branch''"
definition EXECUTION_MODE_BOOTSTRAP_STEP :: string where "EXECUTION_MODE_BOOTSTRAP_STEP = ''bootstrap_step''"
definition EXECUTION_MODE_HOLDER_STEP :: string where "EXECUTION_MODE_HOLDER_STEP = ''holder_step''"
definition BRANCH_STATUS_SUCCESS :: string where "BRANCH_STATUS_SUCCESS = ''success''"
definition BRANCH_STATUS_FAULT :: string where "BRANCH_STATUS_FAULT = ''fault''"

lemmas kind_defs = WORK_KIND_CONTINUATION_def WORK_KIND_SUB_BRANCH_def
lemmas mode_defs = EXECUTION_MODE_BOOTSTRAP_STEP_def EXECUTION_MODE_HOLDER_STEP_def
lemmas status_defs = BRANCH_STATUS_SUCCESS_def BRANCH_STATUS_FAULT_def

record work_item =
  wi_id :: string
  wi_context :: decision_context
  wi_candidate :: pipeline_ref
  wi_context_id :: string
  wi_kind :: string

definition work_item_checked :: "work_item \<Rightarrow> work_item res" where
  "work_item_checked w =
     (if wi_kind w \<notin> {WORK_KIND_CONTINUATION, WORK_KIND_SUB_BRANCH}
      then Inl (PyExc ''ValueError'' (''unknown work_kind '' @ repr_str (wi_kind w)
             @ '' (known: ['' @ join_with '', '' (map repr_str (sort_key id [WORK_KIND_CONTINUATION, WORK_KIND_SUB_BRANCH])) @ ''])''))
      else if \<not> matches_for_replay (pr_signature (wi_candidate w)) (dc_signature (wi_context w))
      then Inl (PyExc ''ValueError'' ''candidate current_context_signature does not match its DecisionContext'')
      else Inr w)"

text \<open>
  The \<open>repr\<close> of a score.  Every score is a multiple of a half; beyond 10 to the 16 \<open>repr\<close> switches
  to an exponent, which no cost reaches.
\<close>

definition score_text :: "rat \<Rightarrow> string" where
  "score_text q = (let n = \<lfloor>2 * q\<rfloor>; a = \<bar>n\<bar> in
     (if n < 0 then ''-'' else []) @ digits (nat (a div 2)) @ (if even a then ''.0'' else ''.5''))"

text \<open>\<open>context_id or derive_context_id(...)\<close>: an empty text counts as missing.\<close>

definition from_candidate_ref ::
  "(string \<Rightarrow> json res) \<Rightarrow> (string \<Rightarrow> string) \<Rightarrow> decision_context \<Rightarrow> pipeline_ref \<Rightarrow> string
   \<Rightarrow> string option \<Rightarrow> string option \<Rightarrow> work_item res" where
  "from_candidate_ref loads sha c cand kind context_id work_id =
     sbind (if context_id \<in> {None, Some []} then derive_context_id loads sha c else Inr (the context_id)) (\<lambda>cid.
       let wid = (if work_id \<in> {None, Some []}
            then json_digest sha (JObj
              [(''context_id'', JStr cid), (''work_kind'', JStr kind),
               (''semantic_action'', semantic_action_json (pr_action cand)),
               (''target_index'', opt_int_json (pr_target cand)), (''target_enemy_index'', opt_int_json (pr_enemy cand)),
               (''score'', JFloat (score_text (pr_score cand)))])
            else the work_id)
       in work_item_checked \<lparr> wi_id = wid, wi_context = c, wi_candidate = cand, wi_context_id = cid, wi_kind = kind \<rparr>)"

definition work_item_for_ipc :: "work_item \<Rightarrow> work_item res" where
  "work_item_for_ipc w = sbind (search_root (dc_root (wi_context w)) :: unit search_adapter res) (\<lambda>a.
     if sr_ipc a = dc_root (wi_context w) then Inr w
     else work_item_checked (w\<lparr>wi_context := (wi_context w)\<lparr>dc_root := sr_ipc a\<rparr>\<rparr>))"

section \<open>Leases\<close>

record lease =
  ls_worker :: nat
  ls_generation :: nat
  ls_context :: string
  ls_hypothesis :: "string option"
  ls_epoch :: nat
  ls_session :: "string option"
  ls_step :: int
  ls_digest :: string

type_synonym lease_key = "string \<times> string option"

definition lease_key :: "lease \<Rightarrow> lease_key" where
  "lease_key l = (ls_context l, ls_hypothesis l)"

definition lease_is_valid_for :: "(string \<Rightarrow> string) \<Rightarrow> lease \<Rightarrow> work_item \<Rightarrow> nat option \<Rightarrow> bool" where
  "lease_is_valid_for sha l w generation =
     (let expected = dc_signature (wi_context w) in
      wi_kind w = WORK_KIND_CONTINUATION
      \<and> ls_context l = wi_context_id w
      \<and> ls_hypothesis l = dc_hypothesis (wi_context w)
      \<and> (case generation of None \<Rightarrow> True | Some g \<Rightarrow> ls_generation l = g)
      \<and> ls_session l = sg_session expected
      \<and> ls_step l = sg_step expected
      \<and> ls_digest l = decision_result_digest sha expected)"

type_synonym lease_registry = "(lease_key, lease) dict"

definition reg_get :: "string \<Rightarrow> string option \<Rightarrow> lease_registry \<Rightarrow> lease option" where
  "reg_get cid hyp r = dget r (cid, hyp)"

definition reg_set :: "lease \<Rightarrow> lease_registry \<Rightarrow> lease_registry" where
  "reg_set l r = dset (lease_key l) l r"

definition reg_invalidate :: "string \<Rightarrow> string option \<Rightarrow> lease_registry \<Rightarrow> lease_registry" where
  "reg_invalidate cid hyp r = dpop (cid, hyp) r"

definition reg_invalidate_lease :: "lease \<Rightarrow> lease_registry \<Rightarrow> lease_registry" where
  "reg_invalidate_lease l r = (if dget r (lease_key l) = Some l then dpop (lease_key l) r else r)"

definition reg_invalidate_worker :: "nat \<Rightarrow> lease_registry \<Rightarrow> lease_registry" where
  "reg_invalidate_worker w r = filter (\<lambda>e. ls_worker (snd e) \<noteq> w) r"

definition worker_ids_holding_leases :: "lease_registry \<Rightarrow> nat list" where
  "worker_ids_holding_leases r = remdups (map (ls_worker \<circ> snd) r)"

section \<open>Results\<close>

record terminal_result =
  tr_is_terminal :: bool
  tr_outcome :: string

record branch_result =
  br_status :: string
  br_item :: work_item
  br_mode :: string
  br_worker :: "nat option"
  br_generation :: "nat option"
  br_signature :: "decision_signature option"
  br_child :: "root option"
  br_terminal :: "terminal_result option"
  br_pending_context :: "decision_context option"
  br_pending_pipeline :: "pipeline_result option"
  br_lease :: "lease option"
  br_next :: "battle_state option"
  br_next_legal :: "action list option"
  br_diagnostics :: "(string, json) dict"

definition branch_result_checked :: "branch_result \<Rightarrow> branch_result res" where
  "branch_result_checked r =
     (if br_status r \<notin> {BRANCH_STATUS_SUCCESS, BRANCH_STATUS_FAULT}
      then value_error (''unknown BranchResult status '' @ repr_str (br_status r))
      else if br_mode r \<notin> {EXECUTION_MODE_BOOTSTRAP_STEP, EXECUTION_MODE_HOLDER_STEP}
      then value_error (''unknown execution_mode '' @ repr_str (br_mode r))
      else if br_child r \<noteq> None \<and> br_terminal r \<noteq> None
      then value_error ''BranchResult cannot contain both child_snapshot and terminal_result''
      else if br_status r \<noteq> BRANCH_STATUS_SUCCESS then Inr r
      else case br_signature r of
        None \<Rightarrow> value_error ''successful BranchResult requires result_signature''
      | Some g \<Rightarrow>
          if sg_boundary g = BOUNDARY_STABLE \<and> br_child r = None
          then value_error ''Stable success requires exactly child_snapshot''
          else if sg_boundary g = BOUNDARY_TERMINAL \<and> br_terminal r = None
          then value_error ''Terminal success requires exactly terminal_result''
          else if sg_boundary g = BOUNDARY_PENDING \<and> (br_child r \<noteq> None \<or> br_terminal r \<noteq> None)
          then value_error ''Pending success must not carry child_snapshot or terminal_result''
          else if sg_boundary g = BOUNDARY_PENDING \<and> (br_pending_context r = None \<or> br_pending_pipeline r = None)
          then value_error ''Pending success requires pending_decision_context and pending_pipeline_result''
          else if sg_boundary g = BOUNDARY_PENDING \<and> br_lease r = None
          then value_error ''Pending success requires established_lease''
          else Inr r)"

definition empty_result :: "string \<Rightarrow> work_item \<Rightarrow> string \<Rightarrow> nat option \<Rightarrow> nat option \<Rightarrow> branch_result" where
  "empty_result status w mode worker generation =
     \<lparr> br_status = status, br_item = w, br_mode = mode, br_worker = worker, br_generation = generation,
       br_signature = None, br_child = None, br_terminal = None, br_pending_context = None, br_pending_pipeline = None,
       br_lease = None, br_next = None, br_next_legal = None, br_diagnostics = [] \<rparr>"

text \<open>\<open>traceback.format_exc()\<close> is the argument \<open>tb\<close>.\<close>

definition fault_result ::
  "work_item \<Rightarrow> string \<Rightarrow> nat option \<Rightarrow> nat option \<Rightarrow> py_exc \<Rightarrow> string \<Rightarrow> string \<Rightarrow> branch_result res" where
  "fault_result w mode worker generation e tb fault_kind =
     branch_result_checked ((empty_result BRANCH_STATUS_FAULT w mode worker generation)
       \<lparr>br_diagnostics := [(''fault_kind'', JStr fault_kind), (''exception_type'', JStr (exc_name e)),
                          (''message'', JStr (exc_message e)), (''traceback'', JStr tb)]\<rparr>)"

definition is_process_tainting_fault :: "(string, json) dict \<Rightarrow> bool" where
  "is_process_tainting_fault d =
     (d \<noteq> [] \<and>
      (let text = join_with [CHR 0x0A] (map (\<lambda>k. str_json (case dget d k of None \<Rightarrow> JStr [] | Some v \<Rightarrow> v))
                    [''exception_type'', ''message'', ''traceback''])
       in str_contains ''NullReferenceException'' text
          \<and> (str_contains ''EndCombatInternal'' text \<or> str_contains ''CheckWinCondition'' text)))"

section \<open>The worker\<close>

record 's worker_env =
  we_ops :: "'s session_ops"
  we_capture :: "('s, root) stateop"
  we_loads :: "string \<Rightarrow> json res"
  we_sha :: "string \<Rightarrow> string"
  we_traceback :: string

record 's worker_runtime =
  wr_id :: nat
  wr_generation :: nat
  wr_session :: 's
  wr_state :: "battle_state option"
  wr_context :: "string option"
  wr_hypothesis :: "string option"
  wr_epoch :: nat

record worker_request =
  rq_item :: work_item
  rq_mode :: string
  rq_lease :: "lease option"

definition new_worker_runtime :: "nat \<Rightarrow> nat \<Rightarrow> 's \<Rightarrow> 's worker_runtime" where
  "new_worker_runtime worker generation session =
     \<lparr> wr_id = worker, wr_generation = generation, wr_session = session, wr_state = None, wr_context = None,
       wr_hypothesis = None, wr_epoch = 0 \<rparr>"

definition on_session :: "('s, 'a) stateop \<Rightarrow> ('s worker_runtime, 'a) stateop" where
  "on_session f rt = (case f (wr_session rt) of (r, s) \<Rightarrow> (r, rt\<lparr>wr_session := s\<rparr>))"

definition forget_state :: "'s worker_runtime \<Rightarrow> 's worker_runtime" where
  "forget_state rt = rt\<lparr>wr_state := None, wr_context := None, wr_hypothesis := None\<rparr>"

definition resolve_and_step ::
  "'s session_ops \<Rightarrow> battle_state \<Rightarrow> work_item \<Rightarrow> ('s, battle_state \<times> decision_signature) stateop" where
  "resolve_and_step ops st w =
     (let c = wi_candidate w in
      obind (current_legal ops st) (\<lambda>legal.
        case resolve (pr_action c) legal of
          Inl detail \<Rightarrow> olift (Inl (PyExc ''SemanticActionUnresolvedError'' detail))
        | Inr a \<Rightarrow>
            obind (so_step ops st a (pr_target c) (pr_enemy c)) (\<lambda>st'.
            obind (olift (from_battle_state st' (pr_action c) a (pr_target c) (pr_enemy c) None)) (\<lambda>g.
              oreturn (st', g)))))"

definition step_entry :: "work_item \<Rightarrow> decision_signature \<Rightarrow> prefix_entry" where
  "step_entry w g = \<lparr> rp_action = pr_action (wi_candidate w), rp_expected = g, rp_target = pr_target (wi_candidate w),
     rp_enemy = pr_enemy (wi_candidate w), rp_constraints = [], rp_blocked = False, rp_error = None \<rparr>"

definition pending_context_after :: "work_item \<Rightarrow> battle_state \<Rightarrow> decision_signature \<Rightarrow> decision_context" where
  "pending_context_after w st g =
     \<lparr> dc_root = dc_root (wi_context w),
       dc_prefix = append_replay_prefix_entry (dc_prefix (wi_context w)) (step_entry w g),
       dc_plan = append_replay_prefix_entry (dc_plan (wi_context w)) (step_entry w g),
       dc_result = st, dc_signature = g, dc_hypothesis = dc_hypothesis (wi_context w) \<rparr>"

text \<open>The base result has the status, the item, the mode, the worker and its generation.\<close>

definition pending_success ::
  "'s worker_env \<Rightarrow> branch_result \<Rightarrow> nat \<Rightarrow> nat \<Rightarrow> nat \<Rightarrow> work_item \<Rightarrow> battle_state \<Rightarrow> decision_signature \<Rightarrow> branch_result res" where
  "pending_success env base worker generation epoch w st g =
     (let c = pending_context_after w st g in
      sbind (derive_context_id (we_loads env) (we_sha env) c) (\<lambda>cid.
      sbind (build_candidate_pipeline_result 8 None c) (\<lambda>pipeline.
        branch_result_checked (base
          \<lparr>br_signature := Some g, br_pending_context := Some c, br_pending_pipeline := Some pipeline,
           br_lease := Some \<lparr> ls_worker = worker, ls_generation = generation, ls_context = cid,
             ls_hypothesis = dc_hypothesis c, ls_epoch = epoch, ls_session = sg_session g, ls_step = sg_step g,
             ls_digest = decision_result_digest (we_sha env) g \<rparr>\<rparr>))))"

definition build_success_result ::
  "'s worker_env \<Rightarrow> work_item \<Rightarrow> string \<Rightarrow> battle_state \<Rightarrow> decision_signature \<Rightarrow> ('s worker_runtime, branch_result) stateop" where
  "build_success_result env w mode st g rt =
     (let base = empty_result BRANCH_STATUS_SUCCESS w mode (Some (wr_id rt)) (Some (wr_generation rt)) in
      if sg_boundary g = BOUNDARY_STABLE then
        obind (on_session (we_capture env)) (\<lambda>child. olift (branch_result_checked (base
          \<lparr>br_signature := Some g, br_child := Some child, br_next := Some st,
           br_next_legal := Some (case bs_cached st of Some l \<Rightarrow> l | None \<Rightarrow> [])\<rparr>))) rt
      else if sg_boundary g = BOUNDARY_TERMINAL then
        olift (branch_result_checked (base
          \<lparr>br_signature := Some g,
           br_terminal := Some \<lparr> tr_is_terminal = bs_terminal st, tr_outcome = bs_outcome st \<rparr>\<rparr>)) rt
      else if sg_boundary g \<noteq> BOUNDARY_PENDING then
        olift (Inl (PyExc ''RuntimeError'' (''unexpected successful worker boundary '' @ repr_str (sg_boundary g)))) rt
      else olift (pending_success env base (wr_id rt) (wr_generation rt) (wr_epoch rt) w st g) rt)"

definition retain_after :: "branch_result \<Rightarrow> battle_state \<Rightarrow> decision_signature \<Rightarrow> work_item \<Rightarrow> 's worker_runtime \<Rightarrow> 's worker_runtime" where
  "retain_after r st g w rt =
     (if br_status r = BRANCH_STATUS_SUCCESS \<and> sg_boundary g = BOUNDARY_PENDING
      then rt\<lparr>wr_state := Some st, wr_context := map_option ls_context (br_lease r),
              wr_hypothesis := dc_hypothesis (wi_context w)\<rparr>
      else forget_state rt)"

definition step_candidate ::
  "'s worker_env \<Rightarrow> worker_request \<Rightarrow> battle_state \<Rightarrow> ('s worker_runtime, branch_result) stateop" where
  "step_candidate env rq st =
     obind (on_session (resolve_and_step (we_ops env) st (rq_item rq))) (\<lambda>(st', g).
     obind (modify (\<lambda>rt. rt\<lparr>wr_epoch := wr_epoch rt + 1\<rparr>)) (\<lambda>_.
     obind (build_success_result env (rq_item rq) (rq_mode rq) st' g) (\<lambda>r.
     obind (modify (retain_after r st' g (rq_item rq))) (\<lambda>_. oreturn r))))"

definition repr_str_list :: "string list \<Rightarrow> string" where
  "repr_str_list xs = ''['' @ join_with '', '' (map repr_str xs) @ '']''"

definition mismatch_result ::
  "worker_request \<Rightarrow> nat \<Rightarrow> nat \<Rightarrow> nat option \<Rightarrow> string \<Rightarrow> string \<Rightarrow> string list \<Rightarrow> branch_result" where
  "mismatch_result rq worker generation step stage detail diverged =
     (empty_result BRANCH_STATUS_FAULT (rq_item rq) (rq_mode rq) (Some worker) (Some generation))
       \<lparr>br_diagnostics :=
         [(''fault_kind'', JStr ''replay_mismatch''), (''stage'', JStr stage),
          (''step_index'', (case step of None \<Rightarrow> JNull | Some i \<Rightarrow> JInt (int i))), (''detail'', JStr detail),
          (''diverged_fields'', JArr (map JStr diverged)),
          (''message'', JStr (''replay_mismatch at stage='' @ stage @ '' step_index=''
             @ (case step of None \<Rightarrow> ''None'' | Some i \<Rightarrow> digits i) @ '': '' @ detail
             @ '' diverged_fields='' @ repr_str_list diverged))]\<rparr>"

definition repr_opt_str :: "string option \<Rightarrow> string" where
  "repr_opt_str v = (case v of None \<Rightarrow> ''None'' | Some s \<Rightarrow> repr_str s)"

text \<open>The checks of a holder step on the state the worker retains.\<close>

definition retained_state :: "worker_request \<Rightarrow> 's worker_runtime \<Rightarrow> battle_state res" where
  "retained_state rq rt = (case rq_lease rq of
       None \<Rightarrow> runtime_error ''Holder Step request requires expected_lease''
     | Some l \<Rightarrow> (case wr_state rt of
           None \<Rightarrow> runtime_error ''Holder Step requested but worker has no retained state''
         | Some st \<Rightarrow>
             if wr_context rt \<noteq> Some (wi_context_id (rq_item rq))
             then runtime_error (''Holder Step context mismatch: worker='' @ repr_opt_str (wr_context rt)
                    @ '' request='' @ repr_str (wi_context_id (rq_item rq)))
             else if wr_hypothesis rt \<noteq> dc_hypothesis (wi_context (rq_item rq))
             then runtime_error ''Holder Step search_hypothesis_id mismatch''
             else if wr_epoch rt \<noteq> ls_epoch l
             then runtime_error (''Holder Step state_epoch mismatch: worker='' @ digits (wr_epoch rt)
                    @ '' lease='' @ digits (ls_epoch l))
             else Inr st))"

definition run_request :: "'s worker_env \<Rightarrow> worker_request \<Rightarrow> ('s worker_runtime, branch_result) stateop" where
  "run_request env rq rt =
     (if rq_mode rq = EXECUTION_MODE_BOOTSTRAP_STEP then
        obind (on_session (replay_decision_context (we_loads env) (we_ops env) (wi_context (rq_item rq)))) (\<lambda>outcome.
          case outcome of
            Replay_mismatch step stage detail diverged \<Rightarrow>
              obind (modify forget_state) (\<lambda>_. olift (branch_result_checked
                (mismatch_result rq (wr_id rt) (wr_generation rt) step stage detail diverged)))
          | Replay_success st \<Rightarrow>
              obind (modify (\<lambda>rt. rt\<lparr>wr_epoch := wr_epoch rt + length (dc_prefix (wi_context (rq_item rq)))\<rparr>))
                (\<lambda>_. step_candidate env rq st)) rt
      else if rq_mode rq = EXECUTION_MODE_HOLDER_STEP then
        obind (\<lambda>rt. (retained_state rq rt, rt)) (step_candidate env rq) rt
      else olift (runtime_error (''unknown execution mode '' @ repr_str (rq_mode rq))) rt)"

text \<open>\<open>getattr(exc, "fault_kind", None) or "worker_exception"\<close>.\<close>

definition SNAPSHOT_MISSING_MOVE_KIND :: string where
  "SNAPSHOT_MISSING_MOVE_KIND = ''snapshot_restore_missing_monster_move''"

definition carried_fault_kind :: "py_exc \<Rightarrow> string" where
  "carried_fault_kind e = (case e of
       RequestRejected _ (Some k) \<Rightarrow> if k = [] then ''worker_exception'' else k
     | PyExc ty _ \<Rightarrow> if ty = ''SnapshotRestoreMissingMoveError'' then SNAPSHOT_MISSING_MOVE_KIND else ''worker_exception''
     | _ \<Rightarrow> ''worker_exception'')"

definition execute_request :: "'s worker_env \<Rightarrow> worker_request \<Rightarrow> ('s worker_runtime, branch_result) stateop" where
  "execute_request env rq rt = (case run_request env rq rt of
       (Inr r, rt') \<Rightarrow> (Inr r, rt')
     | (Inl e, rt') \<Rightarrow>
         (fault_result (rq_item rq) (rq_mode rq) (Some (wr_id rt')) (Some (wr_generation rt')) e (we_traceback env)
            (carried_fault_kind e), forget_state rt'))"

section \<open>Routing\<close>

definition choose_bootstrap_worker :: "nat list \<Rightarrow> lease_registry \<Rightarrow> nat \<Rightarrow> nat \<times> nat" where
  "choose_bootstrap_worker ids r next_index =
     (let unleased = filter (\<lambda>w. w \<notin> set (worker_ids_holding_leases r)) ids;
          candidates = (if unleased \<noteq> [] then unleased else ids)
      in (candidates ! (next_index mod length candidates), next_index + 1))"

record routing =
  rt_request :: worker_request
  rt_worker :: nat
  rt_next :: nat
  rt_registry :: lease_registry

definition bootstrap_route :: "work_item \<Rightarrow> nat list \<Rightarrow> nat \<Rightarrow> lease_registry \<Rightarrow> routing" where
  "bootstrap_route w ids next_index r = (case choose_bootstrap_worker ids r next_index of (worker, next_index') \<Rightarrow>
     \<lparr> rt_request = \<lparr> rq_item = w, rq_mode = EXECUTION_MODE_BOOTSTRAP_STEP, rq_lease = None \<rparr>,
       rt_worker = worker, rt_next = next_index',
       rt_registry = (if worker \<in> set (worker_ids_holding_leases r) then reg_invalidate_worker worker r else r) \<rparr>)"

text \<open>\<open>_route_work_item\<close>, with the registry it leaves; \<open>ids\<close> is not empty.\<close>

definition route_work_item ::
  "(string \<Rightarrow> string) \<Rightarrow> work_item \<Rightarrow> nat list \<Rightarrow> (nat, nat) dict \<Rightarrow> nat \<Rightarrow> lease_registry \<Rightarrow> routing" where
  "route_work_item sha w ids generations next_index r =
     (if wi_kind w = WORK_KIND_CONTINUATION then
        (case reg_get (wi_context_id w) (dc_hypothesis (wi_context w)) r of
           None \<Rightarrow> bootstrap_route w ids next_index r
         | Some l \<Rightarrow> (case dget generations (ls_worker l) of
               Some g \<Rightarrow>
                 if lease_is_valid_for sha l w (Some g)
                 then \<lparr> rt_request = \<lparr> rq_item = w, rq_mode = EXECUTION_MODE_HOLDER_STEP, rq_lease = Some l \<rparr>,
                        rt_worker = ls_worker l, rt_next = next_index, rt_registry = r \<rparr>
                 else bootstrap_route w ids next_index (reg_invalidate_lease l r)
             | None \<Rightarrow> bootstrap_route w ids next_index (reg_invalidate_lease l r)))
      else bootstrap_route w ids next_index r)"

section \<open>Lemmas\<close>

text \<open>The shape every result has: at most one of child and terminal, and what each boundary carries.\<close>

definition well_formed_result :: "branch_result \<Rightarrow> bool" where
  "well_formed_result r \<longleftrightarrow>
     br_status r \<in> {BRANCH_STATUS_SUCCESS, BRANCH_STATUS_FAULT}
     \<and> br_mode r \<in> {EXECUTION_MODE_BOOTSTRAP_STEP, EXECUTION_MODE_HOLDER_STEP}
     \<and> (br_child r = None \<or> br_terminal r = None)
     \<and> (br_status r = BRANCH_STATUS_SUCCESS \<longrightarrow> (case br_signature r of None \<Rightarrow> False | Some g \<Rightarrow>
          (sg_boundary g = BOUNDARY_STABLE \<longrightarrow> br_child r \<noteq> None)
          \<and> (sg_boundary g = BOUNDARY_TERMINAL \<longrightarrow> br_terminal r \<noteq> None)
          \<and> (sg_boundary g = BOUNDARY_PENDING \<longrightarrow> br_child r = None \<and> br_terminal r = None
               \<and> br_pending_context r \<noteq> None \<and> br_pending_pipeline r \<noteq> None \<and> br_lease r \<noteq> None)))"

lemma branch_result_checked_Inr: "branch_result_checked r = Inr r' \<longleftrightarrow> r' = r \<and> well_formed_result r"
  by (cases "br_signature r"; cases "br_child r"; cases "br_terminal r"; cases "br_lease r"; cases "br_status r = BRANCH_STATUS_SUCCESS")
    (auto simp only: branch_result_checked_def well_formed_result_def value_error_def if_True if_False option.case
      option.distinct simp_thms sum.inject sum.distinct split: if_split)

lemma empty_result_simps [simp]:
  "br_status (empty_result s w m k g) = s" "br_item (empty_result s w m k g) = w" "br_mode (empty_result s w m k g) = m"
  "br_worker (empty_result s w m k g) = k" "br_generation (empty_result s w m k g) = g"
  "br_signature (empty_result s w m k g) = None" "br_child (empty_result s w m k g) = None"
  "br_terminal (empty_result s w m k g) = None" "br_lease (empty_result s w m k g) = None"
  by (simp_all add: empty_result_def)

definition proper_mode :: "worker_request \<Rightarrow> bool" where
  "proper_mode rq \<longleftrightarrow> rq_mode rq \<in> {EXECUTION_MODE_BOOTSTRAP_STEP, EXECUTION_MODE_HOLDER_STEP}"

lemma fault_well_formed:
  assumes "br_status r = BRANCH_STATUS_FAULT" "br_child r = None"
    "br_mode r \<in> {EXECUTION_MODE_BOOTSTRAP_STEP, EXECUTION_MODE_HOLDER_STEP}"
  shows "branch_result_checked r = Inr r"
  using assms by (simp add: branch_result_checked_Inr well_formed_result_def status_defs)

lemma fault_result_Inr:
  "m \<in> {EXECUTION_MODE_BOOTSTRAP_STEP, EXECUTION_MODE_HOLDER_STEP} \<Longrightarrow>
   \<exists>r. fault_result w m k g e tb fk = Inr r \<and> well_formed_result r \<and> br_status r = BRANCH_STATUS_FAULT
     \<and> br_item r = w \<and> br_worker r = k \<and> br_generation r = g \<and> br_lease r = None"
  unfolding fault_result_def by (subst fault_well_formed) (auto simp: well_formed_result_def status_defs)

text \<open>What a result says of the worker: who answered, for which item.\<close>

definition answers :: "branch_result \<Rightarrow> work_item \<Rightarrow> 's worker_runtime \<Rightarrow> bool" where
  "answers r w rt \<longleftrightarrow> br_item r = w \<and> br_worker r = Some (wr_id rt) \<and> br_generation r = Some (wr_generation rt)"

text \<open>The lease a result establishes describes the state the worker retains, and nothing else is retained.\<close>

definition lease_matches :: "branch_result \<Rightarrow> 's worker_runtime \<Rightarrow> bool" where
  "lease_matches r rt \<longleftrightarrow> (case br_lease r of
       None \<Rightarrow> wr_state rt = None
     | Some l \<Rightarrow> br_status r = BRANCH_STATUS_SUCCESS \<and> wr_state rt = map_option dc_result (br_pending_context r)
         \<and> wr_state rt \<noteq> None \<and> wr_context rt = Some (ls_context l) \<and> wr_hypothesis rt = ls_hypothesis l
         \<and> wr_epoch rt = ls_epoch l \<and> ls_worker l = wr_id rt \<and> ls_generation l = wr_generation rt)"

lemma on_session_frame:
  "on_session f rt = (r, rt') \<Longrightarrow> \<exists>s. rt' = rt\<lparr>wr_session := s\<rparr>"
  by (auto simp: on_session_def split: prod.splits)

lemma forget_state_simps [simp]:
  "wr_state (forget_state rt) = None" "wr_id (forget_state rt) = wr_id rt"
  "wr_generation (forget_state rt) = wr_generation rt" "wr_session (forget_state rt) = wr_session rt"
  by (simp_all add: forget_state_def)

lemma build_success_result_Inr:
  assumes "build_success_result env w mode st g rt = (Inr r, rt')"
  shows "\<exists>s. rt' = rt\<lparr>wr_session := s\<rparr>" and "well_formed_result r" and "answers r w rt"
    and "br_status r = BRANCH_STATUS_SUCCESS"
    and "sg_boundary g = BOUNDARY_PENDING \<Longrightarrow> \<exists>l. br_lease r = Some l \<and> br_pending_context r = Some (pending_context_after w st g)
      \<and> ls_worker l = wr_id rt \<and> ls_generation l = wr_generation rt \<and> ls_epoch l = wr_epoch rt
      \<and> ls_hypothesis l = dc_hypothesis (wi_context w)"
    and "sg_boundary g \<noteq> BOUNDARY_PENDING \<Longrightarrow> br_lease r = None"
proof -
  consider (stable) "sg_boundary g = BOUNDARY_STABLE" | (terminal) "sg_boundary g = BOUNDARY_TERMINAL" "sg_boundary g \<noteq> BOUNDARY_STABLE"
    | (pending) "sg_boundary g = BOUNDARY_PENDING" "sg_boundary g \<noteq> BOUNDARY_TERMINAL" "sg_boundary g \<noteq> BOUNDARY_STABLE"
    | (other) "sg_boundary g \<notin> {BOUNDARY_STABLE, BOUNDARY_TERMINAL, BOUNDARY_PENDING}"
    unfolding BOUNDARY_STABLE_def BOUNDARY_TERMINAL_def BOUNDARY_PENDING_def by force
  then have "(\<exists>s. rt' = rt\<lparr>wr_session := s\<rparr>) \<and> well_formed_result r \<and> answers r w rt \<and> br_status r = BRANCH_STATUS_SUCCESS
    \<and> (sg_boundary g = BOUNDARY_PENDING \<longrightarrow> (\<exists>l. br_lease r = Some l \<and> br_pending_context r = Some (pending_context_after w st g)
      \<and> ls_worker l = wr_id rt \<and> ls_generation l = wr_generation rt \<and> ls_epoch l = wr_epoch rt
      \<and> ls_hypothesis l = dc_hypothesis (wi_context w)))
    \<and> (sg_boundary g \<noteq> BOUNDARY_PENDING \<longrightarrow> br_lease r = None)"
  proof cases
    case stable
    with assms show ?thesis
      by (auto simp: build_success_result_def Let_def obind_Inr branch_result_checked_Inr answers_def
          BOUNDARY_STABLE_def BOUNDARY_PENDING_def dest: on_session_frame)
  next
    case terminal
    with assms show ?thesis
      by (auto simp: build_success_result_def Let_def branch_result_checked_Inr answers_def
          BOUNDARY_TERMINAL_def BOUNDARY_PENDING_def intro: exI [of _ "wr_session rt"])
  next
    case pending
    with assms show ?thesis
      by (auto simp: build_success_result_def pending_success_def Let_def branch_result_checked_Inr answers_def sbind_eq_Inr
          pending_context_after_def intro: exI [of _ "wr_session rt"])
  next
    case other
    with assms show ?thesis by (auto simp: build_success_result_def Let_def)
  qed
  then show "\<exists>s. rt' = rt\<lparr>wr_session := s\<rparr>" and "well_formed_result r" and "answers r w rt"
    and "br_status r = BRANCH_STATUS_SUCCESS"
    and "sg_boundary g = BOUNDARY_PENDING \<Longrightarrow> \<exists>l. br_lease r = Some l \<and> br_pending_context r = Some (pending_context_after w st g)
      \<and> ls_worker l = wr_id rt \<and> ls_generation l = wr_generation rt \<and> ls_epoch l = wr_epoch rt
      \<and> ls_hypothesis l = dc_hypothesis (wi_context w)"
    and "sg_boundary g \<noteq> BOUNDARY_PENDING \<Longrightarrow> br_lease r = None" by blast+
qed

text \<open>The frame of every step of the worker: its identity never changes.\<close>

definition same_worker :: "'s worker_runtime \<Rightarrow> 's worker_runtime \<Rightarrow> bool" where
  "same_worker rt rt' \<longleftrightarrow> wr_id rt' = wr_id rt \<and> wr_generation rt' = wr_generation rt"

lemma answers_same: "same_worker rt rt' \<Longrightarrow> answers r w rt' = answers r w rt"
  by (simp add: same_worker_def answers_def)

lemma step_candidate_Inr:
  assumes "step_candidate env rq st rt = (Inr r, rt')"
  shows "well_formed_result r \<and> answers r (rq_item rq) rt \<and> same_worker rt rt' \<and> lease_matches r rt'"
proof -
  from assms obtain st' g rt1 rt3 where s: "on_session (resolve_and_step (we_ops env) st (rq_item rq)) rt = (Inr (st', g), rt1)"
      "build_success_result env (rq_item rq) (rq_mode rq) st' g (rt1\<lparr>wr_epoch := wr_epoch rt1 + 1\<rparr>) = (Inr r, rt3)"
      "rt' = retain_after r st' g (rq_item rq) rt3"
    by (auto simp: step_candidate_def obind_Inr modify_def split: prod.splits)
  obtain s1 where rt1: "rt1 = rt\<lparr>wr_session := s1\<rparr>" using on_session_frame [OF s(1)] by blast
  note b = build_success_result_Inr [OF s(2)]
  obtain s3 where rt3: "rt3 = rt1\<lparr>wr_epoch := wr_epoch rt1 + 1, wr_session := s3\<rparr>" using b(1) by auto
  have same: "same_worker rt rt'" by (simp add: same_worker_def s(3) retain_after_def rt3 rt1)
  have "lease_matches r rt'"
  proof (cases "sg_boundary g = BOUNDARY_PENDING")
    case True
    with b(4,5) show ?thesis
      by (auto simp: lease_matches_def s(3) retain_after_def rt3 pending_context_after_def)
  next
    case False
    with b(6) show ?thesis by (simp add: lease_matches_def s(3) retain_after_def)
  qed
  with b(2,3) same show ?thesis by (simp add: answers_def rt1)
qed

lemma frame_fails:
  "on_session f rt = (Inl e, rt') \<Longrightarrow> same_worker rt rt'"
  using on_session_frame by (fastforce simp: same_worker_def)

lemma build_success_result_frame:
  "build_success_result env w mode st g rt = (r, rt') \<Longrightarrow> \<exists>s. rt' = rt\<lparr>wr_session := s\<rparr>"
  unfolding build_success_result_def Let_def obind_def
  by (auto split: if_splits prod.splits sum.splits dest!: on_session_frame intro: exI [of _ "wr_session rt"])

lemma step_candidate_frame: "step_candidate env rq st rt = (r, rt') \<Longrightarrow> same_worker rt rt'"
  unfolding step_candidate_def obind_def modify_def retain_after_def
  by (auto simp: same_worker_def split: if_splits prod.splits sum.splits
      dest!: on_session_frame build_success_result_frame)

lemma run_request_frame: "run_request env rq rt = (r, rt') \<Longrightarrow> same_worker rt rt'"
  unfolding run_request_def obind_def modify_def
  by (auto simp: same_worker_def split: if_splits prod.splits sum.splits replay_outcome.splits
      dest!: on_session_frame step_candidate_frame)

lemma run_request_Inr:
  assumes "run_request env rq rt = (Inr r, rt')" "proper_mode rq"
  shows "well_formed_result r \<and> answers r (rq_item rq) rt \<and> lease_matches r rt'"
proof (cases "rq_mode rq = EXECUTION_MODE_BOOTSTRAP_STEP")
  case True
  with assms(1) obtain outcome rt1 where o: "on_session (replay_decision_context (we_loads env) (we_ops env)
        (wi_context (rq_item rq))) rt = (Inr outcome, rt1)"
      "(case outcome of
            Replay_mismatch step stage detail diverged \<Rightarrow>
              obind (modify forget_state) (\<lambda>_. olift (branch_result_checked
                (mismatch_result rq (wr_id rt) (wr_generation rt) step stage detail diverged)))
          | Replay_success st \<Rightarrow>
              obind (modify (\<lambda>rt. rt\<lparr>wr_epoch := wr_epoch rt + length (dc_prefix (wi_context (rq_item rq)))\<rparr>))
                (\<lambda>_. step_candidate env rq st)) rt1 = (Inr r, rt')"
    by (auto simp: run_request_def obind_Inr)
  obtain s1 where rt1: "rt1 = rt\<lparr>wr_session := s1\<rparr>" using on_session_frame [OF o(1)] by blast
  show ?thesis
  proof (cases outcome)
    case (Replay_success st)
    with o(2) have "step_candidate env rq st (rt1\<lparr>wr_epoch := wr_epoch rt1 + length (dc_prefix (wi_context (rq_item rq)))\<rparr>)
        = (Inr r, rt')" by (auto simp: obind_Inr modify_def)
    from step_candidate_Inr [OF this] show ?thesis by (simp add: answers_def rt1)
  next
    case (Replay_mismatch step stage detail diverged)
    with o(2) True show ?thesis
      by (auto simp: obind_Inr modify_def branch_result_checked_Inr mismatch_result_def answers_def lease_matches_def)
  qed
next
  case False
  with assms obtain st where "step_candidate env rq st rt = (Inr r, rt')"
    by (auto simp: run_request_def proper_mode_def obind_Inr)
  from step_candidate_Inr [OF this] show ?thesis by simp
qed

lemma execute_request_result:
  assumes "execute_request env rq rt = (res, rt')" "proper_mode rq"
  shows "\<exists>r. res = Inr r \<and> well_formed_result r \<and> answers r (rq_item rq) rt \<and> lease_matches r rt' \<and> same_worker rt rt'"
proof (cases "run_request env rq rt")
  case (Pair q rt1)
  note same = run_request_frame [OF Pair]
  show ?thesis
  proof (cases q)
    case (Inr r)
    with Pair assms run_request_Inr [of env rq rt r rt1] same show ?thesis by (auto simp: execute_request_def)
  next
    case (Inl e)
    obtain r where r: "fault_result (rq_item rq) (rq_mode rq) (Some (wr_id rt1)) (Some (wr_generation rt1)) e (we_traceback env)
          (carried_fault_kind e) = Inr r" "well_formed_result r" "br_item r = rq_item rq" "br_worker r = Some (wr_id rt1)"
        "br_generation r = Some (wr_generation rt1)" "br_lease r = None"
      using fault_result_Inr assms(2) unfolding proper_mode_def by blast
    with Pair Inl assms(1) have "res = Inr r" "rt' = forget_state rt1" by (simp_all add: execute_request_def)
    with r same show ?thesis by (simp add: answers_def lease_matches_def same_worker_def)
  qed
qed

lemma execute_request_total:
  assumes "proper_mode rq"
  shows "\<exists>r rt'. execute_request env rq rt = (Inr r, rt') \<and> well_formed_result r
    \<and> answers r (rq_item rq) rt \<and> same_worker rt rt'"
proof -
  obtain res rt' where e: "execute_request env rq rt = (res, rt')" by (cases "execute_request env rq rt")
  from execute_request_result [OF e assms] e show ?thesis by auto
qed

section \<open>Properties\<close>

text \<open>
  C16.  A worker always answers, and answers well-formed: whatever the session raises, executing a
  request returns a result of the promised shape for the request's own item, stamped with the
  worker and its generation, and the worker keeps its identity.
\<close>

theorem worker_results_well_formed:
  assumes "proper_mode rq"
  shows "\<exists>r rt'. execute_request env rq rt = (Inr r, rt') \<and> well_formed_result r
    \<and> answers r (rq_item rq) rt \<and> same_worker rt rt'"
  by (rule execute_request_total [OF assms])

definition sample_ref :: pipeline_ref where
  "sample_ref = \<lparr> pr_signature = sample_signature, pr_action = sample_semantic, pr_target = None, pr_enemy = Some 0,
     pr_score = 0, pr_kind = JStr ''card'', pr_scope = ''TopLevel'' \<rparr>"

definition sample_item :: "string \<Rightarrow> work_item" where
  "sample_item kind = \<lparr> wi_id = ''w1'', wi_context = sample_context, wi_candidate = sample_ref, wi_context_id = ''ctx'', wi_kind = kind \<rparr>"

definition sample_env :: "nat worker_env" where
  "sample_env = \<lparr> we_ops = sample_ops, we_capture = oreturn (Json_dict []), we_loads = (\<lambda>_. Inr JNull), we_sha = id,
     we_traceback = [] \<rparr>"

theorem worker_results_well_formed_witness:
  "\<exists>r rt'. execute_request sample_env \<lparr> rq_item = sample_item ''sub_branch'', rq_mode = ''bootstrap_step'', rq_lease = None \<rparr>
        (new_worker_runtime 0 1 (7 :: nat)) = (Inr r, rt')
    \<and> well_formed_result r
    \<and> answers r (rq_item \<lparr> rq_item = sample_item ''sub_branch'', rq_mode = ''bootstrap_step'', rq_lease = None \<rparr>) (new_worker_runtime 0 1 (7 :: nat))
    \<and> same_worker (new_worker_runtime 0 1 (7 :: nat)) rt'"
  by (rule worker_results_well_formed) (simp add: proper_mode_def mode_defs)

text \<open>
  A lease describes the state it leases: after every request the worker retains a state
  exactly when its result carries a lease, the lease names that state's context, hypothesis,
  epoch, worker and generation, and the next step on the lease is admitted on exactly the state
  the pending context reports.
\<close>

theorem lease_admits_next_step:
  assumes "execute_request env rq rt = (Inr r, rt')" "proper_mode rq"
  shows "lease_matches r rt' \<and> (case br_lease r of None \<Rightarrow> wr_state rt' = None
    | Some l \<Rightarrow> retained_state \<lparr> rq_item = w\<lparr>wi_context_id := ls_context l, wi_context := (wi_context w)\<lparr>dc_hypothesis := ls_hypothesis l\<rparr>\<rparr>,
        rq_mode = EXECUTION_MODE_HOLDER_STEP, rq_lease = Some l \<rparr> rt' = Inr (dc_result (the (br_pending_context r))))"
proof -
  from execute_request_result [OF assms] have m: "lease_matches r rt'" by auto
  then show ?thesis
    by (cases "br_pending_context r") (auto simp: lease_matches_def retained_state_def split: option.splits)
qed

text \<open>A session whose step opens a choice.\<close>

definition choosing_state :: battle_state where
  "choosing_state = (sample_state 1)\<lparr>bs_engine := [(''pendingChoice'', JObj [(''choiceType'', JStr ''Toolbox'')])]\<rparr>"

definition choosing_env :: "nat worker_env" where
  "choosing_env = sample_env\<lparr>we_ops := sample_ops\<lparr>so_step := (\<lambda>_ _ _ _ s. (Inr (if s = 0 then sample_state 1 else choosing_state), Suc s))\<rparr>\<rparr>"

definition choosing_request :: worker_request where
  "choosing_request = \<lparr> rq_item = sample_item ''sub_branch'', rq_mode = ''bootstrap_step'', rq_lease = None \<rparr>"

definition choosing_result :: "branch_result \<times> nat worker_runtime" where
  "choosing_result = (case execute_request choosing_env choosing_request (new_worker_runtime 0 1 0) of (r, rt) \<Rightarrow> (projr r, rt))"

lemma choosing_executes:
  "execute_request choosing_env choosing_request (new_worker_runtime 0 1 0) = (Inr (fst choosing_result), snd choosing_result)"
  and choosing_mode: "proper_mode choosing_request"
proof -
  show mode: "proper_mode choosing_request" by (simp add: proper_mode_def mode_defs choosing_request_def)
  from execute_request_total [OF mode, of choosing_env "new_worker_runtime 0 1 0"]
  show "execute_request choosing_env choosing_request (new_worker_runtime 0 1 0) = (Inr (fst choosing_result), snd choosing_result)"
    unfolding choosing_result_def by auto
qed

lemma choosing_lease: "br_lease (fst choosing_result) \<noteq> None"
  by code_simp

theorem lease_admits_next_step_witness:
  "br_lease (fst choosing_result) \<noteq> None \<and> lease_matches (fst choosing_result) (snd choosing_result)
    \<and> (case br_lease (fst choosing_result) of None \<Rightarrow> wr_state (snd choosing_result) = None
    | Some l \<Rightarrow> retained_state \<lparr> rq_item = (sample_item ''continuation'')\<lparr>wi_context_id := ls_context l,
          wi_context := (wi_context (sample_item ''continuation''))\<lparr>dc_hypothesis := ls_hypothesis l\<rparr>\<rparr>,
        rq_mode = EXECUTION_MODE_HOLDER_STEP, rq_lease = Some l \<rparr> (snd choosing_result)
        = Inr (dc_result (the (br_pending_context (fst choosing_result)))))"
  using choosing_lease lease_admits_next_step [OF choosing_executes choosing_mode] by blast

text \<open>
  C17.  A holder step is guarded: the session of a worker is touched only when the worker retains
  a state for the very context and hypothesis of the item at the epoch of the lease; any other
  holder request is answered with a fault and leaves the session as it was.
\<close>

theorem holder_step_guarded:
  assumes "rq_mode rq = EXECUTION_MODE_HOLDER_STEP" "execute_request env rq rt = (Inr r, rt')"
  shows "br_status r = BRANCH_STATUS_FAULT \<and> wr_session rt' = wr_session rt \<and> wr_state rt' = None
    \<or> wr_state rt \<noteq> None \<and> wr_context rt = Some (wi_context_id (rq_item rq))
      \<and> wr_hypothesis rt = dc_hypothesis (wi_context (rq_item rq)) \<and> map_option ls_epoch (rq_lease rq) = Some (wr_epoch rt)"
proof (cases "retained_state rq rt")
  case (Inl e)
  then have "run_request env rq rt = (Inl e, rt)"
    using assms(1) by (simp add: run_request_def mode_defs obind_def)
  with assms fault_result_Inr [of "rq_mode rq"] show ?thesis
    by (auto simp: execute_request_def fault_result_def branch_result_checked_Inr)
next
  case (Inr st)
  then show ?thesis by (auto simp: retained_state_def runtime_error_def split: option.splits if_splits)
qed

theorem holder_step_guarded_witness:
  "br_status (projr (fst (execute_request choosing_env
      \<lparr> rq_item = sample_item ''continuation'', rq_mode = EXECUTION_MODE_HOLDER_STEP, rq_lease = None \<rparr> (snd choosing_result)))) = BRANCH_STATUS_FAULT"
proof -
  let ?rq = "\<lparr> rq_item = sample_item ''continuation'', rq_mode = EXECUTION_MODE_HOLDER_STEP, rq_lease = None \<rparr>"
  obtain r rt' where e: "execute_request choosing_env ?rq (snd choosing_result) = (Inr r, rt')"
    using execute_request_total [of ?rq choosing_env "snd choosing_result"] by (auto simp: proper_mode_def)
  from holder_step_guarded [OF _ e] e show ?thesis by simp
qed

end
