(* ===== verification/Branch_Dispatch.thy ===== *)
theory Branch_Dispatch
  imports Branch_Leases
begin

text \<open>
  The pool and its batches: \<open>BranchWorkerPool\<close> and \<open>dispatch_work_items\<close> of
  \<open>Combat/search/branch_worker_pool.py\<close>.

  A pool keeps the generation of each worker process.  What the shared result queue delivers is a
  list of events, replies in any order (of this batch, late or foreign) or the timeout of a read;
  the processes themselves run \<open>execute_request\<close>.  The registry of leases is threaded through.
\<close>

section \<open>The pool\<close>

record branch_pool =
  bp_generations :: "(nat, nat) dict"
  bp_next_bootstrap :: nat
  bp_next_request :: nat
  bp_closed :: bool

type_synonym pool_state = "branch_pool \<times> lease_registry"

definition new_branch_pool :: "int \<Rightarrow> branch_pool res" where
  "new_branch_pool worker_count =
     (if worker_count \<le> 0 then value_error ''worker_count must be positive''
      else Inr \<lparr> bp_generations = map (\<lambda>w. (w, 1)) [0..<nat worker_count], bp_next_bootstrap = 0,
                bp_next_request = 0, bp_closed = False \<rparr>)"

text \<open>\<open>respawn_worker\<close>: a fresh process of the next generation; the leases of the old one are gone.\<close>

definition respawn_worker :: "nat \<Rightarrow> (pool_state, unit) stateop" where
  "respawn_worker w s = (case s of (p, r) \<Rightarrow>
     if bp_closed p then (runtime_error ''BranchWorkerPool is closed'', s)
     else (case dget (bp_generations p) w of
         None \<Rightarrow> (Inl (PyExc ''KeyError'' (digits w)), s)
       | Some g \<Rightarrow> (Inr (), (p\<lparr>bp_generations := dset w (g + 1) (bp_generations p)\<rparr>, reg_invalidate_worker w r))))"

definition close_pool :: "branch_pool \<Rightarrow> branch_pool" where
  "close_pool p = p\<lparr>bp_closed := True\<rparr>"

definition submit_request :: "nat \<Rightarrow> (pool_state, nat) stateop" where
  "submit_request w s = (case s of (p, r) \<Rightarrow>
     if bp_closed p then (runtime_error ''BranchWorkerPool is closed'', s)
     else (case dget (bp_generations p) w of
         None \<Rightarrow> (Inl (PyExc ''KeyError'' (digits w)), s)
       | Some g \<Rightarrow> (Inr (bp_next_request p + 1), (p\<lparr>bp_next_request := bp_next_request p + 1\<rparr>, r))))"

datatype queue_event = Reply nat branch_result | Queue_empty

definition timed_out :: "string \<Rightarrow> work_item \<Rightarrow> string \<Rightarrow> nat \<Rightarrow> nat option \<Rightarrow> nat \<Rightarrow> branch_result res" where
  "timed_out tb w mode worker generation rid =
     fault_result w mode (Some worker) generation
       (PyExc ''TimeoutError'' (''timed out waiting for worker request '' @ digits rid)) tb ''task_timeout''"

definition needs_respawn :: "branch_result \<Rightarrow> bool" where
  "needs_respawn r \<longleftrightarrow> br_status r = BRANCH_STATUS_FAULT \<and> br_worker r \<noteq> None \<and> is_process_tainting_fault (br_diagnostics r)"

definition respawn_if_tainted :: "branch_result \<Rightarrow> (pool_state, unit) stateop" where
  "respawn_if_tainted r = (if needs_respawn r then respawn_worker (the (br_worker r)) else oreturn ())"

text \<open>\<open>BranchWorkerPool.execute\<close> after its submission: one request, \<open>None\<close> while it still waits.\<close>

fun await_reply ::
  "string \<Rightarrow> worker_request \<Rightarrow> nat \<Rightarrow> nat \<Rightarrow> nat option \<Rightarrow> queue_event list \<Rightarrow> pool_state \<Rightarrow> branch_result res option \<times> pool_state" where
  "await_reply tb rq rid worker stale [] s = (None, s)"
| "await_reply tb rq rid worker stale (Queue_empty # es) s =
     (case obind (respawn_worker worker) (\<lambda>_. olift (timed_out tb (rq_item rq) (rq_mode rq) worker stale rid)) s of
        (r, s') \<Rightarrow> (Some r, s'))"
| "await_reply tb rq rid worker stale (Reply received r # es) s =
     (if received = rid then (case obind (respawn_if_tainted r) (\<lambda>_. oreturn r) s of (r', s') \<Rightarrow> (Some r', s'))
      else await_reply tb rq rid worker stale es s)"

definition pool_execute ::
  "string \<Rightarrow> nat \<Rightarrow> worker_request \<Rightarrow> queue_event list \<Rightarrow> pool_state \<Rightarrow> branch_result res option \<times> pool_state" where
  "pool_execute tb worker rq events s = (case dget (bp_generations (fst s)) worker of
       None \<Rightarrow> (Some (Inl (PyExc ''KeyError'' (digits worker))), s)
     | Some stale \<Rightarrow> (case submit_request worker s of
           (Inl e, s') \<Rightarrow> (Some (Inl e), s')
         | (Inr rid, s') \<Rightarrow> await_reply tb rq rid worker (Some stale) events s'))"

section \<open>Batches\<close>

record pending_request =
  pq_id :: nat
  pq_item :: work_item
  pq_worker :: nat
  pq_request :: worker_request

text \<open>
  The submissions of a batch: route, convert for the process boundary, submit.  The generations are
  those at the start of the batch.
\<close>

fun submit_all ::
  "(string \<Rightarrow> string) \<Rightarrow> (nat, nat) dict \<Rightarrow> work_item list \<Rightarrow> nat \<Rightarrow> (pool_state, pending_request list \<times> nat) stateop" where
  "submit_all sha gens [] next_index s = (Inr ([], next_index), s)"
| "submit_all sha gens (w # ws) next_index (p, r) =
     (let route = route_work_item sha w (dkeys gens) gens next_index r in
      case work_item_for_ipc w of
        Inl e \<Rightarrow> (Inl e, (p, rt_registry route))
      | Inr ipc \<Rightarrow>
          (case submit_request (rt_worker route) (p, rt_registry route) of
             (Inl e, s') \<Rightarrow> (Inl e, s')
           | (Inr rid, s') \<Rightarrow>
               (case submit_all sha gens ws (rt_next route) s' of
                  (Inl e, s'') \<Rightarrow> (Inl e, s'')
                | (Inr (rest, next_index'), s'') \<Rightarrow>
                    (Inr (\<lparr> pq_id = rid, pq_item = w, pq_worker = rt_worker route,
                           pq_request = (rt_request route)\<lparr>rq_item := ipc\<rparr> \<rparr> # rest, next_index'), s''))))"

type_synonym results = "(string, branch_result) dict"

text \<open>A read that times out: every worker with an outstanding request is replaced, each request faults.\<close>

fun fault_requests :: "string \<Rightarrow> nat option \<Rightarrow> pending_request list \<Rightarrow> results \<Rightarrow> results res" where
  "fault_requests tb stale [] res = Inr res"
| "fault_requests tb stale (q # qs) res =
     sbind (timed_out tb (pq_item q) (rq_mode (pq_request q)) (pq_worker q) stale (pq_id q))
       (\<lambda>r. fault_requests tb stale qs (dset (wi_id (pq_item q)) r res))"

fun give_up_workers :: "string \<Rightarrow> nat list \<Rightarrow> pending_request list \<Rightarrow> results \<Rightarrow> (pool_state, results) stateop" where
  "give_up_workers tb [] qs res s = (Inr res, s)"
| "give_up_workers tb (w # ws) qs res s =
     obind (respawn_worker w) (\<lambda>_.
     obind (olift (fault_requests tb (dget (bp_generations (fst s)) w) (filter (\<lambda>q. pq_worker q = w) qs) res))
       (\<lambda>res'. give_up_workers tb ws qs res')) s"

text \<open>The collection loop; \<open>None\<close> while requests are outstanding and the events are used up.\<close>

fun collect ::
  "string \<Rightarrow> pending_request list \<Rightarrow> results \<Rightarrow> queue_event list \<Rightarrow> pool_state \<Rightarrow> results res option \<times> pool_state" where
  "collect tb [] res es s = (Some (Inr res), s)"
| "collect tb (q # qs) res [] s = (None, s)"
| "collect tb (q # qs) res (Queue_empty # es) s =
     (case give_up_workers tb (sort (remdups (map pq_worker (q # qs)))) (q # qs) res s of (r, s') \<Rightarrow> (Some r, s'))"
| "collect tb (q # qs) res (Reply rid r # es) s =
     (case List.find (\<lambda>q. pq_id q = rid) (q # qs) of
        None \<Rightarrow> collect tb (q # qs) res es s
      | Some q' \<Rightarrow>
          (case respawn_if_tainted r s of
             (Inl e, s') \<Rightarrow> (Some (Inl e), s')
           | (Inr _, s') \<Rightarrow>
               collect tb (filter (\<lambda>q. pq_id q \<noteq> rid) (q # qs)) (dset (wi_id (pq_item q')) r res) es s'))"

text \<open>\<open>restore_result_for_caller_work_item\<close>; equal items stand for the same object.\<close>

definition restore_result_for_caller_work_item :: "work_item \<Rightarrow> branch_result \<Rightarrow> branch_result res" where
  "restore_result_for_caller_work_item w r =
     (if br_item r = w then Inr r
      else branch_result_checked (r\<lparr>br_item := w,
             br_pending_context := map_option (\<lambda>c. c\<lparr>dc_root := dc_root (wi_context w)\<rparr>) (br_pending_context r)\<rparr>))"

definition settle_leases :: "work_item \<Rightarrow> branch_result \<Rightarrow> lease_registry \<Rightarrow> lease_registry" where
  "settle_leases w r reg =
     (let reg1 = reg_invalidate (wi_context_id w) (dc_hypothesis (wi_context w)) reg;
          reg2 = (case br_lease r of Some l \<Rightarrow> if br_status r = BRANCH_STATUS_SUCCESS then reg_set l reg1 else reg1 | None \<Rightarrow> reg1)
      in case br_worker r of
           Some k \<Rightarrow> if br_status r = BRANCH_STATUS_FAULT then reg_invalidate_worker k reg2 else reg2
         | None \<Rightarrow> reg2)"

fun settle :: "work_item list \<Rightarrow> results \<Rightarrow> (lease_registry, branch_result list) stateop" where
  "settle [] res reg = (Inr [], reg)"
| "settle (w # ws) res reg = (case dget res (wi_id w) of
       None \<Rightarrow> (Inl (PyExc ''KeyError'' (repr_str (wi_id w))), reg)
     | Some r0 \<Rightarrow> (case restore_result_for_caller_work_item w r0 of
           Inl e \<Rightarrow> (Inl e, reg)
         | Inr r \<Rightarrow> (case settle ws res (settle_leases w r reg) of
               (Inl e, reg') \<Rightarrow> (Inl e, reg')
             | (Inr rs, reg') \<Rightarrow> (Inr (r # rs), reg'))))"

definition dispatch_work_items ::
  "(string \<Rightarrow> string) \<Rightarrow> string \<Rightarrow> work_item list \<Rightarrow> queue_event list \<Rightarrow> pool_state
   \<Rightarrow> branch_result list res option \<times> pool_state" where
  "dispatch_work_items sha tb ws events s =
     (case submit_all sha (bp_generations (fst s)) ws (bp_next_bootstrap (fst s)) s of
        (Inl e, s') \<Rightarrow> (Some (Inl e), s')
      | (Inr (pending, next_index), s1) \<Rightarrow>
          (case collect tb pending [] events s1 of
             (None, s2) \<Rightarrow> (None, s2)
           | (Some (Inl e), s2) \<Rightarrow> (Some (Inl e), s2)
           | (Some (Inr res), (p, reg)) \<Rightarrow>
               (case settle ws res reg of
                  (Inl e, reg') \<Rightarrow> (Some (Inl e), (p, reg'))
                | (Inr rs, reg') \<Rightarrow> (Some (Inr rs), (p\<lparr>bp_next_bootstrap := next_index\<rparr>, reg')))))"

text \<open>The variant with an \<open>execute_request\<close> of the caller: each item is executed as it is routed.\<close>

fun execute_all ::
  "(string \<Rightarrow> string) \<Rightarrow> (nat \<Rightarrow> worker_request \<Rightarrow> ('x, branch_result) stateop) \<Rightarrow> nat list \<Rightarrow> (nat, nat) dict
   \<Rightarrow> work_item list \<Rightarrow> nat \<Rightarrow> results \<Rightarrow> ('x \<times> lease_registry, results) stateop" where
  "execute_all sha exec ids gens [] next_index res s = (Inr res, s)"
| "execute_all sha exec ids gens (w # ws) next_index res (x, r) =
     (let route = route_work_item sha w ids gens next_index r in
      case exec (rt_worker route) (rt_request route) x of
        (Inl e, x') \<Rightarrow> (Inl e, (x', rt_registry route))
      | (Inr b, x') \<Rightarrow> execute_all sha exec ids gens ws (rt_next route) (dset (wi_id w) b res) (x', rt_registry route))"

definition dispatch_with ::
  "(string \<Rightarrow> string) \<Rightarrow> (nat \<Rightarrow> worker_request \<Rightarrow> ('x, branch_result) stateop) \<Rightarrow> nat list \<Rightarrow> (nat, nat) dict
   \<Rightarrow> work_item list \<Rightarrow> ('x \<times> lease_registry, branch_result list) stateop" where
  "dispatch_with sha exec ids gens ws s =
     (case execute_all sha exec ids gens ws 0 [] s of
        (Inl e, s') \<Rightarrow> (Inl e, s')
      | (Inr res, (x, reg)) \<Rightarrow> (case settle ws res reg of (r, reg') \<Rightarrow> (r, (x, reg'))))"

section \<open>Generations\<close>

text \<open>A holder step is routed only on a lease of the current generation of its worker.\<close>

lemma route_holder:
  assumes "rq_lease (rt_request (route_work_item sha w ids gens next_index r)) = Some l"
  shows "dget gens (ls_worker l) = Some (ls_generation l) \<and> rt_worker (route_work_item sha w ids gens next_index r) = ls_worker l
    \<and> lease_is_valid_for sha l w (dget gens (ls_worker l))"
  using assms
  by (auto simp: route_work_item_def bootstrap_route_def lease_is_valid_for_def Let_def
      split: if_splits option.splits prod.splits)

lemma route_mode:
  "rq_mode (rt_request (route_work_item sha w ids gens next_index r)) \<in> {EXECUTION_MODE_BOOTSTRAP_STEP, EXECUTION_MODE_HOLDER_STEP}"
  by (simp add: route_work_item_def bootstrap_route_def split: option.split prod.split)

definition pool_generation :: "nat \<Rightarrow> pool_state \<Rightarrow> nat" where
  "pool_generation w s = (case dget (bp_generations (fst s)) w of Some g \<Rightarrow> g | None \<Rightarrow> 0)"

text \<open>The pool honours a lease of a worker when some item is routed to a holder step on it.\<close>

definition honours :: "nat \<Rightarrow> pool_state \<Rightarrow> lease \<Rightarrow> bool" where
  "honours w s l \<longleftrightarrow> ls_worker l = w \<and> (\<exists>sha item ids n r.
     rq_lease (rt_request (route_work_item sha item ids (bp_generations (fst s)) n r)) = Some l)"

datatype pool_op = Respawn nat | Submit nat | Close | Tainted branch_result

fun pool_step :: "pool_state \<Rightarrow> pool_op \<Rightarrow> pool_state" where
  "pool_step s (Respawn w) = snd (respawn_worker w s)"
| "pool_step s (Submit w) = snd (submit_request w s)"
| "pool_step s Close = (close_pool (fst s), snd s)"
| "pool_step s (Tainted r) = snd (respawn_if_tainted r s)"

lemma respawn_generation: "pool_generation w s \<le> pool_generation w (snd (respawn_worker v s))"
  by (auto simp: respawn_worker_def pool_generation_def split: prod.splits option.splits)

interpretation worker_guard: generation_guard "honours w" "pool_generation w" ls_generation pool_step for w
proof
  fix s l
  assume "honours w s l"
  then show "ls_generation l = pool_generation w s"
    using route_holder by (fastforce simp: honours_def pool_generation_def)
next
  fix s x
  show "pool_generation w s \<le> pool_generation w (pool_step s x)"
  proof (cases x)
    case (Submit v)
    then show ?thesis by (auto simp: submit_request_def pool_generation_def split: prod.splits option.splits)
  next
    case Close
    then show ?thesis by (simp add: close_pool_def pool_generation_def)
  next
    case (Tainted r)
    then show ?thesis by (simp add: respawn_if_tainted_def respawn_generation)
  qed (simp add: respawn_generation)
qed

section \<open>Lemmas\<close>

definition pool_ready :: "pool_state \<Rightarrow> bool" where
  "pool_ready s \<longleftrightarrow> \<not> bp_closed (fst s)"

abbreviation pool_workers :: "pool_state \<Rightarrow> nat set" where
  "pool_workers s \<equiv> set (dkeys (bp_generations (fst s)))"

lemma fst_set_dset [simp]: "fst ` set (dset k v d) = insert k (fst ` set d)"
  using set_dkeys_dset [of k v d] by simp

lemma respawn_ok:
  assumes "pool_ready s" "w \<in> pool_workers s"
  shows "\<exists>s'. respawn_worker w s = (Inr (), s') \<and> pool_ready s' \<and> pool_workers s' = pool_workers s"
proof -
  obtain p r where s: "s = (p, r)" by (cases s)
  obtain g where "dget (bp_generations p) w = Some g" using assms(2) s by (metis dget_iff_dkeys fst_conv option.exhaust)
  with assms s show ?thesis by (simp add: respawn_worker_def pool_ready_def insert_absorb)
qed

definition good_results :: "results \<Rightarrow> bool" where
  "good_results res \<longleftrightarrow> (\<forall>k r. dget res k = Some r \<longrightarrow> well_formed_result r)"

definition request_proper :: "pending_request \<Rightarrow> bool" where
  "request_proper q \<longleftrightarrow> rq_mode (pq_request q) \<in> {EXECUTION_MODE_BOOTSTRAP_STEP, EXECUTION_MODE_HOLDER_STEP}"

abbreviation work_ids :: "pending_request list \<Rightarrow> string set" where
  "work_ids qs \<equiv> (\<lambda>q. wi_id (pq_item q)) ` set qs"

lemma good_results_dset: "good_results res \<Longrightarrow> well_formed_result r \<Longrightarrow> good_results (dset k r res)"
  by (simp add: good_results_def)

lemma fault_requests_ok:
  assumes "list_all request_proper qs" "good_results res"
  shows "\<exists>res'. fault_requests tb stale qs res = Inr res' \<and> good_results res'
    \<and> set (dkeys res') = work_ids qs \<union> set (dkeys res)"
  using assms
proof (induction qs arbitrary: res)
  case (Cons q qs)
  obtain r where r: "timed_out tb (pq_item q) (rq_mode (pq_request q)) (pq_worker q) stale (pq_id q) = Inr r" "well_formed_result r"
    using Cons.prems(1) fault_result_Inr unfolding timed_out_def request_proper_def list.pred_inject by blast
  from Cons.IH [OF _ good_results_dset [OF Cons.prems(2) r(2)]] Cons.prems(1) r(1) show ?case by force
qed simp

lemma give_up_workers_ok:
  assumes "list_all request_proper qs" "good_results res" "pool_ready s" "set ws \<subseteq> pool_workers s"
  shows "\<exists>res' s'. give_up_workers tb ws qs res s = (Inr res', s') \<and> good_results res'
    \<and> set (dkeys res') = (\<lambda>q. wi_id (pq_item q)) ` {q \<in> set qs. pq_worker q \<in> set ws} \<union> set (dkeys res)"
  using assms(2-4)
proof (induction ws arbitrary: res s)
  case (Cons w ws)
  obtain s1 where s1: "respawn_worker w s = (Inr (), s1)" "pool_ready s1" "pool_workers s1 = pool_workers s"
    using respawn_ok [of s w] Cons.prems by auto
  let ?qs = "filter (\<lambda>q. pq_worker q = w) qs"
  have "list_all request_proper ?qs" using assms(1) by (auto simp: list_all_iff)
  then obtain res1 where r1: "fault_requests tb (dget (bp_generations (fst s)) w) ?qs res = Inr res1" "good_results res1"
      "set (dkeys res1) = work_ids ?qs \<union> set (dkeys res)"
    using fault_requests_ok Cons.prems(1) by blast
  have "set ws \<subseteq> pool_workers s1" using Cons.prems(3) s1(3) by auto
  from Cons.IH [OF r1(2) s1(2) this] obtain res' s' where r': "give_up_workers tb ws qs res1 s1 = (Inr res', s')" "good_results res'"
      "set (dkeys res') = (\<lambda>q. wi_id (pq_item q)) ` {q \<in> set qs. pq_worker q \<in> set ws} \<union> set (dkeys res1)" by blast
  have "give_up_workers tb (w # ws) qs res s = (Inr res', s')" using s1(1) r1(1) r'(1) by (simp add: obind_def)
  moreover have "set (dkeys res') = (\<lambda>q. wi_id (pq_item q)) ` {q \<in> set qs. pq_worker q \<in> set (w # ws)} \<union> set (dkeys res)"
    unfolding r'(3) r1(3) by auto
  ultimately show ?case using r'(2) by blast
qed simp

text \<open>The replies a batch can rely on: well-formed, from a worker of the pool.\<close>

definition sound_event :: "nat set \<Rightarrow> queue_event \<Rightarrow> bool" where
  "sound_event ws e \<longleftrightarrow> (case e of Queue_empty \<Rightarrow> True
     | Reply _ r \<Rightarrow> well_formed_result r \<and> (case br_worker r of None \<Rightarrow> True | Some w \<Rightarrow> w \<in> ws))"

definition answered :: "queue_event list \<Rightarrow> nat \<Rightarrow> bool" where
  "answered es rid \<longleftrightarrow> list_ex (\<lambda>e. case e of Reply i _ \<Rightarrow> i = rid | Queue_empty \<Rightarrow> True) es"

lemma respawn_if_tainted_ok:
  assumes "pool_ready s" "sound_event (pool_workers s) (Reply i r)"
  shows "\<exists>s'. respawn_if_tainted r s = (Inr (), s') \<and> pool_ready s' \<and> pool_workers s' = pool_workers s"
proof (cases "needs_respawn r")
  case True
  then obtain w where "br_worker r = Some w" by (auto simp: needs_respawn_def)
  with assms True respawn_ok [of s w] show ?thesis by (simp add: respawn_if_tainted_def sound_event_def)
next
  case False
  with assms(1) show ?thesis by (simp add: respawn_if_tainted_def)
qed

lemma collect_done:
  assumes "distinct (map pq_id qs)" "list_all request_proper qs" "good_results res"
    "pool_ready s" "pq_worker ` set qs \<subseteq> pool_workers s"
    "list_all (sound_event (pool_workers s)) es" "list_all (\<lambda>q. answered es (pq_id q)) qs"
  shows "\<exists>res' s'. collect tb qs res es s = (Some (Inr res'), s') \<and> good_results res'
    \<and> work_ids qs \<union> set (dkeys res) \<subseteq> set (dkeys res')"
  using assms
proof (induction es arbitrary: qs res s)
  case Nil
  then show ?case by (cases qs) (auto simp: answered_def)
next
  case (Cons e es)
  show ?case
  proof (cases qs)
    case Nil
    with Cons.prems(3) show ?thesis by simp
  next
    case qs: (Cons q0 qs0)
    show ?thesis
    proof (cases e)
      case Queue_empty
      let ?ws = "sort (remdups (map pq_worker qs))"
      have "set ?ws \<subseteq> pool_workers s" using Cons.prems(5) by simp
      from give_up_workers_ok [OF Cons.prems(2,3,4) this, of tb] obtain res' s' where
          r: "give_up_workers tb ?ws qs res s = (Inr res', s')" "good_results res'"
          "set (dkeys res') = (\<lambda>q. wi_id (pq_item q)) ` {q \<in> set qs. pq_worker q \<in> set ?ws} \<union> set (dkeys res)" by blast
      have "collect tb qs res (e # es) s = (Some (Inr res'), s')" using r(1) by (simp add: qs Queue_empty)
      with r(2,3) show ?thesis by auto
    next
      case (Reply rid r)
      show ?thesis
      proof (cases "List.find (\<lambda>q. pq_id q = rid) qs")
        case None
        then have none: "q \<in> set qs \<Longrightarrow> pq_id q \<noteq> rid" for q by (auto simp: find_None_iff)
        have "list_all (\<lambda>q. answered es (pq_id q)) qs"
          using Cons.prems(7) none by (fastforce simp: list_all_iff answered_def Reply)
        from Cons.IH [OF Cons.prems(1-5) _ this] Cons.prems(6) None show ?thesis by (simp add: qs Reply)
      next
        case (Some q')
        then have q': "q' \<in> set qs" "pq_id q' = rid" by (auto simp: find_Some_iff)
        let ?qs = "filter (\<lambda>q. pq_id q \<noteq> rid) qs" and ?res = "dset (wi_id (pq_item q')) r res"
        obtain s1 where s1: "respawn_if_tainted r s = (Inr (), s1)" "pool_ready s1" "pool_workers s1 = pool_workers s"
          using respawn_if_tainted_ok [OF Cons.prems(4), of rid r] Cons.prems(6) by (auto simp: Reply)
        have wf: "well_formed_result r" using Cons.prems(6) by (simp add: Reply sound_event_def)
        have step: "\<exists>res' s'. collect tb ?qs ?res es s1 = (Some (Inr res'), s') \<and> good_results res'
            \<and> work_ids ?qs \<union> set (dkeys ?res) \<subseteq> set (dkeys res')"
        proof (rule Cons.IH)
          show "distinct (map pq_id ?qs)" using Cons.prems(1) by (simp add: distinct_map_filter)
          show "list_all request_proper ?qs" using Cons.prems(2) by (auto simp: list_all_iff)
          show "good_results ?res" by (rule good_results_dset [OF Cons.prems(3) wf])
          show "pq_worker ` set ?qs \<subseteq> pool_workers s1" using Cons.prems(5) s1(3) by auto
          show "list_all (sound_event (pool_workers s1)) es" using Cons.prems(6) s1(3) by simp
          show "list_all (\<lambda>q. answered es (pq_id q)) ?qs"
            using Cons.prems(7) by (auto simp: list_all_iff answered_def Reply)
        qed (rule s1(2))
        have eq: "collect tb qs res (e # es) s = collect tb ?qs ?res es s1"
          using Some s1(1) by (simp add: qs Reply)
        have "work_ids qs \<subseteq> work_ids ?qs \<union> {wi_id (pq_item q')}"
        proof
          fix x assume "x \<in> work_ids qs"
          then obtain q where q: "q \<in> set qs" "x = wi_id (pq_item q)" by blast
          show "x \<in> work_ids ?qs \<union> {wi_id (pq_item q')}"
          proof (cases "pq_id q = rid")
            case True
            with q(1) q' Cons.prems(1) have "q = q'" by (metis distinct_map inj_on_def)
            with q(2) show ?thesis by simp
          qed (use q in auto)
        qed
        then have sub: "work_ids qs \<union> set (dkeys res) \<subseteq> work_ids ?qs \<union> set (dkeys ?res)"
          unfolding set_dkeys_dset by blast
        from step obtain res' s' where "collect tb ?qs ?res es s1 = (Some (Inr res'), s')" "good_results res'"
            "work_ids ?qs \<union> set (dkeys ?res) \<subseteq> set (dkeys res')" by blast
        with eq show ?thesis using subset_trans [OF sub] by metis
      qed
    qed
  qed
qed

lemma submit_request_Inr:
  "submit_request w s = (Inr rid, s') \<Longrightarrow> rid = bp_next_request (fst s) + 1 \<and> bp_next_request (fst s') = rid
    \<and> w \<in> pool_workers s \<and> pool_ready s' \<and> pool_workers s' = pool_workers s"
  by (auto simp: submit_request_def pool_ready_def runtime_error_def split: prod.splits if_splits option.splits
      dest: map_of_SomeD intro: rev_image_eqI)

lemma submit_all_Inr:
  assumes "submit_all sha gens ws n s = (Inr (pending, n'), s')"
  shows "map pq_item pending = ws \<and> distinct (map pq_id pending) \<and> list_all request_proper pending
    \<and> pq_worker ` set pending \<subseteq> pool_workers s \<and> pool_workers s' = pool_workers s \<and> (ws \<noteq> [] \<longrightarrow> pool_ready s')
    \<and> (\<forall>q \<in> set pending. bp_next_request (fst s) < pq_id q)"
  using assms
proof (induction ws arbitrary: n s pending)
  case (Cons w ws)
  obtain p r where s: "s = (p, r)" by (cases s)
  let ?route = "route_work_item sha w (dkeys gens) gens n r"
  from Cons.prems s obtain ipc rid s1 rest where
      sub: "submit_request (rt_worker ?route) (p, rt_registry ?route) = (Inr rid, s1)"
      and rest: "submit_all sha gens ws (rt_next ?route) s1 = (Inr (rest, n'), s')"
      and pend: "pending = \<lparr> pq_id = rid, pq_item = w, pq_worker = rt_worker ?route, pq_request = (rt_request ?route)\<lparr>rq_item := ipc\<rparr> \<rparr> # rest"
    by (auto simp: Let_def split: sum.splits prod.splits)
  note sr = submit_request_Inr [OF sub]
  note IH = Cons.IH [OF rest]
  have "pool_ready s'" using IH sr rest by (cases "ws = []") auto
  moreover have "request_proper (hd pending)" using route_mode by (simp add: pend request_proper_def)
  ultimately show ?case using IH sr by (auto simp: pend s)
qed simp

lemma restore_ok:
  assumes "well_formed_result r"
  shows "\<exists>r'. restore_result_for_caller_work_item w r = Inr r' \<and> br_item r' = w \<and> br_lease r' = br_lease r
    \<and> br_status r' = br_status r"
  using assms
  by (auto simp: restore_result_for_caller_work_item_def branch_result_checked_Inr well_formed_result_def split: option.splits)

lemma settle_ok:
  assumes "good_results res" "wi_id ` set ws \<subseteq> set (dkeys res)"
  shows "\<exists>rs reg'. settle ws res reg = (Inr rs, reg') \<and> map br_item rs = ws"
  using assms(2)
proof (induction ws arbitrary: reg)
  case (Cons w ws)
  then obtain r0 where r0: "dget res (wi_id w) = Some r0"
    by (metis dget_iff_dkeys image_subset_iff list.set_intros(1) option.exhaust)
  with assms(1) have "well_formed_result r0" by (simp add: good_results_def)
  from restore_ok [OF this, of w] obtain r where "restore_result_for_caller_work_item w r0 = Inr r" "br_item r = w" by blast
  with r0 Cons.IH [of "settle_leases w r reg"] Cons.prems show ?case by auto
qed simp

text \<open>
  A batch can leave a stale lease: two items on one worker, the first opens a choice and leases the
  worker, the second ends stable and makes the worker forget its state, but the settlement of the
  batch still registers the lease of the first.  The holder step it routes next is a fault.
\<close>

definition stable_later_env :: "nat worker_env" where
  "stable_later_env = sample_env\<lparr>we_ops := sample_ops\<lparr>so_step := (\<lambda>_ _ _ _ s. (Inr (if s = 1 then choosing_state else sample_state 1), Suc s))\<rparr>\<rparr>"

lemma batch_leaves_stale_lease:
  "(case dispatch_with id (\<lambda>_. execute_request stable_later_env) [0] [(0, 1)]
      [sample_item ''sub_branch'', (sample_item ''sub_branch'')\<lparr>wi_id := ''w2''\<rparr>] (new_worker_runtime 0 1 0, []) of
      (Inr rs, (rt, reg)) \<Rightarrow> map br_status rs = [''success'', ''success''] \<and> map (ls_worker \<circ> snd) reg = [0] \<and> wr_state rt = None
    | _ \<Rightarrow> False)"
  by code_simp

section \<open>Properties\<close>

text \<open>
  C18.  A lease dies with its worker process: once the worker has been respawned past the
  generation of a lease, no later sequence of pool operations makes the pool route an item to a
  holder step on it.
\<close>

theorem respawned_lease_never_honoured:
  assumes "ls_generation l < pool_generation (ls_worker l) s"
  shows "rq_lease (rt_request (route_work_item sha item ids
      (bp_generations (fst (foldl pool_step s ops))) next_index r)) \<noteq> Some l"
proof
  assume "rq_lease (rt_request (route_work_item sha item ids
      (bp_generations (fst (foldl pool_step s ops))) next_index r)) = Some l"
  then have "honours (ls_worker l) (foldl pool_step s ops) l" unfolding honours_def by blast
  with worker_guard.older_refused [OF assms] show False by blast
qed

definition two_workers :: branch_pool where
  "two_workers = \<lparr> bp_generations = [(0, 1), (1, 1)], bp_next_bootstrap = 0, bp_next_request = 0, bp_closed = False \<rparr>"

definition sample_lease :: lease where
  "sample_lease = \<lparr> ls_worker = 1, ls_generation = 1, ls_context = ''ctx'', ls_hypothesis = None, ls_epoch = 1,
     ls_session = Some ''c0'', ls_step = 1, ls_digest = decision_result_digest id sample_signature \<rparr>"

theorem respawned_lease_never_honoured_witness:
  "rq_lease (rt_request (route_work_item id (sample_item ''continuation'') [0, 1] (bp_generations two_workers) 0
      [((''ctx'', None), sample_lease)])) = Some sample_lease
   \<and> rq_lease (rt_request (route_work_item id (sample_item ''continuation'') [0, 1]
      (bp_generations (fst (foldl pool_step (pool_step (two_workers, []) (Respawn 1)) [Submit 0, Respawn 0]))) 0
      [((''ctx'', None), sample_lease)])) \<noteq> Some sample_lease"
proof
  show "rq_lease (rt_request (route_work_item id (sample_item ''continuation'') [0, 1] (bp_generations two_workers) 0
      [((''ctx'', None), sample_lease)])) = Some sample_lease"
    by code_simp
  show "rq_lease (rt_request (route_work_item id (sample_item ''continuation'') [0, 1]
      (bp_generations (fst (foldl pool_step (pool_step (two_workers, []) (Respawn 1)) [Submit 0, Respawn 0]))) 0
      [((''ctx'', None), sample_lease)])) \<noteq> Some sample_lease"
    by (rule respawned_lease_never_honoured)
      (simp add: pool_generation_def respawn_worker_def two_workers_def sample_lease_def)
qed

text \<open>
  C19.  A batch is answered in full: once its items are submitted and every request is answered or
  a read times out, dispatching ends with one result per item, in the order of the items and for
  the caller's own items, however replies are ordered and whatever late replies come between.
\<close>

theorem dispatch_answers_every_item:
  assumes "submit_all sha (bp_generations (fst s)) ws (bp_next_bootstrap (fst s)) s = (Inr (pending, n), s1)"
    and "list_all (sound_event (pool_workers s)) events" "list_all (\<lambda>q. answered events (pq_id q)) pending"
  shows "\<exists>rs s'. dispatch_work_items sha tb ws events s = (Some (Inr rs), s') \<and> map br_item rs = ws"
proof -
  note sub = submit_all_Inr [OF assms(1)]
  have "\<exists>res p reg. collect tb pending [] events s1 = (Some (Inr res), (p, reg)) \<and> good_results res
      \<and> work_ids pending \<subseteq> set (dkeys res)"
  proof (cases "ws = []")
    case True
    with sub have "pending = []" by simp
    then show ?thesis by (cases s1) (simp add: good_results_def)
  next
    case False
    have "good_results []" by (simp add: good_results_def)
    moreover have "list_all (sound_event (pool_workers s1)) events" using sub assms(2) by simp
    moreover have "pool_ready s1" "pq_worker ` set pending \<subseteq> pool_workers s1" using sub False by auto
    ultimately show ?thesis
      using collect_done [of pending "[]" s1 events tb] sub assms(3) by (metis Un_subset_iff surj_pair)
  qed
  then obtain res p reg where res: "collect tb pending [] events s1 = (Some (Inr res), (p, reg))" "good_results res"
      "work_ids pending \<subseteq> set (dkeys res)" by blast
  have "wi_id ` set ws = work_ids pending" using sub by (metis image_image set_map)
  then obtain rs reg' where "settle ws res reg = (Inr rs, reg')" "map br_item rs = ws"
    using settle_ok [OF res(2), of ws reg] res(3) by auto
  with assms(1) res(1) show ?thesis by (auto simp: dispatch_work_items_def)
qed

definition sample_batch :: "work_item list" where
  "sample_batch = [sample_item ''sub_branch'', (sample_item ''sub_branch'')\<lparr>wi_id := ''w2''\<rparr>]"

definition sample_fault :: branch_result where
  "sample_fault = empty_result BRANCH_STATUS_FAULT (sample_item ''sub_branch'') EXECUTION_MODE_BOOTSTRAP_STEP (Some 1) (Some 1)"

lemma sample_submission:
  "\<exists>pending n s1. submit_all id (bp_generations two_workers) sample_batch 0 (two_workers, []) = (Inr (pending, n), s1)
     \<and> map pq_id pending = [1, 2 :: nat]"
proof -
  let ?r = "submit_all id (bp_generations two_workers) sample_batch 0 (two_workers, [])"
  have "(case ?r of (Inr (pending, n), s1) \<Rightarrow> map pq_id pending = [1, 2] | _ \<Rightarrow> False)" by code_simp
  then show ?thesis by (auto split: prod.splits sum.splits)
qed

theorem dispatch_answers_every_item_witness:
  "\<exists>rs s'. dispatch_work_items id [] sample_batch [Reply 7 sample_fault, Reply 2 sample_fault, Queue_empty] (two_workers, [])
     = (Some (Inr rs), s') \<and> map br_item rs = sample_batch"
proof -
  from sample_submission obtain pending n s1 where
      p: "submit_all id (bp_generations two_workers) sample_batch 0 (two_workers, []) = (Inr (pending, n), s1)" by fast
  have wf: "well_formed_result sample_fault"
    by (simp add: well_formed_result_def sample_fault_def status_defs)
  show ?thesis
  proof (rule dispatch_answers_every_item)
    show "submit_all id (bp_generations (fst (two_workers, []))) sample_batch (bp_next_bootstrap (fst (two_workers, []))) (two_workers, [])
        = (Inr (pending, n), s1)" using p by (simp add: two_workers_def)
    show "list_all (sound_event (pool_workers (two_workers, []))) [Reply 7 sample_fault, Reply 2 sample_fault, Queue_empty]"
      using wf by (simp add: sound_event_def sample_fault_def two_workers_def)
    show "list_all (\<lambda>q. answered [Reply 7 sample_fault, Reply 2 sample_fault, Queue_empty] (pq_id q)) pending"
      by (simp add: list_all_iff answered_def)
  qed
qed

end
