(* ===== verification/Main_Loop.thy ===== *)
theory Main_Loop
  imports Decision_Context
begin

text \<open>
  The decision loop of the main process: \<open>Combat/search/main_loop.py\<close>.

  The loop drives one session; its own state is the record \<open>main_state\<close> (\<open>MainLoopState\<close>).  The
  selectors, the routing policy and the search strategy are callbacks: operations on a state of
  the caller that may raise.  A raised exception is \<open>Inl\<close>, with the state it leaves.
\<close>

section \<open>Routes and plans\<close>

definition ROUTE_DIRECT :: string where "ROUTE_DIRECT = ''direct''"
definition ROUTE_SEARCH :: string where "ROUTE_SEARCH = ''search''"
definition ROUTE_PENDING_STATIC :: string where "ROUTE_PENDING_STATIC = ''pending_static''"
definition ROUTE_VALUES :: "string list" where
  "ROUTE_VALUES = [ROUTE_DIRECT, ROUTE_SEARCH, ROUTE_PENDING_STATIC]"

lemmas route_defs = ROUTE_DIRECT_def ROUTE_SEARCH_def ROUTE_PENDING_STATIC_def

definition default_routing_policy :: "string \<Rightarrow> ('c, string) stateop" where
  "default_routing_policy boundary = oreturn ROUTE_DIRECT"

record planned_step =
  pl_action :: semantic_action
  pl_target :: "int option"
  pl_enemy :: "int option"
  pl_expected :: "decision_signature option"

datatype search_result = Search_success "planned_step list" | Search_evaluation_failure string

datatype main_outcome =
    Combat_terminal battle_state
  | Main_combat_fault py_exc
  | Combat_aborted string

section \<open>The state of the loop\<close>

record 's main_state =
  ml_session :: 's
  ml_result :: battle_state
  ml_held :: "root option"
  ml_prefix :: "prefix_entry list"
  ml_planned :: "planned_step list"
  ml_start :: "json option"

definition initialize_main_loop_state :: "'s \<Rightarrow> battle_state \<Rightarrow> json option \<Rightarrow> 's main_state" where
  "initialize_main_loop_state session result start =
     \<lparr> ml_session = session, ml_result = result, ml_held = None, ml_prefix = [], ml_planned = [], ml_start = start \<rparr>"

definition on_main_session :: "('s, 'a) stateop \<Rightarrow> ('s main_state, 'a) stateop" where
  "on_main_session f st = (case f (ml_session st) of (r, s) \<Rightarrow> (r, st\<lparr>ml_session := s\<rparr>))"

definition capture_stable :: "('s, root) stateop \<Rightarrow> ('s main_state, unit) stateop" where
  "capture_stable capture =
     obind (on_main_session capture) (\<lambda>r.
       modify (\<lambda>st. st\<lparr>ml_held := Some r, ml_prefix := start_new_replay_prefix_from_stable\<rparr>))"

section \<open>Contexts for the search\<close>

definition build_main_decision_context :: "'s main_state \<Rightarrow> decision_context res" where
  "build_main_decision_context st = (case ml_held st of
       None \<Rightarrow> runtime_error ''build_main_decision_context() called before any Held Stable Snapshot was captured''
     | Some r \<Rightarrow> build_decision_context_from_held_stable r (ml_prefix st) (ml_result st))"

definition build_combat_start_decision_context :: "'s main_state \<Rightarrow> decision_context res" where
  "build_combat_start_decision_context st =
     (if ml_held st \<noteq> None
      then runtime_error (''build_combat_start_decision_context() called after a real Held Stable Snapshot ''
             @ ''already exists - use build_main_decision_context() instead'')
      else case ml_start st of
        None \<Rightarrow> runtime_error ''build_combat_start_decision_context() called without a Combat Start Replay Root''
      | Some spec \<Rightarrow>
          sbind (arrival_signature (ml_prefix st) (ml_result st)) (\<lambda>g.
            let c = from_combat_start_pending spec (ml_result st) g in
            Inr (if ml_prefix st \<noteq> [] then c\<lparr>dc_prefix := ml_prefix st\<rparr> else c)))"

section \<open>Selectors\<close>

definition plan_of_action :: "action \<Rightarrow> planned_step" where
  "plan_of_action a =
     \<lparr> pl_action = \<lparr> sa_type = jget a ''action_type'', sa_key = semantic_key_of a \<rparr>,
       pl_target = None, pl_enemy = None, pl_expected = None \<rparr>"

definition cached_actions :: "battle_state \<Rightarrow> action list" where
  "cached_actions st = (case bs_cached st of Some l \<Rightarrow> l | None \<Rightarrow> [])"

definition pending_static_rank :: "json \<Rightarrow> nat" where
  "pending_static_rank action_type = (if action_type = JStr ''choice_skip'' then 1 else 0)"

text \<open>\<open>min\<close> by rank and index is the first action of the least rank.\<close>

definition pending_static_select :: "battle_state \<Rightarrow> planned_step res" where
  "pending_static_select st =
     (if cached_actions st = []
      then runtime_error ''PENDING_STATIC: Current Decision Result reports no candidates to choose from''
      else sbind (map_res (\<lambda>a. hashed (jget a ''action_type'')) (cached_actions st)) (\<lambda>_.
        Inr (plan_of_action (hd (sort_key (\<lambda>a. pending_static_rank (jget a ''action_type'')) (cached_actions st))))))"

definition first_candidate_direct_selector :: "battle_state \<Rightarrow> planned_step res" where
  "first_candidate_direct_selector st = (case cached_actions st of
       [] \<Rightarrow> runtime_error ''DIRECT: Current Decision Result reports no candidates to choose from''
     | a # _ \<Rightarrow> Inr (plan_of_action a))"

section \<open>Execution of a plan\<close>

datatype exec_outcome = Sequence_exhausted | Go_to_boundary | Exec_fault py_exc

definition MAIN_STEP_FAULTS :: "string list" where
  "MAIN_STEP_FAULTS = [''ActionExecutionError'', ''FaultedCombatSessionError'', ''QuiescentBoundaryViolation'']"

definition tracking_of :: "prefix_entry \<Rightarrow> draw_tracking" where
  "tracking_of e = \<lparr> dt_constraints = rp_constraints e, dt_blocked = rp_blocked e \<rparr>"

definition draw_evidence_for :: "'s main_state \<Rightarrow> battle_state \<Rightarrow> battle_state \<Rightarrow> draw_evidence" where
  "draw_evidence_for st pre post =
     (if ml_held st \<noteq> None
      then visible_draw_transition_evidence (JObj (bs_engine post)) (map tracking_of (ml_prefix st)) (JObj (bs_engine pre))
      else \<lparr> de_constraints = [], de_blocks = False, de_error = None \<rparr>)"

definition transition_record :: "planned_step \<Rightarrow> decision_signature \<Rightarrow> draw_evidence \<Rightarrow> prefix_entry" where
  "transition_record p observed ev =
     \<lparr> rp_action = pl_action p, rp_expected = observed, rp_target = pl_target p, rp_enemy = pl_enemy p,
       rp_constraints = de_constraints ev, rp_blocked = de_blocks ev, rp_error = de_error ev \<rparr>"

definition plan_matches :: "planned_step \<Rightarrow> decision_signature \<Rightarrow> bool" where
  "plan_matches p observed = (case pl_expected p of None \<Rightarrow> True | Some g \<Rightarrow> matches_for_replay observed g)"

text \<open>
  What follows the step: the result is replaced, the transition recorded, the plan advanced, the
  transition verified and the boundary handled.  \<open>None\<close> continues the loop.
\<close>

definition after_step ::
  "('s, root) stateop \<Rightarrow> planned_step \<Rightarrow> action \<Rightarrow> battle_state \<Rightarrow> battle_state \<Rightarrow> ('s main_state, exec_outcome option) stateop" where
  "after_step capture p act pre post =
     obind (modify (\<lambda>st. st\<lparr>ml_result := post\<rparr>)) (\<lambda>_.
     obind (olift (from_battle_state post (pl_action p) act (pl_target p) (pl_enemy p) None)) (\<lambda>observed.
     obind (modify (\<lambda>st. st\<lparr>ml_prefix := append_replay_prefix_entry (ml_prefix st)
                              (transition_record p observed (draw_evidence_for st pre post)),
                            ml_planned := tl (ml_planned st)\<rparr>)) (\<lambda>_.
       if \<not> plan_matches p observed
       then obind (modify (\<lambda>st. st\<lparr>ml_planned := []\<rparr>)) (\<lambda>_. oreturn (Some Go_to_boundary))
       else obind (olift (boundary_of_battle_state post)) (\<lambda>boundary.
         if boundary = BOUNDARY_TERMINAL then oreturn (Some Go_to_boundary)
         else if boundary = BOUNDARY_STABLE then obind (capture_stable capture) (\<lambda>_. oreturn None)
         else oreturn None))))"

definition exec_planned_step ::
  "'s session_ops \<Rightarrow> ('s, root) stateop \<Rightarrow> planned_step \<Rightarrow> ('s main_state, exec_outcome option) stateop" where
  "exec_planned_step ops capture p st =
     (case resolve (pl_action p) (cached_actions (ml_result st)) of
        Inl _ \<Rightarrow> (Inr (Some Go_to_boundary), st\<lparr>ml_planned := []\<rparr>)
      | Inr act \<Rightarrow>
          (case on_main_session (so_step ops (ml_result st) act (pl_target p) (pl_enemy p)) st of
             (Inl e, st') \<Rightarrow>
               if exc_name e \<in> set MAIN_STEP_FAULTS
               then (Inr (Some (Exec_fault e)), st'\<lparr>ml_planned := []\<rparr>)
               else (Inl e, st')
           | (Inr post, st') \<Rightarrow> after_step capture p act (ml_result st) post st'))"

lemma on_main_session_frame: "on_main_session f st = (r, st') \<Longrightarrow> \<exists>s. st' = st\<lparr>ml_session := s\<rparr>"
  by (auto simp: on_main_session_def split: prod.splits)

lemma capture_stable_Inr:
  "capture_stable capture st = (Inr u, st') \<longleftrightarrow> (\<exists>r s. capture (ml_session st) = (Inr r, s)
     \<and> st' = st\<lparr>ml_session := s, ml_held := Some r, ml_prefix := []\<rparr>)"
  by (auto simp: capture_stable_def obind_Inr on_main_session_def start_new_replay_prefix_from_stable_def split: prod.splits)

lemma after_step_continues:
  "after_step capture p act pre post st = (Inr None, st') \<Longrightarrow> ml_planned st' = tl (ml_planned st)"
  by (auto simp: after_step_def obind_Inr capture_stable_Inr split: if_splits)

lemma exec_continues:
  "exec_planned_step ops capture p st = (Inr None, st') \<Longrightarrow> ml_planned st' = tl (ml_planned st)"
  by (auto simp: exec_planned_step_def split: sum.splits prod.splits if_splits
      dest!: after_step_continues on_main_session_frame)

text \<open>The loop over the plan; every iteration that continues drops one planned step.\<close>

function run_exec_loop ::
  "'s session_ops \<Rightarrow> ('s, root) stateop \<Rightarrow> ('s main_state, exec_outcome) stateop" where
  "run_exec_loop ops capture st =
     (case ml_planned st of
        [] \<Rightarrow> (Inr Sequence_exhausted, st)
      | p # _ \<Rightarrow> (case exec_planned_step ops capture p st of
            (Inl e, st') \<Rightarrow> (Inl e, st')
          | (Inr (Some outcome), st') \<Rightarrow> (Inr outcome, st')
          | (Inr None, st') \<Rightarrow> run_exec_loop ops capture st'))"
  by pat_completeness auto

termination run_exec_loop
  by (relation "measure (\<lambda>(ops, capture, st). length (ml_planned st))") (auto dest!: exec_continues [OF sym])

declare run_exec_loop.simps [simp del]

section \<open>The loop\<close>

record ('s, 'c) main_env =
  me_ops :: "'s session_ops"
  me_capture :: "('s, root) stateop"
  me_direct :: "battle_state \<Rightarrow> ('c, planned_step) stateop"
  me_search :: "(decision_context \<Rightarrow> ('c, search_result) stateop) option"
  me_policy :: "string \<Rightarrow> ('c, string) stateop"
  me_pending :: "battle_state \<Rightarrow> ('c, planned_step) stateop"

definition on_main :: "('m, 'a) stateop \<Rightarrow> ('m \<times> 'c, 'a) stateop" where
  "on_main f x = (case f (fst x) of (r, m) \<Rightarrow> (r, (m, snd x)))"

definition on_caller :: "('c, 'a) stateop \<Rightarrow> ('m \<times> 'c, 'a) stateop" where
  "on_caller f x = (case f (snd x) of (r, c) \<Rightarrow> (r, (fst x, c)))"

definition enter_boundary :: "('s, root) stateop \<Rightarrow> ('s main_state, string) stateop" where
  "enter_boundary capture =
     obind (\<lambda>st. (boundary_of_battle_state (ml_result st), st)) (\<lambda>b.
       if b = BOUNDARY_TERMINAL then oreturn b
       else if b = BOUNDARY_STABLE then obind (capture_stable capture) (\<lambda>_. oreturn b)
       else if b = BOUNDARY_PENDING then oreturn b
       else olift (runtime_error (''unexpected boundary '' @ repr_str b @ '' outside EXEC_LOOP'')))"

text \<open>The context of a search: a pending boundary is searched only at the start of the combat.\<close>

definition pending_search_allowed :: "'s main_state \<Rightarrow> bool" where
  "pending_search_allowed st \<longleftrightarrow> ml_held st = None \<and> ml_start st \<noteq> None"

definition search_context :: "string \<Rightarrow> 's main_state \<Rightarrow> decision_context res" where
  "search_context boundary st =
     (if boundary \<noteq> BOUNDARY_PENDING then build_main_decision_context st
      else if pending_search_allowed st then build_combat_start_decision_context st
      else Inl (PyExc ''PendingSearchNotAllowedError''
        (''routing_policy returned '' @ repr_str ROUTE_SEARCH @ '' for a Pending boundary - ''
         @ ''Main-observed Pending must never route into Search/Worker fan-out ''
         @ ''(NOTE_PENDING_FUTURE, mermaid_combat_main_loop_detail.mermaid), ''
         @ ''EXCEPT a genuine Start-of-Combat Pending with a Combat Start Replay ''
         @ ''Root available - that requires held_stable_snapshot is None and ''
         @ ''combat_start_replay_root is not None, neither of which held here'')))"

definition adopt_plan :: "planned_step list \<Rightarrow> ('s main_state \<times> 'c, main_outcome option) stateop" where
  "adopt_plan ps = obind (on_main (modify (\<lambda>st. st\<lparr>ml_planned := ps\<rparr>))) (\<lambda>_. oreturn None)"

definition search_plan ::
  "(decision_context \<Rightarrow> ('c, search_result) stateop) option \<Rightarrow> string \<Rightarrow> ('s main_state \<times> 'c, main_outcome option) stateop" where
  "search_plan search boundary =
     obind (\<lambda>x. (if boundary = BOUNDARY_PENDING \<and> \<not> pending_search_allowed (fst x)
                  then search_context boundary (fst x)
                  else if search = None
                  then runtime_error ''routing_policy selected ROUTE_SEARCH but no search_strategy callable was provided''
                  else search_context boundary (fst x), x)) (\<lambda>ctx.
     obind (on_caller (the search ctx)) (\<lambda>r. case r of
         Search_evaluation_failure detail \<Rightarrow> oreturn (Some (Combat_aborted detail))
       | Search_success ps \<Rightarrow> adopt_plan ps))"

definition plan_decision :: "('s, 'c) main_env \<Rightarrow> string \<Rightarrow> ('s main_state \<times> 'c, main_outcome option) stateop" where
  "plan_decision env boundary =
     obind (on_caller (me_policy env boundary)) (\<lambda>route.
       if route \<notin> set ROUTE_VALUES
       then olift (value_error (''routing_policy returned unknown route '' @ repr_str route @ '' (known: [''
              @ join_with '', '' (map repr_str (sort_key id ROUTE_VALUES)) @ ''])''))
       else if route = ROUTE_DIRECT
       then obind (\<lambda>x. on_caller (me_direct env (ml_result (fst x))) x) (\<lambda>p. adopt_plan [p])
       else if route = ROUTE_PENDING_STATIC
       then (if boundary \<noteq> BOUNDARY_PENDING
             then olift (runtime_error ''ROUTE_PENDING_STATIC is only a valid routing_policy answer at a Pending boundary'')
             else obind (\<lambda>x. on_caller (me_pending env (ml_result (fst x))) x) (\<lambda>p. adopt_plan [p]))
       else search_plan (me_search env) boundary)"

definition execute_plan :: "('s, 'c) main_env \<Rightarrow> ('s main_state \<times> 'c, main_outcome option) stateop" where
  "execute_plan env =
     obind (on_main (run_exec_loop (me_ops env) (me_capture env))) (\<lambda>out. case out of
         Exec_fault e \<Rightarrow> oreturn (Some (Main_combat_fault e))
       | _ \<Rightarrow> oreturn None)"

text \<open>One iteration of the outer loop; \<open>Some\<close> is the outcome it returns with.\<close>

definition main_iteration :: "('s, 'c) main_env \<Rightarrow> ('s main_state \<times> 'c, main_outcome option) stateop" where
  "main_iteration env =
     obind (on_main (enter_boundary (me_capture env))) (\<lambda>b x.
       if b = BOUNDARY_TERMINAL then (Inr (Some (Combat_terminal (ml_result (fst x)))), x)
       else obind (\<lambda>x. if ml_planned (fst x) = [] then plan_decision env b x else (Inr None, x)) (\<lambda>out. case out of
           Some out \<Rightarrow> oreturn (Some out)
         | None \<Rightarrow> execute_plan env) x)"

fun main_iterations :: "('s, 'c) main_env \<Rightarrow> int \<Rightarrow> nat \<Rightarrow> ('s main_state \<times> 'c, main_outcome) stateop" where
  "main_iterations env bound 0 x =
     (runtime_error (''run_until_terminal_or_fault exceeded max_iterations='' @ str_int bound @ '' without terminating''), x)"
| "main_iterations env bound (Suc n) x = (case main_iteration env x of
       (Inl e, x') \<Rightarrow> (Inl e, x')
     | (Inr (Some out), x') \<Rightarrow> (Inr out, x')
     | (Inr None, x') \<Rightarrow> main_iterations env bound n x')"

definition run_until_terminal_or_fault :: "('s, 'c) main_env \<Rightarrow> int \<Rightarrow> ('s main_state \<times> 'c, main_outcome) stateop" where
  "run_until_terminal_or_fault env max_iterations = main_iterations env max_iterations (nat max_iterations)"

section \<open>Recorded runs\<close>

text \<open>
  The steps the session has committed since a start: each resolves in the actions of the state
  before it, and its entry records the signature that was observed.
\<close>

inductive committed ::
  "'s session_ops \<Rightarrow> battle_state \<Rightarrow> 's \<Rightarrow> prefix_entry list \<Rightarrow> battle_state \<Rightarrow> 's \<Rightarrow> bool"
  for ops st0 s0 where
  nothing_committed: "committed ops st0 s0 [] st0 s0"
| commit_step: "committed ops st0 s0 es st s \<Longrightarrow> resolve (rp_action e) (cached_actions st) = Inr a \<Longrightarrow>
    so_step ops st a (rp_target e) (rp_enemy e) s = (Inr st', s') \<Longrightarrow>
    from_battle_state st' (rp_action e) a (rp_target e) (rp_enemy e) None = Inr (rp_expected e) \<Longrightarrow>
    committed ops st0 s0 (es @ [e]) st' s'"

text \<open>
  The bookkeeping of the loop, from its initial state and session: the prefix is the run since the
  held capture, or since the start while nothing is held.
\<close>

definition run_origin ::
  "('s, root) stateop \<Rightarrow> (battle_state \<Rightarrow> 's \<Rightarrow> bool) \<Rightarrow> battle_state \<Rightarrow> 's \<Rightarrow> root option \<Rightarrow> battle_state \<Rightarrow> 's \<Rightarrow> bool" where
  "run_origin capture shown st0 s0 held st1 s1 \<longleftrightarrow> (case held of
       None \<Rightarrow> st1 = st0 \<and> s1 = s0
     | Some r \<Rightarrow> boundary_of_battle_state st1 = Inr BOUNDARY_STABLE \<and> (\<exists>s. shown st1 s \<and> capture s = (Inr r, s1)))"

definition bookkeeping ::
  "'s session_ops \<Rightarrow> ('s, root) stateop \<Rightarrow> (battle_state \<Rightarrow> 's \<Rightarrow> bool) \<Rightarrow> battle_state \<Rightarrow> 's \<Rightarrow> 's main_state \<Rightarrow> bool" where
  "bookkeeping ops capture shown st0 s0 st \<longleftrightarrow> shown (ml_result st) (ml_session st)
     \<and> (\<exists>st1 s1. run_origin capture shown st0 s0 (ml_held st) st1 s1
          \<and> committed ops st1 s1 (ml_prefix st) (ml_result st) (ml_session st))"

text \<open>What the session shows: a step shows its result, a capture leaves what is shown.\<close>

definition shows_results :: "'s session_ops \<Rightarrow> ('s, root) stateop \<Rightarrow> (battle_state \<Rightarrow> 's \<Rightarrow> bool) \<Rightarrow> bool" where
  "shows_results ops capture shown \<longleftrightarrow>
     (\<forall>st a t e s st' s'. so_step ops st a t e s = (Inr st', s') \<longrightarrow> shown st' s')
     \<and> (\<forall>st s r s'. shown st s \<longrightarrow> capture s = (Inr r, s') \<longrightarrow> shown st s')"

lemma shows_step: "shows_results ops capture shown \<Longrightarrow> so_step ops st a t e s = (Inr st', s') \<Longrightarrow> shown st' s'"
  and shows_capture: "shows_results ops capture shown \<Longrightarrow> shown st s \<Longrightarrow> capture s = (Inr r, s') \<Longrightarrow> shown st s'"
  unfolding shows_results_def by blast+

lemma bookkeeping_captured:
  assumes "shows_results ops capture shown" "bookkeeping ops capture shown st0 s0 st"
    "boundary_of_battle_state (ml_result st) = Inr BOUNDARY_STABLE" "capture_stable capture st = (Inr u, st')"
  shows "bookkeeping ops capture shown st0 s0 st'"
proof -
  from assms(4) obtain r s where c: "capture (ml_session st) = (Inr r, s)"
      "st' = st\<lparr>ml_session := s, ml_held := Some r, ml_prefix := []\<rparr>"
    by (auto simp: capture_stable_Inr)
  have "shown (ml_result st) (ml_session st)" using assms(2) by (simp add: bookkeeping_def)
  moreover from this have "shown (ml_result st) s" by (rule shows_capture [OF assms(1) _ c(1)])
  moreover have "committed ops (ml_result st) s [] (ml_result st) s" by (rule nothing_committed)
  ultimately show ?thesis using assms(3) c by (auto simp: bookkeeping_def run_origin_def)
qed

lemma bookkeeping_committed:
  assumes "shows_results ops capture shown" "bookkeeping ops capture shown st0 s0 st"
    "resolve (pl_action p) (cached_actions (ml_result st)) = Inr a"
    "so_step ops (ml_result st) a (pl_target p) (pl_enemy p) (ml_session st) = (Inr post, s')"
    "from_battle_state post (pl_action p) a (pl_target p) (pl_enemy p) None = Inr g"
    "ml_result st' = post" "ml_session st' = s'" "ml_held st' = ml_held st"
    "ml_prefix st' = ml_prefix st @ [transition_record p g ev]"
  shows "bookkeeping ops capture shown st0 s0 st'"
proof -
  from assms(2) obtain st1 s1 where o1: "run_origin capture shown st0 s0 (ml_held st) st1 s1"
      "committed ops st1 s1 (ml_prefix st) (ml_result st) (ml_session st)"
    by (auto simp: bookkeeping_def)
  have "committed ops st1 s1 (ml_prefix st @ [transition_record p g ev]) post s'"
    using assms(3-5) by (intro commit_step [OF o1(2)]) (simp_all add: transition_record_def)
  with o1(1) shows_step [OF assms(1,4)] assms(6-9) show ?thesis
    unfolding bookkeeping_def by metis
qed

lemma bookkeeping_plan [simp]:
  "bookkeeping ops capture shown st0 s0 (st\<lparr>ml_planned := ps\<rparr>) = bookkeeping ops capture shown st0 s0 st"
  by (simp add: bookkeeping_def)

lemma exec_step_bookkeeping:
  assumes "shows_results ops capture shown" "bookkeeping ops capture shown st0 s0 st"
    "exec_planned_step ops capture p st = (Inr out, st')"
  shows "case out of
      Some (Exec_fault e) \<Rightarrow> exc_name e \<in> set MAIN_STEP_FAULTS \<and> ml_planned st' = []
        \<and> (\<exists>s a. bookkeeping ops capture shown st0 s0 (st'\<lparr>ml_session := s\<rparr>)
             \<and> so_step ops (ml_result st') a (pl_target p) (pl_enemy p) s = (Inl e, ml_session st'))
    | _ \<Rightarrow> bookkeeping ops capture shown st0 s0 st'"
proof (cases "resolve (pl_action p) (cached_actions (ml_result st))")
  case (Inl x)
  with assms show ?thesis by (auto simp: exec_planned_step_def)
next
  case a: (Inr a)
  show ?thesis
  proof (cases "so_step ops (ml_result st) a (pl_target p) (pl_enemy p) (ml_session st)")
    case (Pair r s')
    show ?thesis
    proof (cases r)
      case (Inl e)
      with assms(3) a Pair have e: "exc_name e \<in> set MAIN_STEP_FAULTS" "out = Some (Exec_fault e)"
          "st' = st\<lparr>ml_session := s', ml_planned := []\<rparr>"
        by (auto simp: exec_planned_step_def on_main_session_def split: if_splits)
      have "bookkeeping ops capture shown st0 s0 (st'\<lparr>ml_session := ml_session st\<rparr>)"
        using assms(2) by (simp add: e(3) bookkeeping_def)
      moreover have "so_step ops (ml_result st') a (pl_target p) (pl_enemy p) (ml_session st) = (Inl e, ml_session st')"
        using Pair Inl by (simp add: e(3))
      moreover have "ml_planned st' = []" by (simp add: e(3))
      ultimately show ?thesis unfolding e(2) using e(1) by auto
    next
      case (Inr post)
      let ?st1 = "st\<lparr>ml_session := s', ml_result := post\<rparr>"
      from assms(3) a Pair Inr obtain g where g: "from_battle_state post (pl_action p) a (pl_target p) (pl_enemy p) None = Inr g"
        by (auto simp: exec_planned_step_def on_main_session_def after_step_def obind_Inr)
      let ?st2 = "?st1\<lparr>ml_prefix := ml_prefix st @ [transition_record p g (draw_evidence_for ?st1 (ml_result st) post)],
          ml_planned := tl (ml_planned st)\<rparr>"
      have bk: "bookkeeping ops capture shown st0 s0 ?st2"
        using bookkeeping_committed [OF assms(1,2) a, of post s' g ?st2] Pair Inr g by simp
      from assms(3) a Pair Inr g have "st' = ?st2\<lparr>ml_planned := []\<rparr> \<and> out = Some Go_to_boundary
          \<or> st' = ?st2 \<and> out \<in> {Some Go_to_boundary, None}
          \<or> boundary_of_battle_state post = Inr BOUNDARY_STABLE \<and> capture_stable capture ?st2 = (Inr (), st') \<and> out = None"
        by (auto simp: exec_planned_step_def on_main_session_def after_step_def append_replay_prefix_entry_def obind_Inr
            split: if_splits)
      with bk bookkeeping_captured [OF assms(1) bk] show ?thesis by auto
    qed
  qed
qed

definition fault_without_record ::
  "'s session_ops \<Rightarrow> ('s, root) stateop \<Rightarrow> (battle_state \<Rightarrow> 's \<Rightarrow> bool) \<Rightarrow> battle_state \<Rightarrow> 's \<Rightarrow> py_exc \<Rightarrow> 's main_state \<Rightarrow> bool" where
  "fault_without_record ops capture shown st0 s0 e st \<longleftrightarrow> exc_name e \<in> set MAIN_STEP_FAULTS \<and> ml_planned st = []
     \<and> (\<exists>s a t i. bookkeeping ops capture shown st0 s0 (st\<lparr>ml_session := s\<rparr>)
          \<and> so_step ops (ml_result st) a t i s = (Inl e, ml_session st))"

lemma exec_loop_bookkeeping:
  assumes "shows_results ops capture shown" "bookkeeping ops capture shown st0 s0 st"
    "run_exec_loop ops capture st = (Inr out, st')"
  shows "case out of Exec_fault e \<Rightarrow> fault_without_record ops capture shown st0 s0 e st'
    | _ \<Rightarrow> bookkeeping ops capture shown st0 s0 st'"
  using assms
proof (induction ops capture st rule: run_exec_loop.induct)
  case (1 ops capture st)
  show ?case
  proof (cases "ml_planned st")
    case Nil
    with 1(3,4) show ?thesis by (auto simp: run_exec_loop.simps [of ops capture st])
  next
    case (Cons p ps)
    with 1(4) obtain o1 st1 where step: "exec_planned_step ops capture p st = (Inr o1, st1)"
      by (auto simp: run_exec_loop.simps [of ops capture st] split: prod.splits sum.splits)
    note bk = exec_step_bookkeeping [OF 1(2,3) step]
    show ?thesis
    proof (cases o1)
      case None
      from 1(4) Cons step None have "run_exec_loop ops capture st1 = (Inr out, st')"
        by (simp add: run_exec_loop.simps [of ops capture st])
      from 1(1) [OF Cons step [symmetric] refl None 1(2) _ this] bk None show ?thesis by simp
    next
      case (Some o2)
      with 1(4) Cons step have "out = o2" "st' = st1" by (simp_all add: run_exec_loop.simps [of ops capture st])
      with bk Some show ?thesis unfolding fault_without_record_def by (auto split: exec_outcome.splits)
    qed
  qed
qed

lemma enter_boundary_Inr:
  assumes "enter_boundary capture st = (Inr b, st')"
  shows "boundary_of_battle_state (ml_result st') = Inr b \<and> ml_result st' = ml_result st \<and> ml_start st' = ml_start st
    \<and> (b = BOUNDARY_STABLE \<and> ml_held st' \<noteq> None \<or> b \<in> {BOUNDARY_TERMINAL, BOUNDARY_PENDING} \<and> st' = st)"
  using assms by (auto simp: enter_boundary_def obind_Inr capture_stable_Inr runtime_error_def split: if_splits)

lemma enter_bookkeeping:
  assumes "shows_results ops capture shown" "bookkeeping ops capture shown st0 s0 st" "enter_boundary capture st = (Inr b, st')"
  shows "bookkeeping ops capture shown st0 s0 st'"
  using assms(2,3)
  by (auto simp: enter_boundary_def obind_Inr runtime_error_def split: if_splits intro: bookkeeping_captured [OF assms(1,2)])

definition only_plans :: "'s main_state \<Rightarrow> 's main_state \<Rightarrow> bool" where
  "only_plans st st' \<longleftrightarrow> (\<exists>ps. st' = st\<lparr>ml_planned := ps\<rparr>)"

lemma only_plans_refl [simp]: "only_plans st st"
  unfolding only_plans_def by (rule exI [of _ "ml_planned st"]) simp

lemma adopt_plan_Inr: "adopt_plan ps x = (Inr out, x') \<Longrightarrow> only_plans (fst x) (fst x') \<and> out = None"
  by (auto simp: adopt_plan_def obind_Inr on_main_def only_plans_def)

lemma on_caller_Inr: "on_caller f x = (Inr r, x') \<Longrightarrow> fst x' = fst x"
  by (auto simp: on_caller_def split: prod.splits)

lemma search_plan_Inr:
  assumes "search_plan search b x = (Inr out, x')"
  shows "only_plans (fst x) (fst x') \<and> (case out of None \<Rightarrow> True | Some v \<Rightarrow> \<exists>d. v = Combat_aborted d)"
proof -
  from assms obtain ctx r x1 where r: "on_caller (the search ctx) x = (Inr r, x1)"
      "(case r of Search_evaluation_failure detail \<Rightarrow> oreturn (Some (Combat_aborted detail))
         | Search_success ps \<Rightarrow> adopt_plan ps) x1 = (Inr out, x')"
    by (auto simp: search_plan_def obind_Inr)
  with on_caller_Inr [OF r(1)] show ?thesis by (cases r) (auto dest!: adopt_plan_Inr)
qed

lemma plan_decision_frame:
  assumes "plan_decision env b x = (Inr out, x')"
  shows "only_plans (fst x) (fst x') \<and> (case out of None \<Rightarrow> True | Some v \<Rightarrow> \<exists>d. v = Combat_aborted d)"
proof -
  from assms obtain route x1 where r: "on_caller (me_policy env b) x = (Inr route, x1)" "fst x1 = fst x"
    by (auto simp: plan_decision_def obind_Inr dest: on_caller_Inr)
  with assms show ?thesis
    by (auto simp: plan_decision_def obind_Inr value_error_def runtime_error_def split: if_splits
        dest!: on_caller_Inr adopt_plan_Inr search_plan_Inr)
qed

text \<open>The states at the head of an iteration.\<close>

inductive loop_reaches :: "('s, 'c) main_env \<Rightarrow> 's main_state \<times> 'c \<Rightarrow> 's main_state \<times> 'c \<Rightarrow> bool" for env x0 where
  loop_start: "loop_reaches env x0 x0"
| loop_again: "loop_reaches env x0 x \<Longrightarrow> main_iteration env x = (Inr None, x') \<Longrightarrow> loop_reaches env x0 x'"

lemma iteration_bookkeeping:
  assumes "shows_results (me_ops env) (me_capture env) shown"
    "bookkeeping (me_ops env) (me_capture env) shown st0 s0 (fst x)" "main_iteration env x = (Inr out, x')"
  shows "case out of Some (Main_combat_fault e) \<Rightarrow> fault_without_record (me_ops env) (me_capture env) shown st0 s0 e (fst x')
    | _ \<Rightarrow> bookkeeping (me_ops env) (me_capture env) shown st0 s0 (fst x')"
proof -
  let ?bk = "bookkeeping (me_ops env) (me_capture env) shown st0 s0"
  from assms(3) obtain b st1 where b: "enter_boundary (me_capture env) (fst x) = (Inr b, st1)"
    by (auto simp: main_iteration_def obind_Inr on_main_def split: prod.splits)
  have bk1: "?bk st1" by (rule enter_bookkeeping [OF assms(1,2) b])
  show ?thesis
  proof (cases "b = BOUNDARY_TERMINAL")
    case True
    with assms(3) b bk1 show ?thesis by (auto simp: main_iteration_def obind_Inr on_main_def split: prod.splits)
  next
    case False
    from assms(3) b False obtain o1 x1 where
        plan: "(if ml_planned st1 = [] then plan_decision env b (st1, snd x) else (Inr None, (st1, snd x))) = (Inr o1, x1)"
        and rest: "(case o1 of Some out \<Rightarrow> oreturn (Some out) | None \<Rightarrow> execute_plan env) x1 = (Inr out, x')"
      by (auto simp: main_iteration_def obind_Inr on_main_def split: prod.splits if_splits)
    have bk2: "?bk (fst x1)" using plan bk1 by (auto simp: only_plans_def split: if_splits dest!: plan_decision_frame)
    show ?thesis
    proof (cases o1)
      case (Some v)
      with plan have "\<exists>d. v = Combat_aborted d" by (auto split: if_splits dest!: plan_decision_frame)
      with Some rest bk2 show ?thesis by auto
    next
      case None
      with rest obtain e st2 where e: "run_exec_loop (me_ops env) (me_capture env) (fst x1) = (Inr e, st2)"
          "(case e of Exec_fault e \<Rightarrow> oreturn (Some (Main_combat_fault e)) | _ \<Rightarrow> oreturn None) (st2, snd x1) = (Inr out, x')"
        by (auto simp: execute_plan_def obind_Inr on_main_def split: prod.splits)
      from exec_loop_bookkeeping [OF assms(1) bk2 e(1)] e(2) show ?thesis by (cases e) auto
    qed
  qed
qed

lemma loop_bookkeeping:
  assumes "loop_reaches env x0 x" "shows_results (me_ops env) (me_capture env) shown"
    "bookkeeping (me_ops env) (me_capture env) shown st0 s0 (fst x0)"
  shows "bookkeeping (me_ops env) (me_capture env) shown st0 s0 (fst x)"
  using assms(1)
proof induction
  case (loop_again x x')
  from iteration_bookkeeping [OF assms(2) loop_again.IH loop_again.hyps(2)] show ?case by simp
qed (rule assms(3))

lemma bookkeeping_initial:
  "shown st0 s0 \<Longrightarrow> bookkeeping ops capture shown st0 s0 (initialize_main_loop_state s0 st0 start)"
  by (auto simp: bookkeeping_def run_origin_def initialize_main_loop_state_def intro: nothing_committed)

section \<open>Replay of the recorded runs\<close>

text \<open>
  What a worker's session must offer: a captured root can be restored, the scenario restarted, and
  from there the worker follows the main session.  \<open>R\<close> relates the two; session ids and action ids
  may differ, so a step of the worker only has to match for replay.
\<close>

definition restorable :: "(string \<Rightarrow> json res) \<Rightarrow> root \<Rightarrow> bool" where
  "restorable loads r \<longleftrightarrow> raise_if_root_snapshot_not_restore_eligible loads r = Inr ()
     \<and> \<not> is_combat_start r \<and> \<not> is_room_entry r"

definition faithful_restore ::
  "(string \<Rightarrow> json res) \<Rightarrow> ('s, root) stateop \<Rightarrow> (battle_state \<Rightarrow> 's \<Rightarrow> bool) \<Rightarrow> 't session_ops
   \<Rightarrow> (battle_state \<times> 's \<Rightarrow> battle_state \<times> 't \<Rightarrow> bool) \<Rightarrow> bool" where
  "faithful_restore loads capture shown wops R \<longleftrightarrow>
     (\<forall>st s r s'. boundary_of_battle_state st = Inr BOUNDARY_STABLE \<longrightarrow> shown st s \<longrightarrow> capture s = (Inr r, s') \<longrightarrow>
        restorable loads r \<and> (\<forall>x. \<exists>st1 s1. so_restore wops r x = (Inr st1, s1) \<and> R (st, s') (st1, s1)))"

definition faithful_start ::
  "'t session_ops \<Rightarrow> (battle_state \<times> 's \<Rightarrow> battle_state \<times> 't \<Rightarrow> bool) \<Rightarrow> json option \<Rightarrow> battle_state \<Rightarrow> 's \<Rightarrow> bool" where
  "faithful_start wops R start st0 s0 \<longleftrightarrow> (case start of
       None \<Rightarrow> True
     | Some spec \<Rightarrow> \<forall>x. \<exists>st1 s1. so_start wops spec x = (Inr st1, s1) \<and> R (st0, s0) (st1, s1))"

definition follows ::
  "'s session_ops \<Rightarrow> 't session_ops \<Rightarrow> (battle_state \<times> 's \<Rightarrow> battle_state \<times> 't \<Rightarrow> bool) \<Rightarrow> bool" where
  "follows ops wops R \<longleftrightarrow> (\<forall>st s st1 s1. R (st, s) (st1, s1) \<longrightarrow>
     boundary_of_battle_state st1 = boundary_of_battle_state st
     \<and> (\<forall>sa a t i st' s' g. resolve sa (cached_actions st) = Inr a \<longrightarrow> so_step ops st a t i s = (Inr st', s') \<longrightarrow>
          from_battle_state st' sa a t i None = Inr g \<longrightarrow>
          (\<exists>a1 st1' s1' g1. resolve sa (cached_actions st1) = Inr a1 \<and> so_step wops st1 a1 t i s1 = (Inr st1', s1')
             \<and> from_battle_state st1' sa a1 t i None = Inr g1 \<and> matches_for_replay g1 g \<and> R (st', s') (st1', s1'))))"

lemma follows_boundary:
  "follows ops wops R \<Longrightarrow> R (st, s) (st1, s1) \<Longrightarrow> boundary_of_battle_state st1 = boundary_of_battle_state st"
  unfolding follows_def by blast

lemma follows_step:
  assumes "follows ops wops R" "R (st, s) (st1, s1)" "resolve sa (cached_actions st) = Inr a"
    "so_step ops st a t i s = (Inr st', s')" "from_battle_state st' sa a t i None = Inr g"
  obtains a1 st1' s1' g1 where "resolve sa (cached_actions st1) = Inr a1" "so_step wops st1 a1 t i s1 = (Inr st1', s1')"
    "from_battle_state st1' sa a1 t i None = Inr g1" "matches_for_replay g1 g" "R (st', s') (st1', s1')"
  using assms unfolding follows_def by blast

lemma resolve_cached:
  "resolve sa (cached_actions st) = Inr a \<Longrightarrow> current_legal ops st = oreturn (cached_actions st)"
  by (auto simp: resolve_def cached_actions_def current_legal_def split: option.splits list.splits)

lemma replay_prefix_snoc:
  "replay_prefix_from ops i (es @ [e]) st g s =
     obind (replay_prefix_from ops i es st g) (\<lambda>r. case r of
         Inl m \<Rightarrow> oreturn (Inl m)
       | Inr (st', g') \<Rightarrow> replay_prefix_from ops (i + length es) [e] st' g') s"
proof (induction es arbitrary: i st g s)
  case (Cons x es)
  show ?case
    by (simp add: obind_def Cons.IH [unfolded obind_def] split: prod.split sum.split)
qed simp

lemma committed_replays:
  assumes "follows ops wops R" "committed ops st0 s0 es st s" "R (st0, s0) (st1, s1)"
  shows "\<exists>stf sf gf. replay_prefix_from wops i es st1 None s1 = (Inr (Inr (stf, gf)), sf) \<and> R (st, s) (stf, sf)
    \<and> (case gf of None \<Rightarrow> es = [] | Some g \<Rightarrow> es \<noteq> [] \<and> matches_for_replay g (rp_expected (last es)))"
  using assms(2)
proof induction
  case nothing_committed
  with assms(3) show ?case by simp
next
  case (commit_step es st s e a st' s')
  from commit_step.IH obtain stf sf gf where
      IH: "replay_prefix_from wops i es st1 None s1 = (Inr (Inr (stf, gf)), sf)" "R (st, s) (stf, sf)" by blast
  from follows_step [OF assms(1) IH(2) commit_step.hyps(2,3,4)] obtain a1 stf' sf' g1 where
      step: "resolve (rp_action e) (cached_actions stf) = Inr a1"
      "so_step wops stf a1 (rp_target e) (rp_enemy e) sf = (Inr stf', sf')"
      "from_battle_state stf' (rp_action e) a1 (rp_target e) (rp_enemy e) None = Inr g1"
      "matches_for_replay g1 (rp_expected e)" "R (st', s') (stf', sf')" by blast
  have "replay_prefix_from wops i (es @ [e]) st1 None s1 = (Inr (Inr (stf', Some g1)), sf')"
    unfolding replay_prefix_snoc using IH(1) step by (simp add: obind_def resolve_cached)
  with step(4,5) show ?case by auto
qed

lemma representative_boundary: "representative_signature st = Inr g \<Longrightarrow> boundary_of_battle_state st = Inr (sg_boundary g)"
  by (auto simp: representative_signature_def from_battle_state_def sbind_eq_Inr signature_checked_def
      split: option.splits list.splits if_splits prod.splits)

text \<open>The contexts the loop can build, and that a search is only ever asked with one of them.\<close>

definition loop_context :: "'s main_state \<Rightarrow> decision_context \<Rightarrow> bool" where
  "loop_context st ctx \<longleftrightarrow> build_main_decision_context st = Inr ctx \<or> build_combat_start_decision_context st = Inr ctx"

lemma search_context_Inr: "search_context b st = Inr ctx \<Longrightarrow> loop_context st ctx"
  by (auto simp: search_context_def loop_context_def split: if_splits)

lemma loop_context_parts:
  assumes "loop_context st ctx"
  shows "dc_prefix ctx = ml_prefix st \<and> dc_result ctx = ml_result st
    \<and> arrival_signature (ml_prefix st) (ml_result st) = Inr (dc_signature ctx)
    \<and> (ml_held st = Some (dc_root ctx)
       \<or> ml_held st = None \<and> (\<exists>spec. ml_start st = Some spec \<and> dc_root ctx = Combat_start spec))"
  using assms
  by (auto simp: loop_context_def build_main_decision_context_def build_combat_start_decision_context_def
      build_decision_context_from_held_stable_def from_main_stable_capture_def from_combat_start_pending_def
      sbind_eq_Inr runtime_error_def Let_def split: if_splits option.splits)

lemma bootstrap_restorable:
  "restorable loads r \<Longrightarrow> \<exists>a. search_root r = Inr a \<and> sr_bootstrap a ops = so_restore ops r"
  by (cases r) (auto simp: restorable_def is_combat_start_def is_room_entry_def search_root_def adapter_defs Let_def
      raise_if_root_snapshot_not_restore_eligible_def sbind_eq_Inr)

text \<open>A replay from a related root arrives.\<close>

lemma replay_arrives:
  assumes "follows ops wops R" "committed ops st0 s0 (dc_prefix ctx) (dc_result ctx) s" "R (st0, s0) (st1, s1)"
    "arrival_signature (dc_prefix ctx) (dc_result ctx) = Inr (dc_signature ctx)" "\<not> is_room_entry (dc_root ctx)"
  shows "\<exists>final s'. replay_and_arrive wops ctx st1 s1 = (Inr (Replay_success final), s') \<and> R (dc_result ctx, s) (final, s')"
proof -
  from committed_replays [OF assms(1-3), of 0] obtain stf sf gf where
      r: "replay_prefix_from wops 0 (dc_prefix ctx) st1 None s1 = (Inr (Inr (stf, gf)), sf)" "R (dc_result ctx, s) (stf, sf)"
      "case gf of None \<Rightarrow> dc_prefix ctx = [] | Some g \<Rightarrow> dc_prefix ctx \<noteq> [] \<and> matches_for_replay g (rp_expected (last (dc_prefix ctx)))"
    by blast
  have "arrival_check (dc_signature ctx) stf gf = Inr (Replay_success stf)"
  proof (cases gf)
    case None
    with r(3) assms(4) have "boundary_of_battle_state (dc_result ctx) = Inr (sg_boundary (dc_signature ctx))"
      by (simp add: arrival_signature_def representative_boundary)
    with follows_boundary [OF assms(1) r(2)] None show ?thesis by (simp add: arrival_check_def)
  next
    case (Some g)
    with r(3) assms(4) show ?thesis by (simp add: arrival_check_def arrival_signature_def)
  qed
  with r(1,2) assms(5) show ?thesis by (auto simp: replay_and_arrive_def obind_def)
qed

lemma context_replays:
  assumes "follows ops wops R" "faithful_restore loads capture shown wops R" "faithful_start wops R (ml_start st) st0 s0"
    "bookkeeping ops capture shown st0 s0 st" "loop_context st ctx"
  shows "\<exists>final s'. replay_decision_context loads wops ctx x = (Inr (Replay_success final), s')
    \<and> R (dc_result ctx, ml_session st) (final, s')"
proof -
  note c = loop_context_parts [OF assms(5)]
  from assms(4) obtain st1 s1 where o1: "run_origin capture shown st0 s0 (ml_held st) st1 s1"
      "committed ops st1 s1 (ml_prefix st) (ml_result st) (ml_session st)"
    by (auto simp: bookkeeping_def)
  have "\<exists>a st2 s2. search_root (dc_root ctx) = Inr a \<and> sr_bootstrap a wops x = (Inr st2, s2) \<and> R (st1, s1) (st2, s2)
      \<and> raise_if_root_snapshot_not_restore_eligible loads (dc_root ctx) = Inr () \<and> \<not> is_room_entry (dc_root ctx)"
  proof (cases "ml_held st")
    case None
    with c obtain spec where spec: "ml_start st = Some spec" "dc_root ctx = Combat_start spec" by auto
    from assms(3) spec(1) have "\<exists>st2 s2. so_start wops spec x = (Inr st2, s2) \<and> R (st0, s0) (st2, s2)"
      by (simp add: faithful_start_def)
    then obtain st2 s2 where "so_start wops spec x = (Inr st2, s2)" "R (st0, s0) (st2, s2)" by blast
    with o1(1) None spec(2) show ?thesis
      by (simp add: run_origin_def search_root_def combat_start_search_root_def is_room_entry_def
          raise_if_root_snapshot_not_restore_eligible_def)
  next
    case (Some r)
    with o1(1) obtain s where "boundary_of_battle_state st1 = Inr BOUNDARY_STABLE" "shown st1 s" "capture s = (Inr r, s1)"
      by (auto simp: run_origin_def)
    with assms(2) obtain st2 s2 where rest: "restorable loads r" "so_restore wops r x = (Inr st2, s2)" "R (st1, s1) (st2, s2)"
      unfolding faithful_restore_def by meson
    from c Some have "dc_root ctx = r" by auto
    moreover obtain a where "search_root r = Inr a" "sr_bootstrap a wops = so_restore wops r"
      using bootstrap_restorable [OF rest(1)] by blast
    ultimately show ?thesis using rest by (auto simp: restorable_def)
  qed
  then obtain a st2 s2 where b: "search_root (dc_root ctx) = Inr a" "sr_bootstrap a wops x = (Inr st2, s2)" "R (st1, s1) (st2, s2)"
      "raise_if_root_snapshot_not_restore_eligible loads (dc_root ctx) = Inr ()" "\<not> is_room_entry (dc_root ctx)" by blast
  have "committed ops st1 s1 (dc_prefix ctx) (dc_result ctx) (ml_session st)" using o1(2) c by simp
  from replay_arrives [OF assms(1) this b(3) _ b(5)] c b show ?thesis
    by (auto simp: replay_decision_context_def obind_def)
qed

text \<open>The scenario of the loop never changes.\<close>

definition same_start :: "'s main_state \<Rightarrow> 's main_state \<Rightarrow> bool" where
  "same_start st st' \<longleftrightarrow> ml_start st' = ml_start st"

lemma capture_stable_start: "capture_stable capture st = (r, st') \<Longrightarrow> same_start st st'"
  by (auto simp: capture_stable_def obind_def on_main_session_def same_start_def split: prod.splits sum.splits)

lemma exec_step_start: "exec_planned_step ops capture p st = (Inr out, st') \<Longrightarrow> same_start st st'"
  by (auto simp: exec_planned_step_def after_step_def obind_Inr same_start_def on_main_session_def
      split: sum.splits prod.splits if_splits dest!: capture_stable_start)

lemma exec_loop_start: "run_exec_loop ops capture st = (Inr out, st') \<Longrightarrow> same_start st st'"
proof (induction ops capture st rule: run_exec_loop.induct)
  case (1 ops capture st)
  show ?case
  proof (cases "ml_planned st")
    case Nil
    with 1(2) show ?thesis by (auto simp: run_exec_loop.simps [of ops capture st] same_start_def)
  next
    case (Cons p ps)
    with 1(2) obtain o1 st1 where step: "exec_planned_step ops capture p st = (Inr o1, st1)"
      by (auto simp: run_exec_loop.simps [of ops capture st] split: prod.splits sum.splits)
    with 1(2) Cons have "st' = st1 \<or> o1 = None \<and> run_exec_loop ops capture st1 = (Inr out, st')"
      by (cases o1) (auto simp: run_exec_loop.simps [of ops capture st])
    with 1(1) [OF Cons step [symmetric] refl] exec_step_start [OF step] show ?thesis
      by (auto simp: same_start_def)
  qed
qed

lemma iteration_start:
  assumes "main_iteration env x = (Inr None, x')"
  shows "same_start (fst x) (fst x')"
proof -
  from assms obtain b st1 where b: "enter_boundary (me_capture env) (fst x) = (Inr b, st1)" "b \<noteq> BOUNDARY_TERMINAL"
    by (auto simp: main_iteration_def obind_Inr on_main_def split: prod.splits if_splits)
  with assms obtain x1 where
      plan: "(if ml_planned st1 = [] then plan_decision env b (st1, snd x) else (Inr None, (st1, snd x))) = (Inr None, x1)"
      and rest: "execute_plan env x1 = (Inr None, x')"
    by (auto simp: main_iteration_def obind_Inr on_main_def split: prod.splits if_splits option.splits)
  from enter_boundary_Inr [OF b(1)] have "same_start (fst x) st1" by (simp add: same_start_def)
  moreover have "same_start st1 (fst x1)"
    using plan by (auto simp: same_start_def only_plans_def split: if_splits dest!: plan_decision_frame)
  moreover from rest obtain e st2 where e: "run_exec_loop (me_ops env) (me_capture env) (fst x1) = (Inr e, st2)"
      "(case e of Exec_fault e \<Rightarrow> oreturn (Some (Main_combat_fault e)) | _ \<Rightarrow> oreturn None) (st2, snd x1) = (Inr None, x')"
    by (auto simp: execute_plan_def obind_Inr on_main_def split: prod.splits)
  then have "same_start (fst x1) (fst x')" using exec_loop_start [OF e(1)] by (cases e) auto
  ultimately show ?thesis by (simp add: same_start_def)
qed

lemma loop_start_kept: "loop_reaches env x0 x \<Longrightarrow> ml_start (fst x) = ml_start (fst x0)"
  by (induction rule: loop_reaches.induct) (auto simp: same_start_def dest: iteration_start)

section \<open>Properties\<close>

text \<open>
  C20.  What the main loop hands out can be replayed: on every state the loop reaches, the context
  it builds (from the held capture or from the start of the combat) replays on any worker whose
  session restores what was captured and follows the main session step by step, whatever it was
  doing before, and the replay arrives at the worker's image of the decision main is at.
\<close>

theorem main_context_replays:
  assumes "shows_results (me_ops env) (me_capture env) shown" "shown st0 s0"
    and "follows (me_ops env) wops R" "faithful_restore loads (me_capture env) shown wops R" "faithful_start wops R start st0 s0"
    and "loop_reaches env (initialize_main_loop_state s0 st0 start, c0) (st, c)"
    and "enter_boundary (me_capture env) st = (Inr b, st1)" "loop_context st1 ctx"
  shows "\<exists>final s'. replay_decision_context loads wops ctx x = (Inr (Replay_success final), s')
    \<and> R (ml_result st, ml_session st1) (final, s')"
proof -
  have "bookkeeping (me_ops env) (me_capture env) shown st0 s0 st"
    using loop_bookkeeping [OF assms(6,1)] bookkeeping_initial [where shown = shown, OF assms(2)] by simp
  then have bk: "bookkeeping (me_ops env) (me_capture env) shown st0 s0 st1"
    by (rule enter_bookkeeping [OF assms(1) _ assms(7)])
  have "ml_start st = start" using loop_start_kept [OF assms(6)] by (simp add: initialize_main_loop_state_def)
  with enter_boundary_Inr [OF assms(7)] assms(5) have "faithful_start wops R (ml_start st1) st0 s0" by simp
  from context_replays [OF assms(3,4) this bk assms(8)] loop_context_parts [OF assms(8)] enter_boundary_Inr [OF assms(7)]
  show ?thesis by auto
qed

text \<open>
  A combat that opens with two choices.  The session is the number of its steps; the worker plays
  the same combat under a session id of its own and restores what was captured.
\<close>

definition duel_state :: "string \<Rightarrow> nat \<Rightarrow> battle_state" where
  "duel_state sid n = (sample_state (int n))
     \<lparr>bs_engine := (if n < 2 then [(''pendingChoice'', JObj [(''choiceType'', JStr ''Toolbox'')])] else []),
      bs_frame := Some \<lparr> fr_session = Some sid, fr_step = int n, fr_continuation = None \<rparr>\<rparr>"

definition duel_ops :: "string \<Rightarrow> nat session_ops" where
  "duel_ops sid = \<lparr> so_start = (\<lambda>_ _. (Inr (duel_state sid 0), 0)),
     so_restore = (\<lambda>r s. case r of
        Json_dict d \<Rightarrow> (let n = (case jget d ''n'' of JInt i \<Rightarrow> nat i | _ \<Rightarrow> 0) in (Inr (duel_state sid n), n))
      | _ \<Rightarrow> (runtime_error ''no snapshot'', s)),
     so_room = (\<lambda>_ _. olift (runtime_error ''no room'')),
     so_step = (\<lambda>_ _ _ _ s. (Inr (duel_state sid (Suc s)), Suc s)), so_legal = oreturn [] \<rparr>"

definition duel_capture :: "(nat, root) stateop" where
  "duel_capture s = (Inr (Json_dict [(''n'', JInt (int s))]), s)"

definition duel_env :: "(nat, unit) main_env" where
  "duel_env = \<lparr> me_ops = duel_ops ''main'', me_capture = duel_capture,
     me_direct = (\<lambda>st. olift (first_candidate_direct_selector st)), me_search = None, me_policy = default_routing_policy,
     me_pending = (\<lambda>st. olift (pending_static_select st)) \<rparr>"

definition duel_related :: "battle_state \<times> nat \<Rightarrow> battle_state \<times> nat \<Rightarrow> bool" where
  "duel_related x y \<longleftrightarrow> snd y = snd x \<and> fst x = duel_state ''main'' (snd x) \<and> fst y = duel_state ''worker'' (snd x)"

lemmas duel_defs = duel_ops_def duel_capture_def duel_env_def duel_related_def

lemma duel_boundary: "boundary_of_battle_state (duel_state sid n) = Inr (if n < 2 then BOUNDARY_PENDING else BOUNDARY_STABLE)"
  by (simp add: boundary_of_battle_state_def duel_state_def sample_state_def pending_choice_metadata_def jget_def as_dict_def)

lemma signature_other_session:
  assumes "from_battle_state bs sa a t i l = Inr g" "bs_frame bs = Some f" "fr_step f' = fr_step f" "fr_continuation f' = fr_continuation f"
  shows "from_battle_state (bs\<lparr>bs_frame := Some f'\<rparr>) sa a t i l = Inr (g\<lparr>sg_session := fr_session f'\<rparr>)"
proof -
  from assms(1) obtain b scope kind keys v aid where r: "boundary_of_battle_state bs = Inr b"
      "pending_fields bs l b = Inr (scope, kind, keys)" "subscript a ''action_id'' = Inr v" "int_of_json v = Inr aid"
      "signature_checked \<lparr> sg_session = fr_session f, sg_step = fr_step f, sg_continuation = fr_continuation f,
         sg_action = sa, sg_action_id = aid, sg_key = semantic_key_of a, sg_target = t, sg_target_slot = i, sg_boundary = b,
         sg_scope = scope, sg_kind = kind, sg_candidates = keys \<rparr> = Inr g"
    using assms(2) by (auto simp: from_battle_state_def sbind_eq_Inr)
  have "pending_fields (bs\<lparr>bs_frame := Some f'\<rparr>) l b = pending_fields bs l b"
    by (simp add: pending_fields_def cong: option.case_cong)
  moreover have "boundary_of_battle_state (bs\<lparr>bs_frame := Some f'\<rparr>) = boundary_of_battle_state bs"
    by (simp add: boundary_of_battle_state_def)
  ultimately show ?thesis
    using r assms(3,4) by (auto simp: from_battle_state_def signature_checked_def split: if_splits)
qed

lemma duel_signature:
  assumes "from_battle_state (duel_state ''main'' n) sa a t i None = Inr g"
  shows "\<exists>g1. from_battle_state (duel_state ''worker'' n) sa a t i None = Inr g1 \<and> matches_for_replay g1 g"
  using signature_other_session [OF assms, of "\<lparr> fr_session = Some ''main'', fr_step = int n, fr_continuation = None \<rparr>"
      "\<lparr> fr_session = Some ''worker'', fr_step = int n, fr_continuation = None \<rparr>"]
  by (auto simp: duel_state_def matches_iff portable_agreement_def)

lemma duel_follows: "follows (duel_ops ''main'') (duel_ops ''worker'') duel_related"
proof -
  have "cached_actions (duel_state ''worker'' n) = cached_actions (duel_state ''main'' n)" for n
    by (simp add: cached_actions_def duel_state_def)
  then show ?thesis
    unfolding follows_def duel_related_def
    by (auto simp: duel_boundary duel_ops_def dest: duel_signature)
qed

lemma duel_restores: "faithful_restore loads duel_capture (\<lambda>st s. st = duel_state ''main'' s) (duel_ops ''worker'') duel_related"
  unfolding faithful_restore_def
  by (auto simp: duel_defs restorable_def is_combat_start_def is_room_entry_def jget_def
      raise_if_root_snapshot_not_restore_eligible_def search_root_def json_search_root_def root_snapshot_capture_boundary_def
      metadata_boundary_def)

definition duel_start :: "nat main_state" where
  "duel_start = initialize_main_loop_state 0 (duel_state ''main'' 0) (Some (JObj []))"

definition duel_second :: "nat main_state" where
  "duel_second = fst (snd (main_iteration duel_env (duel_start, ())))"

lemma duel_iterates: "main_iteration duel_env (duel_start, ()) = (Inr None, (duel_second, ()))"
proof -
  have "(case fst (main_iteration duel_env (duel_start, ())) of Inr None \<Rightarrow> True | _ \<Rightarrow> False)" by code_simp
  then show ?thesis
    unfolding duel_second_def
    by (cases "main_iteration duel_env (duel_start, ())") (auto split: sum.splits option.splits)
qed

lemma duel_reached: "loop_reaches duel_env (duel_start, ()) (duel_second, ())"
  by (rule loop_again [OF loop_start duel_iterates])

definition duel_context :: decision_context where
  "duel_context = projr (build_combat_start_decision_context duel_second)"

lemma duel_builds: "loop_context duel_second duel_context" "length (dc_prefix duel_context) = 1"
    "enter_boundary duel_capture duel_second = (Inr BOUNDARY_PENDING, duel_second)"
proof -
  have "\<not> isl (build_combat_start_decision_context duel_second)" by code_simp
  then show "loop_context duel_second duel_context"
    unfolding duel_context_def loop_context_def by (cases "build_combat_start_decision_context duel_second") auto
  show "length (dc_prefix duel_context) = 1" by code_simp
  have b: "boundary_of_battle_state (ml_result duel_second) = Inr BOUNDARY_PENDING" by code_simp
  show "enter_boundary duel_capture duel_second = (Inr BOUNDARY_PENDING, duel_second)"
    by (simp add: enter_boundary_def obind_def b BOUNDARY_PENDING_def BOUNDARY_TERMINAL_def BOUNDARY_STABLE_def)
qed

theorem main_context_replays_witness:
  "length (dc_prefix duel_context) = 1 \<and>
   (\<exists>final s'. replay_decision_context (\<lambda>_. Inr JNull) (duel_ops ''worker'') duel_context 77 = (Inr (Replay_success final), s')
    \<and> duel_related (ml_result duel_second, ml_session duel_second) (final, s'))"
proof (intro conjI)
  have "shows_results (me_ops duel_env) (me_capture duel_env) (\<lambda>st s. st = duel_state ''main'' s)"
    by (auto simp: shows_results_def duel_defs)
  moreover have "faithful_start (duel_ops ''worker'') duel_related (Some (JObj [])) (duel_state ''main'' 0) 0"
    by (simp add: faithful_start_def duel_defs)
  ultimately show "\<exists>final s'. replay_decision_context (\<lambda>_. Inr JNull) (duel_ops ''worker'') duel_context 77 = (Inr (Replay_success final), s')
    \<and> duel_related (ml_result duel_second, ml_session duel_second) (final, s')"
    using duel_follows duel_restores duel_reached duel_builds
    by (intro main_context_replays [where env = duel_env and shown = "\<lambda>st s. st = duel_state ''main'' s"])
      (simp_all add: duel_env_def duel_start_def)
qed (rule duel_builds)

text \<open>
  C21.  A fault of the main step leaves no record: when the loop ends with a combat fault, the
  plan is dropped, the exception is one of the three step faults, and result, held capture and
  prefix are those of the run before the step that raised it.
\<close>

theorem main_fault_leaves_no_record:
  assumes "shows_results (me_ops env) (me_capture env) shown" "shown st0 s0"
    and "loop_reaches env (initialize_main_loop_state s0 st0 start, c0) x"
    and "main_iteration env x = (Inr (Some (Main_combat_fault e)), x')"
  shows "fault_without_record (me_ops env) (me_capture env) shown st0 s0 e (fst x')"
  using iteration_bookkeeping [OF assms(1) _ assms(4)] loop_bookkeeping [OF assms(3,1)] bookkeeping_initial [of shown st0 s0] assms(2)
  by auto

text \<open>A combat whose first step faults.\<close>

definition faulting_env :: "(nat, unit) main_env" where
  "faulting_env = duel_env\<lparr>me_ops := (duel_ops ''main'')
     \<lparr>so_step := (\<lambda>_ _ _ _ s. (Inl (PyExc ''ActionExecutionError'' ''canceled''), s + 5))\<rparr>\<rparr>"

theorem main_fault_leaves_no_record_witness:
  "fault_without_record (me_ops faulting_env) (me_capture faulting_env) (\<lambda>st s. st = duel_state ''main'' s) (duel_state ''main'' 0) 0
     (PyExc ''ActionExecutionError'' ''canceled'') (fst (snd (main_iteration faulting_env (duel_start, ()))))"
proof (rule main_fault_leaves_no_record)
  show "shows_results (me_ops faulting_env) (me_capture faulting_env) (\<lambda>st s. st = duel_state ''main'' s)"
    by (auto simp: shows_results_def faulting_env_def duel_defs)
  show "loop_reaches faulting_env (initialize_main_loop_state 0 (duel_state ''main'' 0) (Some (JObj [])), ()) (duel_start, ())"
    by (simp add: duel_start_def loop_start)
  have "(case fst (main_iteration faulting_env (duel_start, ())) of
      Inr (Some (Main_combat_fault (PyExc ty m))) \<Rightarrow> ty = ''ActionExecutionError'' \<and> m = ''canceled'' | _ \<Rightarrow> False)" by code_simp
  then show "main_iteration faulting_env (duel_start, ()) = (Inr (Some (Main_combat_fault (PyExc ''ActionExecutionError'' ''canceled''))),
      snd (main_iteration faulting_env (duel_start, ())))"
    by (cases "main_iteration faulting_env (duel_start, ())")
      (auto split: sum.splits option.splits main_outcome.splits py_exc.splits)
qed simp

text \<open>
  The loop turns only the three listed exceptions of a step into a fault; any other one a step can
  raise, such as the missing move of a restored enemy, leaves the loop as an exception.
\<close>

lemma missing_move_escapes:
  assumes "resolve (pl_action p) (cached_actions (ml_result st)) = Inr a"
    and "so_step ops (ml_result st) a (pl_target p) (pl_enemy p) (ml_session st) = (Inl (PyExc ''SnapshotRestoreMissingMoveError'' m), s)"
    and "ml_planned st = p # ps"
  shows "fst (run_exec_loop ops capture st) = Inl (PyExc ''SnapshotRestoreMissingMoveError'' m)"
  using assms by (simp add: run_exec_loop.simps [of ops capture st] exec_planned_step_def on_main_session_def MAIN_STEP_FAULTS_def)

end
