(* ===== verification/Fault_Taxonomy.thy ===== *)
theory Fault_Taxonomy
  imports Branch_Leases Main_Loop
begin

text \<open>
  Faults, retries, the decision log and its aggregation: \<open>Combat/search/fault_taxonomy.py\<close>.

  Scores and fractions are rational numbers; the float arithmetic of the code agrees with them as
  long as its results are representable.  Diagnostics of an aggregation are a datatype.
\<close>

section \<open>Fault kinds\<close>

definition FAULT_VALIDATION_REJECTION :: string where "FAULT_VALIDATION_REJECTION = ''validation_rejection''"
definition FAULT_REPLAY_MISMATCH :: string where "FAULT_REPLAY_MISMATCH = ''replay_mismatch''"
definition FAULT_POST_TEARDOWN_RESTORE_FAILURE :: string where
  "FAULT_POST_TEARDOWN_RESTORE_FAILURE = ''post_teardown_restore_failure''"
definition FAULT_ACTION_FAULT :: string where "FAULT_ACTION_FAULT = ''action_fault''"
definition FAULT_TASK_TIMEOUT :: string where "FAULT_TASK_TIMEOUT = ''task_timeout''"
definition FAULT_WORKER_PROCESS_CRASH :: string where "FAULT_WORKER_PROCESS_CRASH = ''worker_process_crash''"
definition FAULT_DEPTH_CAP_EXCEEDED :: string where "FAULT_DEPTH_CAP_EXCEEDED = ''depth_cap_exceeded''"
definition FAULT_ZERO_CANDIDATES :: string where "FAULT_ZERO_CANDIDATES = ''zero_candidates''"
definition FAULT_SNAPSHOT_MOVE_MISSING :: string where "FAULT_SNAPSHOT_MOVE_MISSING = SNAPSHOT_MISSING_MOVE_KIND"

lemmas fault_kind_defs = FAULT_VALIDATION_REJECTION_def FAULT_REPLAY_MISMATCH_def FAULT_POST_TEARDOWN_RESTORE_FAILURE_def
  FAULT_ACTION_FAULT_def FAULT_TASK_TIMEOUT_def FAULT_WORKER_PROCESS_CRASH_def FAULT_DEPTH_CAP_EXCEEDED_def
  FAULT_ZERO_CANDIDATES_def FAULT_SNAPSHOT_MOVE_MISSING_def SNAPSHOT_MISSING_MOVE_KIND_def

definition BRANCH_FAULT_KINDS :: "string list" where
  "BRANCH_FAULT_KINDS =
     [FAULT_VALIDATION_REJECTION, FAULT_REPLAY_MISMATCH, FAULT_POST_TEARDOWN_RESTORE_FAILURE, FAULT_ACTION_FAULT,
      FAULT_TASK_TIMEOUT, FAULT_WORKER_PROCESS_CRASH, FAULT_DEPTH_CAP_EXCEEDED, FAULT_ZERO_CANDIDATES,
      FAULT_SNAPSHOT_MOVE_MISSING]"

definition SRC_MAIN_STEP :: string where "SRC_MAIN_STEP = ''main_step''"
definition SRC_MAIN_INVARIANT :: string where "SRC_MAIN_INVARIANT = ''main_invariant''"
definition MAIN_FAULT_SOURCES :: "string list" where "MAIN_FAULT_SOURCES = [SRC_MAIN_STEP, SRC_MAIN_INVARIANT]"

definition REUSE_SAFE :: string where "REUSE_SAFE = ''reuse_safe''"
definition FORCE_RESTART :: string where "FORCE_RESTART = ''force_restart''"

definition WORK_ITEM_RUNNING :: string where "WORK_ITEM_RUNNING = ''Running''"
definition WORK_ITEM_RETRYING :: string where "WORK_ITEM_RETRYING = ''Retrying''"
definition WORK_ITEM_FINAL_SUCCESS :: string where "WORK_ITEM_FINAL_SUCCESS = ''FinalSuccess''"
definition WORK_ITEM_FINAL_FAULT :: string where "WORK_ITEM_FINAL_FAULT = ''FinalFault''"
definition WORK_ITEM_FINAL_STATES :: "string list" where
  "WORK_ITEM_FINAL_STATES = [WORK_ITEM_FINAL_SUCCESS, WORK_ITEM_FINAL_FAULT]"
definition WORK_ITEM_STATES :: "string list" where
  "WORK_ITEM_STATES = [WORK_ITEM_RUNNING, WORK_ITEM_RETRYING, WORK_ITEM_FINAL_SUCCESS, WORK_ITEM_FINAL_FAULT]"

lemmas work_state_defs = WORK_ITEM_RUNNING_def WORK_ITEM_RETRYING_def WORK_ITEM_FINAL_SUCCESS_def WORK_ITEM_FINAL_FAULT_def

definition DECISION_LOG_STATUS_SUCCESS :: string where "DECISION_LOG_STATUS_SUCCESS = ''success''"
definition DECISION_LOG_STATUS_VALIDATION_REJECTED :: string where
  "DECISION_LOG_STATUS_VALIDATION_REJECTED = ''validation_rejected''"
definition DECISION_LOG_STATUS_REPLAY_MISMATCH :: string where "DECISION_LOG_STATUS_REPLAY_MISMATCH = ''replay_mismatch''"
definition DECISION_LOG_STATUS_ACTION_FAULT :: string where "DECISION_LOG_STATUS_ACTION_FAULT = ''action_fault''"
definition DECISION_LOG_STATUS_TIMEOUT :: string where "DECISION_LOG_STATUS_TIMEOUT = ''timeout''"
definition DECISION_LOG_STATUS_COVERAGE_FAILED :: string where "DECISION_LOG_STATUS_COVERAGE_FAILED = ''coverage_failed''"
definition DECISION_LOG_STATUS_DIAGNOSTIC_ONLY :: string where "DECISION_LOG_STATUS_DIAGNOSTIC_ONLY = ''diagnostic_only''"

text \<open>A later key of a dict literal replaces an earlier equal one; here the keys differ.\<close>

definition FAULT_BY_EXCEPTION_TYPE :: "(string, string) dict" where
  "FAULT_BY_EXCEPTION_TYPE =
     [(''SnapshotRestoreRejectedError'', FAULT_VALIDATION_REJECTION),
      (''SnapshotRestoreFailedError'', FAULT_POST_TEARDOWN_RESTORE_FAILURE),
      (''SnapshotRestoreMissingMoveError'', FAULT_SNAPSHOT_MOVE_MISSING),
      (''ActionExecutionError'', FAULT_ACTION_FAULT),
      (''FaultedCombatSessionError'', FAULT_ACTION_FAULT),
      (''QuiescentBoundaryViolation'', FAULT_ACTION_FAULT),
      (''TimeoutError'', FAULT_TASK_TIMEOUT),
      (''NoViableCandidates'', FAULT_ZERO_CANDIDATES)]"

definition FAULT_BY_DIAGNOSTIC_KIND :: "(string, string) dict" where
  "FAULT_BY_DIAGNOSTIC_KIND =
     [(''validation_rejection'', FAULT_VALIDATION_REJECTION), (''snapshot_restore_rejected'', FAULT_VALIDATION_REJECTION),
      (''SnapshotRestoreRejectedError'', FAULT_VALIDATION_REJECTION), (''replay_mismatch'', FAULT_REPLAY_MISMATCH),
      (''post_teardown_restore_failure'', FAULT_POST_TEARDOWN_RESTORE_FAILURE),
      (''snapshot_restore_failed'', FAULT_POST_TEARDOWN_RESTORE_FAILURE),
      (''SnapshotRestoreFailedError'', FAULT_POST_TEARDOWN_RESTORE_FAILURE),
      (FAULT_SNAPSHOT_MOVE_MISSING, FAULT_SNAPSHOT_MOVE_MISSING),
      (''SnapshotRestoreMissingMoveError'', FAULT_SNAPSHOT_MOVE_MISSING), (''action_fault'', FAULT_ACTION_FAULT),
      (''worker_exception'', FAULT_ACTION_FAULT), (''task_timeout'', FAULT_TASK_TIMEOUT), (''timeout'', FAULT_TASK_TIMEOUT),
      (''worker_process_crash'', FAULT_WORKER_PROCESS_CRASH), (''process_crash'', FAULT_WORKER_PROCESS_CRASH),
      (''depth_cap_exceeded'', FAULT_DEPTH_CAP_EXCEEDED), (''zero_candidates'', FAULT_ZERO_CANDIDATES),
      (''no_viable_candidates'', FAULT_ZERO_CANDIDATES)]"

definition DECISION_LOG_STATUS_BY_FAULT :: "(string, string) dict" where
  "DECISION_LOG_STATUS_BY_FAULT =
     [(FAULT_VALIDATION_REJECTION, DECISION_LOG_STATUS_VALIDATION_REJECTED),
      (FAULT_REPLAY_MISMATCH, DECISION_LOG_STATUS_REPLAY_MISMATCH), (FAULT_ACTION_FAULT, DECISION_LOG_STATUS_ACTION_FAULT),
      (FAULT_TASK_TIMEOUT, DECISION_LOG_STATUS_TIMEOUT),
      (FAULT_POST_TEARDOWN_RESTORE_FAILURE, DECISION_LOG_STATUS_DIAGNOSTIC_ONLY),
      (FAULT_WORKER_PROCESS_CRASH, DECISION_LOG_STATUS_DIAGNOSTIC_ONLY),
      (FAULT_DEPTH_CAP_EXCEEDED, DECISION_LOG_STATUS_DIAGNOSTIC_ONLY),
      (FAULT_ZERO_CANDIDATES, DECISION_LOG_STATUS_COVERAGE_FAILED),
      (FAULT_SNAPSHOT_MOVE_MISSING, DECISION_LOG_STATUS_VALIDATION_REJECTED)]"

text \<open>\<open>key in table\<close> and the lookup, for any plain value; only texts are keys.\<close>

definition table_get :: "(string, string) dict \<Rightarrow> json \<Rightarrow> string option" where
  "table_get t v = (case v of JStr s \<Rightarrow> dget t s | _ \<Rightarrow> None)"

text \<open>\<open>classify_fault\<close> of a diagnostics dict.\<close>

definition classify_diagnostics :: "(string, json) dict \<Rightarrow> string res" where
  "classify_diagnostics d =
     (let kind = jget d ''fault_kind''; ty = jget d ''exception_type'' in
      sbind (hashed ty) (\<lambda>_. case table_get FAULT_BY_EXCEPTION_TYPE ty of
        Some k \<Rightarrow> Inr k
      | None \<Rightarrow> sbind (hashed kind) (\<lambda>_. case table_get FAULT_BY_DIAGNOSTIC_KIND kind of
          Some mapped \<Rightarrow>
            (if mapped = FAULT_ACTION_FAULT \<and> ty \<in> {JStr ''SnapshotRestoreRejectedError'', JStr ''SnapshotRestoreFailedError''}
             then (case dget FAULT_BY_EXCEPTION_TYPE (str_json ty) of
                 Some k \<Rightarrow> Inr k | None \<Rightarrow> Inl (PyExc ''KeyError'' (repr_json ty)))
             else Inr mapped)
        | None \<Rightarrow>
            if truthy ty
            then Inr (case dget FAULT_BY_EXCEPTION_TYPE (str_json ty) of Some k \<Rightarrow> k | None \<Rightarrow> FAULT_ACTION_FAULT)
            else value_error (''cannot classify diagnostics without fault_kind/exception_type: '' @ repr_json (JObj d)))))"

text \<open>
  \<open>classify_fault\<close> of an object: an exception, a \<open>NoViableCandidates\<close>, or any object that carries
  a \<open>fault_kind\<close>, with its \<open>repr\<close>.
\<close>

datatype fault_object = Raised py_exc | No_viable_result | Carrying "string option" string

fun carried_kind :: "fault_object \<Rightarrow> string option" where
  "carried_kind (Raised (RequestRejected _ k)) = k"
| "carried_kind (Raised (PyExc _ _)) = None"
| "carried_kind No_viable_result = None"
| "carried_kind (Carrying k _) = k"

fun fault_repr :: "fault_object \<Rightarrow> string" where
  "fault_repr (Raised e) = exc_name e @ ''('' @ repr_str (exc_message e) @ '')''"
| "fault_repr No_viable_result = ''NoViableCandidates''"
| "fault_repr (Carrying _ t) = t"

definition FAULT_BY_INSTANCE :: "(string, string) dict" where
  "FAULT_BY_INSTANCE =
     [(''SnapshotRestoreRejectedError'', FAULT_VALIDATION_REJECTION),
      (''SnapshotRestoreFailedError'', FAULT_POST_TEARDOWN_RESTORE_FAILURE),
      (''SnapshotRestoreMissingMoveError'', FAULT_SNAPSHOT_MOVE_MISSING), (''ActionExecutionError'', FAULT_ACTION_FAULT),
      (''FaultedCombatSessionError'', FAULT_ACTION_FAULT), (''QuiescentBoundaryViolation'', FAULT_ACTION_FAULT),
      (''TimeoutError'', FAULT_TASK_TIMEOUT)]"

definition classify_object :: "fault_object \<Rightarrow> string res" where
  "classify_object x = (case (case x of Raised e \<Rightarrow> dget FAULT_BY_INSTANCE (exc_name e) | _ \<Rightarrow> None) of
       Some k \<Rightarrow> Inr k
     | None \<Rightarrow>
         if x = No_viable_result then Inr FAULT_ZERO_CANDIDATES
         else (case carried_kind x of
             Some k \<Rightarrow> if k \<in> set BRANCH_FAULT_KINDS then Inr k
                        else value_error (''cannot classify fault object '' @ fault_repr x)
           | None \<Rightarrow> value_error (''cannot classify fault object '' @ fault_repr x)))"

definition worker_reuse_policy :: "string \<Rightarrow> string res" where
  "worker_reuse_policy k =
     (if k = FAULT_VALIDATION_REJECTION then Inr REUSE_SAFE
      else if k \<in> set BRANCH_FAULT_KINDS then Inr FORCE_RESTART
      else if k \<in> set MAIN_FAULT_SOURCES
      then value_error (repr_str k @ '' is a Main fault source, not a Branch Worker fault'')
      else value_error (''unknown branch fault kind '' @ repr_str k))"

section \<open>Retries\<close>

record attempt =
  at_work :: string
  at_count :: int
  at_state :: string
  at_generation :: int

definition attempt_checked :: "attempt \<Rightarrow> attempt res" where
  "attempt_checked a =
     (if at_state a \<notin> set WORK_ITEM_STATES then value_error (''unknown WorkItem state '' @ repr_str (at_state a))
      else if at_count a < 0 then value_error ''attempt_count must be non-negative''
      else if at_generation a \<le> 0 then value_error ''worker_generation must be positive''
      else Inr a)"

definition new_attempt :: "string \<Rightarrow> attempt" where
  "new_attempt w = \<lparr> at_work = w, at_count = 0, at_state = WORK_ITEM_RUNNING, at_generation = 1 \<rparr>"

record retry_decision =
  rd_next :: string
  rd_policy :: string
  rd_retry :: bool
  rd_generation :: int
  rd_count :: int

definition decide_retry :: "attempt \<Rightarrow> string \<Rightarrow> int \<Rightarrow> retry_decision res" where
  "decide_retry a fault_kind max_retries =
     (if max_retries < 0 then value_error ''max_retries must be non-negative''
      else if at_state a \<notin> {WORK_ITEM_RUNNING, WORK_ITEM_RETRYING}
      then value_error (''cannot retry from final WorkItem state '' @ repr_str (at_state a))
      else sbind (worker_reuse_policy fault_kind) (\<lambda>policy.
        let n = at_count a + 1; again = n \<le> max_retries in
        Inr \<lparr> rd_next = (if again then WORK_ITEM_RETRYING else WORK_ITEM_FINAL_FAULT), rd_policy = policy, rd_retry = again,
              rd_generation = (if policy = FORCE_RESTART then at_generation a + 1 else at_generation a), rd_count = n \<rparr>))"

record depth_cap_exceeded =
  dx_current :: int
  dx_max :: int
  dx_kind :: string

definition depth_cap_text :: "depth_cap_exceeded \<Rightarrow> string" where
  "depth_cap_text x = ''continuation depth '' @ str_int (dx_current x) @ '' exceeded cap '' @ str_int (dx_max x)"

definition depth_cap_fault :: "int \<Rightarrow> int \<Rightarrow> depth_cap_exceeded option res" where
  "depth_cap_fault current_depth max_depth =
     (if max_depth \<le> 0 then value_error ''max_depth must be positive''
      else if current_depth < 0 then value_error ''current_depth must be non-negative''
      else Inr (if max_depth \<le> current_depth
                then Some \<lparr> dx_current = current_depth, dx_max = max_depth, dx_kind = FAULT_DEPTH_CAP_EXCEEDED \<rparr> else None))"

record main_fault_outcome =
  mf_source :: string
  mf_detail :: string

definition main_fault_checked :: "main_fault_outcome \<Rightarrow> main_fault_outcome res" where
  "main_fault_checked m =
     (if mf_source m \<notin> set MAIN_FAULT_SOURCES then value_error (''unknown Main fault source '' @ repr_str (mf_source m)) else Inr m)"

section \<open>The decision log\<close>

record log_entry =
  le_status :: string
  le_root :: string
  le_hypothesis :: "string option"
  le_plan :: "prefix_entry list"
  le_prefix_digest :: string
  le_work :: string
  le_state :: string
  le_score :: "rat option"
  le_action :: "semantic_action option"
  le_target :: "int option"
  le_enemy :: "int option"
  le_result :: "decision_signature option"
  le_fault :: "string option"
  le_diagnostics :: "(string, json) dict"

definition log_entry_checked :: "log_entry \<Rightarrow> log_entry res" where
  "log_entry_checked e =
     (if le_state e \<notin> set WORK_ITEM_STATES then value_error (''unknown WorkItem state '' @ repr_str (le_state e))
      else if le_state e = WORK_ITEM_FINAL_SUCCESS \<and> le_score e = None
      then value_error ''FinalSuccess log entries require score''
      else Inr e)"

definition taxonomy_digest :: "(string \<Rightarrow> string) \<Rightarrow> nat \<Rightarrow> json \<Rightarrow> string" where
  "taxonomy_digest sha n payload = take n (sha (json_dumps True payload))"

definition semantic_action_key :: "(string \<Rightarrow> string) \<Rightarrow> semantic_action \<Rightarrow> int option \<Rightarrow> int option \<Rightarrow> string" where
  "semantic_action_key sha a target enemy = taxonomy_digest sha 20
     (JObj [(''action_type'', sa_type a), (''semantic_key'', sa_key a), (''target_index'', opt_int_json target),
            (''target_enemy_index'', opt_int_json enemy)])"

text \<open>\<open>dataclasses.asdict(entry)\<close> of a whole prefix entry; tuples become arrays.\<close>

definition card_key_json :: "card_key \<Rightarrow> json" where
  "card_key_json k = JArr
     [JStr (ck_id k), JStr (ck_type k), JStr (ck_rarity k), JInt (ck_cost k), JStr (ck_target_type k), JBool (ck_upgraded k),
      JInt (ck_upgrade_level k), opt_str_json (ck_tinker_type k), opt_str_json (ck_tinker_rider k),
      (case ck_enchantment k of None \<Rightarrow> JNull | Some (i, a, s) \<Rightarrow> JArr [JStr i, JInt a, JStr s])]"

definition full_entry_json :: "prefix_entry \<Rightarrow> json" where
  "full_entry_json e = JObj
     [(''semantic_action'', semantic_action_json (rp_action e)), (''expected_signature'', signature_json (rp_expected e)),
      (''target_index'', opt_int_json (rp_target e)), (''target_enemy_index'', opt_int_json (rp_enemy e)),
      (''visible_draw_constraints'', JArr (map (\<lambda>(n, k). JArr [JInt (int n), card_key_json k]) (rp_constraints e))),
      (''visible_draw_tracking_blocked'', JBool (rp_blocked e)), (''visible_draw_tracking_error'', opt_str_json (rp_error e))]"

definition replay_prefix_digest :: "(string \<Rightarrow> string) \<Rightarrow> prefix_entry list \<Rightarrow> string" where
  "replay_prefix_digest sha es = taxonomy_digest sha 16 (JArr (map full_entry_json es))"

text \<open>Status, score and fault kind of a result; the candidate's score is the item's.\<close>

definition log_outcome :: "work_item \<Rightarrow> branch_result \<Rightarrow> (string \<times> rat option \<times> string option) res" where
  "log_outcome w r =
     (if br_status r = BRANCH_STATUS_SUCCESS then Inr (DECISION_LOG_STATUS_SUCCESS, Some (pr_score (wi_candidate w)), None)
      else if br_status r = BRANCH_STATUS_FAULT then
        sbind (classify_diagnostics (br_diagnostics r)) (\<lambda>k. case dget DECISION_LOG_STATUS_BY_FAULT k of
            Some status \<Rightarrow> Inr (status, None, Some k)
          | None \<Rightarrow> Inl (PyExc ''KeyError'' (repr_str k)))
      else value_error (''unknown BranchResult status '' @ repr_str (br_status r)))"

definition to_decision_log_entry ::
  "(string \<Rightarrow> string) \<Rightarrow> work_item \<Rightarrow> branch_result \<Rightarrow> string option \<Rightarrow> log_entry res" where
  "to_decision_log_entry sha w r state =
     (if br_item r \<noteq> w \<and> wi_id (br_item r) \<noteq> wi_id w
      then value_error ''BranchResult does not correspond to the supplied WorkItem''
      else let st = (case state of Some s \<Rightarrow> s
             | None \<Rightarrow> if br_status r = BRANCH_STATUS_SUCCESS then WORK_ITEM_FINAL_SUCCESS else WORK_ITEM_FINAL_FAULT)
      in if st \<notin> set WORK_ITEM_STATES then value_error (''unknown WorkItem state '' @ repr_str st)
      else sbind (log_outcome w r) (\<lambda>(status, score, fault).
        let c = wi_candidate w in log_entry_checked
          \<lparr> le_status = status, le_root = semantic_action_key sha (pr_action c) (pr_target c) (pr_enemy c),
            le_hypothesis = dc_hypothesis (wi_context w), le_plan = dc_plan (wi_context w),
            le_prefix_digest = replay_prefix_digest sha (dc_prefix (wi_context w)), le_work = wi_id w, le_state = st,
            le_score = score, le_action = Some (pr_action c), le_target = pr_target c, le_enemy = pr_enemy c,
            le_result = br_signature r, le_fault = fault, le_diagnostics = br_diagnostics r \<rparr>))"

section \<open>Aggregation\<close>

record root_aggregation =
  ra_root :: string
  ra_score :: rat
  ra_entry :: log_entry
  ra_valid :: nat
  ra_total :: nat
  ra_missing :: nat
  ra_filled :: "rat option"

datatype aggregation_diagnostics =
    No_hypothesis_samples nat nat
  | Hypothesis_samples nat nat rat int rat nat "(string \<times> nat \<times> int) list"
  | No_plain_results nat nat
  | Plain_results nat nat

record aggregation =
  ag_viable :: "root_aggregation list"
  ag_best :: "root_aggregation option"
  ag_diagnostics :: aggregation_diagnostics

definition require_final_entries :: "log_entry list \<Rightarrow> unit res" where
  "require_final_entries es =
     (let non_final = map le_work (filter (\<lambda>e. le_state e \<notin> set WORK_ITEM_FINAL_STATES) es) in
      if non_final \<noteq> []
      then value_error (''aggregation accepts only FinalSuccess/FinalFault entries; non-final='' @ repr_str_list non_final)
      else Inr ())"

definition success_entries :: "log_entry list \<Rightarrow> log_entry list" where
  "success_entries es = filter (\<lambda>e. le_state e = WORK_ITEM_FINAL_SUCCESS \<and> le_status e = DECISION_LOG_STATUS_SUCCESS) es"

text \<open>The best sample of each hypothesis for one root, keyed by hypothesis in order of appearance.\<close>

definition better_sample :: "log_entry \<Rightarrow> log_entry option \<Rightarrow> bool" where
  "better_sample e current = (case current of
       None \<Rightarrow> True
     | Some c \<Rightarrow> (case (le_score e, le_score c) of (Some x, Some y) \<Rightarrow> y < x | _ \<Rightarrow> False))"

definition add_sample :: "string \<Rightarrow> (string, log_entry) dict \<Rightarrow> log_entry \<Rightarrow> (string, log_entry) dict" where
  "add_sample root_key samples e = (case le_hypothesis e of
       None \<Rightarrow> samples
     | Some h \<Rightarrow>
         if le_root e = root_key \<and> better_sample e (dget samples h) then dset h e samples else samples)"

definition samples_of :: "string \<Rightarrow> log_entry list \<Rightarrow> (string, log_entry) dict" where
  "samples_of root_key valid = foldl (add_sample root_key) [] valid"

definition entry_score :: "log_entry \<Rightarrow> rat" where
  "entry_score e = (case le_score e of Some x \<Rightarrow> x | None \<Rightarrow> 0)"

text \<open>\<open>max(entries, key=...)\<close> keeps the first of equal keys.\<close>

definition sample_rank :: "log_entry \<Rightarrow> rat \<times> string" where
  "sample_rank e = (entry_score e, le_work e)"

fun max_sample :: "log_entry \<Rightarrow> log_entry list \<Rightarrow> log_entry" where
  "max_sample b [] = b"
| "max_sample b (e # es) = max_sample (if sample_rank b < sample_rank e then e else b) es"

definition hypotheses_of :: "log_entry list \<Rightarrow> string list" where
  "hypotheses_of es = remdups (List.map_filter le_hypothesis es)"

definition aggregate_root :: "nat \<Rightarrow> rat \<Rightarrow> string \<Rightarrow> log_entry list \<Rightarrow> root_aggregation res" where
  "aggregate_root n_hyps worst root_key samples = (case samples of
       [] \<Rightarrow> value_error ''max() iterable argument is empty''
     | e # es \<Rightarrow>
         let missing = n_hyps - length samples;
             score_sum = sum_list (map entry_score samples) + of_nat missing * worst
         in Inr \<lparr> ra_root = root_key, ra_score = score_sum / of_nat n_hyps, ra_entry = max_sample e es,
                  ra_valid = length samples, ra_total = n_hyps, ra_missing = missing,
                  ra_filled = (if missing \<noteq> 0 then Some worst else None) \<rparr>)"

text \<open>The roots in order: an excluded root, or its aggregation.\<close>

fun aggregate_roots ::
  "int \<Rightarrow> nat \<Rightarrow> rat \<Rightarrow> log_entry list \<Rightarrow> string list \<Rightarrow> (root_aggregation list \<times> (string \<times> nat \<times> int) list) res" where
  "aggregate_roots required n_hyps worst valid [] = Inr ([], [])"
| "aggregate_roots required n_hyps worst valid (k # ks) =
     (let samples = map snd (samples_of k valid) in
      if int (length samples) < required
      then sbind (aggregate_roots required n_hyps worst valid ks)
             (\<lambda>(viable, excluded). Inr (viable, (k, length samples, required) # excluded))
      else sbind (aggregate_root n_hyps worst k samples) (\<lambda>a.
           sbind (aggregate_roots required n_hyps worst valid ks) (\<lambda>(viable, excluded). Inr (a # viable, excluded))))"

definition root_rank :: "root_aggregation \<Rightarrow> rat \<times> string" where
  "root_rank a = (- ra_score a, ra_root a)"

definition aggregate_hypothesis_results :: "rat \<Rightarrow> log_entry list \<Rightarrow> aggregation res" where
  "aggregate_hypothesis_results fraction es =
     (if \<not> (0 \<le> fraction \<and> fraction \<le> 1) then value_error ''min_coverage_fraction must be between 0 and 1''
      else sbind (require_final_entries es) (\<lambda>_.
        let n_hyps = length (hypotheses_of es); valid = success_entries es; faulted = length es - length valid in
        if n_hyps = 0 \<or> valid = []
        then Inr \<lparr> ag_viable = [], ag_best = None, ag_diagnostics = No_hypothesis_samples (length es) faulted \<rparr>
        else let worst = Min (set (map entry_score valid)); required = \<lceil>of_nat n_hyps * fraction\<rceil> in
          sbind (aggregate_roots required n_hyps worst valid (sort (remdups (map le_root es)))) (\<lambda>(viable, excluded).
            let ordered = sort_key root_rank viable in
            Inr \<lparr> ag_viable = ordered, ag_best = (case ordered of [] \<Rightarrow> None | a # _ \<Rightarrow> Some a),
                  ag_diagnostics = Hypothesis_samples (length es) n_hyps fraction required worst faulted excluded \<rparr>)))"

definition plain_rank :: "log_entry \<Rightarrow> rat \<times> string \<times> string" where
  "plain_rank e = (- entry_score e, le_root e, le_work e)"

definition plain_aggregation :: "log_entry \<Rightarrow> root_aggregation" where
  "plain_aggregation e = \<lparr> ra_root = le_root e, ra_score = entry_score e, ra_entry = e, ra_valid = 1, ra_total = 1,
     ra_missing = 0, ra_filled = None \<rparr>"

definition aggregate_plain_results :: "log_entry list \<Rightarrow> aggregation res" where
  "aggregate_plain_results es =
     sbind (require_final_entries es) (\<lambda>_.
       let valid = success_entries es; faulted = length es - length valid;
           viable = map plain_aggregation (sort_key plain_rank valid) in
       if valid = [] then Inr \<lparr> ag_viable = [], ag_best = None, ag_diagnostics = No_plain_results (length es) faulted \<rparr>
       else Inr \<lparr> ag_viable = viable, ag_best = Some (hd viable), ag_diagnostics = Plain_results (length es) faulted \<rparr>)"

section \<open>The commit\<close>

datatype commit_decision =
    Commit_search search_result
  | Commit_main_fault main_fault_outcome aggregation_diagnostics

definition commit_step_of :: "log_entry \<Rightarrow> bool \<Rightarrow> planned_step res" where
  "commit_step_of e hypothesis_involved = (case le_action e of
       None \<Rightarrow> value_error ''best aggregation entry does not carry a semantic_action''
     | Some a \<Rightarrow> Inr \<lparr> pl_action = a, pl_target = le_target e, pl_enemy = le_enemy e,
                       pl_expected = (if hypothesis_involved then None else le_result e) \<rparr>)"

definition build_commit_decision :: "aggregation \<Rightarrow> bool \<Rightarrow> ('v, bool) stateop \<Rightarrow> ('v, commit_decision) stateop" where
  "build_commit_decision ag hypothesis_involved verify = (case ag_best ag of
       None \<Rightarrow> oreturn (Commit_search (Search_evaluation_failure ''search evaluation produced zero viable Root Actions''))
     | Some best \<Rightarrow>
         obind verify (\<lambda>ok.
           if \<not> ok
           then oreturn (Commit_main_fault \<lparr> mf_source = SRC_MAIN_INVARIANT,
                  mf_detail = ''Main state identity changed during search aggregation'' \<rparr> (ag_diagnostics ag))
           else obind (olift (commit_step_of (ra_entry best) hypothesis_involved))
                  (\<lambda>p. oreturn (Commit_search (Search_success [p])))))"

section \<open>Lemmas\<close>

lemma known_kind:
  assumes "k \<in> set BRANCH_FAULT_KINDS"
  shows "\<exists>p. worker_reuse_policy k = Inr p" "\<exists>st. dget DECISION_LOG_STATUS_BY_FAULT k = Some st"
  using assms
  by (auto simp: worker_reuse_policy_def BRANCH_FAULT_KINDS_def DECISION_LOG_STATUS_BY_FAULT_def fault_kind_defs)

lemma table_kinds:
  "dget FAULT_BY_EXCEPTION_TYPE t = Some k \<Longrightarrow> k \<in> set BRANCH_FAULT_KINDS"
  "dget FAULT_BY_DIAGNOSTIC_KIND t = Some k \<Longrightarrow> k \<in> set BRANCH_FAULT_KINDS"
  by (auto simp: FAULT_BY_EXCEPTION_TYPE_def FAULT_BY_DIAGNOSTIC_KIND_def BRANCH_FAULT_KINDS_def split: if_splits)

definition classifiable :: "branch_result \<Rightarrow> bool" where
  "classifiable r \<longleftrightarrow> br_status r \<noteq> BRANCH_STATUS_FAULT
     \<or> (\<exists>k \<in> set BRANCH_FAULT_KINDS. classify_diagnostics (br_diagnostics r) = Inr k)"

text \<open>Diagnostics of an exception, and those of a replay mismatch.\<close>

lemma classify_text:
  assumes "jget d ''fault_kind'' = JStr k" "jget d ''exception_type'' \<in> insert JNull (range JStr)"
    "jget d ''exception_type'' \<in> {JNull, JStr []} \<Longrightarrow> dhas FAULT_BY_DIAGNOSTIC_KIND k"
  shows "\<exists>c \<in> set BRANCH_FAULT_KINDS. classify_diagnostics d = Inr c"
proof -
  consider (null) "jget d ''exception_type'' = JNull" | (ty) ty where "jget d ''exception_type'' = JStr ty" using assms(2) by auto
  then show ?thesis
  proof cases
    case null
    with assms(3) obtain c where "dget FAULT_BY_DIAGNOSTIC_KIND k = Some c" by (auto simp: dhas_def)
    with table_kinds(2) [OF this] null assms(1) show ?thesis
      by (auto simp: classify_diagnostics_def table_get_def hashed_def)
  next
    case (ty ty)
    have act: "FAULT_ACTION_FAULT \<in> set BRANCH_FAULT_KINDS" by (simp add: BRANCH_FAULT_KINDS_def)
    show ?thesis
    proof (cases "dget FAULT_BY_EXCEPTION_TYPE ty")
      case (Some c)
      with ty table_kinds(1) [OF this] show ?thesis by (auto simp: classify_diagnostics_def table_get_def hashed_def)
    next
      case None
      then have "ty \<noteq> ''SnapshotRestoreRejectedError'' \<and> ty \<noteq> ''SnapshotRestoreFailedError''"
        by (auto simp: FAULT_BY_EXCEPTION_TYPE_def)
      with None ty assms(1,3) act table_kinds(2) [of k] show ?thesis
        by (auto simp: classify_diagnostics_def table_get_def hashed_def dhas_def Let_def split: option.splits)
    qed
  qed
qed

lemma exception_classified:
  assumes "fault_result w m k g e tb kind = Inr r" "dhas FAULT_BY_DIAGNOSTIC_KIND kind \<or> exc_name e \<noteq> []"
  shows "classifiable r"
proof -
  have "\<exists>c \<in> set BRANCH_FAULT_KINDS. classify_diagnostics (br_diagnostics r) = Inr c"
    using assms by (intro classify_text [where k = kind]) (auto simp: fault_result_def branch_result_checked_Inr jget_def)
  then show ?thesis by (simp add: classifiable_def)
qed

lemma mismatch_classified: "classifiable (mismatch_result rq w g step stage detail diverged)"
proof -
  let ?d = "br_diagnostics (mismatch_result rq w g step stage detail diverged)"
  have "\<exists>c \<in> set BRANCH_FAULT_KINDS. classify_diagnostics ?d = Inr c"
    by (intro classify_text [where k = "''replay_mismatch''"])
      (auto simp: mismatch_result_def jget_def FAULT_BY_DIAGNOSTIC_KIND_def dhas_def)
  then show ?thesis by (simp add: classifiable_def)
qed

lemma carried_kind_classified: "dhas FAULT_BY_DIAGNOSTIC_KIND (carried_fault_kind e) \<or> exc_name e \<noteq> []"
  by (cases e) (auto simp: carried_fault_kind_def FAULT_BY_DIAGNOSTIC_KIND_def fault_kind_defs dhas_def)

text \<open>Every fault a worker answers with is in the taxonomy.\<close>

lemma step_candidate_status:
  assumes "step_candidate env rq st rt = (Inr r, rt')"
  shows "br_status r = BRANCH_STATUS_SUCCESS"
proof -
  from assms obtain w m st' g rt1 rt2 where "build_success_result env w m st' g rt1 = (Inr r, rt2)"
    by (auto simp: step_candidate_def obind_Inr split: prod.splits)
  then show ?thesis by (rule build_success_result_Inr(4))
qed

lemma execute_request_classifiable:
  assumes "execute_request env rq rt = (Inr r, rt')"
  shows "classifiable r"
proof (cases "run_request env rq rt")
  case (Pair q rt1)
  show ?thesis
  proof (cases q)
    case (Inl e)
    with Pair assms have "fault_result (rq_item rq) (rq_mode rq) (Some (wr_id rt1)) (Some (wr_generation rt1)) e (we_traceback env)
        (carried_fault_kind e) = Inr r" by (simp add: execute_request_def)
    then show ?thesis by (rule exception_classified) (rule carried_kind_classified)
  next
    case (Inr r1)
    with Pair assms have run: "run_request env rq rt = (Inr r, rt1)" by (simp add: execute_request_def)
    show ?thesis
    proof (cases "rq_mode rq = EXECUTION_MODE_BOOTSTRAP_STEP")
      case True
      with run obtain outcome rt2 where o: "on_session (replay_decision_context (we_loads env) (we_ops env)
            (wi_context (rq_item rq))) rt = (Inr outcome, rt2)"
          "(case outcome of
            Replay_mismatch step stage detail diverged \<Rightarrow>
              obind (modify forget_state) (\<lambda>_. olift (branch_result_checked
                (mismatch_result rq (wr_id rt) (wr_generation rt) step stage detail diverged)))
          | Replay_success st \<Rightarrow>
              obind (modify (\<lambda>rt. rt\<lparr>wr_epoch := wr_epoch rt + length (dc_prefix (wi_context (rq_item rq)))\<rparr>))
                (\<lambda>_. step_candidate env rq st)) rt2 = (Inr r, rt1)"
        by (auto simp: run_request_def obind_Inr)
      show ?thesis
      proof (cases outcome)
        case (Replay_success st)
        with o(2) show ?thesis by (auto simp: obind_Inr classifiable_def status_defs dest!: step_candidate_status)
      next
        case (Replay_mismatch step stage detail diverged)
        with o(2) have "r = mismatch_result rq (wr_id rt) (wr_generation rt) step stage detail diverged"
          by (auto simp: obind_Inr branch_result_checked_Inr)
        then show ?thesis by (simp add: mismatch_classified)
      qed
    next
      case False
      with run obtain st where "step_candidate env rq st rt = (Inr r, rt1)"
        by (auto simp: run_request_def runtime_error_def obind_Inr split: if_splits)
      from step_candidate_status [OF this] show ?thesis by (simp add: classifiable_def status_defs)
    qed
  qed
qed

lemma log_of_answer:
  assumes "br_status r \<in> {BRANCH_STATUS_SUCCESS, BRANCH_STATUS_FAULT}" "classifiable r" "br_item r = w"
    "state = None \<or> state = Some (if br_status r = BRANCH_STATUS_SUCCESS then WORK_ITEM_FINAL_SUCCESS else WORK_ITEM_FINAL_FAULT)"
  shows "\<exists>e. to_decision_log_entry sha w r state = Inr e
    \<and> le_state e = (if br_status r = BRANCH_STATUS_SUCCESS then WORK_ITEM_FINAL_SUCCESS else WORK_ITEM_FINAL_FAULT)
    \<and> (le_score e = None) = (br_status r = BRANCH_STATUS_FAULT)
    \<and> (le_status e = DECISION_LOG_STATUS_SUCCESS) = (br_status r = BRANCH_STATUS_SUCCESS)
    \<and> (case le_fault e of None \<Rightarrow> br_status r = BRANCH_STATUS_SUCCESS | Some k \<Rightarrow> k \<in> set BRANCH_FAULT_KINDS)"
proof (cases "br_status r = BRANCH_STATUS_SUCCESS")
  case True
  with assms(3,4) show ?thesis
    by (auto simp: to_decision_log_entry_def log_outcome_def log_entry_checked_def Let_def WORK_ITEM_STATES_def status_defs)
next
  case False
  with assms(1,2) obtain k where k: "br_status r = BRANCH_STATUS_FAULT" "k \<in> set BRANCH_FAULT_KINDS"
      "classify_diagnostics (br_diagnostics r) = Inr k" by (auto simp: classifiable_def)
  from known_kind(2) [OF k(2)] obtain st where st: "dget DECISION_LOG_STATUS_BY_FAULT k = Some st" by blast
  then have "st \<noteq> DECISION_LOG_STATUS_SUCCESS"
    by (auto simp: DECISION_LOG_STATUS_BY_FAULT_def DECISION_LOG_STATUS_SUCCESS_def DECISION_LOG_STATUS_VALIDATION_REJECTED_def
        DECISION_LOG_STATUS_REPLAY_MISMATCH_def DECISION_LOG_STATUS_ACTION_FAULT_def DECISION_LOG_STATUS_TIMEOUT_def
        DECISION_LOG_STATUS_COVERAGE_FAILED_def DECISION_LOG_STATUS_DIAGNOSTIC_ONLY_def split: if_splits)
  with False k st assms(3,4) show ?thesis
    by (auto simp: to_decision_log_entry_def log_outcome_def log_entry_checked_def Let_def WORK_ITEM_STATES_def status_defs
        work_state_defs)
qed

section \<open>Aggregation of samples\<close>

text \<open>The valid entries of a root and a hypothesis.\<close>

definition samples_at :: "log_entry set \<Rightarrow> string \<Rightarrow> string \<Rightarrow> log_entry set" where
  "samples_at V k h = {e \<in> V. le_root e = k \<and> le_hypothesis e = Some h}"

definition sample_table :: "string \<Rightarrow> log_entry set \<Rightarrow> (string, log_entry) dict \<Rightarrow> bool" where
  "sample_table k V d \<longleftrightarrow> distinct (dkeys d) \<and> (\<forall>h. case dget d h of
       None \<Rightarrow> samples_at V k h = {}
     | Some e \<Rightarrow> e \<in> samples_at V k h \<and> (\<forall>x \<in> samples_at V k h. entry_score x \<le> entry_score e))"

lemma samples_at_insert:
  "samples_at (insert e V) k h = (if le_root e = k \<and> le_hypothesis e = Some h then insert e (samples_at V k h) else samples_at V k h)"
  by (auto simp: samples_at_def)

lemma sample_table_at:
  assumes "sample_table k V d"
  shows "distinct (dkeys d)" and "dget d h = None \<Longrightarrow> samples_at V k h = {}"
    and "dget d h = Some e \<Longrightarrow> e \<in> samples_at V k h"
    and "dget d h = Some e \<Longrightarrow> x \<in> samples_at V k h \<Longrightarrow> entry_score x \<le> entry_score e"
proof -
  from assms have t: "distinct (dkeys d)" "case dget d h of None \<Rightarrow> samples_at V k h = {}
      | Some e \<Rightarrow> e \<in> samples_at V k h \<and> (\<forall>x \<in> samples_at V k h. entry_score x \<le> entry_score e)"
    unfolding sample_table_def by blast+
  show "distinct (dkeys d)" by (rule t(1))
  show "dget d h = None \<Longrightarrow> samples_at V k h = {}" using t(2) by simp
  show "dget d h = Some e \<Longrightarrow> e \<in> samples_at V k h" using t(2) by simp
  show "dget d h = Some e \<Longrightarrow> x \<in> samples_at V k h \<Longrightarrow> entry_score x \<le> entry_score e" using t(2) by simp
qed

lemma sample_tableI:
  assumes "distinct (dkeys d)" "\<And>h. dget d h = None \<Longrightarrow> samples_at V k h = {}"
    "\<And>h e. dget d h = Some e \<Longrightarrow> e \<in> samples_at V k h"
    "\<And>h e x. dget d h = Some e \<Longrightarrow> x \<in> samples_at V k h \<Longrightarrow> entry_score x \<le> entry_score e"
  shows "sample_table k V d"
  unfolding sample_table_def
proof (intro conjI allI)
  show "distinct (dkeys d)" by (rule assms(1))
  fix h
  show "case dget d h of None \<Rightarrow> samples_at V k h = {}
      | Some e \<Rightarrow> e \<in> samples_at V k h \<and> (\<forall>x \<in> samples_at V k h. entry_score x \<le> entry_score e)"
    using assms(2,3,4) [of h] by (cases "dget d h") simp_all
qed

lemma add_sample_table:
  assumes "sample_table k V d" "\<forall>x \<in> insert e V. le_score x \<noteq> None"
  shows "sample_table k (insert e V) (add_sample k d e)"
proof (cases "le_root e = k \<and> le_hypothesis e \<noteq> None")
  case False
  have "add_sample k d e = d" using False by (auto simp: add_sample_def split: option.splits)
  moreover have "samples_at (insert e V) k h = samples_at V k h" for h using False by (auto simp: samples_at_def)
  ultimately show ?thesis using sample_table_at [OF assms(1)] by (intro sample_tableI) simp_all
next
  case True
  then obtain h where h: "le_root e = k" "le_hypothesis e = Some h" by auto
  note t = sample_table_at [OF assms(1)]
  have at: "samples_at (insert e V) k g = (if g = h then insert e (samples_at V k h) else samples_at V k g)" for g
    using h by (auto simp: samples_at_def)
  show ?thesis
  proof (cases "better_sample e (dget d h)")
    case True
    then have "add_sample k d e = dset h e d" using h by (simp add: add_sample_def)
    moreover have "entry_score x \<le> entry_score e" if "x \<in> samples_at V k h" for x
    proof (cases "dget d h")
      case None
      with t(2) that show ?thesis by auto
    next
      case (Some c)
      with True have "entry_score c < entry_score e" by (auto simp: better_sample_def entry_score_def split: option.splits)
      with t(4) [OF Some that] show ?thesis by simp
    qed
    ultimately show ?thesis using t by (intro sample_tableI) (auto simp: at split: if_splits)
  next
    case False
    then obtain c where c: "dget d h = Some c" by (cases "dget d h") (auto simp: better_sample_def)
    have "le_score c \<noteq> None" "le_score e \<noteq> None" using assms(2) t(3) [OF c] by (auto simp: samples_at_def)
    with False c have "entry_score e \<le> entry_score c" by (auto simp: better_sample_def entry_score_def)
    moreover have "add_sample k d e = d" using h False by (simp add: add_sample_def)
    ultimately show ?thesis using t c by (intro sample_tableI) (auto simp: at simp del: map_of_eq_Some_iff split: if_splits)
  qed
qed

lemma samples_of_table:
  "\<forall>x \<in> set vs. le_score x \<noteq> None \<Longrightarrow> sample_table k (set vs) (samples_of k vs)"
proof (induction vs rule: rev_induct)
  case Nil
  then show ?case by (simp add: sample_table_def samples_of_def samples_at_def)
next
  case (snoc e vs)
  then have "sample_table k (set vs) (samples_of k vs)" by simp
  from add_sample_table [OF this, of e] snoc.prems show ?case by (simp add: samples_of_def)
qed

text \<open>The reference: the mean over all hypotheses of the best sample, or of the worst valid score.\<close>

definition filled_score :: "log_entry set \<Rightarrow> rat \<Rightarrow> string \<Rightarrow> string \<Rightarrow> rat" where
  "filled_score V worst k h = (if samples_at V k h = {} then worst else Max (entry_score ` samples_at V k h))"

definition hypothesis_mean :: "log_entry list \<Rightarrow> string \<Rightarrow> rat" where
  "hypothesis_mean es k =
     (let V = set (success_entries es); H = set (hypotheses_of es)
      in (\<Sum>h \<in> H. filled_score V (Min (entry_score ` V)) k h) / of_nat (card H))"

lemma table_sum:
  "distinct (dkeys d) \<Longrightarrow> sum_list (map f (map snd d)) = (\<Sum>h \<in> set (dkeys d). f (the (dget d h)))"
proof (induction d)
  case (Cons kv d)
  obtain k v where kv: "kv = (k, v)" by (cases kv)
  have "(\<Sum>h \<in> set (dkeys d). f (the (dget (kv # d) h))) = (\<Sum>h \<in> set (dkeys d). f (the (dget d h)))"
    using Cons.prems kv by (intro sum.cong) auto
  with Cons kv show ?case by simp
qed simp

lemma table_mean:
  assumes "sample_table k V d" "finite V" "finite H" "\<And>e h. e \<in> V \<Longrightarrow> le_hypothesis e = Some h \<Longrightarrow> h \<in> H"
  shows "length d \<le> card H" and "sum_list (map entry_score (map snd d)) + of_nat (card H - length d) * worst = (\<Sum>h \<in> H. filled_score V worst k h)"
proof -
  note t = sample_table_at [OF assms(1)]
  let ?K = "set (dkeys d)"
  have KH: "?K \<subseteq> H"
  proof
    fix h assume "h \<in> ?K"
    then obtain e where "dget d h = Some e" by (metis dget_iff_dkeys option.exhaust)
    from t(3) [OF this] show "h \<in> H" using assms(4) by (auto simp: samples_at_def)
  qed
  have len: "length d = card ?K" using t(1) distinct_card [of "dkeys d"] by simp
  show "length d \<le> card H" using KH assms(3) by (simp only: len card_mono)
  have fin: "finite (samples_at V k h)" for h using assms(2) by (simp add: samples_at_def)
  have best: "filled_score V worst k h = entry_score (the (dget d h))" if "h \<in> ?K" for h
  proof -
    from that obtain e where e: "dget d h = Some e" by (metis dget_iff_dkeys option.exhaust)
    have "Max (entry_score ` samples_at V k h) = entry_score e"
      using t(3) [OF e] t(4) [OF e] fin by (intro Max_eqI) auto
    with t(3) [OF e] e show ?thesis by (auto simp: filled_score_def)
  qed
  have none: "filled_score V worst k h = worst" if "h \<in> H - ?K" for h
    using that t(2) [of h] dget_None_iff [of d h] by (simp add: filled_score_def)
  have "(\<Sum>h \<in> H. filled_score V worst k h) = (\<Sum>h \<in> ?K. filled_score V worst k h) + (\<Sum>h \<in> H - ?K. filled_score V worst k h)"
    using KH assms(3) by (metis add.commute sum.subset_diff)
  also have "(\<Sum>h \<in> ?K. filled_score V worst k h) = sum_list (map entry_score (map snd d))"
    unfolding table_sum [OF t(1)] by (rule sum.cong) (auto simp: best)
  also have "(\<Sum>h \<in> H - ?K. filled_score V worst k h) = of_nat (card H - length d) * worst"
    using KH none by (simp add: len card_Diff_subset finite_subset [OF KH assms(3)])
  finally show "sum_list (map entry_score (map snd d)) + of_nat (card H - length d) * worst = (\<Sum>h \<in> H. filled_score V worst k h)" by simp
qed

lemma max_sample_in: "max_sample b es \<in> insert b (set es)"
proof (induction es arbitrary: b)
  case (Cons e es)
  from Cons [of e] Cons [of b] show ?case by auto
qed simp

lemma aggregate_root_Inr:
  assumes "aggregate_root n worst k samples = Inr a"
  shows "ra_root a = k \<and> ra_entry a \<in> set samples \<and> ra_valid a = length samples \<and> ra_total a = n
    \<and> ra_score a = (sum_list (map entry_score samples) + of_nat (n - length samples) * worst) / of_nat n"
proof (cases samples)
  case Nil
  with assms show ?thesis by (simp add: aggregate_root_def value_error_def)
next
  case (Cons e es)
  with assms max_sample_in [of e es] show ?thesis by (auto simp: aggregate_root_def Let_def)
qed

lemma aggregate_roots_Inr:
  assumes "aggregate_roots required n worst valid ks = Inr (viable, excluded)" "a \<in> set viable"
  shows "ra_root a \<in> set ks \<and> aggregate_root n worst (ra_root a) (map snd (samples_of (ra_root a) valid)) = Inr a
    \<and> required \<le> int (ra_valid a)"
  using assms
proof (induction ks arbitrary: viable excluded)
  case (Cons k ks)
  let ?s = "map snd (samples_of k valid)"
  from Cons.prems consider
      v' x' where "aggregate_roots required n worst valid ks = Inr (v', x')" "viable = v'"
    | b v' x' where "\<not> int (length ?s) < required" "aggregate_root n worst k ?s = Inr b"
        "aggregate_roots required n worst valid ks = Inr (v', x')" "viable = b # v'"
    by (auto simp: Let_def sbind_eq_Inr split: if_splits)
  then show ?case
  proof cases
    case 1
    with Cons show ?thesis by auto
  next
    case 2
    with Cons.IH [OF 2(3)] aggregate_root_Inr [OF 2(2)] Cons.prems(2) show ?thesis by auto
  qed
qed simp

lemma aggregation_facts:
  assumes "aggregate_hypothesis_results fraction es = Inr ag" "\<forall>e \<in> set (success_entries es). le_score e \<noteq> None"
    "a \<in> set (ag_viable ag)"
  shows "ra_score a = hypothesis_mean es (ra_root a)" and "ra_entry a \<in> set (success_entries es)" and "le_root (ra_entry a) = ra_root a"
    and "of_nat (card (set (hypotheses_of es))) * fraction \<le> of_nat (ra_valid a)"
proof -
  let ?n = "length (hypotheses_of es)" and ?V = "success_entries es"
  have n: "?n = card (set (hypotheses_of es))" by (simp add: hypotheses_of_def distinct_card [symmetric, of "remdups xs" for xs])
  from assms(1,3) obtain viable excluded where r: "aggregate_roots \<lceil>of_nat ?n * fraction\<rceil> ?n (Min (set (map entry_score ?V))) ?V
        (sort (remdups (map le_root es))) = Inr (viable, excluded)" "a \<in> set viable"
    by (auto simp: aggregate_hypothesis_results_def sbind_eq_Inr Let_def value_error_def split: if_splits prod.splits)
  note a = aggregate_roots_Inr [OF r]
  note f = aggregate_root_Inr [OF conjunct1 [OF conjunct2 [OF a]]]
  note t = samples_of_table [OF assms(2), of "ra_root a"]
  have hyps: "h \<in> set (hypotheses_of es)" if "e \<in> set ?V" "le_hypothesis e = Some h" for e h
    using that by (force simp: hypotheses_of_def List.map_filter_def success_entries_def)
  note m = table_mean(2) [OF t, where H = "set (hypotheses_of es)" and worst = "Min (entry_score ` set ?V)"]
  show "ra_score a = hypothesis_mean es (ra_root a)"
    using f m hyps by (simp add: hypothesis_mean_def Let_def n)
  have "ra_entry a \<in> set (map snd (samples_of (ra_root a) ?V))" using f by simp
  then obtain h where "(h, ra_entry a) \<in> set (samples_of (ra_root a) ?V)" by auto
  then have "dget (samples_of (ra_root a) ?V) h = Some (ra_entry a)" using sample_table_at(1) [OF t] by simp
  from sample_table_at(3) [OF t this]
  show "ra_entry a \<in> set ?V" "le_root (ra_entry a) = ra_root a" by (simp_all add: samples_at_def)
  show "of_nat (card (set (hypotheses_of es))) * fraction \<le> of_nat (ra_valid a)"
    using a n by (simp add: ceiling_le_iff)
qed

lemma aggregation_best:
  assumes "aggregate_hypothesis_results fraction es = Inr ag" "ag_best ag = Some best"
  shows "best \<in> set (ag_viable ag)" and "a \<in> set (ag_viable ag) \<Longrightarrow> ra_score a \<le> ra_score best"
proof -
  from assms obtain viable where v: "ag_viable ag = sort_key root_rank viable"
      "ag_best ag = (case sort_key root_rank viable of [] \<Rightarrow> None | a # _ \<Rightarrow> Some a)"
    by (auto simp: aggregate_hypothesis_results_def sbind_eq_Inr Let_def value_error_def split: if_splits prod.splits)
  with assms(2) obtain bs where bs: "ag_viable ag = best # bs" by (auto split: list.splits)
  then show "best \<in> set (ag_viable ag)" by simp
  assume "a \<in> set (ag_viable ag)"
  with bs v(1) sorted_sort_key [of root_rank viable] have "root_rank best \<le> root_rank a" by auto
  then show "ra_score a \<le> ra_score best" by (auto simp: root_rank_def less_eq_prod_def)
qed

section \<open>Properties\<close>

text \<open>
  Every answer of a worker can be logged and judged: a fault is in the taxonomy, has a reuse
  policy and a log status, and the log entry is final with a score exactly for a success.
\<close>

theorem worker_answers_logged:
  assumes "execute_request env rq rt = (Inr r, rt')" "proper_mode rq"
  shows "\<exists>e. to_decision_log_entry sha (rq_item rq) r None = Inr e
    \<and> le_state e = (if br_status r = BRANCH_STATUS_SUCCESS then WORK_ITEM_FINAL_SUCCESS else WORK_ITEM_FINAL_FAULT)
    \<and> (le_score e = None) = (br_status r = BRANCH_STATUS_FAULT)
    \<and> (le_status e = DECISION_LOG_STATUS_SUCCESS) = (br_status r = BRANCH_STATUS_SUCCESS)
    \<and> (case le_fault e of None \<Rightarrow> br_status r = BRANCH_STATUS_SUCCESS | Some k \<Rightarrow> worker_reuse_policy k \<in> {Inr REUSE_SAFE, Inr FORCE_RESTART})"
proof -
  have "br_status r \<in> {BRANCH_STATUS_SUCCESS, BRANCH_STATUS_FAULT}" "br_item r = rq_item rq"
    using execute_request_result [OF assms] by (auto simp: well_formed_result_def answers_def)
  from log_of_answer [OF this(1) execute_request_classifiable [OF assms(1)] this(2), of None sha]
  show ?thesis by (fastforce simp: worker_reuse_policy_def split: option.splits)
qed

theorem worker_answers_logged_witness:
  "\<exists>e. to_decision_log_entry id (rq_item choosing_request) (fst choosing_result) None = Inr e
    \<and> le_state e = (if br_status (fst choosing_result) = BRANCH_STATUS_SUCCESS then WORK_ITEM_FINAL_SUCCESS else WORK_ITEM_FINAL_FAULT)
    \<and> (le_score e = None) = (br_status (fst choosing_result) = BRANCH_STATUS_FAULT)
    \<and> (le_status e = DECISION_LOG_STATUS_SUCCESS) = (br_status (fst choosing_result) = BRANCH_STATUS_SUCCESS)
    \<and> (case le_fault e of None \<Rightarrow> br_status (fst choosing_result) = BRANCH_STATUS_SUCCESS
       | Some k \<Rightarrow> worker_reuse_policy k \<in> {Inr REUSE_SAFE, Inr FORCE_RESTART})"
  by (rule worker_answers_logged [OF choosing_executes choosing_mode])

text \<open>
  C22.  The aggregation ranks by the filled mean: every viable root scores the mean over all
  hypotheses of its best sample, a missing one counting as the worst valid score; it is covered by
  enough samples, it is represented by a valid sample of its own, and the best action is one whose
  mean is maximal.
\<close>

theorem aggregation_ranks_by_filled_mean:
  assumes "aggregate_hypothesis_results fraction es = Inr ag" "ag_best ag = Some best"
    and "list_all (\<lambda>e. le_score e \<noteq> None) (success_entries es)"
  shows "best \<in> set (ag_viable ag)
    \<and> list_all (\<lambda>a. ra_score a = hypothesis_mean es (ra_root a) \<and> ra_score a \<le> ra_score best
        \<and> ra_entry a \<in> set (success_entries es) \<and> le_root (ra_entry a) = ra_root a
        \<and> of_nat (card (set (hypotheses_of es))) * fraction \<le> of_nat (ra_valid a)) (ag_viable ag)"
  using aggregation_best [OF assms(1,2)] aggregation_facts [OF assms(1)] assms(3)
  by (auto simp: list_all_iff)

text \<open>Two roots, two hypotheses; the second root faulted under one of them.\<close>

definition sample_entry :: "string \<Rightarrow> string \<Rightarrow> rat option \<Rightarrow> log_entry" where
  "sample_entry k h score =
     \<lparr> le_status = (if score = None then DECISION_LOG_STATUS_TIMEOUT else DECISION_LOG_STATUS_SUCCESS), le_root = k,
       le_hypothesis = Some h, le_plan = [], le_prefix_digest = [], le_work = k @ h,
       le_state = (if score = None then WORK_ITEM_FINAL_FAULT else WORK_ITEM_FINAL_SUCCESS), le_score = score,
       le_action = Some sample_semantic, le_target = None, le_enemy = None, le_result = None, le_fault = None, le_diagnostics = [] \<rparr>"

definition sample_log :: "log_entry list" where
  "sample_log = [sample_entry ''A'' ''1'' (Some 20), sample_entry ''A'' ''2'' (Some 21), sample_entry ''B'' ''1'' (Some 24),
     sample_entry ''B'' ''2'' None]"

definition sample_aggregation :: aggregation where
  "sample_aggregation = projr (aggregate_hypothesis_results (1 / 2) sample_log)"

lemma sample_aggregates:
  "aggregate_hypothesis_results (1 / 2) sample_log = Inr sample_aggregation"
  "ag_best sample_aggregation = Some (hd (ag_viable sample_aggregation))"
  "map ra_score (ag_viable sample_aggregation) = [22, 41 / 2]"
proof -
  have "(case aggregate_hypothesis_results (1 / 2) sample_log of Inr ag \<Rightarrow>
      map ra_score (ag_viable ag) = [22, 41 / 2] \<and> ag_best ag = Some (hd (ag_viable ag)) | _ \<Rightarrow> False)" by code_simp
  then show "aggregate_hypothesis_results (1 / 2) sample_log = Inr sample_aggregation"
    "ag_best sample_aggregation = Some (hd (ag_viable sample_aggregation))"
    "map ra_score (ag_viable sample_aggregation) = [22, 41 / 2]"
    unfolding sample_aggregation_def by (auto split: sum.splits)
qed

theorem aggregation_ranks_by_filled_mean_witness:
  "hd (ag_viable sample_aggregation) \<in> set (ag_viable sample_aggregation)
    \<and> list_all (\<lambda>a. ra_score a = hypothesis_mean sample_log (ra_root a) \<and> ra_score a \<le> ra_score (hd (ag_viable sample_aggregation))
        \<and> ra_entry a \<in> set (success_entries sample_log) \<and> le_root (ra_entry a) = ra_root a
        \<and> of_nat (card (set (hypotheses_of sample_log))) * (1 / 2) \<le> (of_nat (ra_valid a) :: rat)) (ag_viable sample_aggregation)"
proof (rule aggregation_ranks_by_filled_mean [OF sample_aggregates(1,2)])
  show "list_all (\<lambda>e. le_score e \<noteq> None) (success_entries sample_log)" by code_simp
qed

text \<open>
  A coverage fraction of zero is accepted, but a root without a valid sample then has no
  representative and the aggregation raises.
\<close>

lemma zero_coverage_raises:
  "aggregate_hypothesis_results 0 [sample_entry ''A'' ''1'' (Some 20), sample_entry ''B'' ''1'' None]
     = Inl (PyExc ''ValueError'' ''max() iterable argument is empty'')"
  by code_simp

end
