(* ===== verification/Combat_Snapshot.thy ===== *)
theory Combat_Snapshot
  imports Decision_Context
begin

text \<open>
  Captured combat states: \<open>Combat/combat_state_snapshot.py\<close>.  A snapshot object is its plain dict
  (\<open>dataclasses.asdict\<close>): the attributes of a class are the entries of a JSON object, in the order
  the class declares them.  The \<open>from_dict\<close> methods all read a list of attributes, each with one
  way to obtain it and one conversion; a \<open>schema\<close> writes these down class by class, and \<open>parse\<close>
  does what the methods do with them.

  \<open>float(x)\<close> of an integer or a text is a parameter: it gives the \<open>repr\<close> of the float a text
  denotes.  The classes declare instance ids as texts or None but take any value: the reference
  check compares them as Python does (\<open>num_key\<close>), and values without a hash or an order raise.
  Infinities and NaN as ids are outside the model.
\<close>

section \<open>Conversions\<close>

definition snapshot_error :: "string \<Rightarrow> 'a res" where
  "snapshot_error m = Inl (PyExc ''SnapshotValidationError'' m)"

text \<open>\<open>k in d\<close>, for any value.\<close>

definition py_contains :: "json \<Rightarrow> string \<Rightarrow> bool res" where
  "py_contains d k = (case d of
       JObj e \<Rightarrow> Inr (dhas e k)
     | JArr xs \<Rightarrow> Inr (JStr k \<in> set xs)
     | JStr s \<Rightarrow> Inr (str_contains k s)
     | _ \<Rightarrow> Inl (PyExc ''TypeError'' (''argument of type '' @ [CHR 0x27] @ type_of_json d @ [CHR 0x27] @ '' is not iterable'')))"

text \<open>\<open>d[key]\<close> of a list or a text.\<close>

definition index_error :: "json \<Rightarrow> py_exc" where
  "index_error v = PyExc ''TypeError'' (case v of
       JStr _ \<Rightarrow> ''string indices must be integers, not '' @ [CHR 0x27] @ ''str'' @ [CHR 0x27]
     | _ \<Rightarrow> type_of_json v @ '' indices must be integers or slices, not str'')"

definition py_items :: "json \<Rightarrow> (string, json) dict res" where
  "py_items v = (case v of JObj d \<Rightarrow> Inr d | _ \<Rightarrow> Inl (no_attribute v ''items''))"

type_synonym float_env = "string \<Rightarrow> string option"

definition float_of_json :: "float_env \<Rightarrow> json \<Rightarrow> json res" where
  "float_of_json fl v = (case v of
       JFloat s \<Rightarrow> Inr (JFloat s)
     | JBool b \<Rightarrow> Inr (JFloat (if b then ''1.0'' else ''0.0''))
     | JInt i \<Rightarrow> (case fl (str_int i) of Some s \<Rightarrow> Inr (JFloat s)
          | None \<Rightarrow> Inl (PyExc ''OverflowError'' ''int too large to convert to float''))
     | JStr s \<Rightarrow> (case fl s of Some t \<Rightarrow> Inr (JFloat t)
          | None \<Rightarrow> value_error (''could not convert string to float: '' @ repr_str s))
     | _ \<Rightarrow> Inl (PyExc ''TypeError'' (''float() argument must be a string or a real number, not ''
          @ [CHR 0x27] @ type_of_json v @ [CHR 0x27])))"

text \<open>
  \<open>dict(x)\<close>: a copy of a dict, or the pairs of a sequence; a pair whose key is not a text is
  refused, since the keys of a JSON object are texts.
\<close>

fun dict_pairs :: "nat \<Rightarrow> json list \<Rightarrow> (string, json) dict \<Rightarrow> (string, json) dict res" where
  "dict_pairs i [] d = Inr d"
| "dict_pairs i (x # xs) d = (case py_iter x of
       Inl _ \<Rightarrow> Inl (PyExc ''TypeError'' (''cannot convert dictionary update sequence element #'' @ str_int (int i) @ '' to a sequence''))
     | Inr [JStr k, v] \<Rightarrow> dict_pairs (Suc i) xs (dset k v d)
     | Inr ys \<Rightarrow>
         if length ys = 2 then Inl (unhashable (ys ! 0))
         else value_error (''dictionary update sequence element #'' @ str_int (int i) @ '' has length '' @ str_int (int (length ys))
                @ ''; 2 is required''))"

definition py_dict :: "json \<Rightarrow> json res" where
  "py_dict v = (case v of
       JObj d \<Rightarrow> Inr (JObj d)
     | _ \<Rightarrow> sbind (py_iter v) (\<lambda>xs. sbind (dict_pairs 0 xs []) (\<lambda>d. Inr (JObj d))))"

section \<open>The classes\<close>

text \<open>
  How an argument is obtained: \<open>d[k]\<close>, \<open>d.get(k, v)\<close>, only when \<open>d.get(k) is not None\<close>, only when
  \<open>d.get(k)\<close> is true, or \<open>d.get(k) or {}\<close>.
\<close>

datatype presence = Required | Default json | If_not_none | If_truthy | Or_empty

datatype conv =
    Raw | As_int | As_str | As_bool | As_float | Copy_list | Copy_dict | Float_dict
  | Rec schema | Rec_list schema | Opt_rec_list schema | Rec_dict schema
and schema = Schema (schema_name: string) (schema_required: "string list") (schema_fields: "(string \<times> presence \<times> conv) list")

abbreviation raw_field :: "string \<Rightarrow> string \<times> presence \<times> conv" where "raw_field k \<equiv> (k, Required, Raw)"
abbreviation int_field :: "string \<Rightarrow> string \<times> presence \<times> conv" where "int_field k \<equiv> (k, Required, As_int)"
abbreviation str_field :: "string \<Rightarrow> string \<times> presence \<times> conv" where "str_field k \<equiv> (k, Required, As_str)"
abbreviation bool_field :: "string \<Rightarrow> string \<times> presence \<times> conv" where "bool_field k \<equiv> (k, Required, As_bool)"
abbreviation opt_field :: "string \<Rightarrow> string \<times> presence \<times> conv" where "opt_field k \<equiv> (k, Default JNull, Raw)"
abbreviation rec_field :: "string \<Rightarrow> schema \<Rightarrow> string \<times> presence \<times> conv" where "rec_field k s \<equiv> (k, Required, Rec_list s)"

definition UnsupportedSnapshotField :: schema where
  "UnsupportedSnapshotField = Schema ''UnsupportedSnapshotField'' [''FieldPath'', ''Status'', ''Reason'']
     [raw_field ''FieldPath'', raw_field ''Status'', raw_field ''Reason'', opt_field ''ClassName'', opt_field ''InstanceId'', opt_field ''SerializerVersion'']"

definition LocalCostModifierSnapshot :: schema where
  "LocalCostModifierSnapshot = Schema ''LocalCostModifierSnapshot'' [''Amount'', ''Type'', ''Expiration'', ''IsReduceOnly'']
     [int_field ''Amount'', raw_field ''Type'', int_field ''Expiration'', bool_field ''IsReduceOnly'']"

definition TemporaryStarCostSnapshot :: schema where
  "TemporaryStarCostSnapshot = Schema ''TemporaryStarCostSnapshot'' [''Cost'', ''ClearsWhenTurnEnds'', ''ClearsWhenCardIsPlayed'']
     [int_field ''Cost'', bool_field ''ClearsWhenTurnEnds'', bool_field ''ClearsWhenCardIsPlayed'']"

definition EnchantmentSnapshot :: schema where
  "EnchantmentSnapshot = Schema ''EnchantmentSnapshot'' [''Id'', ''Amount'', ''Props''] [str_field ''Id'', int_field ''Amount'', raw_field ''Props'']"

definition AfflictionSnapshot :: schema where
  "AfflictionSnapshot = Schema ''AfflictionSnapshot'' [''Id'', ''Amount'', ''Props''] [str_field ''Id'', int_field ''Amount'', raw_field ''Props'']"

definition CardInstanceSnapshot :: schema where
  "CardInstanceSnapshot = Schema ''CardInstanceSnapshot''
     [''InstanceId'', ''CardId'', ''Zone'', ''PileIndex'', ''HasBeenRemovedFromState'', ''Type'', ''Rarity'', ''Cost'',
      ''LocalCostModifiers'', ''TemporaryStarCosts'', ''TargetType'', ''IsUpgraded'', ''UpgradeLevel'', ''TinkerTimeType'',
      ''TinkerTimeRider'']
     [raw_field ''InstanceId'', raw_field ''CardId'', raw_field ''Type'', raw_field ''Rarity'', int_field ''Cost'', raw_field ''TargetType'',
      bool_field ''IsUpgraded'', int_field ''UpgradeLevel'', (''LocalKeywords'', If_not_none, Copy_list),
      rec_field ''LocalCostModifiers'' LocalCostModifierSnapshot, rec_field ''TemporaryStarCosts'' TemporaryStarCostSnapshot,
      raw_field ''Zone'', (''PileIndex'', If_not_none, As_int), bool_field ''HasBeenRemovedFromState'',
      (''Enchantment'', If_truthy, Rec EnchantmentSnapshot), opt_field ''EnchantmentStatus'', raw_field ''TinkerTimeType'',
      raw_field ''TinkerTimeRider'', (''DynamicVars'', Or_empty, Float_dict), (''BaseReplayCount'', Default (JInt 0), As_int),
      (''BaseStarCost'', Default (JInt 0), As_int), (''LastStarsSpent'', Default (JInt 0), As_int),
      (''ExhaustOnNextPlay'', Default (JBool False), As_bool), (''HasSingleTurnRetain'', Default (JBool False), As_bool),
      (''HasSingleTurnSly'', Default (JBool False), As_bool), (''Affliction'', If_truthy, Rec AfflictionSnapshot),
      opt_field ''CloneOfInstanceId'', (''IsDupe'', Default (JBool False), As_bool), opt_field ''DeckVersionInstanceId'',
      (''FloorAddedToDeck'', If_not_none, As_int), opt_field ''SavedProperties'',
      (''SovereignBladeCurrentDamage'', If_not_none, As_float), (''SovereignBladeCurrentRepeats'', If_not_none, As_float),
      (''SovereignBladeCreatedThroughForge'', If_not_none, As_bool)]"

definition RelicSnapshot :: schema where
  "RelicSnapshot = Schema ''RelicSnapshot''
     [''InstanceId'', ''RelicId'', ''Rarity'', ''StackCount'', ''Status'', ''IsWax'', ''IsMelted'', ''HasBeenRemovedFromState'',
      ''FloorAddedToDeck'', ''SavedProperties'']
     [raw_field ''InstanceId'', raw_field ''RelicId'', raw_field ''Rarity'', int_field ''StackCount'', raw_field ''Status'', bool_field ''IsWax'',
      bool_field ''IsMelted'', bool_field ''HasBeenRemovedFromState'', int_field ''FloorAddedToDeck'', raw_field ''SavedProperties'',
      opt_field ''DisplayAmount'']"

definition PowerSnapshot :: schema where
  "PowerSnapshot = Schema ''PowerSnapshot''
     [''InstanceId'', ''PowerId'', ''Amount'', ''AmountOnTurnStart'', ''SkipNextDurationTick'', ''StackType'', ''OwnerInstanceId'',
      ''AssociatedCardInstanceId'', ''HasUnsupportedInternalData'']
     [raw_field ''InstanceId'', raw_field ''PowerId'', int_field ''Amount'', int_field ''AmountOnTurnStart'', bool_field ''SkipNextDurationTick'',
      raw_field ''StackType'', raw_field ''OwnerInstanceId'', bool_field ''HasUnsupportedInternalData'', opt_field ''ApplierInstanceId'',
      opt_field ''TargetInstanceId'', opt_field ''AssociatedCardInstanceId'', opt_field ''InternalData'', opt_field ''InternalDataSerializerVersion'']"

definition PotionSnapshot :: schema where
  "PotionSnapshot = Schema ''PotionSnapshot'' [''InstanceId'', ''PotionId'', ''Slot'', ''Rarity'', ''TargetType'', ''IsQueued'']
     [raw_field ''InstanceId'', raw_field ''PotionId'', int_field ''Slot'', raw_field ''Rarity'', raw_field ''TargetType'', bool_field ''IsQueued'']"

definition OrbSnapshot :: schema where
  "OrbSnapshot = Schema ''OrbSnapshot'' [''InstanceId'', ''OrbId'', ''Index'']
     [raw_field ''InstanceId'', raw_field ''OrbId'', int_field ''Index'', opt_field ''BasePassiveValue'', opt_field ''BaseEvokeValue'']"

definition TransientMoveSnapshot :: schema where
  "TransientMoveSnapshot = Schema ''TransientMoveSnapshot'' [''Kind'', ''FollowUpStateId'', ''BehaviorId'']
     [str_field ''Kind'', str_field ''FollowUpStateId'', str_field ''BehaviorId'']"

definition EnemySnapshot :: schema where
  "EnemySnapshot = Schema ''EnemySnapshot''
     [''InstanceId'', ''Index'', ''Name'', ''Hp'', ''MaxHp'', ''Block'', ''IsAlive'', ''Powers'', ''StateLog'']
     [raw_field ''InstanceId'', int_field ''Index'', raw_field ''Name'', int_field ''Hp'', int_field ''MaxHp'', int_field ''Block'',
      bool_field ''IsAlive'', rec_field ''Powers'' PowerSnapshot, (''StateLog'', Required, Copy_list), opt_field ''CombatId'',
      opt_field ''MonsterId'', opt_field ''SlotName'', opt_field ''Intent'', opt_field ''FollowUpStateId'',
      (''TransientMove'', If_not_none, Rec TransientMoveSnapshot)]"

definition CreatureSnapshot :: schema where
  "CreatureSnapshot = Schema ''CreatureSnapshot''
     [''InstanceId'', ''Kind'', ''Name'', ''Hp'', ''MaxHp'', ''Block'', ''IsAlive'', ''Powers'', ''StateLog'']
     [raw_field ''InstanceId'', raw_field ''Kind'', raw_field ''Name'', int_field ''Hp'', int_field ''MaxHp'', int_field ''Block'',
      bool_field ''IsAlive'', rec_field ''Powers'' PowerSnapshot, (''StateLog'', Required, Copy_list), opt_field ''OwnerInstanceId'',
      opt_field ''CombatId'', opt_field ''MonsterId'', opt_field ''SlotName'', opt_field ''Intent'']"

definition PlayerSnapshot :: schema where
  "PlayerSnapshot = Schema ''PlayerSnapshot''
     [''InstanceId'', ''CreatureInstanceId'', ''NetId'', ''Hp'', ''MaxHp'', ''Block'', ''Energy'', ''MaxEnergy'', ''Stars'',
      ''Gold'', ''OrbSlotCapacity'', ''CardInstances'', ''Relics'', ''Powers'', ''Potions'', ''Orbs'', ''Pets'']
     [raw_field ''InstanceId'', raw_field ''CreatureInstanceId'', int_field ''NetId'', int_field ''Hp'', int_field ''MaxHp'',
      int_field ''Block'', int_field ''Energy'', int_field ''MaxEnergy'', int_field ''Stars'', int_field ''Gold'',
      int_field ''OrbSlotCapacity'', rec_field ''CardInstances'' CardInstanceSnapshot, rec_field ''Relics'' RelicSnapshot,
      rec_field ''Powers'' PowerSnapshot, (''Potions'', Required, Opt_rec_list PotionSnapshot), rec_field ''Orbs'' OrbSnapshot,
      rec_field ''Pets'' CreatureSnapshot]"

definition SerializableRngSnapshot :: schema where
  "SerializableRngSnapshot = Schema ''SerializableRngSnapshot'' [''Counter'', ''State0'', ''State1'', ''State2'', ''State3'']
     [int_field ''Counter'', int_field ''State0'', int_field ''State1'', int_field ''State2'', int_field ''State3'']"

definition PlayerRngSnapshot :: schema where
  "PlayerRngSnapshot = Schema ''PlayerRngSnapshot'' [''OwnerInstanceId'', ''Purposes'']
     [raw_field ''OwnerInstanceId'', (''Purposes'', Required, Rec_dict SerializableRngSnapshot)]"

definition MonsterRngSnapshot :: schema where
  "MonsterRngSnapshot = Schema ''MonsterRngSnapshot'' [''OwnerInstanceId'', ''Rng'']
     [raw_field ''OwnerInstanceId'', (''Rng'', Required, Rec SerializableRngSnapshot)]"

definition RngSnapshotSet :: schema where
  "RngSnapshotSet = Schema ''RngSnapshotSet'' [''RunRng'', ''PlayerRng'', ''MonsterRng'']
     [(''RunRng'', Required, Rec_dict SerializableRngSnapshot), rec_field ''PlayerRng'' PlayerRngSnapshot,
      rec_field ''MonsterRng'' MonsterRngSnapshot]"

definition CombatHistoryEntrySnapshot :: schema where
  "CombatHistoryEntrySnapshot = Schema ''CombatHistoryEntrySnapshot''
     [''EntryType'', ''RoundNumber'', ''CurrentSide'', ''PlayerTurnNumbers'', ''Fields'']
     [raw_field ''EntryType'', int_field ''RoundNumber'', raw_field ''CurrentSide'', (''PlayerTurnNumbers'', Required, Copy_dict),
      raw_field ''Fields'', opt_field ''ActorInstanceId'']"

definition InferredCardRemovalSnapshot :: schema where
  "InferredCardRemovalSnapshot = Schema ''InferredCardRemovalSnapshot''
     [''StepIndex'', ''CardInstanceId'', ''CardId'', ''FromPile'', ''Reason'']
     [int_field ''StepIndex'', str_field ''CardInstanceId'', str_field ''CardId'', str_field ''FromPile'', str_field ''Reason'']"

definition CombatHistorySnapshot :: schema where
  "CombatHistorySnapshot = Schema ''CombatHistorySnapshot'' [''Entries'']
     [rec_field ''Entries'' CombatHistoryEntrySnapshot, (''InferredCardRemovals'', Default (JArr []), Rec_list InferredCardRemovalSnapshot)]"

text \<open>The two classes that also keep the fields they do not know.\<close>

definition SnapshotMetadata :: schema where
  "SnapshotMetadata = Schema ''SnapshotMetadata''
     [''SchemaVersion'', ''SnapshotId'', ''StepIndex'', ''CaptureBoundary'', ''Completeness'', ''UnsupportedFields'', ''CapturedAtUtc'']
     [raw_field ''SchemaVersion'', raw_field ''SnapshotId'', int_field ''StepIndex'', raw_field ''CaptureBoundary'', raw_field ''Completeness'',
      rec_field ''UnsupportedFields'' UnsupportedSnapshotField, raw_field ''CapturedAtUtc'', opt_field ''CombatSessionId'',
      opt_field ''ContinuationStepIndex'', opt_field ''EmulatorCommit'']"

definition STATE_REQUIRED :: "string list" where
  "STATE_REQUIRED = [''Metadata'', ''Player'', ''Enemies'', ''TurnNumber'', ''RoundNumber'', ''CurrentSide'', ''Phase'', ''Rng'',
     ''CombatHistory'', ''IsTerminal'', ''Outcome'']"

definition STATE_FIELDS :: "(string \<times> presence \<times> conv) list" where
  "STATE_FIELDS =
     [(''Player'', Required, Rec PlayerSnapshot), rec_field ''Enemies'' EnemySnapshot, int_field ''TurnNumber'', int_field ''RoundNumber'',
      raw_field ''CurrentSide'', raw_field ''Phase'', (''Rng'', Required, Rec RngSnapshotSet), (''CombatHistory'', Required, Rec CombatHistorySnapshot),
      bool_field ''IsTerminal'', raw_field ''Outcome'', opt_field ''PendingChoice'']"

section \<open>Parsing\<close>

definition require_keys :: "json \<Rightarrow> string list \<Rightarrow> string \<Rightarrow> unit res" where
  "require_keys d keys cls =
     sbind (map_res (\<lambda>k. sbind (py_contains d k) (\<lambda>b. Inr (k, b))) keys) (\<lambda>found.
       let missing = map fst (filter (\<lambda>(k, b). \<not> b) found) in
       if missing \<noteq> [] then snapshot_error (cls @ '' missing required field(s): '' @ repr_json (JArr (map JStr missing)))
       else Inr ())"

definition unknown_entries :: "(string, json) dict \<Rightarrow> string list \<Rightarrow> (string, json) dict" where
  "unknown_entries d known = filter (\<lambda>(k, v). k \<notin> set known) d"

text \<open>The value to convert; \<open>None\<close> when the attribute is None without a conversion.\<close>

definition argument :: "presence \<Rightarrow> (string, json) dict \<Rightarrow> string \<Rightarrow> json option res" where
  "argument p d k = (case p of
       Required \<Rightarrow> sbind (subscript d k) (\<lambda>v. Inr (Some v))
     | Default v \<Rightarrow> Inr (Some (case dget d k of None \<Rightarrow> v | Some x \<Rightarrow> x))
     | If_not_none \<Rightarrow> Inr (if jget d k = JNull then None else Some (jget d k))
     | If_truthy \<Rightarrow> Inr (if truthy (jget d k) then Some (jget d k) else None)
     | Or_empty \<Rightarrow> Inr (Some (py_or (jget d k) (JObj []))))"

definition map_values :: "(json \<Rightarrow> json res) \<Rightarrow> (string, json) dict \<Rightarrow> (string, json) dict res" where
  "map_values f d = map_res (\<lambda>(k, v). sbind (f v) (\<lambda>w. Inr (k, w))) d"

definition map_array :: "(json \<Rightarrow> json res) \<Rightarrow> json \<Rightarrow> json res" where
  "map_array f v = sbind (py_iter v) (\<lambda>xs. sbind (map_res f xs) (\<lambda>ys. Inr (JArr ys)))"

definition map_object :: "(json \<Rightarrow> json res) \<Rightarrow> json \<Rightarrow> json res" where
  "map_object f v = sbind (py_items v) (\<lambda>d. sbind (map_values f d) (\<lambda>e. Inr (JObj e)))"

fun parse :: "float_env \<Rightarrow> conv \<Rightarrow> json \<Rightarrow> json res"
and parse_schema :: "float_env \<Rightarrow> schema \<Rightarrow> json \<Rightarrow> json res"
and parse_fields :: "float_env \<Rightarrow> (string \<times> presence \<times> conv) list \<Rightarrow> (string, json) dict \<Rightarrow> (string, json) dict res" where
  "parse fl Raw v = Inr v"
| "parse fl As_int v = sbind (int_of_json v) (\<lambda>i. Inr (JInt i))"
| "parse fl As_str v = Inr (JStr (str_json v))"
| "parse fl As_bool v = Inr (JBool (truthy v))"
| "parse fl As_float v = float_of_json fl v"
| "parse fl Copy_list v = sbind (py_iter v) (\<lambda>xs. Inr (JArr xs))"
| "parse fl Copy_dict v = py_dict v"
| "parse fl Float_dict v = map_object (\<lambda>x. float_of_json fl x) v"
| "parse fl (Rec s) v = parse_schema fl s v"
| "parse fl (Rec_list s) v = map_array (\<lambda>x. parse_schema fl s x) v"
| "parse fl (Opt_rec_list s) v = map_array (\<lambda>x. if x = JNull then Inr JNull else parse_schema fl s x) v"
| "parse fl (Rec_dict s) v = map_object (\<lambda>x. parse_schema fl s x) v"
| "parse_schema fl (Schema cls req fs) v =
     sbind (require_keys v req cls) (\<lambda>_. case v of
         JObj d \<Rightarrow> sbind (parse_fields fl fs d) (\<lambda>r. Inr (JObj r))
       | _ \<Rightarrow> Inl (index_error v))"
| "parse_fields fl [] d = Inr []"
| "parse_fields fl ((k, p, c) # fs) d =
     sbind (argument p d k) (\<lambda>a. sbind (case a of None \<Rightarrow> Inr JNull | Some x \<Rightarrow> parse fl c x) (\<lambda>y.
       sbind (parse_fields fl fs d) (\<lambda>r. Inr ((k, y) # r))))"

definition KNOWN_SCHEMA_VERSIONS :: "string list" where "KNOWN_SCHEMA_VERSIONS = [''phase3c.8'']"
definition COMPLETENESS_VALUES :: "string list" where
  "COMPLETENESS_VALUES = [''complete'', ''partial_known_gaps'', ''unsupported_state'', ''capture_failed'']"
definition CAPTURE_BOUNDARY_VALUES :: "string list" where
  "CAPTURE_BOUNDARY_VALUES = [''normal_player_decision'', ''published_choice'', ''published_target'', ''terminal'']"

definition one_of :: "(string, json) dict \<Rightarrow> string \<Rightarrow> string \<Rightarrow> string list \<Rightarrow> unit res" where
  "one_of d k message allowed = sbind (subscript d k) (\<lambda>v. sbind (hashed v) (\<lambda>_.
     if v \<in> JStr ` set allowed then Inr ()
     else snapshot_error (message @ repr_json v @ '' (known: '' @ repr_json (JArr (map JStr (sort allowed))) @ '')'')))"

definition metadata_from_dict :: "float_env \<Rightarrow> json \<Rightarrow> json res" where
  "metadata_from_dict fl v = sbind (require_keys v (schema_required SnapshotMetadata) ''SnapshotMetadata'') (\<lambda>_. case v of
       JObj d \<Rightarrow>
         sbind (one_of d ''SchemaVersion'' ''unknown SnapshotMetadata.SchemaVersion='' KNOWN_SCHEMA_VERSIONS) (\<lambda>_.
         sbind (one_of d ''Completeness'' ''unrecognized Completeness='' COMPLETENESS_VALUES) (\<lambda>_.
         sbind (one_of d ''CaptureBoundary'' ''unrecognized CaptureBoundary='' CAPTURE_BOUNDARY_VALUES) (\<lambda>_.
         sbind (parse_fields fl (schema_fields SnapshotMetadata) d) (\<lambda>r.
           Inr (JObj (r @ [(''unknown_fields'', JObj (unknown_entries d (schema_required SnapshotMetadata
             @ [''CombatSessionId'', ''ContinuationStepIndex'', ''EmulatorCommit''])))]))))))
     | _ \<Rightarrow> Inl (index_error v))"

definition snapshot_from_dict :: "float_env \<Rightarrow> json \<Rightarrow> (string, json) dict res" where
  "snapshot_from_dict fl v = sbind (require_keys v STATE_REQUIRED ''CombatStateSnapshot'') (\<lambda>_. case v of
       JObj d \<Rightarrow>
         sbind (subscript d ''Metadata'') (\<lambda>m. sbind (metadata_from_dict fl m) (\<lambda>meta.
         sbind (parse_fields fl STATE_FIELDS d) (\<lambda>r.
           Inr ((''Metadata'', meta) # r @ [(''unknown_fields'', JObj (unknown_entries d (STATE_REQUIRED @ [''PendingChoice''])))]))))
     | _ \<Rightarrow> Inl (index_error v))"

definition snapshot_from_json :: "float_env \<Rightarrow> (string \<Rightarrow> json res) \<Rightarrow> string \<Rightarrow> (string, json) dict res" where
  "snapshot_from_json fl loads text = sbind (loads text) (snapshot_from_dict fl)"

section \<open>Reading a snapshot\<close>

definition attr :: "json \<Rightarrow> string \<Rightarrow> json" where
  "attr v k = (case v of JObj d \<Rightarrow> jget d k | _ \<Rightarrow> JNull)"

definition elements :: "json \<Rightarrow> json list" where
  "elements v = (case v of JArr xs \<Rightarrow> xs | _ \<Rightarrow> [])"

definition list_attr :: "json \<Rightarrow> string \<Rightarrow> json list" where
  "list_attr v k = elements (attr v k)"

definition completeness_is_complete :: "(string, json) dict \<Rightarrow> bool" where
  "completeness_is_complete s \<longleftrightarrow> attr (jget s ''Metadata'') ''Completeness'' = JStr ''complete''"

text \<open>The step index of a parsed metadata is an integer; session id and continuation index are kept as they are.\<close>

definition to_decision_frame :: "json \<Rightarrow> json \<times> json \<times> json" where
  "to_decision_frame metadata =
     (attr metadata ''CombatSessionId'', attr metadata ''StepIndex'', attr metadata ''ContinuationStepIndex'')"

definition pile_position :: "json \<Rightarrow> int" where
  "pile_position c = (case attr c ''PileIndex'' of JInt i \<Rightarrow> i | _ \<Rightarrow> -1)"

definition cards_in_zone :: "json \<Rightarrow> string \<Rightarrow> json list" where
  "cards_in_zone player zone = sort_key pile_position (filter (\<lambda>c. attr c ''Zone'' = JStr zone) (list_attr player ''CardInstances''))"

section \<open>References\<close>

definition str_endswith :: "string \<Rightarrow> string \<Rightarrow> bool" where
  "str_endswith s e \<longleftrightarrow> length e \<le> length s \<and> drop (length s - length e) s = e"

fun json_texts :: "json list \<Rightarrow> string list" where
  "json_texts [] = []"
| "json_texts (JStr s # xs) = s # json_texts xs"
| "json_texts (_ # xs) = json_texts xs"

text \<open>The ids an entry holds itself; None when the walk goes into the value.\<close>

definition direct_refs :: "string \<Rightarrow> json \<Rightarrow> string list option" where
  "direct_refs k v = (case v of
       JStr s \<Rightarrow> if str_endswith k ''InstanceId'' then Some [s] else None
     | JArr xs \<Rightarrow> if str_endswith k ''InstanceIds'' then Some (json_texts xs) else None
     | _ \<Rightarrow> None)"

definition sub_path :: "string \<Rightarrow> string \<Rightarrow> string" where
  "sub_path path k = (if path \<noteq> [] then path @ ''.'' @ k else k)"

definition item_path :: "string \<Rightarrow> nat \<Rightarrow> string" where
  "item_path path i = path @ ''['' @ str_int (int i) @ '']''"

fun walk_instance_id_refs :: "json \<Rightarrow> string \<Rightarrow> (string \<times> string) list"
and walk_entries :: "(string, json) dict \<Rightarrow> string \<Rightarrow> (string \<times> string) list"
and walk_items :: "nat \<Rightarrow> json list \<Rightarrow> string \<Rightarrow> (string \<times> string) list" where
  "walk_instance_id_refs (JObj d) path = walk_entries d path"
| "walk_instance_id_refs (JArr xs) path = walk_items 0 xs path"
| "walk_instance_id_refs _ path = []"
| "walk_entries [] path = []"
| "walk_entries ((k, v) # d) path =
     (case direct_refs k v of Some ids \<Rightarrow> map (Pair (sub_path path k)) ids | None \<Rightarrow> walk_instance_id_refs v (sub_path path k))
     @ walk_entries d path"
| "walk_items i [] path = []"
| "walk_items i (x # xs) path = walk_instance_id_refs x (item_path path i) @ walk_items (Suc i) xs path"

text \<open>The places \<open>(path, value)\<close> that define an id, and those that refer to one.\<close>

type_synonym site = "string \<times> json"

definition site :: "json \<Rightarrow> string \<Rightarrow> string \<Rightarrow> site" where
  "site v path k = (path @ ''.'' @ k, attr v k)"

definition for_items :: "(string \<Rightarrow> json \<Rightarrow> 'a list) \<Rightarrow> string \<Rightarrow> json list \<Rightarrow> 'a list" where
  "for_items f path xs = concat (map (\<lambda>(i, x). f (item_path path i) x) (enumerate 0 xs))"

definition own_id :: "string \<Rightarrow> json \<Rightarrow> site list" where
  "own_id path v = [site v path ''InstanceId'']"

definition definition_sites :: "(string, json) dict \<Rightarrow> site list" where
  "definition_sites s = (let p = jget s ''Player'' in
     [site p ''Player'' ''InstanceId'', site p ''Player'' ''CreatureInstanceId'']
     @ for_items own_id ''Player.CardInstances'' (list_attr p ''CardInstances'')
     @ for_items own_id ''Player.Relics'' (list_attr p ''Relics'')
     @ for_items own_id ''Player.Powers'' (list_attr p ''Powers'')
     @ for_items (\<lambda>path v. if v = JNull then [] else own_id path v) ''Player.Potions'' (list_attr p ''Potions'')
     @ for_items own_id ''Player.Orbs'' (list_attr p ''Orbs'')
     @ for_items (\<lambda>path v. own_id path v @ for_items own_id (path @ ''.Powers'') (list_attr v ''Powers'')) ''Player.Pets'' (list_attr p ''Pets'')
     @ for_items (\<lambda>path v. own_id path v @ for_items own_id (path @ ''.Powers'') (list_attr v ''Powers'')) ''Enemies'' (elements (jget s ''Enemies'')))"

definition power_refs :: "string \<Rightarrow> json \<Rightarrow> site list" where
  "power_refs path v = map (site v path) [''OwnerInstanceId'', ''ApplierInstanceId'', ''TargetInstanceId'', ''AssociatedCardInstanceId'']"

definition owner_ref :: "string \<Rightarrow> json \<Rightarrow> site list" where
  "owner_ref path v = [site v path ''OwnerInstanceId'']"

definition direct_sites :: "(string, json) dict \<Rightarrow> site list" where
  "direct_sites s = (let p = jget s ''Player''; rng = jget s ''Rng'' in
     for_items power_refs ''Player.Powers'' (list_attr p ''Powers'')
     @ for_items (\<lambda>path v. owner_ref path v @ for_items power_refs (path @ ''.Powers'') (list_attr v ''Powers'')) ''Player.Pets'' (list_attr p ''Pets'')
     @ for_items (\<lambda>path v. for_items power_refs (path @ ''.Powers'') (list_attr v ''Powers'')) ''Enemies'' (elements (jget s ''Enemies''))
     @ for_items owner_ref ''Rng.MonsterRng'' (list_attr rng ''MonsterRng'')
     @ for_items owner_ref ''Rng.PlayerRng'' (list_attr rng ''PlayerRng''))"

definition actor_site :: "string \<Rightarrow> json \<Rightarrow> site list" where
  "actor_site path e = [site e path ''ActorInstanceId'']"

text \<open>The ids at some places, each hashed; None is skipped.\<close>

fun read_ids :: "site list \<Rightarrow> site list res" where
  "read_ids [] = Inr []"
| "read_ids ((path, v) # sites) =
     (if v = JNull then read_ids sites
      else sbind (hashed v) (\<lambda>i. sbind (read_ids sites) (\<lambda>r. Inr ((path, i) # r))))"

text \<open>The dict of the defined ids: under each class of equal values, the first of them and the paths.\<close>

type_synonym known_ids = "(json, json \<times> string list) dict"

definition add_known :: "known_ids \<Rightarrow> site \<Rightarrow> known_ids" where
  "add_known ids entry = (case entry of (path, i) \<Rightarrow>
     dset (num_key i) (case dget ids (num_key i) of None \<Rightarrow> (i, [path]) | Some (j, paths) \<Rightarrow> (j, paths @ [path])) ids)"

definition collect_known_instance_ids :: "(string, json) dict \<Rightarrow> known_ids res" where
  "collect_known_instance_ids s = sbind (read_ids (definition_sites s)) (\<lambda>defs. Inr (foldl add_known [] defs))"

record dangling_reference =
  dr_path :: string
  dr_id :: json
  dr_entry :: json
  dr_cause :: string

record reference_report =
  rr_duplicates :: "json list"
  rr_dangling :: "dangling_reference list"

definition has_issues :: "reference_report \<Rightarrow> bool" where
  "has_issues r \<longleftrightarrow> rr_duplicates r \<noteq> [] \<or> rr_dangling r \<noteq> []"

definition CONFIRMED_SOURCE_INCONSISTENCY_ENTRY_TYPES :: "string list" where
  "CONFIRMED_SOURCE_INCONSISTENCY_ENTRY_TYPES = [''CardDrawnEntry'', ''CardGeneratedEntry'']"

definition cause_for :: "json \<Rightarrow> string" where
  "cause_for entry_type = (if entry_type \<in> JStr ` set CONFIRMED_SOURCE_INCONSISTENCY_ENTRY_TYPES
     then ''source_live_state_inconsistency'' else ''capture_bug'')"

definition dangling_of :: "json set \<Rightarrow> json \<Rightarrow> string \<Rightarrow> site list \<Rightarrow> dangling_reference list" where
  "dangling_of known entry_type cause refs =
     map (\<lambda>(path, i). \<lparr> dr_path = path, dr_id = i, dr_entry = entry_type, dr_cause = cause \<rparr>)
       (filter (\<lambda>(path, i). num_key i \<notin> known) refs)"

definition entry_refs :: "string \<Rightarrow> json \<Rightarrow> site list res" where
  "entry_refs path e = sbind (read_ids (actor_site path e)) (\<lambda>actor.
     Inr (actor @ map (\<lambda>(path, i). (path, JStr i)) (walk_instance_id_refs (attr e ''Fields'') (path @ ''.Fields''))))"

definition history_entries :: "(string, json) dict \<Rightarrow> (string \<times> json) list" where
  "history_entries s = for_items (\<lambda>path e. [(path, e)]) ''CombatHistory.Entries'' (list_attr (jget s ''CombatHistory'') ''Entries'')"

text \<open>The cause is looked up, and the entry type hashed, only for a reference that dangles.\<close>

definition entry_dangling :: "json set \<Rightarrow> string \<Rightarrow> json \<Rightarrow> dangling_reference list res" where
  "entry_dangling known path e = sbind (entry_refs path e) (\<lambda>refs.
     let found = dangling_of known (attr e ''EntryType'') (cause_for (attr e ''EntryType'')) refs in
     if found = [] then Inr [] else sbind (hashed (attr e ''EntryType'')) (\<lambda>_. Inr found))"

definition dangling_in_history :: "json set \<Rightarrow> (string \<times> json) list \<Rightarrow> dangling_reference list res" where
  "dangling_in_history known entries =
     sbind (map_res (\<lambda>(path, e). entry_dangling known path e) entries) (\<lambda>xs. Inr (concat xs))"

text \<open>\<open>sorted(ids)\<close>: texts and numbers have an order each, a mixture has none.\<close>

definition number_of :: "json \<Rightarrow> rat option" where
  "number_of v = (case v of
       JInt i \<Rightarrow> Some (of_int i)
     | JBool b \<Rightarrow> Some (if b then 1 else 0)
     | JFloat s \<Rightarrow> map_option (\<lambda>(neg, m, e). (if neg then - 1 else 1) *
           (if 0 \<le> e then of_nat m * 10 ^ nat e else of_nat m / 10 ^ nat (- e))) (float_parts s)
     | _ \<Rightarrow> None)"

definition is_text :: "json \<Rightarrow> bool" where
  "is_text v \<longleftrightarrow> (case v of JStr _ \<Rightarrow> True | _ \<Rightarrow> False)"

definition sort_ids :: "json list \<Rightarrow> json list res" where
  "sort_ids ids =
     (if length ids \<le> 1 then Inr ids
      else if list_all is_text ids then Inr (map JStr (sort (json_texts ids)))
      else if list_all (\<lambda>v. number_of v \<noteq> None) ids then Inr (sort_key (the \<circ> number_of) ids)
      else Inl (PyExc ''TypeError'' (''< not supported between instances of '' @ type_of_json (ids ! 1) @ '' and '' @ type_of_json (ids ! 0))))"

definition validate_snapshot_references :: "(string, json) dict \<Rightarrow> reference_report res" where
  "validate_snapshot_references s =
     sbind (collect_known_instance_ids s) (\<lambda>known.
     sbind (sort_ids (map (fst \<circ> snd) (filter (\<lambda>(k, j, paths). 1 < length paths) known))) (\<lambda>duplicates.
       let ids = set (dkeys known) in
       sbind (dangling_in_history ids (history_entries s)) (\<lambda>history.
       sbind (read_ids (direct_sites s)) (\<lambda>direct.
         Inr \<lparr> rr_duplicates = duplicates, rr_dangling = history @ dangling_of ids JNull ''capture_bug'' direct \<rparr>))))"

definition restore_input_eligibility :: "(string, json) dict \<Rightarrow> (bool \<times> string list) res" where
  "restore_input_eligibility s =
     (let meta = jget s ''Metadata'' in
      sbind (capture_boundary_is_restore_eligible (attr meta ''CaptureBoundary'')) (\<lambda>boundary_ok.
      sbind (validate_snapshot_references s) (\<lambda>rep.
        let reasons =
          (if \<not> completeness_is_complete s
           then [''completeness='' @ repr_json (attr meta ''Completeness'') @ '' (Emulator verdict, not '' @ [CHR 0x27] @ ''complete'' @ [CHR 0x27] @ '')''] else [])
          @ (if \<not> boundary_ok then [''capture_boundary='' @ repr_json (attr meta ''CaptureBoundary'') @ '' is not Restore-eligible''] else [])
          @ (if rr_duplicates rep \<noteq> [] then [''duplicate_instance_ids='' @ repr_json (JArr (rr_duplicates rep))] else [])
          @ (if rr_dangling rep \<noteq> []
             then [''dangling_references='' @ str_int (int (length (rr_dangling rep))) @ '' (see validate_snapshot_references for detail)''] else [])
        in Inr (reasons = [], reasons))))"

section \<open>Plain dicts\<close>

text \<open>A plain value without the entries whose key is not kept, at every depth.\<close>

fun prune :: "(string \<Rightarrow> bool) \<Rightarrow> json \<Rightarrow> json" where
  "prune keep (JObj d) = JObj (map (\<lambda>(k, v). (k, prune keep v)) (filter (\<lambda>(k, v). keep k) d))"
| "prune keep (JArr xs) = JArr (map (prune keep) xs)"
| "prune keep v = v"

definition prune_entries :: "(string \<Rightarrow> bool) \<Rightarrow> (string, json) dict \<Rightarrow> (string, json) dict" where
  "prune_entries keep d = map (\<lambda>(k, v). (k, prune keep v)) (filter (\<lambda>(k, v). keep k) d)"

definition known_key :: "string \<Rightarrow> bool" where "known_key k \<longleftrightarrow> k \<noteq> ''unknown_fields''"

definition strip_unknown :: "json \<Rightarrow> json" where "strip_unknown v = prune known_key v"

text \<open>Attributes are kept: what is dropped, if anything, is the unknown fields.\<close>

definition keeps :: "(string \<Rightarrow> bool) \<Rightarrow> bool" where "keeps keep \<longleftrightarrow> (\<forall>k. known_key k \<longrightarrow> keep k)"

lemma keeps_known [simp]: "keeps known_key" by (simp add: keeps_def)
lemma keeps_all [simp]: "keeps (\<lambda>_. True)" by (simp add: keeps_def)

section \<open>Parsing what was parsed\<close>

text \<open>A schema is sound when it lists each attribute once, among them all it requires.\<close>

fun sound_conv :: "conv \<Rightarrow> bool"
and sound_schema :: "schema \<Rightarrow> bool"
and sound_fields :: "(string \<times> presence \<times> conv) list \<Rightarrow> bool" where
  "sound_conv (Rec s) = sound_schema s"
| "sound_conv (Rec_list s) = sound_schema s"
| "sound_conv (Opt_rec_list s) = sound_schema s"
| "sound_conv (Rec_dict s) = sound_schema s"
| "sound_conv _ = True"
| "sound_schema (Schema cls req fs) \<longleftrightarrow> fs \<noteq> [] \<and> distinct (map fst fs) \<and> ''unknown_fields'' \<notin> set (map fst fs)
     \<and> set req \<subseteq> set (map fst fs) \<and> sound_fields fs"
| "sound_fields [] = True"
| "sound_fields ((k, p, c) # fs) \<longleftrightarrow> (p = If_truthy \<longrightarrow> (case c of Rec s \<Rightarrow> True | _ \<Rightarrow> False)) \<and> (p = Or_empty \<longrightarrow> c = Float_dict)
     \<and> sound_conv c \<and> sound_fields fs"

lemma map_res_fixed: "(\<And>y. y \<in> set ys \<Longrightarrow> f y = Inr y) \<Longrightarrow> map_res f ys = Inr ys"
  by (induction ys) auto

lemma prune_jobj [simp]: "prune keep (JObj d) = JObj (prune_entries keep d)"
  by (simp add: prune_entries_def)

declare prune.simps(1) [simp del]

lemma prune_all [simp]: "prune (\<lambda>_. True) v = v"
proof (induction v)
  case (JArr xs)
  then show ?case by (simp add: map_idI)
next
  case (JObj d)
  then have "map (\<lambda>(k, v). (k, prune (\<lambda>_. True) v)) d = d" by (intro map_idI) (auto simp: snds.simps)
  then show ?case by (simp add: prune_entries_def)
qed simp_all

lemma prune_entries_all [simp]: "prune_entries (\<lambda>_. True) d = d"
  using prune_all [of "JObj d"] by (simp del: prune_all)

lemma known_keys_kept: "keeps keep \<Longrightarrow> ''unknown_fields'' \<notin> set (dkeys d) \<Longrightarrow> list_all keep (dkeys d)"
  by (auto simp: keeps_def known_key_def list_all_iff) (metis fst_conv image_eqI)

lemma prune_entries_keys: "list_all keep (dkeys d) \<Longrightarrow> prune_entries keep d = map (\<lambda>(k, v). (k, prune keep v)) d"
  by (induction d) (auto simp: prune_entries_def)

lemma prune_dkeys: "list_all keep (dkeys d) \<Longrightarrow> dkeys (prune_entries keep d) = dkeys d"
  by (induction d) (auto simp: prune_entries_def)

lemma dget_prune: "keep k \<Longrightarrow> dget (prune_entries keep d) k = map_option (prune keep) (dget d k)"
  by (induction d) (auto simp: prune_entries_def)

lemma map_object_prune:
  assumes "map_object f v = Inr w" "\<And>x y. f x = Inr y \<Longrightarrow> g ((prune keep) y) = Inr ((prune keep) y)"
  shows "map_object g ((prune keep) w) = Inr ((prune keep) w)"
proof -
  from assms(1) obtain d e where e: "map_values f d = Inr e" "w = JObj e"
    by (auto simp: map_object_def sbind_eq_Inr)
  have "g (snd kv) = Inr (snd kv)" if "kv \<in> set (prune_entries keep e)" for kv
  proof -
    from that obtain k y where "(k, y) \<in> set e" "kv = (k, (prune keep) y)" by (auto simp: prune_entries_def)
    with map_res_set [OF e(1) [unfolded map_values_def]] assms(2) show ?thesis by (force simp: sbind_eq_Inr)
  qed
  then have "map_values g (prune_entries keep e) = Inr (prune_entries keep e)"
    unfolding map_values_def by (intro map_res_fixed) (auto split: prod.splits)
  with e show ?thesis by (simp add: map_object_def py_items_def)
qed

lemma map_array_prune:
  assumes "map_array f v = Inr w" "\<And>x y. f x = Inr y \<Longrightarrow> g ((prune keep) y) = Inr ((prune keep) y)"
  shows "map_array g ((prune keep) w) = Inr ((prune keep) w)"
proof -
  from assms(1) obtain xs ys where ys: "map_res f xs = Inr ys" "w = JArr ys"
    by (auto simp: map_array_def sbind_eq_Inr)
  have "map_res g (map (prune keep) ys) = Inr (map (prune keep) ys)"
    using map_res_set [OF ys(1)] assms(2) by (intro map_res_fixed) auto
  with ys show ?thesis by (simp add: map_array_def py_iter_def)
qed

lemma float_idem: "float_of_json fl v = Inr w \<Longrightarrow> (prune keep) w = w \<and> float_of_json fl w = Inr w"
  by (auto simp: float_of_json_def value_error_def split: json.splits option.splits)

lemma parse_fields_keys: "parse_fields fl fs d = Inr r \<Longrightarrow> dkeys r = map fst fs"
  by (induction fs arbitrary: r) (auto simp: sbind_eq_Inr split: prod.splits)

lemma require_present: "set req \<subseteq> set (dkeys d) \<Longrightarrow> require_keys (JObj d) req cls = Inr ()"
proof -
  assume req: "set req \<subseteq> set (dkeys d)"
  have "map_res (\<lambda>k. sbind (py_contains (JObj d) k) (\<lambda>b. Inr (k, b))) req = Inr (map (\<lambda>k. (k, True)) req)"
    using req
  proof (induction req)
    case (Cons k req)
    then have "dhas d k" using dget_iff_dkeys [of d k] by (auto simp: dhas_def)
    with Cons show ?case by (simp add: py_contains_def)
  qed simp
  then show ?thesis by (simp add: require_keys_def filter_empty_conv)
qed

lemma argument_prune:
  assumes "argument p d k = Inr a" "(case a of None \<Rightarrow> Inr JNull | Some x \<Rightarrow> parse fl c x) = Inr y"
    and again: "a \<noteq> None \<Longrightarrow> parse fl c ((prune keep) y) = Inr ((prune keep) y)"
    and sound: "p = If_truthy \<longrightarrow> (\<exists>s. c = Rec s \<and> sound_schema s)" "p = Or_empty \<longrightarrow> c = Float_dict"
    and kept: "keeps keep" and D: "dget D k = Some ((prune keep) y)"
  shows "\<exists>a'. argument p D k = Inr a' \<and> (case a' of None \<Rightarrow> Inr JNull | Some x \<Rightarrow> parse fl c x) = Inr ((prune keep) y)"
proof -
  have get: "jget D k = (prune keep) y" using D by (simp add: jget_def)
  show ?thesis
  proof (cases a)
    case None
    then have "y = JNull" using assms(2) by simp
    moreover have "p = If_not_none \<or> p = If_truthy"
      using assms(1) None by (cases p) (auto simp: argument_def sbind_eq_Inr)
    ultimately show ?thesis using get by (auto simp: argument_def)
  next
    case (Some x)
    from again Some have same: "parse fl c ((prune keep) y) = Inr ((prune keep) y)" by simp
    from Some assms(2) have y: "parse fl c x = Inr y" by simp
    show ?thesis
    proof (cases p)
      case If_truthy
      with sound obtain cls req fs where c: "c = Rec (Schema cls req fs)" "sound_schema (Schema cls req fs)"
        by (metis schema.exhaust)
      with y obtain r d' where r: "y = JObj r" "parse_fields fl fs d' = Inr r"
        by (auto simp: sbind_eq_Inr split: json.splits)
      with c parse_fields_keys [OF r(2)] known_keys_kept [OF kept, of r] have "prune_entries keep r \<noteq> []"
        by (auto simp: prune_entries_keys)
      with r have "truthy ((prune keep) y)" by simp
      with If_truthy get same show ?thesis by (simp add: argument_def)
    next
      case Or_empty
      with sound y obtain e where "y = JObj e" by (auto simp: map_object_def sbind_eq_Inr)
      with Or_empty sound get same show ?thesis
        by (cases "prune_entries keep e") (auto simp: argument_def py_or_def map_object_def py_items_def map_values_def)
    qed (use D get same in \<open>auto simp: argument_def subscript_def\<close>)
  qed
qed

lemma parse_again:
  assumes kept: "keeps keep"
  shows
  "parse fl c v = Inr w \<Longrightarrow> sound_conv c \<Longrightarrow> parse fl c ((prune keep) w) = Inr ((prune keep) w)"
  "parse_schema fl s v = Inr w \<Longrightarrow> sound_schema s \<Longrightarrow> parse_schema fl s ((prune keep) w) = Inr ((prune keep) w)"
  "parse_fields fl fs d = Inr r \<Longrightarrow> sound_fields fs \<Longrightarrow> list_all (\<lambda>(k, y). dget D k = Some ((prune keep) y)) r
     \<Longrightarrow> parse_fields fl fs D = Inr (map (\<lambda>(k, y). (k, (prune keep) y)) r)"
proof (induction fl c v and fl s v and fl fs d arbitrary: w and w and r D rule: parse_parse_schema_parse_fields.induct)
  case (5 fl v)
  then show ?case using float_idem by fastforce
next
  case (8 fl v)
  then show ?case using map_object_prune [of "float_of_json fl" v w "float_of_json fl"] float_idem by fastforce
next
  case (10 fl s v)
  then show ?case using map_array_prune [of "parse_schema fl s" v w "parse_schema fl s"] by simp
next
  case (11 fl s v)
  let ?f = "\<lambda>x. if x = JNull then Inr JNull else parse_schema fl s x"
  have "?f ((prune keep) y) = Inr ((prune keep) y)" if "?f x = Inr y" for x y
    using 11 that by (auto split: if_splits)
  with map_array_prune [of ?f v w ?f] 11 show ?case by simp
next
  case (12 fl s v)
  then show ?case using map_object_prune [of "parse_schema fl s" v w "parse_schema fl s"] by simp
next
  case (13 fl cls req fs v)
  then obtain d r where r: "v = JObj d" "parse_fields fl fs d = Inr r" "w = JObj r"
    by (auto simp: sbind_eq_Inr split: json.splits)
  note keys = parse_fields_keys [OF r(2)]
  from 13 keys known_keys_kept [OF kept, of r]
  have plain: "prune_entries keep r = map (\<lambda>(k, y). (k, (prune keep) y)) r" by (simp add: prune_entries_keys)
  then have names: "dkeys (prune_entries keep r) = map fst fs" using keys by (simp add: comp_def case_prod_beta)
  have "list_all (\<lambda>(k, y). dget (prune_entries keep r) k = Some ((prune keep) y)) r"
    using 13 keys names unfolding plain by (auto simp: list_all_iff comp_def case_prod_beta intro!: map_of_is_SomeI)
  with 13 r have "parse_fields fl fs (prune_entries keep r) = Inr (prune_entries keep r)" unfolding plain by simp
  with require_present [of req "prune_entries keep r" cls] 13 names r show ?case by simp
next
  case (15 fl k p c fs d)
  then obtain a y r' where a: "argument p d k = Inr a" "(case a of None \<Rightarrow> Inr JNull | Some x \<Rightarrow> parse fl c x) = Inr y"
    "parse_fields fl fs d = Inr r'" "r = (k, y) # r'"
    by (auto simp: sbind_eq_Inr)
  have same: "parse fl c ((prune keep) y) = Inr ((prune keep) y)" if "a \<noteq> None"
    using 15 a that by auto
  have "p = If_truthy \<longrightarrow> (\<exists>s. c = Rec s \<and> sound_schema s)" "p = Or_empty \<longrightarrow> c = Float_dict"
    "dget D k = Some ((prune keep) y)" using 15 a by (auto split: conv.splits)
  from argument_prune [OF a(1,2) same this(1,2) kept this(3)] obtain a' where
    "argument p D k = Inr a' \<and> (case a' of None \<Rightarrow> Inr JNull | Some x \<Rightarrow> parse fl c x) = Inr ((prune keep) y)" by blast
  moreover have "parse_fields fl fs D = Inr (map (\<lambda>(k, y). (k, (prune keep) y)) r')" using 15 a by auto
  ultimately show ?case using a by simp
qed (auto simp: sbind_eq_Inr py_iter_def py_dict_def int_of_json_def split: json.splits)

lemma prune_idem [simp]: "prune keep (prune keep v) = prune keep v"
proof (induction keep v rule: prune.induct)
  case (1 keep d)
  then show ?case by (auto simp: prune_entries_def filter_map comp_def split_def intro!: map_cong)
qed (simp_all add: comp_def)

lemma prune_entries_idem [simp]: "prune_entries keep (prune_entries keep d) = prune_entries keep d"
  using prune_idem [of keep "JObj d"] by (simp only: prune_jobj json.inject)

lemma prune_entries_Cons:
  "prune_entries keep ((k, v) # d) = (if keep k then (k, prune keep v) # prune_entries keep d else prune_entries keep d)"
  by (simp add: prune_entries_def)

lemma prune_entries_append: "prune_entries keep (d @ e) = prune_entries keep d @ prune_entries keep e"
  by (simp add: prune_entries_def)

lemma classes_sound:
  "sound_fields (schema_fields SnapshotMetadata)" "sound_fields STATE_FIELDS"
  by code_simp+

text \<open>A class with further entries: what was parsed, without its unknown fields, parses again.\<close>

lemma fields_again:
  assumes "parse_fields fl fs d = Inr r" "sound_fields fs" "''unknown_fields'' \<notin> set (map fst fs)" "distinct (map fst fs)"
    and kept: "keeps keep" and D: "\<And>k. k \<in> set (map fst fs) \<Longrightarrow> dget D k = dget (prune_entries keep r) k"
  shows "parse_fields fl fs D = Inr (prune_entries keep r)"
proof -
  note keys = parse_fields_keys [OF assms(1)]
  have plain: "prune_entries keep r = map (\<lambda>(k, y). (k, (prune keep) y)) r"
    using assms(3) keys known_keys_kept [OF kept, of r] by (simp add: prune_entries_keys)
  have "dget D k = Some ((prune keep) y)" if "(k, y) \<in> set r" for k y
  proof -
    from that have "k \<in> set (map fst fs)" "k \<noteq> ''unknown_fields''" "dget r k = Some y"
      using keys assms(3,4) by (auto simp flip: keys intro: map_of_is_SomeI rev_image_eqI simp del: map_of_eq_Some_iff)
    then show ?thesis using D dget_prune [of keep k r] kept by (simp add: keeps_def known_key_def)
  qed
  then show ?thesis using parse_again(3) [OF kept assms(1,2), of D] plain by (auto simp: list_all_iff)
qed

abbreviation strip_entries :: "(string, json) dict \<Rightarrow> (string, json) dict" where
  "strip_entries d \<equiv> prune_entries known_key d"

lemma strip_simps [simp]: "strip_unknown (JObj d) = JObj (strip_entries d)" "strip_unknown (strip_unknown v) = strip_unknown v"
  "known_key k \<longleftrightarrow> k \<noteq> ''unknown_fields''"
  by (simp_all add: strip_unknown_def known_key_def)

lemma metadata_again:
  assumes "metadata_from_dict fl v = Inr m"
  shows "\<exists>r. m = JObj (r @ [(''unknown_fields'', attr m ''unknown_fields'')])
    \<and> metadata_from_dict fl (strip_unknown m) = Inr (JObj (strip_entries r @ [(''unknown_fields'', JObj [])]))
    \<and> ''unknown_fields'' \<notin> set (dkeys r)"
proof -
  from assms obtain d r u where r: "parse_fields fl (schema_fields SnapshotMetadata) d = Inr r" "m = JObj (r @ [(''unknown_fields'', JObj u)])"
    and c: "one_of d ''SchemaVersion'' ''unknown SnapshotMetadata.SchemaVersion='' KNOWN_SCHEMA_VERSIONS = Inr ()"
      "one_of d ''Completeness'' ''unrecognized Completeness='' COMPLETENESS_VALUES = Inr ()"
      "one_of d ''CaptureBoundary'' ''unrecognized CaptureBoundary='' CAPTURE_BOUNDARY_VALUES = Inr ()"
    by (auto simp: metadata_from_dict_def sbind_eq_Inr split: json.splits)
  note keys = parse_fields_keys [OF r(1)]
  have names: "''unknown_fields'' \<notin> set (dkeys r)" "distinct (map fst (schema_fields SnapshotMetadata))"
    "set (schema_required SnapshotMetadata) \<subseteq> set (dkeys r)"
    "set (dkeys r) \<subseteq> set (schema_required SnapshotMetadata @ [''CombatSessionId'', ''ContinuationStepIndex'', ''EmulatorCommit''])"
    unfolding keys by code_simp+
  have kept: "dget r k = dget d k" if "k \<in> {''SchemaVersion'', ''Completeness'', ''CaptureBoundary''}" for k
    using r(1) that by (auto simp: SnapshotMetadata_def sbind_eq_Inr argument_def subscript_def split: option.splits)
  have same: "one_of (strip_entries r) k t a = Inr ()"
    if "one_of d k t a = Inr ()" "k \<in> {''SchemaVersion'', ''Completeness'', ''CaptureBoundary''}" for k t a
    using that kept [OF that(2)] dget_prune [of known_key k r]
    by (auto simp: one_of_def subscript_def sbind_eq_Inr snapshot_error_def split: option.splits if_splits)
  have sk: "dkeys (strip_entries r) = dkeys r" by (rule prune_dkeys [OF known_keys_kept [OF keeps_known names(1)]])
  have "require_keys (JObj (strip_entries r)) (schema_required SnapshotMetadata) ''SnapshotMetadata'' = Inr ()"
    using names(3) by (intro require_present) (simp only: sk)
  moreover have "unknown_entries (strip_entries r) (schema_required SnapshotMetadata
      @ [''CombatSessionId'', ''ContinuationStepIndex'', ''EmulatorCommit'']) = []"
    using names(4) by (fastforce simp: unknown_entries_def filter_empty_conv simp flip: sk)
  moreover have "parse_fields fl (schema_fields SnapshotMetadata) (strip_entries r) = Inr (strip_entries r)"
    using names keys by (intro fields_again [OF r(1) classes_sound(1)]) simp_all
  moreover have "strip_unknown m = JObj (strip_entries r)" using r(2) by (simp add: prune_entries_append prune_entries_Cons) (simp add: prune_entries_def)
  moreover have "attr m ''unknown_fields'' = JObj u"
    using names(1) r(2) by (simp add: attr_def jget_def map_add_def dget_None_iff [THEN iffD2])
  ultimately show ?thesis using names(1) r(2) same c by (simp add: metadata_from_dict_def)
qed

lemma jget_last: "k \<notin> set (dkeys d) \<Longrightarrow> jget (d @ [(k, v)]) k = v"
  by (simp add: jget_def map_add_def dget_None_iff [THEN iffD2])

lemma snapshot_again:
  assumes "snapshot_from_dict fl v = Inr s"
  obtains s' where "snapshot_from_dict fl (strip_unknown (JObj s)) = Inr s'" "strip_entries s' = strip_entries s"
    "jget s' ''unknown_fields'' = JObj []" "attr (jget s' ''Metadata'') ''unknown_fields'' = JObj []"
proof -
  from assms obtain d m meta r u where m: "metadata_from_dict fl m = Inr meta" and r: "parse_fields fl STATE_FIELDS d = Inr r"
    and s: "s = (''Metadata'', meta) # r @ [(''unknown_fields'', JObj u)]"
    by (auto simp: snapshot_from_dict_def sbind_eq_Inr split: json.splits)
  from metadata_again [OF m] obtain rm where meta: "meta = JObj (rm @ [(''unknown_fields'', attr meta ''unknown_fields'')])"
    and rm: "metadata_from_dict fl (strip_unknown meta) = Inr (JObj (strip_entries rm @ [(''unknown_fields'', JObj [])]))"
    "''unknown_fields'' \<notin> set (dkeys rm)" by blast
  have stripped: "strip_unknown meta = JObj (strip_entries rm)"
    by (subst meta) (simp add: prune_entries_append prune_entries_Cons, simp add: prune_entries_def)
  note keys = parse_fields_keys [OF r]
  have names: "''unknown_fields'' \<notin> set (dkeys r)" "''Metadata'' \<notin> set (dkeys r)" "distinct (map fst STATE_FIELDS)"
    "set STATE_REQUIRED \<subseteq> insert ''Metadata'' (set (dkeys r))" "set (dkeys r) \<subseteq> set (STATE_REQUIRED @ [''PendingChoice''])"
    unfolding keys by code_simp+
  have sk: "dkeys (strip_entries r) = dkeys r" by (rule prune_dkeys [OF known_keys_kept [OF keeps_known names(1)]])
  have rk: "''unknown_fields'' \<notin> set (dkeys (strip_entries rm))"
    using rm(2) prune_dkeys [OF known_keys_kept [OF keeps_known rm(2)]] by simp
  let ?D = "(''Metadata'', strip_unknown meta) # strip_entries r"
  have D: "strip_entries s = ?D" using s by (simp add: prune_entries_Cons prune_entries_append strip_unknown_def) (simp add: prune_entries_def)
  have "require_keys (JObj ?D) STATE_REQUIRED ''CombatStateSnapshot'' = Inr ()"
    using names(4) by (intro require_present) (simp only: list.map fst_conv list.set sk)
  moreover have "subscript ?D ''Metadata'' = Inr (strip_unknown meta)" by (simp add: subscript_def)
  moreover have "parse_fields fl STATE_FIELDS ?D = Inr (strip_entries r)"
  proof (rule fields_again [OF r classes_sound(2) _ names(3)])
    show "''unknown_fields'' \<notin> set (map fst STATE_FIELDS)" using names(1) unfolding keys .
    fix k assume "k \<in> set (map fst STATE_FIELDS)"
    with names(2) have "k \<noteq> ''Metadata''" by (metis keys)
    then show "dget ?D k = dget (strip_entries r) k" by simp
  qed simp
  moreover have "unknown_entries ?D (STATE_REQUIRED @ [''PendingChoice'']) = []"
  proof -
    have "unknown_entries (strip_entries r) (STATE_REQUIRED @ [''PendingChoice'']) = []"
      using names(5) by (fastforce simp: unknown_entries_def filter_empty_conv simp flip: sk)
    then show ?thesis by (simp add: unknown_entries_def STATE_REQUIRED_def)
  qed
  ultimately have parsed: "snapshot_from_dict fl (strip_unknown (JObj s))
      = Inr ((''Metadata'', JObj (strip_entries rm @ [(''unknown_fields'', JObj [])])) # strip_entries r @ [(''unknown_fields'', JObj [])])"
    using rm(1) D by (simp add: snapshot_from_dict_def)
  show thesis
  proof (rule that [OF parsed])
    show "strip_entries ((''Metadata'', JObj (strip_entries rm @ [(''unknown_fields'', JObj [])])) # strip_entries r @ [(''unknown_fields'', JObj [])])
        = strip_entries s"
      unfolding D using stripped by (simp add: prune_entries_Cons prune_entries_append) (simp add: prune_entries_def)
    show "jget ((''Metadata'', JObj (strip_entries rm @ [(''unknown_fields'', JObj [])])) # strip_entries r @ [(''unknown_fields'', JObj [])]) ''unknown_fields'' = JObj []"
      using names(1) sk jget_last [of "''unknown_fields''" "strip_entries r"] by (simp add: jget_def)
    show "attr (jget ((''Metadata'', JObj (strip_entries rm @ [(''unknown_fields'', JObj [])])) # strip_entries r @ [(''unknown_fields'', JObj [])]) ''Metadata'') ''unknown_fields'' = JObj []"
      using jget_last [OF rk] by (simp add: attr_def) (simp add: jget_def)
  qed
qed

section \<open>What the reference check decides\<close>

text \<open>
  The ids a history value refers to: every text under a key that ends in \<open>InstanceId\<close> and every
  text in a list under a key that ends in \<open>InstanceIds\<close>, in dicts and lists of any depth; the
  items of such a list are not entered.
\<close>

inductive refers :: "json \<Rightarrow> string \<Rightarrow> bool" where
  refers_id: "(k, JStr i) \<in> set d \<Longrightarrow> str_endswith k ''InstanceId'' \<Longrightarrow> refers (JObj d) i"
| refers_ids: "(k, JArr xs) \<in> set d \<Longrightarrow> str_endswith k ''InstanceIds'' \<Longrightarrow> JStr i \<in> set xs \<Longrightarrow> refers (JObj d) i"
| refers_entry: "(k, v) \<in> set d \<Longrightarrow> (\<forall>xs. v = JArr xs \<longrightarrow> \<not> str_endswith k ''InstanceIds'') \<Longrightarrow> refers v i
    \<Longrightarrow> refers (JObj d) i"
| refers_item: "v \<in> set xs \<Longrightarrow> refers v i \<Longrightarrow> refers (JArr xs) i"

inductive_simps refers_obj: "refers (JObj d) i"
inductive_simps refers_arr: "refers (JArr xs) i"
inductive_cases refers_other: "refers (JStr s) i" "refers JNull i" "refers (JBool b) i" "refers (JInt n) i" "refers (JFloat s) i"

lemma set_json_texts: "set (json_texts xs) = {i. JStr i \<in> set xs}"
  by (induction xs rule: json_texts.induct) auto

lemma refers_entry_cases:
  "(case direct_refs k v of Some ids \<Rightarrow> i \<in> set ids | None \<Rightarrow> refers v i) \<longleftrightarrow>
     (v = JStr i \<and> str_endswith k ''InstanceId'')
   \<or> (\<exists>xs. v = JArr xs \<and> str_endswith k ''InstanceIds'' \<and> JStr i \<in> set xs)
   \<or> ((\<forall>xs. v = JArr xs \<longrightarrow> \<not> str_endswith k ''InstanceIds'') \<and> refers v i)"
  by (cases v) (auto simp: direct_refs_def set_json_texts elim: refers_other)

lemma refers_Cons:
  "refers (JObj ((k, v) # d)) i \<longleftrightarrow> (case direct_refs k v of Some ids \<Rightarrow> i \<in> set ids | None \<Rightarrow> refers v i) \<or> refers (JObj d) i"
  unfolding refers_entry_cases refers_obj by auto

lemma walk_refers:
  "i \<in> snd ` set (walk_instance_id_refs v path) \<longleftrightarrow> refers v i"
  "i \<in> snd ` set (walk_entries d path) \<longleftrightarrow> refers (JObj d) i"
  "i \<in> snd ` set (walk_items n xs path) \<longleftrightarrow> refers (JArr xs) i"
proof (induction v path and d path and n xs path rule: walk_instance_id_refs_walk_entries_walk_items.induct)
  case (5 k v d path)
  then show ?case by (cases "direct_refs k v") (auto simp: refers_Cons image_image image_Un)
qed (auto simp: refers_obj refers_arr image_Un elim: refers_other)

text \<open>
  The ids a snapshot defines, with repetitions, and those it refers to, by the attributes of its
  objects and up to the equality of Python values.  The card attributes \<open>CloneOfInstanceId\<close> and
  \<open>DeckVersionInstanceId\<close>, and the ids of inferred removals and unsupported fields, are no part of this.
\<close>

definition ids_of :: "json list \<Rightarrow> json list" where
  "ids_of values = map num_key (filter (\<lambda>v. v \<noteq> JNull) values)"

definition creatures :: "(string, json) dict \<Rightarrow> json list" where
  "creatures s = list_attr (jget s ''Player'') ''Pets'' @ elements (jget s ''Enemies'')"

definition all_powers :: "(string, json) dict \<Rightarrow> json list" where
  "all_powers s = list_attr (jget s ''Player'') ''Powers'' @ concat (map (\<lambda>c. list_attr c ''Powers'') (creatures s))"

definition defined_ids :: "(string, json) dict \<Rightarrow> json list" where
  "defined_ids s = (let p = jget s ''Player'' in ids_of
     ([attr p ''InstanceId'', attr p ''CreatureInstanceId'']
      @ map (\<lambda>x. attr x ''InstanceId'')
          (list_attr p ''CardInstances'' @ list_attr p ''Relics'' @ filter (\<lambda>x. x \<noteq> JNull) (list_attr p ''Potions'')
           @ list_attr p ''Orbs'' @ creatures s @ all_powers s)))"

definition referred_ids :: "(string, json) dict \<Rightarrow> json set" where
  "referred_ids s = (let rng = jget s ''Rng''; entries = list_attr (jget s ''CombatHistory'') ''Entries'' in
     set (ids_of
       (concat (map (\<lambda>k. map (\<lambda>w. attr w k) (all_powers s))
          [''OwnerInstanceId'', ''ApplierInstanceId'', ''TargetInstanceId'', ''AssociatedCardInstanceId''])
        @ map (\<lambda>x. attr x ''OwnerInstanceId'')
            (list_attr (jget s ''Player'') ''Pets'' @ list_attr rng ''MonsterRng'' @ list_attr rng ''PlayerRng'')
        @ map (\<lambda>e. attr e ''ActorInstanceId'') entries))
     \<union> {JStr i | i. list_ex (\<lambda>e. refers (attr e ''Fields'') i) entries})"

text \<open>What the sites of the code hold, as the specification lists it.\<close>

definition ids_at :: "site list \<Rightarrow> json list" where
  "ids_at sites = ids_of (map snd sites)"

lemma ids_of_append [simp]: "ids_of (xs @ ys) = ids_of xs @ ids_of ys"
  by (simp add: ids_of_def)

lemma read_ids_at: "read_ids sites = Inr r \<Longrightarrow> map (num_key \<circ> snd) r = ids_at sites"
  by (induction sites arbitrary: r rule: read_ids.induct)
    (auto simp: ids_at_def ids_of_def sbind_eq_Inr hashed_def split: if_splits)

lemma snd_for_items:
  assumes "\<And>path x. map snd (f path x) = g x"
  shows "map snd (for_items f path xs) = concat (map g xs)"
proof -
  have "map snd (concat (map (\<lambda>(i, x). f (item_path path i) x) ys)) = concat (map (g \<circ> snd) ys)" for ys :: "(nat \<times> json) list"
    by (induction ys) (auto simp: assms)
  then show ?thesis by (simp add: for_items_def flip: map_map)
qed

lemma snd_own: "map snd (own_id path x) = [attr x ''InstanceId'']"
  by (simp add: own_id_def site_def)

lemma snd_owner: "map snd (owner_ref path x) = [attr x ''OwnerInstanceId'']"
  by (simp add: owner_ref_def site_def)

lemma snd_power: "map snd (power_refs path x) =
    map (attr x) [''OwnerInstanceId'', ''ApplierInstanceId'', ''TargetInstanceId'', ''AssociatedCardInstanceId'']"
  by (simp add: power_refs_def site_def comp_def)

lemma definition_sites_ids: "mset (ids_at (definition_sites s)) = mset (defined_ids s)"
proof -
  have own: "map snd (for_items own_id path xs) = map (\<lambda>x. attr x ''InstanceId'') xs" for path xs
    by (subst snd_for_items [where g = "\<lambda>x. [attr x ''InstanceId'']"]) (simp_all add: snd_own)
  have potion: "map snd (for_items (\<lambda>path v. if v = JNull then [] else own_id path v) path xs)
      = map (\<lambda>x. attr x ''InstanceId'') (filter (\<lambda>x. x \<noteq> JNull) xs)" for path xs
  proof -
    have "concat (map (\<lambda>v. if v = JNull then [] else [attr v ''InstanceId'']) xs)
        = map (\<lambda>x. attr x ''InstanceId'') (filter (\<lambda>x. x \<noteq> JNull) xs)" by (induction xs) auto
    then show ?thesis
      by (subst snd_for_items [where g = "\<lambda>v. if v = JNull then [] else [attr v ''InstanceId'']"]) (simp_all add: snd_own)
  qed
  have with_powers: "mset (map snd (for_items (\<lambda>path v. own_id path v @ for_items own_id (path @ ''.Powers'') (list_attr v ''Powers'')) path xs))
      = mset (map (\<lambda>x. attr x ''InstanceId'') (xs @ concat (map (\<lambda>c. list_attr c ''Powers'') xs)))" for path xs
  proof -
    have "mset (concat (map (\<lambda>v. attr v ''InstanceId'' # map (\<lambda>x. attr x ''InstanceId'') (list_attr v ''Powers'')) xs))
      = mset (map (\<lambda>x. attr x ''InstanceId'') (xs @ concat (map (\<lambda>c. list_attr c ''Powers'') xs)))"
      by (induction xs) simp_all
    then show ?thesis
      by (subst snd_for_items [where g = "\<lambda>v. attr v ''InstanceId'' # map (\<lambda>x. attr x ''InstanceId'') (list_attr v ''Powers'')"])
        (simp_all add: snd_own own)
  qed
  have ids: "mset (ids_of xs) = image_mset num_key (filter_mset (\<lambda>v. v \<noteq> JNull) (mset xs))" for xs
    by (simp add: ids_of_def mset_filter)
  have "mset (map snd (definition_sites s)) = mset ([attr (jget s ''Player'') ''InstanceId'', attr (jget s ''Player'') ''CreatureInstanceId'']
      @ map (\<lambda>x. attr x ''InstanceId'')
          (list_attr (jget s ''Player'') ''CardInstances'' @ list_attr (jget s ''Player'') ''Relics''
           @ filter (\<lambda>x. x \<noteq> JNull) (list_attr (jget s ''Player'') ''Potions'')
           @ list_attr (jget s ''Player'') ''Orbs'' @ creatures s @ all_powers s))"
    unfolding definition_sites_def Let_def creatures_def all_powers_def map_append mset_append own potion with_powers
    by (simp add: site_def)
  then show ?thesis unfolding ids_at_def defined_ids_def Let_def ids by (simp only:)
qed

lemma set_attributes:
  "set (concat (map (\<lambda>x. map (attr x) ks) xs)) = (\<Union>x \<in> set xs. attr x ` set ks)"
  "set (concat (map (\<lambda>k. map (\<lambda>w. attr w k) xs) ks)) = (\<Union>x \<in> set xs. attr x ` set ks)"
  by auto

lemma set_with_owner:
  "set (concat (map (\<lambda>v. attr v k # f v) xs)) = set (map (\<lambda>v. attr v k) xs) \<union> (\<Union>v \<in> set xs. set (f v))"
  "set (concat (map f xs)) = (\<Union>v \<in> set xs. set (f v))"
  by auto

lemma set_all_powers:
  "set (all_powers s) = set (list_attr (jget s ''Player'') ''Powers'')
     \<union> (\<Union>v \<in> set (list_attr (jget s ''Player'') ''Pets''). set (list_attr v ''Powers''))
     \<union> (\<Union>v \<in> set (elements (jget s ''Enemies'')). set (list_attr v ''Powers''))"
  by (auto simp: all_powers_def creatures_def)

lemma direct_sites_ids:
  "set (ids_at (direct_sites s)) = set (ids_of
       (concat (map (\<lambda>k. map (\<lambda>w. attr w k) (all_powers s))
          [''OwnerInstanceId'', ''ApplierInstanceId'', ''TargetInstanceId'', ''AssociatedCardInstanceId''])
        @ map (\<lambda>x. attr x ''OwnerInstanceId'')
            (list_attr (jget s ''Player'') ''Pets'' @ list_attr (jget s ''Rng'') ''MonsterRng'' @ list_attr (jget s ''Rng'') ''PlayerRng'')))"
proof -
  let ?refs = "\<lambda>x. map (attr x) [''OwnerInstanceId'', ''ApplierInstanceId'', ''TargetInstanceId'', ''AssociatedCardInstanceId'']"
  have power: "map snd (for_items power_refs path xs) = concat (map ?refs xs)" for path xs
    by (rule snd_for_items) (rule snd_power)
  have owner: "map snd (for_items owner_ref path xs) = map (\<lambda>x. attr x ''OwnerInstanceId'') xs" for path xs
    by (subst snd_for_items [where g = "\<lambda>x. [attr x ''OwnerInstanceId'']"]) (simp_all add: snd_owner)
  have pets: "map snd (for_items (\<lambda>path v. owner_ref path v @ for_items power_refs (path @ ''.Powers'') (list_attr v ''Powers'')) path xs)
      = concat (map (\<lambda>v. attr v ''OwnerInstanceId'' # concat (map ?refs (list_attr v ''Powers''))) xs)" for path xs
    by (rule snd_for_items) (simp only: map_append snd_owner power append.simps)
  have enemies: "map snd (for_items (\<lambda>path v. for_items power_refs (path @ ''.Powers'') (list_attr v ''Powers'')) path xs)
      = concat (map (\<lambda>v. concat (map ?refs (list_attr v ''Powers''))) xs)" for path xs
    by (rule snd_for_items) (rule power)
  have "set (map snd (direct_sites s)) = set (concat (map (\<lambda>k. map (\<lambda>w. attr w k) (all_powers s))
          [''OwnerInstanceId'', ''ApplierInstanceId'', ''TargetInstanceId'', ''AssociatedCardInstanceId''])
        @ map (\<lambda>x. attr x ''OwnerInstanceId'')
            (list_attr (jget s ''Player'') ''Pets'' @ list_attr (jget s ''Rng'') ''MonsterRng'' @ list_attr (jget s ''Rng'') ''PlayerRng''))"
    unfolding direct_sites_def Let_def map_append power owner pets enemies set_append set_with_owner(1)
      set_with_owner(2) [of "\<lambda>v. concat (map ?refs (list_attr v ''Powers''))"] set_attributes set_all_powers UN_Un UN_UN_flatten
    by (simp only: Un_ac)
  then show ?thesis unfolding ids_at_def ids_of_def by (simp only: set_map set_filter)
qed

lemma distinct_counts: "distinct xs \<longleftrightarrow> (\<forall>i. count_list xs i \<le> 1)"
proof (induction xs)
  case (Cons x xs)
  have "(\<forall>i. count_list (x # xs) i \<le> 1) \<longleftrightarrow> count_list xs x = 0 \<and> (\<forall>i. count_list xs i \<le> 1)" (is "?l \<longleftrightarrow> ?r")
  proof
    assume l: ?l
    have "count_list xs i \<le> 1" for i using spec [OF l, of i] by (simp split: if_splits)
    with spec [OF l, of x] show ?r by simp
  qed simp
  then have "(\<forall>i. count_list (x # xs) i \<le> 1) \<longleftrightarrow> x \<notin> set xs \<and> (\<forall>i. count_list xs i \<le> 1)" by (simp only: count_list_0_iff)
  with Cons show ?case by simp
qed simp

text \<open>The dict of paths: its keys are the ids, and an id has several paths exactly when it is repeated.\<close>

definition paths_of :: "known_ids \<Rightarrow> json \<Rightarrow> string list" where
  "paths_of known i = (case dget known i of None \<Rightarrow> [] | Some (j, ps) \<Rightarrow> ps)"

definition counts_ids :: "known_ids \<Rightarrow> json list \<Rightarrow> bool" where
  "counts_ids known ids \<longleftrightarrow> distinct (dkeys known) \<and> set (dkeys known) = set ids
     \<and> (\<forall>i. length (paths_of known i) = count_list ids i)"

lemma add_known_paths:
  "length (paths_of (add_known known (path, i)) j) = length (paths_of known j) + (if num_key i = j then 1 else 0)"
  by (auto simp: paths_of_def add_known_def split: option.splits)

lemma add_known_counts:
  "counts_ids known ids \<Longrightarrow> counts_ids (foldl add_known known defs) (ids @ map (num_key \<circ> snd) defs)"
proof (induction defs arbitrary: known ids)
  case (Cons e defs)
  obtain path i where e: "e = (path, i)" by (cases e)
  have "set (dkeys (add_known known e)) = insert (num_key i) (set (dkeys known))" "distinct (dkeys (add_known known e))"
    unfolding e add_known_def split_conv set_dkeys_dset using Cons.prems by (simp_all add: counts_ids_def)
  moreover have "length (paths_of (add_known known e) j) = count_list (ids @ [num_key i]) j" for j
    using Cons.prems by (simp add: e add_known_paths counts_ids_def)
  ultimately have "counts_ids (add_known known e) (ids @ [num_key i])"
    using Cons.prems by (simp add: counts_ids_def)
  from Cons.IH [OF this] e show ?case by simp
qed (simp add: counts_ids_def)

lemma known_ids:
  assumes "collect_known_instance_ids s = Inr known"
  shows "set (dkeys known) = set (defined_ids s)"
    and "filter (\<lambda>(k, j, paths). 1 < length paths) known = [] \<longleftrightarrow> distinct (defined_ids s)"
proof -
  from assms obtain defs where "read_ids (definition_sites s) = Inr defs" "known = foldl add_known [] defs"
    by (auto simp: collect_known_instance_ids_def sbind_eq_Inr)
  with add_known_counts [of "[]" "[]" defs] read_ids_at [of "definition_sites s" defs]
  have c: "counts_ids known (ids_at (definition_sites s))" by (simp add: counts_ids_def paths_of_def)
  note same = definition_sites_ids [of s]
  from c mset_eq_setD [OF same] show "set (dkeys known) = set (defined_ids s)" by (simp add: counts_ids_def)
  have "filter (\<lambda>(k, j, paths). 1 < length paths) known = [] \<longleftrightarrow> (\<forall>i. length (paths_of known i) \<le> 1)"
  proof
    assume f: "filter (\<lambda>(k, j, paths). 1 < length paths) known = []"
    show "\<forall>i. length (paths_of known i) \<le> 1"
    proof
      fix i
      show "length (paths_of known i) \<le> 1"
      proof (cases "dget known i")
        case (Some x)
        then have "(i, x) \<in> set known" by (rule map_of_SomeD)
        with f Some show ?thesis by (cases x) (auto simp: filter_empty_conv paths_of_def)
      qed (simp add: paths_of_def)
    qed
  next
    assume l: "\<forall>i. length (paths_of known i) \<le> 1"
    have "length ps \<le> 1" if "(i, j, ps) \<in> set known" for i j ps
    proof -
      from that c have "dget known i = Some (j, ps)" by (auto simp: counts_ids_def)
      with spec [OF l, of i] show ?thesis by (simp add: paths_of_def)
    qed
    then show "filter (\<lambda>(k, j, paths). 1 < length paths) known = []" by (fastforce simp: filter_empty_conv)
  qed
  also have "\<dots> \<longleftrightarrow> distinct (ids_at (definition_sites s))"
    using c by (simp add: counts_ids_def distinct_counts)
  also have "\<dots> \<longleftrightarrow> distinct (defined_ids s)" using same by (rule mset_eq_imp_distinct_iff)
  finally show "filter (\<lambda>(k, j, paths). 1 < length paths) known = [] \<longleftrightarrow> distinct (defined_ids s)" .
qed

section \<open>Attributes of parsed objects\<close>

definition field_value :: "float_env \<Rightarrow> string \<times> presence \<times> conv \<Rightarrow> (string, json) dict \<Rightarrow> json res" where
  "field_value fl f d = (case f of (k, p, c) \<Rightarrow>
     sbind (argument p d k) (\<lambda>a. case a of None \<Rightarrow> Inr JNull | Some x \<Rightarrow> parse fl c x))"

lemma jget_head: "jget ((k', v) # d) k = (if k' = k then v else jget d k)"
  by (simp add: jget_def)

text \<open>An attribute of the result is the value of its field.\<close>

lemma parsed_attribute:
  "parse_fields fl fs d = Inr r \<Longrightarrow> distinct (map fst fs) \<Longrightarrow> f \<in> set fs \<Longrightarrow> field_value fl f d = Inr (jget r (fst f))"
proof (induction fs arbitrary: r)
  case (Cons g fs)
  obtain k p c where g: "g = (k, p, c)" by (cases g)
  from Cons.prems(1) obtain y r' where r: "field_value fl g d = Inr y" "parse_fields fl fs d = Inr r'" "r = (k, y) # r'"
    by (auto simp: g field_value_def sbind_eq_Inr)
  show ?case
  proof (cases "f = g")
    case False
    with Cons.prems g have "f \<in> set fs" "fst f \<noteq> k" by auto
    with Cons.IH [OF r(2)] Cons.prems(2) r(3) show ?thesis by (simp add: jget_head)
  qed (use r g in \<open>simp add: jget_head\<close>)
qed simp

lemma parsed_object:
  assumes "parse_schema fl (Schema cls req fs) v = Inr w" "distinct (map fst fs)"
  obtains d r where "v = JObj d" "w = JObj r" "dkeys r = map fst fs" "parse_fields fl fs d = Inr r"
    "\<And>f. f \<in> set fs \<Longrightarrow> field_value fl f d = Inr (attr w (fst f))"
proof -
  from assms(1) obtain d r where r: "v = JObj d" "w = JObj r" "parse_fields fl fs d = Inr r"
    by (auto simp: sbind_eq_Inr split: json.splits)
  show thesis
    using that [OF r(1,2) parse_fields_keys [OF r(3)] r(3)] parsed_attribute [OF r(3) assms(2)] r(2) by (simp add: attr_def)
qed

text \<open>A value that a class reads as itself, and what keeps it so.\<close>

definition stable :: "float_env \<Rightarrow> schema \<Rightarrow> json \<Rightarrow> bool" where
  "stable fl s v \<longleftrightarrow> parse_schema fl s v = Inr v"

lemma parsed_stable: "parse_schema fl s v = Inr w \<Longrightarrow> sound_schema s \<Longrightarrow> keeps keep \<Longrightarrow> stable fl s (prune keep w)"
  unfolding stable_def by (rule parse_again(2))

lemma stable_array: "list_all (stable fl s) xs \<Longrightarrow> map_array (parse_schema fl s) (JArr xs) = Inr (JArr xs)"
  by (simp add: map_array_def py_iter_def stable_def list_all_iff map_res_fixed)

lemma parse_fields_eqI:
  "list_all (\<lambda>f. field_value fl f d = Inr (jget r (fst f))) fs \<Longrightarrow>
   parse_fields fl fs d = Inr (map (\<lambda>f. (fst f, jget r (fst f))) fs)"
proof (induction fs)
  case (Cons f fs)
  then show ?case by (cases f) (auto simp: field_value_def sbind_eq_Inr)
qed simp

lemma dict_by_keys: "distinct (dkeys r) \<Longrightarrow> map (\<lambda>k. (k, jget r k)) (dkeys r) = r"
proof (induction r)
  case (Cons kv r)
  have "map (\<lambda>k. (k, jget (kv # r) k)) (dkeys r) = map (\<lambda>k. (k, jget r k)) (dkeys r)"
    using Cons.prems by (intro map_cong refl) (cases kv, auto simp: jget_head rev_image_eqI)
  with Cons show ?case by (cases kv) (simp add: jget_head)
qed simp

lemma field_value_other: "k \<noteq> fst f \<Longrightarrow> field_value fl f (dset k w d) = field_value fl f d"
  by (cases f) (auto simp: field_value_def argument_def subscript_def split: presence.splits)

lemma stable_update:
  assumes "stable fl (Schema cls req fs) (JObj d)" "sound_schema (Schema cls req fs)" "(k, p, c) \<in> set fs"
    and w: "parse fl c w = Inr w" "p = Required \<or> p = If_not_none \<and> w \<noteq> JNull"
  shows "stable fl (Schema cls req fs) (JObj (dset k w d))"
proof -
  have dist: "distinct (map fst fs)" using assms(2) by simp
  from assms(1) have again: "parse_fields fl fs d = Inr d" by (auto simp: stable_def sbind_eq_Inr)
  note keys = parse_fields_keys [OF again]
  note val = parsed_attribute [OF again dist]
  have k: "k \<in> set (dkeys d)" using assms(3) keys by force
  then have keys': "dkeys (dset k w d) = map fst fs" using keys by (simp add: dkeys_dset del: list.set_map)
  have "field_value fl f (dset k w d) = Inr (jget (dset k w d) (fst f))" if f: "f \<in> set fs" for f
  proof (cases "fst f = k")
    case True
    with f assms(3) dist have "f = (k, p, c)" by (metis eq_key_imp_eq_value prod.collapse)
    with w show ?thesis by (auto simp: field_value_def argument_def subscript_def)
  next
    case False
    with val [OF f] show ?thesis by (simp add: field_value_other)
  qed
  then have "parse_fields fl fs (dset k w d) = Inr (map (\<lambda>f. (fst f, jget (dset k w d) (fst f))) fs)"
    by (intro parse_fields_eqI) (simp add: list_all_iff)
  also have "map (\<lambda>f. (fst f, jget (dset k w d) (fst f))) fs = dset k w d"
    using dict_by_keys [of "dset k w d"] dist keys' by (metis (no_types, lifting) map_map comp_def map_eq_conv)
  finally have "parse_fields fl fs (dset k w d) = Inr (dset k w d)" .
  moreover have "require_keys (JObj (dset k w d)) req cls = Inr ()"
    using assms(2) keys' by (intro require_present) simp
  ultimately show ?thesis by (simp add: stable_def)
qed

lemma state_attribute:
  assumes "snapshot_from_dict fl (JObj d) = Inr s" "f \<in> set STATE_FIELDS"
  shows "field_value fl f d = Inr (jget s (fst f))"
proof -
  from assms(1) obtain meta r u where r: "parse_fields fl STATE_FIELDS d = Inr r"
    "s = (''Metadata'', meta) # r @ [(''unknown_fields'', JObj u)]"
    by (auto simp: snapshot_from_dict_def sbind_eq_Inr)
  have names: "distinct (map fst STATE_FIELDS)" "''Metadata'' \<notin> set (map fst STATE_FIELDS)" by code_simp+
  have "fst f \<in> set (dkeys r)" "fst f \<noteq> ''Metadata''"
    using assms(2) names(2) unfolding parse_fields_keys [OF r(1)] by (force, metis imageI list.set_map)
  then have "jget s (fst f) = jget r (fst f)"
    using r(2) dget_iff_dkeys [of r "fst f"] by (auto simp: jget_def map_add_def)
  with parsed_attribute [OF r(1) names(1) assms(2)] show ?thesis by simp
qed

lemma dangling_of_empty: "dangling_of known et cause refs = [] \<longleftrightarrow> (num_key \<circ> snd) ` set refs \<subseteq> known"
  by (fastforce simp: dangling_of_def filter_empty_conv)

lemma history_items: "map snd (history_entries s) = list_attr (jget s ''CombatHistory'') ''Entries''"
  by (simp add: history_entries_def for_items_def map_concat comp_def case_prod_beta concat_map_singleton)

text \<open>The ids one history entry refers to.\<close>

definition entry_ids :: "json \<Rightarrow> json set" where
  "entry_ids e = set (ids_of [attr e ''ActorInstanceId'']) \<union> {JStr i | i. refers (attr e ''Fields'') i}"

lemma entry_dangling_empty:
  assumes "entry_dangling known path e = Inr h"
  shows "h = [] \<longleftrightarrow> entry_ids e \<subseteq> known"
proof -
  from assms obtain actor where a: "read_ids (actor_site path e) = Inr actor"
    "h = dangling_of known (attr e ''EntryType'') (cause_for (attr e ''EntryType''))
       (actor @ map (\<lambda>(p, i). (p, JStr i)) (walk_instance_id_refs (attr e ''Fields'') (path @ ''.Fields'')))"
    by (auto simp: entry_dangling_def entry_refs_def sbind_eq_Inr Let_def split: if_splits)
  have "(num_key \<circ> snd) ` set actor = set (ids_of [attr e ''ActorInstanceId''])"
    using arg_cong [OF read_ids_at [OF a(1)], of set] by (simp add: ids_at_def actor_site_def site_def)
  moreover have "(num_key \<circ> snd) ` set (map (\<lambda>(p, i). (p, JStr i)) (walk_instance_id_refs (attr e ''Fields'') p))
      = {JStr i | i. refers (attr e ''Fields'') i}" for p
    using walk_refers(1) [of _ "attr e ''Fields''" p] by (force simp: image_image)
  ultimately show ?thesis
    unfolding a(2) dangling_of_empty entry_ids_def set_append image_Un by simp
qed

lemma history_dangling:
  assumes "dangling_in_history known es = Inr h"
  shows "h = [] \<longleftrightarrow> (\<Union>e \<in> set (map snd es). entry_ids e) \<subseteq> known"
  using assms
proof (induction es arbitrary: h)
  case (Cons pe es)
  obtain path e where pe: "pe = (path, e)" by (cases pe)
  from Cons.prems pe obtain h1 h2 where a: "entry_dangling known path e = Inr h1" "dangling_in_history known es = Inr h2" "h = h1 @ h2"
    by (auto simp: dangling_in_history_def sbind_eq_Inr)
  from Cons.IH [OF a(2)] entry_dangling_empty [OF a(1)] a(3) pe show ?case by simp
qed (simp add: dangling_in_history_def)

lemma sort_ids_empty: "sort_ids ids = Inr r \<Longrightarrow> r = [] \<longleftrightarrow> ids = []"
proof -
  assume r: "sort_ids ids = Inr r"
  have texts: "list_all is_text ids \<Longrightarrow> length (json_texts ids) = length ids"
    by (induction ids rule: json_texts.induct) (simp_all add: is_text_def)
  have "length r = length ids"
    using r texts by (auto simp: sort_ids_def split: if_splits)
  then show ?thesis by (metis length_0_conv)
qed

lemma referred_ids_split:
  "referred_ids s = set (ids_at (direct_sites s)) \<union> (\<Union>e \<in> set (list_attr (jget s ''CombatHistory'') ''Entries''). entry_ids e)"
proof -
  have actors: "set (ids_of (map (\<lambda>e. attr e ''ActorInstanceId'') es)) = (\<Union>e \<in> set es. set (ids_of [attr e ''ActorInstanceId'']))" for es
    by (induction es) (auto simp: ids_of_def)
  show ?thesis
    unfolding referred_ids_def Let_def direct_sites_ids entry_ids_def ids_of_append map_append set_append actors
    by (auto simp: list_ex_iff)
qed

lemma references_hold:
  assumes "validate_snapshot_references s = Inr rep"
  shows "rr_duplicates rep = [] \<longleftrightarrow> distinct (defined_ids s)"
    and "rr_dangling rep = [] \<longleftrightarrow> referred_ids s \<subseteq> set (defined_ids s)"
proof -
  from assms obtain known h direct dups where k: "collect_known_instance_ids s = Inr known"
    and dups: "sort_ids (map (fst \<circ> snd) (filter (\<lambda>(k, j, paths). 1 < length paths) known)) = Inr dups"
    and h: "dangling_in_history (set (dkeys known)) (history_entries s) = Inr h"
    and d: "read_ids (direct_sites s) = Inr direct"
    and rep: "rep = \<lparr> rr_duplicates = dups, rr_dangling = h @ dangling_of (set (dkeys known)) JNull ''capture_bug'' direct \<rparr>"
    by (auto simp: validate_snapshot_references_def sbind_eq_Inr Let_def simp del: list.set_map)
  show "rr_duplicates rep = [] \<longleftrightarrow> distinct (defined_ids s)"
    using known_ids(2) [OF k] sort_ids_empty [OF dups] rep by simp
  have "(num_key \<circ> snd) ` set direct = set (ids_at (direct_sites s))"
    using arg_cong [OF read_ids_at [OF d], of set] by simp
  then show "rr_dangling rep = [] \<longleftrightarrow> referred_ids s \<subseteq> set (defined_ids s)"
    using history_dangling [OF h] rep unfolding referred_ids_split history_items known_ids(1) [OF k]
    by (auto simp: dangling_of_empty)
qed

lemma reason_empty: "(if c then [x] else []) = [] \<longleftrightarrow> \<not> c"
  by simp

section \<open>Properties\<close>

text \<open>
  C23.  What was parsed parses again: the plain dict of a snapshot, without its unknown fields, is
  accepted and gives the same snapshot, with nothing but the unknown fields dropped.
\<close>

theorem snapshot_reparses:
  assumes "snapshot_from_dict fl v = Inr s"
  shows "\<exists>s'. snapshot_from_dict fl (strip_unknown (JObj s)) = Inr s' \<and> strip_unknown (JObj s') = strip_unknown (JObj s)
    \<and> jget s' ''unknown_fields'' = JObj [] \<and> attr (jget s' ''Metadata'') ''unknown_fields'' = JObj []"
  using snapshot_again [OF assms] by (metis strip_simps(1))

text \<open>
  C24.  A snapshot is eligible for a restore exactly when the emulator calls it complete, it was
  captured at a normal player decision, no id is defined twice and every id it refers to is
  defined.  Ids are defined by the player, its creature, cards, relics, powers, potions, orbs and pets, the
  enemies and the powers of pets and enemies; they are referred to by the owner, applier,
  target and card of every power, the owners of pets and of the player and monster generators, the actors
  of the history and the id texts in its fields.  No other id attribute is checked.
\<close>

theorem restore_eligibility_exact:
  assumes "restore_input_eligibility s = Inr (ok, reasons)"
  shows "ok \<longleftrightarrow> attr (jget s ''Metadata'') ''Completeness'' = JStr ''complete''
    \<and> attr (jget s ''Metadata'') ''CaptureBoundary'' = JStr ''normal_player_decision''
    \<and> distinct (defined_ids s) \<and> referred_ids s \<subseteq> set (defined_ids s)"
proof -
  from assms obtain b rep where b: "capture_boundary_is_restore_eligible (attr (jget s ''Metadata'') ''CaptureBoundary'') = Inr b"
    and rep: "validate_snapshot_references s = Inr rep"
    by (auto simp: restore_input_eligibility_def sbind_eq_Inr Let_def)
  from assms b rep have ok: "ok \<longleftrightarrow> completeness_is_complete s \<and> b \<and> rr_duplicates rep = [] \<and> rr_dangling rep = []"
    by (auto simp: restore_input_eligibility_def Let_def reason_empty)
  from b have "b \<longleftrightarrow> attr (jget s ''Metadata'') ''CaptureBoundary'' = JStr ''normal_player_decision''"
    by (auto simp: capture_boundary_is_restore_eligible_def RESTORE_ELIGIBLE_CAPTURE_BOUNDARY_VALUES_def hashed_def sbind_eq_Inr split: if_splits)
  with ok references_hold [OF rep] show ?thesis by (simp add: completeness_is_complete_def)
qed

text \<open>A player who holds one card and one power the enemy applied, and a history that refers to a card that is gone.\<close>

definition sample_pile_card :: "string \<Rightarrow> string \<Rightarrow> int \<Rightarrow> json" where
  "sample_pile_card i c position = JObj ([(''InstanceId'', JStr i), (''CardId'', JStr c), (''Zone'', JStr ''draw_pile''),
     (''PileIndex'', JInt position), (''HasBeenRemovedFromState'', JBool False), (''Cost'', JInt 1), (''LocalCostModifiers'', JArr []),
     (''TemporaryStarCosts'', JArr []), (''IsUpgraded'', JBool False), (''UpgradeLevel'', JInt 0)]
     @ map (\<lambda>k. (k, JStr ''x'')) [''Type'', ''Rarity'', ''TargetType'', ''TinkerTimeType'', ''TinkerTimeRider''])"

definition sample_capture :: "json list \<Rightarrow> string \<Rightarrow> json" where
  "sample_capture cards drawn = JObj
     [(''Metadata'', JObj [(''SchemaVersion'', JStr ''phase3c.8''), (''SnapshotId'', JStr ''s''), (''StepIndex'', JStr ''4''),
        (''CaptureBoundary'', JStr ''normal_player_decision''), (''Completeness'', JStr ''complete''), (''UnsupportedFields'', JArr []),
        (''CapturedAtUtc'', JStr ''t''), (''Extra'', JInt 1)]),
      (''Player'', JObj ([(''InstanceId'', JStr ''player-1''), (''CreatureInstanceId'', JStr ''creature-1'')]
        @ map (\<lambda>k. (k, JInt 7)) [''NetId'', ''Hp'', ''MaxHp'', ''Block'', ''Energy'', ''MaxEnergy'', ''Stars'', ''Gold'', ''OrbSlotCapacity'']
        @ [(''CardInstances'', JArr cards),
           (''Relics'', JArr []),
           (''Powers'', JArr [JObj [(''InstanceId'', JStr ''power-1''), (''PowerId'', JStr ''WEAK''), (''Amount'', JInt 1),
             (''AmountOnTurnStart'', JInt 1), (''SkipNextDurationTick'', JBool False), (''StackType'', JStr ''x''),
             (''OwnerInstanceId'', JStr ''creature-1''), (''AssociatedCardInstanceId'', JNull), (''HasUnsupportedInternalData'', JBool False)]]),
           (''Potions'', JArr [JNull]), (''Orbs'', JArr []), (''Pets'', JArr [])])),
      (''Enemies'', JArr []), (''TurnNumber'', JInt 1), (''RoundNumber'', JInt 1), (''CurrentSide'', JStr ''x''), (''Phase'', JStr ''x''),
      (''Rng'', JObj [(''RunRng'', JObj [(''Shuffle'', JObj (map (\<lambda>k. (k, JInt 3)) [''Counter'', ''State0'', ''State1'', ''State2'', ''State3'']))]),
        (''PlayerRng'', JArr []), (''MonsterRng'', JArr [])]),
      (''CombatHistory'', JObj [(''Entries'', JArr [JObj [(''EntryType'', JStr ''CardDrawnEntry''), (''RoundNumber'', JInt 1), (''CurrentSide'', JStr ''x''),
        (''PlayerTurnNumbers'', JObj []), (''Fields'', JObj [(''cardInstanceId'', JStr drawn)])]])]),
      (''IsTerminal'', JBool False), (''Outcome'', JStr ''x''), (''Later'', JNull)]"

definition sample_parsed :: "string \<Rightarrow> (string, json) dict" where
  "sample_parsed drawn = projr (snapshot_from_dict (\<lambda>_. None) (sample_capture [sample_pile_card ''card-1'' ''STRIKE'' 0] drawn))"

lemma sample_parses:
  "snapshot_from_dict (\<lambda>_. None) (sample_capture [sample_pile_card ''card-1'' ''STRIKE'' 0] ''card-1'') = Inr (sample_parsed ''card-1'')"
  by code_simp

lemma sample_eligibility:
  "restore_input_eligibility (sample_parsed ''card-1'') = Inr (True, [])"
  "restore_input_eligibility (sample_parsed ''card-9'') = Inr (False, [''dangling_references=1 (see validate_snapshot_references for detail)''])"
  by code_simp+

theorem snapshot_reparses_witness:
  "\<exists>s'. snapshot_from_dict (\<lambda>_. None) (strip_unknown (JObj (sample_parsed ''card-1''))) = Inr s'
    \<and> strip_unknown (JObj s') = strip_unknown (JObj (sample_parsed ''card-1''))
    \<and> jget s' ''unknown_fields'' = JObj [] \<and> attr (jget s' ''Metadata'') ''unknown_fields'' = JObj []"
  by (rule snapshot_reparses [OF sample_parses])

theorem restore_eligibility_exact_witness:
  "True \<longleftrightarrow> attr (jget (sample_parsed ''card-1'') ''Metadata'') ''Completeness'' = JStr ''complete''
    \<and> attr (jget (sample_parsed ''card-1'') ''Metadata'') ''CaptureBoundary'' = JStr ''normal_player_decision''
    \<and> distinct (defined_ids (sample_parsed ''card-1'')) \<and> referred_ids (sample_parsed ''card-1'') \<subseteq> set (defined_ids (sample_parsed ''card-1''))"
  by (rule restore_eligibility_exact [OF sample_eligibility(1)])

text \<open>
  The walk does not enter the items of a list stored under an \<open>InstanceIds\<close> key, so an id nested
  there is not checked.
\<close>

lemma nested_reference_missed:
  "walk_instance_id_refs (JObj [(''targetInstanceIds'', JArr [JObj [(''cardInstanceId'', JStr ''card-9'')]])]) path = []"
  by code_simp

end
