(* ===== verification/Rng_Hypothesis.thy ===== *)
theory Rng_Hypothesis
  imports Combat_Snapshot Candidate_Pipeline
begin

text \<open>
  Search hypotheses: \<open>Combat/search/rng_hypothesis.py\<close>, with the projections of a captured card of
  \<open>Combat/search/replay_draw_restore.py\<close>.  A hypothesis is an order of the card ids of the hidden
  draw pile with a Shuffle stream; applied to a decision context it rewrites the captured root so
  that the worker restores that order.

  Parameters: SHA-256 (hex digest of a text) and \<open>random.Random\<close>, given by its seeding and its
  \<open>randrange\<close>.  The library documents that \<open>randrange(n)\<close> is below \<open>n\<close>; where a lemma needs it, it is
  a hypothesis.  A card is the plain dict of its \<open>CardInstanceSnapshot\<close>.
\<close>

section \<open>Cards of a captured pile\<close>

definition int_attr :: "json \<Rightarrow> string \<Rightarrow> int" where
  "int_attr v k = (case attr v k of JInt i \<Rightarrow> i | _ \<Rightarrow> 0)"

text \<open>
  The projection holds the tinker attributes as they are; when one is neither a text nor None the
  key equals no public key, and the projection is \<open>None\<close>.
\<close>

definition observable_card_key_from_snapshot :: "json \<Rightarrow> card_key option" where
  "observable_card_key_from_snapshot c =
     (case (str_or_none (attr c ''TinkerTimeType''), str_or_none (attr c ''TinkerTimeRider'')) of
        (Some tk, Some rd) \<Rightarrow> Some
          \<lparr> ck_id = str_json (attr c ''CardId''), ck_type = str_json (attr c ''Type''), ck_rarity = str_json (attr c ''Rarity''),
            ck_cost = int_attr c ''Cost'', ck_target_type = str_json (attr c ''TargetType''),
            ck_upgraded = truthy (attr c ''IsUpgraded''), ck_upgrade_level = int_attr c ''UpgradeLevel'',
            ck_tinker_type = tk, ck_tinker_rider = rd, ck_enchantment = None \<rparr>
      | _ \<Rightarrow> None)"

text \<open>\<open>freeze\<close>: dicts and lists become tuples, a dict sorted by its keys.\<close>

fun freeze :: "json \<Rightarrow> json" where
  "freeze (JObj d) = JArr (map (\<lambda>(k, v). JArr [JStr k, v]) (sort_key fst (map (\<lambda>(k, v). (k, freeze v)) d)))"
| "freeze (JArr xs) = JArr (map freeze xs)"
| "freeze v = v"

definition snapshot_card_replay_internal_key :: "json \<Rightarrow> json" where
  "snapshot_card_replay_internal_key c = (case c of
       JObj d \<Rightarrow> freeze (JObj (filter (\<lambda>(k, v). k \<notin> {''InstanceId'', ''Zone''}) d))
     | _ \<Rightarrow> freeze c)"

section \<open>Hypotheses\<close>

record rng_component =
  rc_counter :: int
  rc_s0 :: int
  rc_s1 :: int
  rc_s2 :: int
  rc_s3 :: int

definition rng_to_dict :: "rng_component \<Rightarrow> (string, json) dict" where
  "rng_to_dict r = [(''Counter'', JInt (rc_counter r)), (''State0'', JInt (rc_s0 r)), (''State1'', JInt (rc_s1 r)),
     (''State2'', JInt (rc_s2 r)), (''State3'', JInt (rc_s3 r))]"

definition rng_from_like :: "json \<Rightarrow> rng_component res" where
  "rng_from_like v = sbind (parse_schema (\<lambda>_. None) SerializableRngSnapshot v) (\<lambda>w.
     Inr \<lparr> rc_counter = int_attr w ''Counter'', rc_s0 = int_attr w ''State0'', rc_s1 = int_attr w ''State1'',
           rc_s2 = int_attr w ''State2'', rc_s3 = int_attr w ''State3'' \<rparr>)"

record hypothesis =
  hy_rng :: rng_component
  hy_cards :: "string list"
  hy_index :: nat

definition HYPOTHESIS_SLOT_PREFIX :: string where "HYPOTHESIS_SLOT_PREFIX = ''rng-hyp:v1:''"

definition hypothesis_payload :: "hypothesis \<Rightarrow> json" where
  "hypothesis_payload h = JObj [(''version'', JInt 1), (''hypothesis_index'', JInt (int (hy_index h))), (''rng'', JObj (rng_to_dict (hy_rng h))),
     (''ordered_draw_pile_card_ids'', JArr (map JStr (hy_cards h)))]"

definition hypothesis_digest :: "(string \<Rightarrow> string) \<Rightarrow> hypothesis \<Rightarrow> string" where
  "hypothesis_digest sha h = sha (json_dumps True (hypothesis_payload h))"

definition to_slot_value :: "(string \<Rightarrow> string) \<Rightarrow> hypothesis \<Rightarrow> string" where
  "to_slot_value sha h = HYPOTHESIS_SLOT_PREFIX @ hypothesis_digest sha h"

record coverage_assessment =
  cv_complete :: bool
  cv_uncertain :: "string list"
  cv_reason :: string

text \<open>The attribute \<open>Player\<close> of a root: only a captured snapshot has one.\<close>

definition root_type_name :: "root \<Rightarrow> string" where
  "root_type_name r = (case r of
       Combat_start _ \<Rightarrow> ''CombatStartReplayRoot'' | Room_entry _ _ \<Rightarrow> ''RoomEntryReplayRoot'' | Json_text _ \<Rightarrow> ''str''
     | Json_dict _ \<Rightarrow> ''dict'' | Snapshot _ \<Rightarrow> ''CombatStateSnapshot'' | Other_dataclass t \<Rightarrow> t | Object _ \<Rightarrow> ''CombatStateSnapshot'')"

definition captured :: "root \<Rightarrow> (string, json) dict res" where
  "captured r = (case r of
       Snapshot d \<Rightarrow> Inr d
     | _ \<Rightarrow> Inl (PyExc ''AttributeError'' ([CHR 0x27] @ root_type_name r @ [CHR 0x27] @ '' object has no attribute ''
          @ [CHR 0x27] @ ''Player'' @ [CHR 0x27])))"

definition draw_pile :: "(string, json) dict \<Rightarrow> json list" where
  "draw_pile s = cards_in_zone (jget s ''Player'') ''draw_pile''"

definition card_id :: "json \<Rightarrow> string" where "card_id c = str_json (attr c ''CardId'')"
definition instance_id :: "json \<Rightarrow> string" where "instance_id c = str_json (attr c ''InstanceId'')"

text \<open>\<open>dict(sorted(Counter(xs).items()))\<close>.\<close>

definition sorted_counts :: "string list \<Rightarrow> (string \<times> int) list" where
  "sorted_counts xs = map (\<lambda>x. (x, int (count_list xs x))) (sort (remdups xs))"

definition compute_public_multiset :: "(string, json) dict \<Rightarrow> (string \<times> int) list" where
  "compute_public_multiset s = sorted_counts (map card_id (draw_pile s))"

section \<open>Which candidates need a hypothesis\<close>

definition CONSUME_PASSTHROUGH :: string where "CONSUME_PASSTHROUGH = ''passthrough''"
definition CONSUME_MODE :: string where "CONSUME_MODE = ''mode''"
definition CONSUME_TRUE_RNG_OK :: string where "CONSUME_TRUE_RNG_OK = ''true_rng_ok''"
definition HYPOTHESIS_MODE_STANDARD :: string where "HYPOTHESIS_MODE_STANDARD = ''standard''"
definition HYPOTHESIS_MODE_INDEPENDENT :: string where "HYPOTHESIS_MODE_INDEPENDENT = ''independent''"
definition HYPOTHESIS_MODES :: "string list" where "HYPOTHESIS_MODES = [HYPOTHESIS_MODE_STANDARD, HYPOTHESIS_MODE_INDEPENDENT]"

record consume_result =
  cr_kind :: string
  cr_mode :: "string option"
  cr_reason :: string

definition requires_hypothesis :: "consume_result \<Rightarrow> bool" where
  "requires_hypothesis r \<longleftrightarrow> cr_kind r = CONSUME_MODE"

text \<open>A candidate of the pipeline, or a plain action dict.\<close>

datatype search_candidate = Ref pipeline_ref | Plain "(string, json) dict"

definition candidate_action_type :: "search_candidate \<Rightarrow> string" where
  "candidate_action_type c = (case c of
       Ref r \<Rightarrow> if truthy (pr_kind r) then str_json (pr_kind r) else str_json (sa_type (pr_action r))
     | Plain d \<Rightarrow> str_json (py_or (py_or (jget d ''action_type'') (jget d ''choice_kind'')) (JStr [])))"

text \<open>\<open>text.split(":", 1)[-1]\<close>.\<close>

definition after_colon :: "string \<Rightarrow> string" where
  "after_colon s = (if CHR '':'' \<in> set s then snd (split_at (CHR '':'') s) else s)"

definition candidate_card_id :: "search_candidate \<Rightarrow> string option res" where
  "candidate_card_id c = (case c of
       Ref r \<Rightarrow> sbind (hashed (sa_type (pr_action r))) (\<lambda>ty.
         Inr (if ty \<in> {JStr ''card'', JStr ''choice_card'', JStr ''choice_reward_card''} \<and> truthy (sa_key (pr_action r))
              then Some (after_colon (str_json (sa_key (pr_action r)))) else None))
     | Plain d \<Rightarrow> sbind (as_dict (py_or (jget d ''parameters'') (JObj []))) (\<lambda>p.
         Inr (if jget p ''cardId'' \<noteq> JNull then Some (str_json (jget p ''cardId'')) else None)))"

definition consume_check :: "search_candidate \<Rightarrow> decision_context \<Rightarrow> string \<Rightarrow> bool \<Rightarrow> consume_result res" where
  "consume_check c ctx mode true_rng_ok =
     (if mode \<notin> set HYPOTHESIS_MODES then value_error (''unknown hypothesis mode '' @ repr_str mode)
      else if true_rng_ok
      then Inr \<lparr> cr_kind = CONSUME_TRUE_RNG_OK, cr_mode = None, cr_reason = ''explicit true_rng_ok opt-in'' \<rparr>
      else if dc_prefix ctx \<noteq> [] \<and> dc_hypothesis ctx \<noteq> None
      then Inr \<lparr> cr_kind = CONSUME_MODE, cr_mode = Some mode, cr_reason = ''inherited non-None Search Hypothesis ID'' \<rparr>
      else sbind (candidate_card_id c) (\<lambda>card.
        let ty = candidate_action_type c in
        if ty \<in> {''system'', ''choice_confirm'', ''choice_skip''} \<and> card = None
        then Inr \<lparr> cr_kind = CONSUME_PASSTHROUGH, cr_mode = None,
               cr_reason = repr_str ty @ '' candidate has no card binding and is treated as RNG/order independent'' \<rparr>
        else Inr \<lparr> cr_kind = CONSUME_MODE, cr_mode = Some mode,
               cr_reason = repr_str (if ty \<noteq> [] then ty else ''unknown'') @ '' candidate is conservatively treated as RNG/order sensitive'' \<rparr>))"

section \<open>Seeds and orders\<close>

text \<open>The first eight bytes of a hex digest, as a number.\<close>

definition hex_value :: "char \<Rightarrow> nat" where
  "hex_value c = (if is_digit c then digit_val c else of_char c - 87)"

definition seed_of_digest :: "string \<Rightarrow> nat" where
  "seed_of_digest digest = foldl (\<lambda>a c. 16 * a + hex_value c) 0 (take 16 digest)"

definition shuffle_seed_from_rng :: "(string \<Rightarrow> string) \<Rightarrow> rng_component \<Rightarrow> nat \<Rightarrow> nat" where
  "shuffle_seed_from_rng sha rng index = seed_of_digest (sha (json_dumps True
     (JObj [(''rng'', JObj (rng_to_dict rng)), (''hypothesis_index'', JInt (int index))])))"

definition combat_start_seed_from_root :: "(string \<Rightarrow> string) \<Rightarrow> int \<Rightarrow> nat \<Rightarrow> nat" where
  "combat_start_seed_from_root sha root_seed index = seed_of_digest (sha (json_dumps True
     (JObj [(''root_seed'', JInt root_seed), (''hypothesis_index'', JInt (int index))]))) mod 2147483648"

definition derived_combat_start :: "(string \<Rightarrow> string) \<Rightarrow> (string, json) dict \<Rightarrow> int \<Rightarrow> nat \<Rightarrow> hypothesis \<times> root" where
  "derived_combat_start sha spec root_seed index =
     (let seed = int (combat_start_seed_from_root sha root_seed index) in
      (\<lparr> hy_rng = \<lparr> rc_counter = seed, rc_s0 = 0, rc_s1 = 0, rc_s2 = 0, rc_s3 = 0 \<rparr>, hy_cards = [], hy_index = index \<rparr>,
       Combat_start (JObj (dset ''seed'' (JInt seed) spec))))"

text \<open>The scenario of the root is a dict; \<open>spec.get\<close> fails on anything else.\<close>

definition derive_combat_start_replay_roots :: "(string \<Rightarrow> string) \<Rightarrow> json \<Rightarrow> int \<Rightarrow> (hypothesis \<times> root) list res" where
  "derive_combat_start_replay_roots sha scenario_spec n =
     (if n < 0 then value_error ''count must be non-negative''
      else sbind (as_dict scenario_spec) (\<lambda>spec.
        sbind (int_of_json (case dget spec ''seed'' of None \<Rightarrow> JInt 1 | Some v \<Rightarrow> v)) (\<lambda>root_seed.
          Inr (map (derived_combat_start sha spec root_seed) [0..<nat n]))))"

definition canonical_cards_from_multiset :: "(string \<times> int) list \<Rightarrow> string list res" where
  "canonical_cards_from_multiset public =
     sbind (map_res (\<lambda>(c, n). if n < 0 then value_error (''negative PUBLIC_MULTISET count for '' @ repr_str c)
                              else Inr (replicate (nat n) c)) (sort public)) (\<lambda>xs. Inr (concat xs))"

record 'g prng =
  pg_seed :: "nat \<Rightarrow> 'g"
  pg_range :: "nat \<Rightarrow> 'g \<Rightarrow> nat \<times> 'g"

definition swap :: "'a list \<Rightarrow> nat \<Rightarrow> nat \<Rightarrow> 'a list" where
  "swap xs i j = xs[i := xs ! j, j := xs ! i]"

text \<open>\<open>for i in range(n, 0, -1)\<close> of the shuffle.\<close>

fun shuffle_from :: "'g prng \<Rightarrow> nat \<Rightarrow> 'g \<Rightarrow> 'a list \<Rightarrow> 'a list" where
  "shuffle_from p 0 g xs = xs"
| "shuffle_from p (Suc i) g xs = (let (j, g') = pg_range p (Suc (Suc i)) g in shuffle_from p i g' (swap xs (Suc i) j))"

definition belief_hypothesis :: "(string \<Rightarrow> string) \<Rightarrow> 'g prng \<Rightarrow> string list \<Rightarrow> (nat \<Rightarrow> json) \<Rightarrow> nat \<Rightarrow> hypothesis res" where
  "belief_hypothesis sha p cards source index =
     sbind (rng_from_like (source index)) (\<lambda>rng.
       Inr \<lparr> hy_rng = rng,
             hy_cards = shuffle_from p (length cards - 1) (pg_seed p (shuffle_seed_from_rng sha rng index)) cards,
             hy_index = index \<rparr>)"

definition generate_belief_hypotheses ::
  "(string \<Rightarrow> string) \<Rightarrow> 'g prng \<Rightarrow> (string \<times> int) list \<Rightarrow> int \<Rightarrow> (nat \<Rightarrow> json) \<Rightarrow> hypothesis list res" where
  "generate_belief_hypotheses sha p public n source =
     (if n < 0 then value_error ''count must be non-negative''
      else sbind (canonical_cards_from_multiset public) (\<lambda>cards. map_res (belief_hypothesis sha p cards source) [0..<nat n]))"

section \<open>The draw prefix already seen\<close>

fun constraints_until_block :: "prefix_entry list \<Rightarrow> draw_constraint list" where
  "constraints_until_block [] = []"
| "constraints_until_block (e # es) = rp_constraints e @ (if rp_blocked e then [] else constraints_until_block es)"

definition pinned_prefix_visible_draw_constraints :: "decision_context \<Rightarrow> draw_constraint list res" where
  "pinned_prefix_visible_draw_constraints ctx =
     (let cs = constraints_until_block (dc_prefix ctx) in
      if map fst cs \<noteq> [0..<length cs]
      then value_error ''visible draw constraints must form one ordered contiguous prefix from Stable-root offset 0''
      else Inr cs)"

fun pin_cards :: "draw_constraint list \<Rightarrow> string list \<Rightarrow> string list \<Rightarrow> string list res" where
  "pin_cards [] pinned remaining = Inr (pinned @ remaining)"
| "pin_cards ((offset, key) # cs) pinned remaining =
     (if offset \<noteq> length pinned then value_error ''visible draw constraints must be a contiguous prefix''
      else let c = card_id_from_observable_key key in
        if c \<notin> set remaining
        then value_error (''visible draw constraint requires CardId '' @ repr_str c @ '' absent from the hypothesis'')
        else pin_cards cs (pinned @ [c]) (remove1 c remaining))"

definition reorder_hypothesis :: "hypothesis \<Rightarrow> draw_constraint list \<Rightarrow> hypothesis res" where
  "reorder_hypothesis h cs = sbind (pin_cards cs [] (hy_cards h)) (\<lambda>cards. Inr (h\<lparr>hy_cards := cards\<rparr>))"

section \<open>Concrete cards for an order\<close>

definition counts_text :: "string list \<Rightarrow> string" where
  "counts_text xs = repr_json (JObj (map (\<lambda>(c, n). (c, JInt n)) (sorted_counts xs)))"

text \<open>Each pinned key, in order of appearance, against the cards that show it.\<close>

fun check_pinned_keys :: "card_key list \<Rightarrow> json list \<Rightarrow> card_key list \<Rightarrow> unit res" where
  "check_pinned_keys keys cards [] = Inr ()"
| "check_pinned_keys keys cards (k # ks) =
     (let matches = filter (\<lambda>c. observable_card_key_from_snapshot c = Some k) cards in
      if length matches < count_list keys k
      then value_error ''pinned observable card state is absent from the root DrawPile in the required count''
      else if length (remdups (map (py_norm \<circ> snapshot_card_replay_internal_key) matches)) \<noteq> 1
      then value_error (''pinned observable card state maps to multiple hidden gameplay states; ''
             @ ''public evidence is insufficient for safe replay materialization'')
      else check_pinned_keys keys cards ks)"

definition snapshot_card_identity_key :: "json \<Rightarrow> string" where
  "snapshot_card_identity_key c = canonical_json False c"

definition unused_cards :: "json list \<Rightarrow> string set \<Rightarrow> json list" where
  "unused_cards cards used = filter (\<lambda>c. instance_id c \<notin> used) cards"

text \<open>The cards for the pinned positions, given those already taken.\<close>

fun allocate_pinned :: "json list \<Rightarrow> string list \<Rightarrow> draw_constraint list \<Rightarrow> json list \<Rightarrow> json list res" where
  "allocate_pinned cards ids [] taken = Inr taken"
| "allocate_pinned cards ids ((offset, key) # cs) taken =
     (if length ids \<le> offset then Inl (PyExc ''IndexError'' ''tuple index out of range'')
      else if card_id_from_observable_key key \<noteq> ids ! offset
      then value_error (''pinned observable card has CardId='' @ repr_str (card_id_from_observable_key key)
             @ '', but hypothesis position '' @ str_int (int offset) @ '' requires '' @ repr_str (ids ! offset))
      else (case sort_key snapshot_card_identity_key (filter (\<lambda>c. observable_card_key_from_snapshot c = Some key)
               (unused_cards cards (set (map instance_id taken)))) of
          [] \<Rightarrow> value_error ''pinned observable card state was exhausted during concrete allocation''
        | c # _ \<Rightarrow> allocate_pinned cards ids cs (taken @ [c])))"

text \<open>The deque of a card id is the cards of that id that are left, in order.\<close>

fun allocate_tail :: "string list \<Rightarrow> json list \<Rightarrow> json list res" where
  "allocate_tail [] left = Inr []"
| "allocate_tail (i # ids) left = (case List.find (\<lambda>c. card_id c = i) left of
       None \<Rightarrow> value_error (''hypothesis concrete-card allocation exhausted CardId '' @ repr_str i @ '' after observable-state pinning'')
     | Some c \<Rightarrow> sbind (allocate_tail ids (remove1 c left)) (\<lambda>cs. Inr (c # cs)))"

definition draw_pile_instances_for_hypothesis :: "(string, json) dict \<Rightarrow> string list \<Rightarrow> draw_constraint list \<Rightarrow> json list res" where
  "draw_pile_instances_for_hypothesis root_snapshot ids pinned =
     (let cards = draw_pile root_snapshot; available = map card_id cards; keys = map snd pinned in
      if mset ids \<noteq> mset available
      then value_error (''hypothesis DrawPile multiset does not match root snapshot Player.CardInstances(draw_pile) multiset: requested=''
             @ counts_text ids @ '', available='' @ counts_text available)
      else if map fst pinned \<noteq> [0..<length pinned] then value_error ''pinned draw constraints must be an ordered contiguous prefix''
      else sbind (check_pinned_keys keys cards (rev (remdups (rev keys)))) (\<lambda>_.
        sbind (allocate_pinned cards ids pinned []) (\<lambda>front.
        sbind (allocate_tail (drop (length front) ids)
                 (sort_key snapshot_card_identity_key (unused_cards cards (set (map instance_id front))))) (\<lambda>tail.
          Inr (front @ tail)))))"

text \<open>\<open>{**card, "Zone": "draw_pile", "PileIndex": index}\<close>.\<close>

definition at_position :: "nat \<Rightarrow> json \<Rightarrow> json" where
  "at_position index c = (case c of
       JObj d \<Rightarrow> JObj (dset ''PileIndex'' (JInt (int index)) (dset ''Zone'' (JStr ''draw_pile'') d)) | _ \<Rightarrow> c)"

definition replacement_by_id :: "json list \<Rightarrow> (string, json) dict" where
  "replacement_by_id pile = dupdate [] (map (\<lambda>(i, c). (instance_id c, at_position i c)) (enumerate 0 pile))"

definition replace_cards :: "(string, json) dict \<Rightarrow> json \<Rightarrow> json" where
  "replace_cards new cards = JArr (map (\<lambda>c. case dget new (instance_id c) of Some n \<Rightarrow> n | None \<Rightarrow> c) (elements cards))"

text \<open>An assignment \<open>d[k] = f(d[k])\<close> inside a plain value.\<close>

definition update_attr :: "string \<Rightarrow> (json \<Rightarrow> json) \<Rightarrow> json \<Rightarrow> json" where
  "update_attr k f v = (case v of JObj d \<Rightarrow> JObj (dset k (f (jget d k)) d) | _ \<Rightarrow> v)"

definition derive_substituted_snapshot ::
  "float_env \<Rightarrow> (string, json) dict \<Rightarrow> hypothesis \<Rightarrow> draw_constraint list \<Rightarrow> (string, json) dict res" where
  "derive_substituted_snapshot fl root_snapshot h pinned =
     (let payload = strip_unknown (JObj root_snapshot) in
      sbind (as_dict (attr (attr payload ''Rng'') ''RunRng'')) (\<lambda>run_rng.
      if \<not> dhas run_rng ''Shuffle'' then value_error ''root_snapshot.Rng.RunRng is missing required \"Shuffle\" stream''
      else sbind (draw_pile_instances_for_hypothesis root_snapshot (hy_cards h) pinned) (\<lambda>pile.
        snapshot_from_dict fl
          (update_attr ''Player'' (update_attr ''CardInstances'' (replace_cards (replacement_by_id pile)))
            (update_attr ''Rng'' (update_attr ''RunRng'' (update_attr ''Shuffle'' (\<lambda>_. JObj (rng_to_dict (hy_rng h))))) payload)))))"

record grid_cell =
  gc_action :: pipeline_ref
  gc_hypothesis :: hypothesis
  gc_slot :: string
  gc_snapshot :: "(string, json) dict"

definition build_grid ::
  "float_env \<Rightarrow> (string \<Rightarrow> string) \<Rightarrow> pipeline_ref list \<Rightarrow> hypothesis list \<Rightarrow> (string, json) dict \<Rightarrow> grid_cell list res" where
  "build_grid fl sha actions hypotheses root_snapshot =
     map_res (\<lambda>(a, h). sbind (derive_substituted_snapshot fl root_snapshot h []) (\<lambda>s.
         Inr \<lparr> gc_action = a, gc_hypothesis = h, gc_slot = to_slot_value sha h, gc_snapshot = s \<rparr>))
       (List.product actions hypotheses)"

definition with_search_hypothesis :: "(string \<Rightarrow> string) \<Rightarrow> decision_context \<Rightarrow> hypothesis option \<Rightarrow> decision_context" where
  "with_search_hypothesis sha ctx h = ctx\<lparr>dc_hypothesis := map_option (to_slot_value sha) h\<rparr>"

definition apply_hypothesis_to_context ::
  "float_env \<Rightarrow> (string \<Rightarrow> string) \<Rightarrow> decision_context \<Rightarrow> hypothesis \<Rightarrow> decision_context res" where
  "apply_hypothesis_to_context fl sha ctx h =
     sbind (search_root (dc_root ctx) :: unit search_adapter res) (\<lambda>a.
       if sr_is_combat_start a then Inl (PyExc ''TypeError'' ''Genesis hypotheses must use derive_combat_start_replay_roots()'')
       else sbind (pinned_prefix_visible_draw_constraints ctx) (\<lambda>cs.
         sbind (if cs \<noteq> [] then reorder_hypothesis h cs else Inr h) (\<lambda>effective.
         sbind (captured (dc_root ctx)) (\<lambda>d.
         sbind (derive_substituted_snapshot fl d effective cs) (\<lambda>s.
           Inr (with_search_hypothesis sha (ctx\<lparr>dc_root := Snapshot s\<rparr>) (Some effective)))))))"


section \<open>Orders\<close>

lemma mset_swap: "i < length xs \<Longrightarrow> j < length xs \<Longrightarrow> mset (swap xs i j) = mset xs"
  by (simp add: swap_def mset_update nth_list_update)

lemma shuffle_mset:
  assumes "\<And>n g. 0 < n \<Longrightarrow> fst (pg_range p n g) < n"
  shows "i < length xs \<or> i = 0 \<Longrightarrow> mset (shuffle_from p i g xs) = mset xs"
proof (induction i arbitrary: g xs)
  case (Suc i)
  obtain j g' where j: "pg_range p (Suc (Suc i)) g = (j, g')" by (cases "pg_range p (Suc (Suc i)) g")
  with assms [of "Suc (Suc i)" g] have "j < Suc (Suc i)" by simp
  with Suc.prems have "mset (swap xs (Suc i) j) = mset xs" by (simp add: mset_swap)
  moreover have "mset (shuffle_from p i g' (swap xs (Suc i) j)) = mset (swap xs (Suc i) j)"
    using Suc.prems by (intro Suc.IH) (simp add: swap_def)
  ultimately show ?case using j by simp
qed simp

lemma map_res_Inr: "(\<And>x. x \<in> set xs \<Longrightarrow> f x = Inr (g x)) \<Longrightarrow> map_res f xs = Inr (map g xs)"
  by (induction xs) auto

text \<open>The canonical cards of a public multiset are the cards counted.\<close>

lemma canonical_of_counts:
  "\<exists>cs. canonical_cards_from_multiset (sorted_counts xs) = Inr cs \<and> mset cs = mset xs"
proof -
  let ?f = "\<lambda>(c, n). replicate (nat n) c"
  let ?m = "sort (sorted_counts xs)"
  have elem: "mset (concat (map ?f ps)) = (\<Sum>p \<in># mset ps. mset (?f p))" for ps :: "(string \<times> int) list"
    by (induction ps) auto
  have "canonical_cards_from_multiset (sorted_counts xs) = Inr (concat (map ?f ?m))"
  proof -
    have "map_res (\<lambda>(c, n). if n < 0 then value_error (''negative PUBLIC_MULTISET count for '' @ repr_str c) else Inr (replicate (nat n) c)) ?m
        = Inr (map ?f ?m)"
      by (rule map_res_Inr) (auto simp: sorted_counts_def)
    then show ?thesis by (simp add: canonical_cards_from_multiset_def)
  qed
  moreover have "mset (concat (map ?f ?m)) = mset xs"
  proof -
    have "mset (concat (map ?f ?m)) = mset (concat (map ?f (sorted_counts xs)))" unfolding elem by simp
    also have "\<dots> = (\<Sum>c \<in># mset (remdups xs). replicate_mset (count_list xs c) c)"
      unfolding elem by (simp add: sorted_counts_def image_mset.compositionality comp_def)
    also have "\<dots> = (\<Sum>c \<in> set xs. replicate_mset (count (mset xs) c) c)"
      by (simp add: sum_unfold_sum_mset count_mset mset_set_set [OF distinct_remdups, of xs, simplified, symmetric])
    also have "\<dots> = mset xs" by (intro multiset_eqI) (auto simp: count_sum count_eq_zero_iff)
    finally show ?thesis .
  qed
  ultimately show ?thesis by blast
qed

lemma pin_cards_Inr:
  "pin_cards cs pinned remaining = Inr r \<Longrightarrow>
   mset r = mset (pinned @ remaining)
   \<and> r = pinned @ map (card_id_from_observable_key \<circ> snd) cs @ fold remove1 (map (card_id_from_observable_key \<circ> snd) cs) remaining"
proof (induction cs pinned remaining arbitrary: r rule: pin_cards.induct)
  case (2 offset key cs pinned remaining)
  let ?c = "card_id_from_observable_key key"
  from 2(2) have "?c \<in> set remaining" "pin_cards cs (pinned @ [?c]) (remove1 ?c remaining) = Inr r" "offset = length pinned"
    by (auto simp: Let_def value_error_def split: if_splits)
  with 2(1) [OF _ refl] show ?case by auto
qed auto

section \<open>Allocation\<close>

lemma observable_id: "observable_card_key_from_snapshot c = Some k \<Longrightarrow> card_id_from_observable_key k = card_id c"
  by (auto simp: observable_card_key_from_snapshot_def card_id_from_observable_key_def card_id_def split: option.splits)

definition pinned_to :: "string list \<Rightarrow> draw_constraint \<Rightarrow> json \<Rightarrow> bool" where
  "pinned_to ids pin c \<longleftrightarrow> observable_card_key_from_snapshot c = Some (snd pin) \<and> fst pin < length ids \<and> card_id c = ids ! fst pin"

lemma allocate_pinned_Inr:
  assumes "allocate_pinned cards ids cs taken = Inr front" "distinct (map instance_id taken)" "set taken \<subseteq> set cards"
  shows "\<exists>new. front = taken @ new \<and> list_all2 (pinned_to ids) cs new \<and> distinct (map instance_id front) \<and> set front \<subseteq> set cards"
  using assms
proof (induction cards ids cs taken rule: allocate_pinned.induct)
  case (2 cards ids offset key cs taken)
  let ?left = "filter (\<lambda>c. observable_card_key_from_snapshot c = Some key) (unused_cards cards (set (map instance_id taken)))"
  from 2(2) obtain c rest where c: "sort_key snapshot_card_identity_key ?left = c # rest"
      "allocate_pinned cards ids cs (taken @ [c]) = Inr front" "offset < length ids" "card_id_from_observable_key key = ids ! offset"
    by (auto simp: value_error_def split: if_splits list.splits)
  have "c \<in> set ?left" by (metis c(1) list.set_intros(1) set_sort)
  then have c': "c \<in> set cards" "instance_id c \<notin> set (map instance_id taken)" "observable_card_key_from_snapshot c = Some key"
    by (auto simp: unused_cards_def)
  have "distinct (map instance_id (taken @ [c]))" "set (taken @ [c]) \<subseteq> set cards" using 2(3,4) c' by auto
  with 2(1) [OF _ _ c(1) c(2)] c(3,4) obtain new where new: "front = (taken @ [c]) @ new" "list_all2 (pinned_to ids) cs new"
      "distinct (map instance_id front)" "set front \<subseteq> set cards" by auto
  moreover have "pinned_to ids (offset, key) c" using c c' observable_id [OF c'(3)] by (simp add: pinned_to_def)
  ultimately show ?case by (intro exI [of _ "c # new"]) simp
qed auto

lemma allocate_tail_Inr:
  "allocate_tail ids left = Inr cs \<Longrightarrow> map card_id cs = ids \<and> mset cs \<subseteq># mset left"
proof (induction ids left arbitrary: cs rule: allocate_tail.induct)
  case (2 i ids left)
  then obtain c cs' where c: "List.find (\<lambda>c. card_id c = i) left = Some c" "allocate_tail ids (remove1 c left) = Inr cs'" "cs = c # cs'"
    by (auto simp: sbind_eq_Inr value_error_def split: option.splits)
  from c(1) have "c \<in> set left" "card_id c = i" by (auto simp: find_Some_iff)
  with 2(1) [OF c(1,2)] c(3) show ?case by (auto simp: insert_subset_eq_iff)
qed simp

lemma pile_allocated:
  assumes "draw_pile_instances_for_hypothesis s ids pinned = Inr pile" "distinct (map instance_id (draw_pile s))"
  shows "map card_id pile = ids" and "mset pile = mset (draw_pile s)"
    and "list_all (\<lambda>(i, k). i < length pile \<and> observable_card_key_from_snapshot (pile ! i) = Some k) pinned"
proof -
  let ?cards = "draw_pile s"
  from assms(1) obtain front tl where m: "mset ids = mset (map card_id ?cards)" "map fst pinned = [0..<length pinned]"
    and front: "allocate_pinned ?cards ids pinned [] = Inr front"
    and tl: "allocate_tail (drop (length front) ids) (sort_key snapshot_card_identity_key (unused_cards ?cards (set (map instance_id front)))) = Inr tl"
    and pile: "pile = front @ tl"
    by (auto simp: draw_pile_instances_for_hypothesis_def Let_def sbind_eq_Inr value_error_def split: if_splits)
  from allocate_pinned_Inr [OF front] have f: "list_all2 (pinned_to ids) pinned front" "distinct (map instance_id front)"
    "set front \<subseteq> set ?cards" by auto
  note t = allocate_tail_Inr [OF tl]
  have len: "length front = length pinned" using f(1) by (simp add: list_all2_lengthD)
  have off: "fst (pinned ! i) = i" if "i < length pinned" for i
    using m(2) that by (metis add_0 diff_zero length_upt nth_map nth_upt)
  have at: "card_id (front ! i) = ids ! i \<and> i < length ids \<and> observable_card_key_from_snapshot (front ! i) = Some (snd (pinned ! i))"
    if "i < length pinned" for i
    using list_all2_nthD [OF f(1) that] off [OF that] by (simp add: pinned_to_def)
  have short: "length front \<le> length ids" using at [of "length pinned - 1"] len by (cases "length pinned") auto
  have "map card_id front = take (length front) ids"
    using short at len by (intro nth_equalityI) auto
  with t show ids: "map card_id pile = ids" by (simp add: pile)
  have inj: "inj_on instance_id (set ?cards)" and dist: "distinct ?cards" using assms(2) by (simp_all add: distinct_map)
  have "mset front = mset (filter (\<lambda>c. instance_id c \<in> set (map instance_id front)) ?cards)"
  proof (subst set_eq_iff_mset_eq_distinct [symmetric])
    show "distinct front" using f(2) by (simp add: distinct_map)
    show "distinct (filter (\<lambda>c. instance_id c \<in> set (map instance_id front)) ?cards)" using dist by simp
    show "set front = set (filter (\<lambda>c. instance_id c \<in> set (map instance_id front)) ?cards)"
      using f(3) inj by (auto dest: inj_onD)
  qed
  moreover have "mset ?cards = mset (filter (\<lambda>c. instance_id c \<in> set (map instance_id front)) ?cards)
      + mset (filter (\<lambda>c. instance_id c \<notin> set (map instance_id front)) ?cards)"
    using multiset_partition [of "mset ?cards" "\<lambda>c. instance_id c \<in> set (map instance_id front)"] by simp
  ultimately have "mset ?cards = mset front + mset (unused_cards ?cards (set (map instance_id front)))"
    by (simp only: unused_cards_def)
  with t have "mset pile \<subseteq># mset ?cards" by (simp add: pile)
  moreover have "size (mset pile) = size (mset ?cards)"
    using ids m(1) by (metis length_map size_mset)
  ultimately show "mset pile = mset ?cards" by (metis mset_subset_size subset_mset.less_le not_less_iff_gr_or_eq)
  show "list_all (\<lambda>(i, k). i < length pile \<and> observable_card_key_from_snapshot (pile ! i) = Some k) pinned"
  proof -
    have "i < length pile \<and> observable_card_key_from_snapshot (pile ! i) = Some k" if ik: "(i, k) \<in> set pinned" for i k
    proof -
      from ik obtain j where j: "j < length pinned" "pinned ! j = (i, k)" by (auto simp: in_set_conv_nth)
      with off [of j] at [of j] len show ?thesis by (auto simp: pile nth_append)
    qed
    then show ?thesis by (auto simp: list_all_iff)
  qed
qed


section \<open>The derived snapshot\<close>

lemma jget_prune: "keep k \<Longrightarrow> jget (prune_entries keep d) k = prune keep (jget d k)"
  by (simp add: jget_def dget_prune split: option.splits)

lemma attr_prune: "keep k \<Longrightarrow> attr (prune keep v) k = prune keep (attr v k)"
  by (cases v) (simp_all add: attr_def jget_prune)

lemma prune_text [simp]: "prune keep v = JStr t \<longleftrightarrow> v = JStr t"
  by (cases v) simp_all

lemma card_schema:
  "CardInstanceSnapshot = Schema ''CardInstanceSnapshot'' (schema_required CardInstanceSnapshot) (schema_fields CardInstanceSnapshot)"
  "PlayerSnapshot = Schema ''PlayerSnapshot'' (schema_required PlayerSnapshot) (schema_fields PlayerSnapshot)"
  "RngSnapshotSet = Schema ''RngSnapshotSet'' (schema_required RngSnapshotSet) (schema_fields RngSnapshotSet)"
  by (simp_all add: CardInstanceSnapshot_def PlayerSnapshot_def RngSnapshotSet_def)

lemma card_fields:
  "sound_schema CardInstanceSnapshot" "distinct (map fst (schema_fields PlayerSnapshot))" "distinct (map fst (schema_fields RngSnapshotSet))"
  "sound_schema SerializableRngSnapshot" by code_simp+

lemma parsed_player:
  assumes "parse_schema fl PlayerSnapshot v = Inr p"
  obtains d xs ys where "v = JObj d" "py_iter (jget d ''CardInstances'') = Inr xs" "map_res (parse_schema fl CardInstanceSnapshot) xs = Inr ys"
    "attr p ''CardInstances'' = JArr ys" "\<exists>e. p = JObj e \<and> dhas e ''CardInstances''"
proof -
  from assms card_schema(2) obtain d r where r: "v = JObj d" "p = JObj r" "dkeys r = map fst (schema_fields PlayerSnapshot)"
    and val: "\<And>f. f \<in> set (schema_fields PlayerSnapshot) \<Longrightarrow> field_value fl f d = Inr (attr p (fst f))"
    by (metis parsed_object card_fields(2))
  have mem: "rec_field ''CardInstances'' CardInstanceSnapshot \<in> set (schema_fields PlayerSnapshot)" by (simp add: PlayerSnapshot_def)
  from val [OF this] obtain xs ys where "py_iter (jget d ''CardInstances'') = Inr xs" "map_res (parse_schema fl CardInstanceSnapshot) xs = Inr ys"
    "attr p ''CardInstances'' = JArr ys"
    by (auto simp: field_value_def argument_def sbind_eq_Inr subscript_def map_array_def jget_def split: option.splits)
  moreover have "dhas r ''CardInstances''"
    using mem dget_iff_dkeys [of r "''CardInstances''"] unfolding r(3) by (force simp: dhas_def)
  ultimately show thesis using that r by blast
qed

lemma captured_cards:
  assumes "snapshot_from_dict fl v = Inr d"
  obtains cards pl where "jget d ''Player'' = JObj pl" "jget pl ''CardInstances'' = JArr cards" "dhas pl ''CardInstances''"
    "\<And>c keep. c \<in> set cards \<Longrightarrow> keeps keep \<Longrightarrow> stable fl CardInstanceSnapshot (prune keep c)"
proof -
  from assms obtain d0 where "v = JObj d0" by (auto simp: snapshot_from_dict_def sbind_eq_Inr split: json.splits)
  with assms state_attribute [of fl d0 d "(''Player'', Required, Rec PlayerSnapshot)"] obtain x where
    "parse_schema fl PlayerSnapshot x = Inr (jget d ''Player'')"
    by (auto simp: STATE_FIELDS_def field_value_def argument_def sbind_eq_Inr)
  then obtain d' xs ys e where p: "map_res (parse_schema fl CardInstanceSnapshot) xs = Inr ys" "attr (jget d ''Player'') ''CardInstances'' = JArr ys"
    "jget d ''Player'' = JObj e" "dhas e ''CardInstances''" by (elim parsed_player) blast
  from p(2,3) have arr: "jget e ''CardInstances'' = JArr ys" by (simp add: attr_def)
  show thesis
  proof (rule that [OF p(3) arr p(4)])
    fix c keep assume "c \<in> set ys" "keeps keep"
    with map_res_set [OF p(1)] parsed_stable card_fields(1) show "stable fl CardInstanceSnapshot (prune keep c)" by metis
  qed
qed

lemma stable_is_object: "stable fl s v \<Longrightarrow> \<exists>d. v = JObj d"
  by (cases s; cases v) (auto simp: stable_def sbind_eq_Inr)

lemma at_position_stable:
  assumes "stable fl CardInstanceSnapshot c"
  shows "stable fl CardInstanceSnapshot (at_position i c)"
proof -
  note step = stable_update [where cls = "''CardInstanceSnapshot''" and req = "schema_required CardInstanceSnapshot"
      and fs = "schema_fields CardInstanceSnapshot", folded card_schema(1)]
  from stable_is_object [OF assms] obtain d where d: "c = JObj d" by blast
  have "stable fl CardInstanceSnapshot (JObj (dset ''Zone'' (JStr ''draw_pile'') d))"
    using assms card_fields(1) unfolding d by (rule step [where p = Required and c = Raw]) (simp_all add: CardInstanceSnapshot_def)
  then have "stable fl CardInstanceSnapshot (JObj (dset ''PileIndex'' (JInt (int i)) (dset ''Zone'' (JStr ''draw_pile'') d)))"
    using card_fields(1) by (rule step [where p = If_not_none and c = As_int]) (simp_all add: CardInstanceSnapshot_def int_of_json_def)
  then show ?thesis by (simp add: d at_position_def)
qed

lemma attr_at_position:
  "c = JObj d \<Longrightarrow> attr (at_position i c) k
     = (if k = ''PileIndex'' then JInt (int i) else if k = ''Zone'' then JStr ''draw_pile'' else attr c k)"
  by (simp add: at_position_def attr_def)

definition well_identified :: "(string, json) dict \<Rightarrow> bool" where
  "well_identified s \<longleftrightarrow> (let cards = list_attr (jget s ''Player'') ''CardInstances'' in
     distinct (map instance_id cards) \<and> list_all (\<lambda>c. case attr c ''InstanceId'' of JStr _ \<Rightarrow> True | _ \<Rightarrow> False) cards)"

lemma instance_id_prune:
  "(case attr c ''InstanceId'' of JStr _ \<Rightarrow> True | _ \<Rightarrow> False) \<Longrightarrow> instance_id (strip_unknown c) = instance_id c"
  by (auto simp: instance_id_def strip_unknown_def attr_prune split: json.splits)

lemma position_prune: "pile_position (strip_unknown c) = pile_position c"
  by (cases "attr c ''PileIndex''") (simp_all add: pile_position_def strip_unknown_def attr_prune)

lemma replacement_lookup:
  assumes "distinct (map instance_id pile)"
  shows "i < length pile \<Longrightarrow> dget (replacement_by_id pile) (instance_id (pile ! i)) = Some (at_position i (pile ! i))"
    and "k \<notin> instance_id ` set pile \<Longrightarrow> dget (replacement_by_id pile) k = None"
proof -
  let ?e = "map (\<lambda>(i, c). (instance_id c, at_position i c)) (enumerate 0 pile)"
  have keys: "dkeys ?e = map instance_id pile" by (intro nth_equalityI) (simp_all add: nth_enumerate_eq)
  then have look: "dget (replacement_by_id pile) k = dget ?e k" for k
    using assms by (simp add: replacement_by_id_def dget_dupdate split: option.splits)
  show "k \<notin> instance_id ` set pile \<Longrightarrow> dget (replacement_by_id pile) k = None"
    unfolding look dget_None_iff keys by simp
  assume i: "i < length pile"
  then have "(instance_id (pile ! i), at_position i (pile ! i)) \<in> set ?e" by (force simp: in_set_enumerate_eq)
  then show "dget (replacement_by_id pile) (instance_id (pile ! i)) = Some (at_position i (pile ! i))"
    unfolding look using assms by (intro map_of_is_SomeI) (simp_all only: keys)
qed

text \<open>The card list with the cards of the pile at their new positions.\<close>

definition re_piled :: "json list \<Rightarrow> json list \<Rightarrow> bool" where
  "re_piled cards pile \<longleftrightarrow> distinct (map instance_id cards)
     \<and> (\<forall>c \<in> set cards. (case attr c ''InstanceId'' of JStr _ \<Rightarrow> True | _ \<Rightarrow> False) \<and> (\<exists>d. c = JObj d))
     \<and> mset pile = mset (filter (\<lambda>c. attr c ''Zone'' = JStr ''draw_pile'') cards)"

definition placed :: "json list \<Rightarrow> json \<Rightarrow> json" where
  "placed pile c = (case dget (replacement_by_id pile) (instance_id (strip_unknown c)) of Some n \<Rightarrow> n | None \<Rightarrow> strip_unknown c)"

lemma pile_set: "re_piled cards pile \<Longrightarrow> set pile = {c \<in> set cards. attr c ''Zone'' = JStr ''draw_pile''}"
  unfolding re_piled_def by (drule conjunct2, drule conjunct2, drule mset_eq_setD) auto

lemma pile_ids: "re_piled cards pile \<Longrightarrow> distinct (map instance_id pile)"
proof -
  assume r: "re_piled cards pile"
  then have "mset (map instance_id pile) = mset (map instance_id (filter (\<lambda>c. attr c ''Zone'' = JStr ''draw_pile'') cards))"
    by (simp add: re_piled_def)
  moreover have "distinct (map instance_id (filter (\<lambda>c. attr c ''Zone'' = JStr ''draw_pile'') cards))"
    using r by (intro distinct_map_filter) (simp add: re_piled_def)
  ultimately show ?thesis using mset_eq_imp_distinct_iff by blast
qed

lemma placed_pile: "re_piled cards pile \<Longrightarrow> i < length pile \<Longrightarrow> placed pile (pile ! i) = at_position i (pile ! i)"
  using replacement_lookup(1) [OF pile_ids] pile_set [of cards pile] nth_mem [of i pile]
  by (auto simp: placed_def re_piled_def instance_id_prune)

lemma placed_other:
  assumes r: "re_piled cards pile" and c: "c \<in> set cards" "c \<notin> set pile"
  shows "placed pile c = strip_unknown c"
proof -
  have "inj_on instance_id (set cards)" "set pile \<subseteq> set cards" using r pile_set [OF r] by (auto simp: re_piled_def distinct_map)
  then have "instance_id c \<notin> instance_id ` set pile" using c by (metis imageE in_mono inj_onD)
  with c r show ?thesis by (auto simp: placed_def re_piled_def instance_id_prune replacement_lookup(2) [OF pile_ids [OF r]])
qed

lemma placed_zone:
  assumes r: "re_piled cards pile" and c: "c \<in> set cards"
  shows "attr (placed pile c) ''Zone'' = JStr z \<longleftrightarrow> attr c ''Zone'' = JStr z"
proof (cases "c \<in> set pile")
  case True
  then obtain i where "placed pile c = at_position i c" using placed_pile [OF r] by (metis in_set_conv_nth)
  moreover obtain d where "c = JObj d" using r c by (auto simp: re_piled_def)
  moreover have "attr c ''Zone'' = JStr ''draw_pile''" using True pile_set [OF r] by simp
  ultimately show ?thesis by (simp add: attr_at_position)
next
  case False
  have "attr (strip_unknown c) ''Zone'' = JStr z \<longleftrightarrow> attr c ''Zone'' = JStr z" by (simp add: strip_unknown_def attr_prune)
  with placed_other [OF r c False] show ?thesis by simp
qed

lemma zone_of_placed:
  "re_piled cards pile \<Longrightarrow> filter (\<lambda>c. attr c ''Zone'' = JStr z) (map (placed pile) cards)
     = map (placed pile) (filter (\<lambda>c. attr c ''Zone'' = JStr z) cards)"
  unfolding filter_map comp_def by (rule arg_cong [where f = "map _"], rule filter_cong) (auto simp: placed_zone)

lemma draw_pile_placed:
  assumes r: "re_piled cards pile"
  shows "sort_key pile_position (filter (\<lambda>c. attr c ''Zone'' = JStr ''draw_pile'') (map (placed pile) cards))
     = map (\<lambda>(i, c). at_position i c) (enumerate 0 pile)"
proof (rule sort_key_inj_key_eq)
  let ?ys = "map (\<lambda>(i, c). at_position i c) (enumerate 0 pile)"
  let ?zs = "filter (\<lambda>c. attr c ''Zone'' = JStr ''draw_pile'') (map (placed pile) cards)"
  have ys: "?ys = map (placed pile) pile"
    by (intro nth_equalityI) (simp_all add: placed_pile [OF r] nth_enumerate_eq)
  show m: "mset ?zs = mset ?ys"
    unfolding zone_of_placed [OF r] ys using r by (simp add: re_piled_def)
  have "pile_position (?ys ! i) = int i" if "i < length pile" for i
  proof -
    have "pile ! i \<in> set cards" using that pile_set [OF r] nth_mem by blast
    with r obtain d where "pile ! i = JObj d" by (auto simp: re_piled_def)
    with that show ?thesis by (simp add: nth_enumerate_eq pile_position_def attr_at_position)
  qed
  then have pos: "map pile_position ?ys = map int [0..<length pile]"
    by (intro nth_equalityI) simp_all
  then have "distinct (map pile_position ?ys)" by (simp add: distinct_map)
  then have "inj_on pile_position (set ?ys)" by (simp only: distinct_map)
  moreover have "set ?zs = set ?ys" using m by (rule mset_eq_setD)
  ultimately show "inj_on pile_position (set ?zs)" by (simp only:)
  show "sorted (map pile_position ?ys)" unfolding pos by (simp add: sorted_map)
qed

lemma other_zone_placed:
  assumes r: "re_piled cards pile" and z: "z \<noteq> ''draw_pile''"
  shows "sort_key pile_position (filter (\<lambda>c. attr c ''Zone'' = JStr z) (map (placed pile) cards))
     = map strip_unknown (sort_key pile_position (filter (\<lambda>c. attr c ''Zone'' = JStr z) cards))"
proof -
  have eq: "map (placed pile) (filter (\<lambda>c. attr c ''Zone'' = JStr z) cards) = map strip_unknown (filter (\<lambda>c. attr c ''Zone'' = JStr z) cards)"
    using z pile_set [OF r] by (intro map_cong refl) (auto intro: placed_other [OF r])
  show ?thesis unfolding zone_of_placed [OF r] eq
    by (rule sort_key_map [symmetric]) (rule position_prune)
qed

lemma strip_arr: "strip_unknown (JArr xs) = JArr (map strip_unknown xs)"
  by (simp add: strip_unknown_def [abs_def])

lemma attr_obj: "attr (JObj d) k = jget d k"
  by (simp add: attr_def)

lemma sbind_InrE: "sbind m f = Inr y \<Longrightarrow> (\<And>x. m = Inr x \<Longrightarrow> f x = Inr y \<Longrightarrow> P) \<Longrightarrow> P"
  by (cases m) auto

lemma update_attr_prune:
  "known_key k \<Longrightarrow> dhas d k \<Longrightarrow> update_attr k f (strip_unknown (JObj d)) = JObj (dset k (f (strip_unknown (jget d k))) (strip_entries d))"
  by (simp add: update_attr_def jget_prune strip_unknown_def)

lemma map_object_entry:
  assumes "map_object f (JObj (dset k v d)) = Inr w" "f v = Inr y"
  shows "attr w k = y"
proof -
  from assms(1) obtain e where e: "map_values f (dset k v d) = Inr e" "w = JObj e"
    by (auto simp: map_object_def py_items_def sbind_eq_Inr)
  have "dget e k = (case dget a k of None \<Rightarrow> None | Some x \<Rightarrow> (case f x of Inr z \<Rightarrow> Some z | Inl _ \<Rightarrow> None))"
    if "map_values f a = Inr e" for a e
    using that
  proof (induction a arbitrary: e)
    case (Cons kv a)
    then show ?case by (cases kv) (auto simp: map_values_def sbind_eq_Inr)
  qed (simp add: map_values_def)
  from this [OF e(1)] assms(2) e(2) show ?thesis by (simp add: attr_def jget_def)
qed

lemma rng_stable: "parse_schema fl SerializableRngSnapshot (JObj (rng_to_dict r)) = Inr (JObj (rng_to_dict r))"
  by (simp add: SerializableRngSnapshot_def require_keys_def py_contains_def rng_to_dict_def dhas_def argument_def subscript_def int_of_json_def)

lemma distinct_map_sort: "distinct (map f (sort_key g xs)) \<longleftrightarrow> distinct (map f xs)"
  by (rule mset_eq_imp_distinct_iff) simp

text \<open>The parts of a captured snapshot are read as they are, also with the new cards and the new stream.\<close>

lemma captured_parts:
  assumes "snapshot_from_dict fl v = Inr d"
  shows "stable fl PlayerSnapshot (strip_unknown (jget d ''Player''))"
    and "stable fl RngSnapshotSet (strip_unknown (jget d ''Rng''))"
proof -
  have sound: "sound_schema PlayerSnapshot" "sound_schema RngSnapshotSet" by code_simp+
  from assms obtain d0 where "v = JObj d0" by (auto simp: snapshot_from_dict_def sbind_eq_Inr split: json.splits)
  with assms have state: "f \<in> set STATE_FIELDS \<Longrightarrow> field_value fl f d0 = Inr (jget d (fst f))" for f
    by (auto dest: state_attribute)
  from state [of "(''Player'', Required, Rec PlayerSnapshot)"] obtain x where
    "parse_schema fl PlayerSnapshot x = Inr (jget d ''Player'')"
    by (auto simp: STATE_FIELDS_def field_value_def argument_def sbind_eq_Inr)
  from parsed_stable [OF this sound(1) keeps_known] show "stable fl PlayerSnapshot (strip_unknown (jget d ''Player''))"
    by (simp add: strip_unknown_def)
  from state [of "(''Rng'', Required, Rec RngSnapshotSet)"] obtain y where
    "parse_schema fl RngSnapshotSet y = Inr (jget d ''Rng'')"
    by (auto simp: STATE_FIELDS_def field_value_def argument_def sbind_eq_Inr)
  from parsed_stable [OF this sound(2) keeps_known] show "stable fl RngSnapshotSet (strip_unknown (jget d ''Rng''))"
    by (simp add: strip_unknown_def)
qed

lemma player_rebuilt:
  assumes "stable fl PlayerSnapshot (JObj pl)" "list_all (stable fl CardInstanceSnapshot) cards"
  shows "stable fl PlayerSnapshot (JObj (dset ''CardInstances'' (JArr cards) pl))"
proof -
  have sound: "sound_schema PlayerSnapshot" by code_simp
  show ?thesis
    using assms(1) sound
    by (rule stable_update [where cls = "''PlayerSnapshot''" and req = "schema_required PlayerSnapshot"
          and fs = "schema_fields PlayerSnapshot" and p = Required and c = "Rec_list CardInstanceSnapshot", folded card_schema(2)])
      (simp_all add: PlayerSnapshot_def stable_array [OF assms(2)])
qed

lemma map_values_dset:
  assumes "map_values f d = Inr d" "f v = Inr v"
  shows "map_values f (dset k v d) = Inr (dset k v d)"
  using assms
proof (induction d)
  case Nil
  then show ?case by (simp add: map_values_def dset_def)
next
  case (Cons kv d)
  obtain k' w where kv: "kv = (k', w)" by (cases kv)
  from Cons.prems(1) have w: "f w = Inr w" and d: "map_values f d = Inr d"
    by (auto simp: map_values_def kv sbind_eq_Inr)
  show ?case
  proof (cases "k' = k")
    case True
    with Cons.prems(2) d show ?thesis by (simp add: kv dset_def map_values_def)
  next
    case False
    with Cons.IH [OF d Cons.prems(2)] w show ?thesis by (simp add: kv dset_def map_values_def)
  qed
qed

lemma rng_rebuilt:
  assumes e: "stable fl RngSnapshotSet (JObj e)" and run: "jget e ''RunRng'' = JObj run"
  shows "stable fl RngSnapshotSet (JObj (dset ''RunRng'' (JObj (dset ''Shuffle'' (JObj (rng_to_dict r)) run)) e))"
proof -
  have sound: "sound_schema RngSnapshotSet" by code_simp
  from e have "parse_schema fl RngSnapshotSet (JObj e) = Inr (JObj e)" by (simp add: stable_def)
  with card_schema(3) have "parse_schema fl (Schema ''RngSnapshotSet'' (schema_required RngSnapshotSet) (schema_fields RngSnapshotSet)) (JObj e) = Inr (JObj e)"
    by simp
  then have "parse_fields fl (schema_fields RngSnapshotSet) e = Inr e" by (auto simp: sbind_eq_Inr)
  from parsed_attribute [OF this card_fields(3), of "(''RunRng'', Required, Rec_dict SerializableRngSnapshot)"]
  have "field_value fl (''RunRng'', Required, Rec_dict SerializableRngSnapshot) e = Inr (JObj run)"
    by (simp add: RngSnapshotSet_def run)
  then have "map_object (parse_schema fl SerializableRngSnapshot) (JObj run) = Inr (JObj run)"
    using run by (auto simp: field_value_def argument_def subscript_def jget_def sbind_eq_Inr split: option.splits)
  then have "map_values (parse_schema fl SerializableRngSnapshot) run = Inr run"
    by (simp add: map_object_def py_items_def sbind_eq_Inr)
  from map_values_dset [OF this rng_stable]
  have new: "map_object (parse_schema fl SerializableRngSnapshot) (JObj (dset ''Shuffle'' (JObj (rng_to_dict r)) run))
      = Inr (JObj (dset ''Shuffle'' (JObj (rng_to_dict r)) run))"
    by (simp add: map_object_def py_items_def)
  show ?thesis
    using e sound
    by (rule stable_update [where cls = "''RngSnapshotSet''" and req = "schema_required RngSnapshotSet"
          and fs = "schema_fields RngSnapshotSet" and p = Required and c = "Rec_dict SerializableRngSnapshot", folded card_schema(3)])
      (simp_all add: RngSnapshotSet_def new)
qed

lemma jget_after: "jget (dset k v d) j = (if j = k then v else jget d j)"
  by (simp add: jget_def)

lemma jget_stripped: "k = ''unknown_fields'' \<or> strip_unknown (jget (strip_entries d) k) = strip_unknown (jget d k)"
  by (cases "k = ''unknown_fields''") (simp_all add: jget_prune known_key_def flip: strip_unknown_def)

lemma attr_stripped: "k = ''unknown_fields'' \<or> strip_unknown (attr (strip_unknown v) k) = strip_unknown (attr v k)"
  by (cases "k = ''unknown_fields''") (simp_all add: known_key_def attr_prune [of known_key, folded strip_unknown_def])

text \<open>Two values agree in all attributes but some, up to their unknown fields.\<close>

definition agree_besides :: "string list \<Rightarrow> json \<Rightarrow> json \<Rightarrow> bool" where
  "agree_besides ks v w \<longleftrightarrow>
     (\<forall>k. k \<in> set (''unknown_fields'' # ks) \<or> strip_unknown (attr v k) = strip_unknown (attr w k))"

lemma rebuilt_rest:
  assumes root: "snapshot_from_dict fl v = Inr d"
    and s: "snapshot_from_dict fl (JObj (dset ''Player'' p (dset ''Rng'' r (strip_entries d)))) = Inr s"
  shows "agree_besides [''Player'', ''Rng''] (JObj s) (JObj d)"
  unfolding agree_besides_def
proof
  fix k
  obtain s0 where s0: "snapshot_from_dict fl (JObj (strip_entries d)) = Inr s0" "strip_entries s0 = strip_entries d"
    by (rule snapshot_again [OF root]) (simp add: that)
  have original: "strip_unknown (jget s0 k) = strip_unknown (jget d k)" if "k \<noteq> ''unknown_fields''"
    using arg_cong [OF s0(2), of "\<lambda>x. jget x k"] that by (simp add: jget_prune known_key_def flip: strip_unknown_def)
  have form: "\<exists>meta r u m. s = (''Metadata'', meta) # r @ [(''unknown_fields'', JObj u)] \<and> dkeys r = map fst STATE_FIELDS
      \<and> subscript x ''Metadata'' = Inr m \<and> metadata_from_dict fl m = Inr meta"
    if "snapshot_from_dict fl (JObj x) = Inr s" for x s
    using that parse_fields_keys [of fl STATE_FIELDS x] by (auto simp: snapshot_from_dict_def sbind_eq_Inr)
  obtain m1 r1 u1 where f1: "s = (''Metadata'', m1) # r1 @ [(''unknown_fields'', JObj u1)]" "dkeys r1 = map fst STATE_FIELDS"
      "\<exists>m. subscript (strip_entries d) ''Metadata'' = Inr m \<and> metadata_from_dict fl m = Inr m1"
    using form [OF s] by (auto simp: subscript_def)
  obtain m2 r2 u2 where f2: "s0 = (''Metadata'', m2) # r2 @ [(''unknown_fields'', JObj u2)]" "dkeys r2 = map fst STATE_FIELDS"
      "\<exists>m. subscript (strip_entries d) ''Metadata'' = Inr m \<and> metadata_from_dict fl m = Inr m2"
    using form [OF s0(1)] by auto
  have "jget s k = jget s0 k" if k: "k \<notin> {''unknown_fields'', ''Player'', ''Rng''}"
  proof (cases "k = ''Metadata''")
    case True
    with f1 f2 show ?thesis by (auto simp: jget_head)
  next
    case meta: False
    show ?thesis
    proof (cases "k \<in> set (map fst STATE_FIELDS)")
      case True
      then obtain f where f: "f \<in> set STATE_FIELDS" "k = fst f" by auto
      then have "''Player'' \<noteq> fst f" "''Rng'' \<noteq> fst f" using k by auto
      with f(2) state_attribute [OF s f(1)] state_attribute [OF s0(1) f(1)] show ?thesis
        by (simp add: field_value_other)
    next
      case False
      then have "dget r1 k = None" "dget r2 k = None" using f1(2) f2(2) by (simp_all add: dget_None_iff del: list.set_map)
      with meta k f1(1) f2(1) show ?thesis by (auto simp: jget_def map_add_def)
    qed
  qed
  with original show "k \<in> set [''unknown_fields'', ''Player'', ''Rng''] \<or> strip_unknown (attr (JObj s) k) = strip_unknown (attr (JObj d) k)"
    by (cases "k \<in> {''unknown_fields'', ''Player'', ''Rng''}") (auto simp: attr_obj)
qed

lemma derived_snapshot:
  assumes root: "snapshot_from_dict fl v = Inr d" and wi: "well_identified d"
    and der: "derive_substituted_snapshot fl d h pinned = Inr s"
  obtains pile where "draw_pile_instances_for_hypothesis d (hy_cards h) pinned = Inr pile"
    "draw_pile s = map (\<lambda>(i, c). at_position i c) (enumerate 0 pile)"
    "\<And>z. z \<noteq> ''draw_pile'' \<Longrightarrow> cards_in_zone (jget s ''Player'') z = map strip_unknown (cards_in_zone (jget d ''Player'') z)"
    "attr (attr (jget s ''Rng'') ''RunRng'') ''Shuffle'' = JObj (rng_to_dict (hy_rng h))"
    "distinct (map instance_id (draw_pile d))" "\<And>c. c \<in> set (draw_pile d) \<Longrightarrow> \<exists>e. c = JObj e"
    "agree_besides [''Player'', ''Rng''] (JObj s) (JObj d)"
    "agree_besides [''CardInstances''] (jget s ''Player'') (jget d ''Player'')"
    "agree_besides [''RunRng''] (jget s ''Rng'') (jget d ''Rng'')"
    "agree_besides [''Shuffle''] (attr (jget s ''Rng'') ''RunRng'') (attr (jget d ''Rng'') ''RunRng'')"
proof -
  obtain cards pl where pl: "jget d ''Player'' = JObj pl" "jget pl ''CardInstances'' = JArr cards"
      "dhas pl ''CardInstances''"
    and st: "\<And>c keep. c \<in> set cards \<Longrightarrow> keeps keep \<Longrightarrow> stable fl CardInstanceSnapshot (prune keep c)"
    by (rule captured_cards [OF root]) (rule that)
  have st1: "stable fl CardInstanceSnapshot c" "stable fl CardInstanceSnapshot (strip_unknown c)" if "c \<in> set cards" for c
    using st [OF that keeps_all] st [OF that keeps_known] by (simp_all add: strip_unknown_def)
  let ?P = "strip_entries d"
  note der' = der [unfolded derive_substituted_snapshot_def Let_def strip_simps(1) attr_obj]
  obtain run where run0: "as_dict (attr (jget ?P ''Rng'') ''RunRng'') = Inr run"
    and rest: "(if \<not> dhas run ''Shuffle'' then value_error ''root_snapshot.Rng.RunRng is missing required \"Shuffle\" stream''
      else sbind (draw_pile_instances_for_hypothesis d (hy_cards h) pinned) (\<lambda>pile. snapshot_from_dict fl
          (update_attr ''Player'' (update_attr ''CardInstances'' (replace_cards (replacement_by_id pile)))
            (update_attr ''Rng'' (update_attr ''RunRng'' (update_attr ''Shuffle'' (\<lambda>_. JObj (rng_to_dict (hy_rng h))))) (JObj ?P))))) = Inr s"
    by (rule sbind_InrE [OF der'])
  from rest have shuffle: "dhas run ''Shuffle''" by (rule_tac ccontr) (simp add: value_error_def)
  with rest obtain pile where pile: "draw_pile_instances_for_hypothesis d (hy_cards h) pinned = Inr pile"
    and snap: "snapshot_from_dict fl
          (update_attr ''Player'' (update_attr ''CardInstances'' (replace_cards (replacement_by_id pile)))
            (update_attr ''Rng'' (update_attr ''RunRng'' (update_attr ''Shuffle'' (\<lambda>_. JObj (rng_to_dict (hy_rng h))))) (JObj ?P))) = Inr s"
    by (auto elim: sbind_InrE)
  from run0 have run: "attr (jget ?P ''Rng'') ''RunRng'' = JObj run" by (simp add: as_dict_def split: json.splits)
  have dp: "draw_pile d = sort_key pile_position (filter (\<lambda>c. attr c ''Zone'' = JStr ''draw_pile'') cards)"
    using pl by (simp add: draw_pile_def cards_in_zone_def list_attr_def attr_def elements_def)
  have cl: "list_attr (jget d ''Player'') ''CardInstances'' = cards" using pl by (simp add: list_attr_def attr_def elements_def)
  have ids: "distinct (map instance_id cards)" using wi by (simp add: well_identified_def cl)
  then have "distinct (map instance_id (filter (\<lambda>c. attr c ''Zone'' = JStr ''draw_pile'') cards))" by (rule distinct_map_filter)
  then have dids: "distinct (map instance_id (draw_pile d))"
    unfolding dp distinct_map_sort .
  note perm = pile_allocated [OF pile dids]
  have r: "re_piled cards pile"
    unfolding re_piled_def
  proof (intro conjI ballI)
    show "distinct (map instance_id cards)" by (rule ids)
    show "mset pile = mset (filter (\<lambda>c. attr c ''Zone'' = JStr ''draw_pile'') cards)" using perm(2) by (simp add: dp)
    fix c assume c: "c \<in> set cards"
    then show "case attr c ''InstanceId'' of JStr _ \<Rightarrow> True | _ \<Rightarrow> False" using wi by (simp add: well_identified_def cl list_all_iff)
    show "\<exists>d. c = JObj d" by (rule stable_is_object [OF st1(1) [OF c]])
  qed
  have new: "replace_cards (replacement_by_id pile) (strip_unknown (JArr cards)) = JArr (map (placed pile) cards)"
    by (simp add: replace_cards_def elements_def strip_arr placed_def)
  have placed_st: "list_all (stable fl CardInstanceSnapshot) (map (placed pile) cards)"
  proof -
    have "stable fl CardInstanceSnapshot (placed pile c)" if c: "c \<in> set cards" for c
    proof (cases "c \<in> set pile")
      case True
      then obtain i where "placed pile c = at_position i c" using placed_pile [OF r] by (metis in_set_conv_nth)
      with at_position_stable st1(1) [OF c] show ?thesis by simp
    qed (use placed_other [OF r c] st1(2) [OF c] in simp)
    then show ?thesis by (simp add: list_all_iff)
  qed
  let ?player = "JObj (dset ''CardInstances'' (JArr (map (placed pile) cards)) (strip_entries pl))"
  let ?rng = "update_attr ''RunRng'' (update_attr ''Shuffle'' (\<lambda>_. JObj (rng_to_dict (hy_rng h)))) (jget ?P ''Rng'')"
  have player: "update_attr ''CardInstances'' (replace_cards (replacement_by_id pile)) (jget ?P ''Player'') = ?player"
    using update_attr_prune [of "''CardInstances''" pl "replace_cards (replacement_by_id pile)"] pl new
    by (simp add: jget_prune flip: strip_unknown_def)
  have built: "snapshot_from_dict fl (JObj (dset ''Player'' ?player (dset ''Rng'' ?rng ?P))) = Inr s"
    using snap player by (simp add: update_attr_def)
  note state = state_attribute [OF this]
  have "stable fl PlayerSnapshot ?player"
    using captured_parts(1) [OF root] pl(1) placed_st by (simp add: player_rebuilt)
  with state [of "(''Player'', Required, Rec PlayerSnapshot)"] have player': "jget s ''Player'' = ?player"
    by (simp add: STATE_FIELDS_def field_value_def argument_def subscript_def stable_def)
  then have cards': "list_attr (jget s ''Player'') ''CardInstances'' = map (placed pile) cards"
    by (simp add: list_attr_def elements_def attr_def)
  from run obtain e where e: "jget ?P ''Rng'' = JObj e" "jget e ''RunRng'' = JObj run" by (auto simp: attr_def split: json.splits)
  have stripped: "strip_unknown (jget d ''Rng'') = JObj e"
    using e(1) by (simp add: jget_prune known_key_def flip: strip_unknown_def)
  have stripped_run: "strip_unknown (attr (jget d ''Rng'') ''RunRng'') = JObj run"
    using arg_cong [OF stripped, of "\<lambda>v. attr v ''RunRng''"] e(2)
    by (simp add: attr_obj known_key_def attr_prune [of known_key, folded strip_unknown_def])
  let ?run = "dset ''Shuffle'' (JObj (rng_to_dict (hy_rng h))) run"
  have "stable fl RngSnapshotSet (JObj (dset ''RunRng'' (JObj ?run) e))"
    using captured_parts(2) [OF root] stripped e(2) by (simp add: rng_rebuilt)
  with state [of "(''Rng'', Required, Rec RngSnapshotSet)"] e have rng': "jget s ''Rng'' = JObj (dset ''RunRng'' (JObj ?run) e)"
    by (simp add: STATE_FIELDS_def field_value_def argument_def subscript_def stable_def update_attr_def)
  have "agree_besides [''Player'', ''Rng''] (JObj s) (JObj d)" using rebuilt_rest [OF root built] .
  moreover have "agree_besides [''CardInstances''] (jget s ''Player'') (jget d ''Player'')"
    unfolding agree_besides_def player' pl(1)
    using jget_stripped [of _ pl] by (auto simp: attr_obj jget_after)
  moreover have "agree_besides [''RunRng''] (jget s ''Rng'') (jget d ''Rng'')"
    unfolding agree_besides_def rng'
    using attr_stripped [of _ "jget d ''Rng''", unfolded stripped attr_obj] by (auto simp: attr_obj jget_after)
  moreover have "agree_besides [''Shuffle''] (attr (jget s ''Rng'') ''RunRng'') (attr (jget d ''Rng'') ''RunRng'')"
    unfolding agree_besides_def rng'
    using attr_stripped [of _ "attr (jget d ''Rng'') ''RunRng''", unfolded stripped_run attr_obj] by (auto simp: attr_obj jget_after)
  moreover have "attr (attr (jget s ''Rng'') ''RunRng'') ''Shuffle'' = JObj (rng_to_dict (hy_rng h))"
    unfolding rng' by (simp add: attr_obj jget_def)
  moreover have "draw_pile s = map (\<lambda>(i, c). at_position i c) (enumerate 0 pile)"
    unfolding draw_pile_def cards_in_zone_def cards' by (rule draw_pile_placed [OF r])
  moreover have "cards_in_zone (jget s ''Player'') z = map strip_unknown (cards_in_zone (jget d ''Player'') z)" if "z \<noteq> ''draw_pile''" for z
    unfolding cards_in_zone_def cards' cl by (rule other_zone_placed [OF r that])
  moreover have "\<exists>e. c = JObj e" if "c \<in> set (draw_pile d)" for c
    using that stable_is_object [OF st1(1)] by (simp add: dp)
  ultimately show thesis using that pile dids by blast
qed

lemma apply_hypothesis_Inr:
  assumes "apply_hypothesis_to_context fl sha ctx h = Inr ctx'" "dc_root ctx = Snapshot d"
  obtains cs eff s where "cs = constraints_until_block (dc_prefix ctx)"
    "hy_cards eff = map (card_id_from_observable_key \<circ> snd) cs @ fold remove1 (map (card_id_from_observable_key \<circ> snd) cs) (hy_cards h)"
    "mset (hy_cards eff) = mset (hy_cards h)" "hy_rng eff = hy_rng h" "derive_substituted_snapshot fl d eff cs = Inr s"
    "dc_root ctx' = Snapshot s" "dc_hypothesis ctx' = Some (to_slot_value sha eff)"
proof -
  from assms obtain a cs eff s where m: "search_root (Snapshot d) = Inr (a :: unit search_adapter)"
    and cs: "pinned_prefix_visible_draw_constraints ctx = Inr cs" and eff: "(if cs \<noteq> [] then reorder_hypothesis h cs else Inr h) = Inr eff"
    and s: "derive_substituted_snapshot fl d eff cs = Inr s" and ctx': "ctx' = with_search_hypothesis sha (ctx\<lparr>dc_root := Snapshot s\<rparr>) (Some eff)"
    by (auto simp: apply_hypothesis_to_context_def sbind_eq_Inr captured_def split: if_splits)
  have c: "cs = constraints_until_block (dc_prefix ctx)"
    using cs by (auto simp: pinned_prefix_visible_draw_constraints_def Let_def value_error_def split: if_splits)
  have e: "mset (hy_cards eff) = mset (hy_cards h) \<and> hy_rng eff = hy_rng h
    \<and> hy_cards eff = map (card_id_from_observable_key \<circ> snd) cs @ fold remove1 (map (card_id_from_observable_key \<circ> snd) cs) (hy_cards h)"
  proof (cases "cs = []")
    case False
    with eff obtain r where r: "pin_cards cs [] (hy_cards h) = Inr r" "eff = h\<lparr>hy_cards := r\<rparr>"
      by (auto simp: reorder_hypothesis_def sbind_eq_Inr)
    then have "hy_cards eff = r" "hy_rng eff = hy_rng h" by simp_all
    with pin_cards_Inr [OF r(1)] show ?thesis by (metis append_Nil)
  qed (use eff in simp)
  show thesis
    using that [OF c conjunct2 [OF conjunct2 [OF e]] conjunct1 [OF e] conjunct1 [OF conjunct2 [OF e]] s] ctx'
    by (simp add: with_search_hypothesis_def)
qed

lemma sorted_counts_mset: "mset xs = mset ys \<Longrightarrow> sorted_counts xs = sorted_counts ys"
  by (simp add: sorted_counts_def sorted_list_of_set_sort_remdups [symmetric] mset_eq_setD [of xs ys] flip: count_mset)

text \<open>Two cards at different positions of the pile never have the same frozen state.\<close>

lemma frozen_entry:
  assumes "(k, v) \<in> set d"
  shows "JArr [JStr k, py_norm (freeze v)] \<in> set (case py_norm (freeze (JObj d)) of JArr xs \<Rightarrow> xs | _ \<Rightarrow> [])"
  using assms by (force simp: image_iff)

lemma frozen_entries:
  "JArr [JStr k, w] \<in> set (case py_norm (freeze (JObj d)) of JArr xs \<Rightarrow> xs | _ \<Rightarrow> []) \<Longrightarrow> \<exists>v. (k, v) \<in> set d \<and> w = py_norm (freeze v)"
  by auto

lemma frozen_position:
  assumes "c = JObj d" "c' = JObj d'" "distinct (dkeys d)" "distinct (dkeys d')"
    "attr c ''PileIndex'' = JInt i" "attr c' ''PileIndex'' = JInt j" "i \<noteq> j"
  shows "py_norm (snapshot_card_replay_internal_key c) \<noteq> py_norm (snapshot_card_replay_internal_key c')"
proof
  let ?f = "\<lambda>e. filter (\<lambda>(k, v). k \<notin> {''InstanceId'', ''Zone''}) e :: (string, json) dict"
  have at: "(''PileIndex'', JInt n) \<in> set (?f e)" if "attr (JObj e) ''PileIndex'' = JInt n" for e n
    using that by (auto simp: attr_def jget_def split: option.splits dest: map_of_SomeD)
  assume "py_norm (snapshot_card_replay_internal_key c) = py_norm (snapshot_card_replay_internal_key c')"
  then have eq: "py_norm (freeze (JObj (?f d))) = py_norm (freeze (JObj (?f d')))"
    using assms(1,2) by (simp add: snapshot_card_replay_internal_key_def)
  have "JArr [JStr ''PileIndex'', JInt i] \<in> set (case py_norm (freeze (JObj (?f d))) of JArr xs \<Rightarrow> xs | _ \<Rightarrow> [])"
    using frozen_entry [OF at [of d i]] assms(1,5) by simp
  from frozen_entries [OF this [unfolded eq]] obtain v where v: "(''PileIndex'', v) \<in> set d'" "JInt i = py_norm (freeze v)" by auto
  with assms(2,4,6) have "v = JInt j" by (auto simp: attr_def jget_def split: option.splits)
  with v(2) assms(7) show False by simp
qed

text \<open>
  So a card of which the pile holds two copies is never pinned: the two copies count as different
  hidden states.
\<close>

lemma two_copies_refused:
  assumes "c \<in> set cards" "c' \<in> set cards" "observable_card_key_from_snapshot c = Some k" "observable_card_key_from_snapshot c' = Some k"
    "c = JObj d" "c' = JObj d'" "distinct (dkeys d)" "distinct (dkeys d')"
    "attr c ''PileIndex'' = JInt i" "attr c' ''PileIndex'' = JInt j" "i \<noteq> j"
  shows "check_pinned_keys keys cards (k # ks) \<noteq> Inr ()"
proof -
  let ?m = "filter (\<lambda>c. observable_card_key_from_snapshot c = Some k) cards"
  let ?ks = "remdups (map (py_norm \<circ> snapshot_card_replay_internal_key) ?m)"
  have "py_norm (snapshot_card_replay_internal_key c) \<in> set ?ks" "py_norm (snapshot_card_replay_internal_key c') \<in> set ?ks"
    using assms(1-4) by auto
  with frozen_position [OF assms(5-11)] have "length ?ks \<noteq> 1"
    by (metis (no_types, lifting) One_nat_def length_0_conv length_Suc_conv list.set(1) list.set(2) singletonD)
  then show ?thesis by (simp add: Let_def value_error_def del: remdups_map_remdups)
qed

section \<open>Properties\<close>

text \<open>
  C25.  A hypothesis applied to a context is what the worker restores: the draw pile of the derived
  root holds the same card instances, in the order of the hypothesis after the draws already seen;
  every pinned position shows the card that was drawn; the Shuffle stream is that of the hypothesis.
  Up to unknown fields nothing else changes: not the other attributes of a card of the pile but its
  position, not the cards of another pile, no other attribute of the player, no other generator
  or stream, and nothing outside the player and the generators.
\<close>

theorem applied_hypothesis_realised:
  assumes "snapshot_from_dict fl v = Inr d" "well_identified d" "dc_root ctx = Snapshot d"
    and "apply_hypothesis_to_context fl sha ctx h = Inr ctx'" "z \<noteq> ''draw_pile''"
  shows "\<exists>s. dc_root ctx' = Snapshot s
    \<and> mset (map instance_id (draw_pile s)) = mset (map instance_id (draw_pile d))
    \<and> (let cs = constraints_until_block (dc_prefix ctx); seen = map (card_id_from_observable_key \<circ> snd) cs in
        map card_id (draw_pile s) = seen @ fold remove1 seen (hy_cards h)
        \<and> list_all (\<lambda>(i, k). i < length (draw_pile s) \<and> observable_card_key_from_snapshot (draw_pile s ! i) = Some k) cs)
    \<and> cards_in_zone (jget s ''Player'') z = map strip_unknown (cards_in_zone (jget d ''Player'') z)
    \<and> list_all (\<lambda>c. list_ex (\<lambda>c0. instance_id c = instance_id c0 \<and> agree_besides [''PileIndex''] c c0) (draw_pile d)) (draw_pile s)
    \<and> attr (attr (jget s ''Rng'') ''RunRng'') ''Shuffle'' = JObj (rng_to_dict (hy_rng h))
    \<and> agree_besides [''Player'', ''Rng''] (JObj s) (JObj d)
    \<and> agree_besides [''CardInstances''] (jget s ''Player'') (jget d ''Player'')
    \<and> agree_besides [''RunRng''] (jget s ''Rng'') (jget d ''Rng'')
    \<and> agree_besides [''Shuffle''] (attr (jget s ''Rng'') ''RunRng'') (attr (jget d ''Rng'') ''RunRng'')"
proof -
  obtain cs eff s where cs: "cs = constraints_until_block (dc_prefix ctx)"
    and eff: "hy_cards eff = map (card_id_from_observable_key \<circ> snd) cs @ fold remove1 (map (card_id_from_observable_key \<circ> snd) cs) (hy_cards h)"
      "hy_rng eff = hy_rng h"
    and der: "derive_substituted_snapshot fl d eff cs = Inr s" and root: "dc_root ctx' = Snapshot s"
    by (rule apply_hypothesis_Inr [OF assms(4,3)]) (rule that)
  obtain pile where pile: "draw_pile_instances_for_hypothesis d (hy_cards eff) cs = Inr pile"
    and s: "draw_pile s = map (\<lambda>(i, c). at_position i c) (enumerate 0 pile)"
    and other: "\<And>z. z \<noteq> ''draw_pile'' \<Longrightarrow> cards_in_zone (jget s ''Player'') z = map strip_unknown (cards_in_zone (jget d ''Player'') z)"
    and rng: "attr (attr (jget s ''Rng'') ''RunRng'') ''Shuffle'' = JObj (rng_to_dict (hy_rng eff))"
    and ids: "distinct (map instance_id (draw_pile d))" and obj: "\<And>c. c \<in> set (draw_pile d) \<Longrightarrow> \<exists>e. c = JObj e"
    and agree: "agree_besides [''Player'', ''Rng''] (JObj s) (JObj d)"
      "agree_besides [''CardInstances''] (jget s ''Player'') (jget d ''Player'')"
      "agree_besides [''RunRng''] (jget s ''Rng'') (jget d ''Rng'')"
      "agree_besides [''Shuffle''] (attr (jget s ''Rng'') ''RunRng'') (attr (jget d ''Rng'') ''RunRng'')"
    by (rule derived_snapshot [OF assms(1,2) der]) (rule that)
  note p = pile_allocated [OF pile ids]
  have len: "length (draw_pile s) = length pile" by (simp add: s)
  have at: "draw_pile s ! i = at_position i (pile ! i) \<and> (\<exists>e. pile ! i = JObj e)" if "i < length pile" for i
    using that obj mset_eq_setD [OF p(2)] nth_mem [of i pile] by (simp add: s nth_enumerate_eq)
  have same: "instance_id (draw_pile s ! i) = instance_id (pile ! i) \<and> card_id (draw_pile s ! i) = card_id (pile ! i)
      \<and> observable_card_key_from_snapshot (draw_pile s ! i) = observable_card_key_from_snapshot (pile ! i)" if "i < length pile" for i
  proof -
    from at [OF that] have "attr (draw_pile s ! i) k = attr (pile ! i) k" if "k \<noteq> ''PileIndex''" "k \<noteq> ''Zone''" for k
      using that by (auto simp: attr_at_position)
    then show ?thesis by (simp add: instance_id_def card_id_def observable_card_key_from_snapshot_def int_attr_def cong: option.case_cong)
  qed
  have maps: "map instance_id (draw_pile s) = map instance_id pile" "map card_id (draw_pile s) = map card_id pile"
    using same len by (auto intro: nth_equalityI)
  have "list_all (\<lambda>(i, k). i < length (draw_pile s) \<and> observable_card_key_from_snapshot (draw_pile s ! i) = Some k) cs"
    using p(3) same len by (fastforce simp: list_all_iff)
  moreover have "mset (map instance_id (draw_pile s)) = mset (map instance_id (draw_pile d))" unfolding maps using p(2) by simp
  moreover have "list_all (\<lambda>c. list_ex (\<lambda>c0. instance_id c = instance_id c0 \<and> agree_besides [''PileIndex''] c c0) (draw_pile d)) (draw_pile s)"
    unfolding list_all_length list_ex_iff
  proof (intro allI impI)
    fix i assume "i < length (draw_pile s)"
    then have i: "i < length pile" by (simp add: len)
    then have mem: "pile ! i \<in> set (draw_pile d)" using mset_eq_setD [OF p(2)] nth_mem by blast
    then have "attr (pile ! i) ''Zone'' = JStr ''draw_pile''" by (simp add: draw_pile_def cards_in_zone_def)
    with at [OF i] have "agree_besides [''PileIndex''] (draw_pile s ! i) (pile ! i)"
      by (auto simp: agree_besides_def attr_at_position split: if_splits)
    with mem same [OF i] show "\<exists>c0 \<in> set (draw_pile d). instance_id (draw_pile s ! i) = instance_id c0
        \<and> agree_besides [''PileIndex''] (draw_pile s ! i) c0" by blast
  qed
  ultimately show ?thesis
    using root maps(2) p(1) eff other [OF assms(5)] rng agree unfolding Let_def cs [symmetric] eff(2) [symmetric]
    by (intro exI [of _ s] conjI) (simp_all add: cs)
qed

text \<open>
  Hypotheses generated from a pile depend on it only through the multiset of its card ids; each is an
  order of exactly those cards and carries the stream that its source gives.
\<close>

lemma beliefs_of_multiset:
  assumes "\<And>n g. 0 < n \<Longrightarrow> fst (pg_range p n g) < n"
    and "mset (map card_id (draw_pile d)) = mset (map card_id (draw_pile d'))"
    and "generate_belief_hypotheses sha p (compute_public_multiset d) n source = Inr hs"
  shows "generate_belief_hypotheses sha p (compute_public_multiset d') n source = Inr hs"
    and "map hy_index hs = [0..<nat n]"
    and "list_all (\<lambda>h. mset (hy_cards h) = mset (map card_id (draw_pile d)) \<and> rng_from_like (source (hy_index h)) = Inr (hy_rng h)) hs"
proof -
  have same: "compute_public_multiset d' = compute_public_multiset d"
    using sorted_counts_mset [OF assms(2)] by (simp add: compute_public_multiset_def)
  then show "generate_belief_hypotheses sha p (compute_public_multiset d') n source = Inr hs"
    using assms(3) by simp
  obtain cards where cards: "canonical_cards_from_multiset (compute_public_multiset d) = Inr cards"
      "mset cards = mset (map card_id (draw_pile d))"
    using canonical_of_counts [of "map card_id (draw_pile d)"] by (auto simp: compute_public_multiset_def)
  from assms(3) cards have hs: "map_res (belief_hypothesis sha p cards source) [0..<nat n] = Inr hs"
    by (auto simp: generate_belief_hypotheses_def value_error_def split: if_splits)
  have one: "hy_index h = i \<and> mset (hy_cards h) = mset cards \<and> rng_from_like (source i) = Inr (hy_rng h)"
    if "belief_hypothesis sha p cards source i = Inr h" for i h
    using that shuffle_mset [of p "length cards - 1" cards, OF assms(1)] by (cases cards) (auto simp: belief_hypothesis_def sbind_eq_Inr)
  show "map hy_index hs = [0..<nat n]"
    using hs one by (intro nth_equalityI) (auto simp: map_res_Inr_nth)
  show "list_all (\<lambda>h. mset (hy_cards h) = mset (map card_id (draw_pile d)) \<and> rng_from_like (source (hy_index h)) = Inr (hy_rng h)) hs"
    using map_res_set [OF hs] one cards(2) by (force simp: list_all_iff)
qed

definition parsed_card :: "string \<Rightarrow> string \<Rightarrow> int \<Rightarrow> json" where
  "parsed_card i c position = JObj [(''InstanceId'', JStr i), (''CardId'', JStr c), (''Type'', JStr ''x''), (''Rarity'', JStr ''x''), (''Cost'', JInt 1),
     (''TargetType'', JStr ''x''), (''IsUpgraded'', JBool False), (''UpgradeLevel'', JInt 0), (''LocalKeywords'', JNull),
     (''LocalCostModifiers'', JArr []), (''TemporaryStarCosts'', JArr []), (''Zone'', JStr ''draw_pile''), (''PileIndex'', JInt
     position), (''HasBeenRemovedFromState'', JBool False), (''Enchantment'', JNull), (''EnchantmentStatus'', JNull),
     (''TinkerTimeType'', JStr ''x''), (''TinkerTimeRider'', JStr ''x''), (''DynamicVars'', JObj []), (''BaseReplayCount'', JInt 0),
     (''BaseStarCost'', JInt 0), (''LastStarsSpent'', JInt 0), (''ExhaustOnNextPlay'', JBool False), (''HasSingleTurnRetain'', JBool
     False), (''HasSingleTurnSly'', JBool False), (''Affliction'', JNull), (''CloneOfInstanceId'', JNull), (''IsDupe'', JBool False),
     (''DeckVersionInstanceId'', JNull), (''FloorAddedToDeck'', JNull), (''SavedProperties'', JNull), (''SovereignBladeCurrentDamage'',
     JNull), (''SovereignBladeCurrentRepeats'', JNull), (''SovereignBladeCreatedThroughForge'', JNull)]"

definition sample_piled :: "string \<Rightarrow> string \<Rightarrow> (string, json) dict" where
  "sample_piled c d = [(''Metadata'', JObj [(''SchemaVersion'', JStr ''phase3c.8''), (''SnapshotId'', JStr ''s''), (''StepIndex'', JInt 4),
     (''CaptureBoundary'', JStr ''normal_player_decision''), (''Completeness'', JStr ''complete''), (''UnsupportedFields'', JArr []),
     (''CapturedAtUtc'', JStr ''t''), (''CombatSessionId'', JNull), (''ContinuationStepIndex'', JNull), (''EmulatorCommit'', JNull),
     (''unknown_fields'', JObj [(''Extra'', JInt 1)])]), (''Player'', JObj [(''InstanceId'', JStr ''player-1''),
     (''CreatureInstanceId'', JStr ''creature-1''), (''NetId'', JInt 7), (''Hp'', JInt 7), (''MaxHp'', JInt 7), (''Block'', JInt 7),
     (''Energy'', JInt 7), (''MaxEnergy'', JInt 7), (''Stars'', JInt 7), (''Gold'', JInt 7), (''OrbSlotCapacity'', JInt 7),
     (''CardInstances'', JArr [parsed_card ''card-1'' c 0, parsed_card ''card-2'' d 1]), (''Relics'', JArr []), (''Powers'', JArr [JObj
     [(''InstanceId'', JStr ''power-1''), (''PowerId'', JStr ''WEAK''), (''Amount'', JInt 1), (''AmountOnTurnStart'', JInt 1),
     (''SkipNextDurationTick'', JBool False), (''StackType'', JStr ''x''), (''OwnerInstanceId'', JStr ''creature-1''),
     (''HasUnsupportedInternalData'', JBool False), (''ApplierInstanceId'', JNull), (''TargetInstanceId'', JNull),
     (''AssociatedCardInstanceId'', JNull), (''InternalData'', JNull), (''InternalDataSerializerVersion'', JNull)]]), (''Potions'',
     JArr [JNull]), (''Orbs'', JArr []), (''Pets'', JArr [])]), (''Enemies'', JArr []), (''TurnNumber'', JInt 1), (''RoundNumber'',
     JInt 1), (''CurrentSide'', JStr ''x''), (''Phase'', JStr ''x''), (''Rng'', JObj [(''RunRng'', JObj [(''Shuffle'', JObj
     [(''Counter'', JInt 3), (''State0'', JInt 3), (''State1'', JInt 3), (''State2'', JInt 3), (''State3'', JInt 3)])]),
     (''PlayerRng'', JArr []), (''MonsterRng'', JArr [])]), (''CombatHistory'', JObj [(''Entries'', JArr [JObj [(''EntryType'', JStr
     ''CardDrawnEntry''), (''RoundNumber'', JInt 1), (''CurrentSide'', JStr ''x''), (''PlayerTurnNumbers'', JObj []), (''Fields'', JObj
     [(''cardInstanceId'', JStr ''card-1'')]), (''ActorInstanceId'', JNull)]]), (''InferredCardRemovals'', JArr [])]), (''IsTerminal'',
     JBool False), (''Outcome'', JStr ''x''), (''PendingChoice'', JNull), (''unknown_fields'', JObj [(''Later'', JNull)])]"

text \<open>
  A pile of two cards of which the second, in pile order, was seen to be drawn first.  The snapshot
  it parses to is written out, so that the evaluations below read it instead of parsing again.
\<close>

definition sample_pile :: "string \<Rightarrow> string \<Rightarrow> json list" where
  "sample_pile c d = [sample_pile_card ''card-1'' c 0, sample_pile_card ''card-2'' d 1]"

definition sample_root :: "(string, json) dict" where
  "sample_root = sample_piled ''STRIKE'' ''BASH''"

definition sample_drawn :: prefix_entry where
  "sample_drawn = \<lparr> rp_action = sample_semantic, rp_expected = sample_signature, rp_target = None, rp_enemy = None,
     rp_constraints = [(0, the (observable_card_key_from_snapshot (draw_pile sample_root ! 1)))], rp_blocked = False, rp_error = None \<rparr>"

definition sample_search :: decision_context where
  "sample_search = sample_context\<lparr>dc_root := Snapshot sample_root, dc_prefix := [sample_drawn]\<rparr>"

definition sample_hypothesis :: hypothesis where
  "sample_hypothesis = \<lparr> hy_rng = \<lparr> rc_counter = 1, rc_s0 = 2, rc_s1 = 3, rc_s2 = 4, rc_s3 = 5 \<rparr>, hy_cards = [''STRIKE'', ''BASH''], hy_index = 0 \<rparr>"

definition sample_reordered :: "json list" where
  "sample_reordered = [draw_pile sample_root ! 1, draw_pile sample_root ! 0]"

definition sample_derived :: "(string, json) dict" where
  "sample_derived = projr (snapshot_from_dict (\<lambda>_. None)
     (update_attr ''Player'' (update_attr ''CardInstances'' (replace_cards (replacement_by_id sample_reordered)))
       (update_attr ''Rng'' (update_attr ''RunRng'' (update_attr ''Shuffle'' (\<lambda>_. JObj (rng_to_dict (hy_rng sample_hypothesis)))))
         (strip_unknown (JObj sample_root)))))"

definition sample_applied :: decision_context where
  "sample_applied = with_search_hypothesis id (sample_search\<lparr>dc_root := Snapshot sample_derived\<rparr>)
     (Some (sample_hypothesis\<lparr>hy_cards := [''BASH'', ''STRIKE'']\<rparr>))"

lemma sample_root_parses: "snapshot_from_dict (\<lambda>_. None) (sample_capture (sample_pile ''STRIKE'' ''BASH'') ''card-1'') = Inr sample_root"
  by code_simp

lemma sample_root_identified: "well_identified sample_root"
  by code_simp

lemma sample_root_pile:
  "length (draw_pile sample_root) = 2" "map card_id (draw_pile sample_root) = [''STRIKE'', ''BASH'']"
  "map instance_id (draw_pile sample_root) = [''card-1'', ''card-2'']"
  "constraints_until_block (dc_prefix sample_search) = rp_constraints sample_drawn"
  "map fst (rp_constraints sample_drawn) = [0]"
  by code_simp+

lemma sample_pinned:
  "card_id_from_observable_key (snd (hd (rp_constraints sample_drawn))) = ''BASH''"
  "map (\<lambda>c. observable_card_key_from_snapshot c = Some (snd (hd (rp_constraints sample_drawn)))) (draw_pile sample_root) = [False, True]"
  "check_pinned_keys (map snd (rp_constraints sample_drawn)) (draw_pile sample_root) (map snd (rp_constraints sample_drawn)) = Inr ()"
  by code_simp+

lemma two_elements: "length xs = 2 \<Longrightarrow> xs = [xs ! 0, xs ! 1]"
  by (auto simp: numeral_2_eq_2 length_Suc_conv)

lemma sample_rearranged:
  "draw_pile_instances_for_hypothesis sample_root [''BASH'', ''STRIKE''] (rp_constraints sample_drawn) = Inr sample_reordered"
proof -
  obtain c d where p: "draw_pile sample_root = [c, d]"
    using two_elements [OF sample_root_pile(1)] by blast
  obtain k where k: "rp_constraints sample_drawn = [(0, k)]"
    using sample_root_pile(5) by (auto simp: map_eq_Cons_conv)
  from sample_root_pile(2,3) sample_pinned show ?thesis
    by (simp add: draw_pile_instances_for_hypothesis_def p k unused_cards_def sample_reordered_def)
qed

lemma sample_rebuilds:
  "snapshot_from_dict (\<lambda>_. None)
     (update_attr ''Player'' (update_attr ''CardInstances'' (replace_cards (replacement_by_id sample_reordered)))
       (update_attr ''Rng'' (update_attr ''RunRng'' (update_attr ''Shuffle'' (\<lambda>_. JObj (rng_to_dict (hy_rng sample_hypothesis)))))
         (strip_unknown (JObj sample_root)))) = Inr sample_derived" (is "?x = _")
proof -
  have "isl ?x = False" by code_simp
  then show ?thesis by (simp only: sample_derived_def sum.collapse(2) not_False_eq_True)
qed

lemma sample_has_shuffle:
  "(case attr (attr (strip_unknown (JObj sample_root)) ''Rng'') ''RunRng'' of JObj d \<Rightarrow> dhas d ''Shuffle'' | _ \<Rightarrow> False)"
  by code_simp

lemma sample_applies:
  "apply_hypothesis_to_context (\<lambda>_. None) id sample_search sample_hypothesis = Inr sample_applied"
proof -
  obtain k where k: "rp_constraints sample_drawn = [(0, k)]"
    using sample_root_pile(5) by (auto simp: map_eq_Cons_conv)
  from sample_has_shuffle obtain d where d: "attr (attr (strip_unknown (JObj sample_root)) ''Rng'') ''RunRng'' = JObj d" "dhas d ''Shuffle''"
    by (auto split: json.splits)
  have r: "reorder_hypothesis sample_hypothesis [(0, k)] = Inr (sample_hypothesis\<lparr>hy_cards := [''BASH'', ''STRIKE'']\<rparr>)"
    using sample_pinned(1) k by (simp add: reorder_hypothesis_def sample_hypothesis_def)
  have s: "derive_substituted_snapshot (\<lambda>_. None) sample_root (sample_hypothesis\<lparr>hy_cards := [''BASH'', ''STRIKE'']\<rparr>) [(0, k)] = Inr sample_derived"
    using sample_rearranged sample_rebuilds d k by (simp add: derive_substituted_snapshot_def as_dict_def)
  have p: "pinned_prefix_visible_draw_constraints sample_search = Inr [(0, k)]"
    using sample_root_pile(4) k by (simp add: pinned_prefix_visible_draw_constraints_def)
  show ?thesis
    using p r s by (simp add: apply_hypothesis_to_context_def sample_applied_def sample_search_def captured_def search_root_def dataclass_search_root_def)
qed

theorem applied_hypothesis_realised_witness:
  "\<exists>s. dc_root sample_applied = Snapshot s
    \<and> mset (map instance_id (draw_pile s)) = mset (map instance_id (draw_pile sample_root))
    \<and> (let cs = constraints_until_block (dc_prefix sample_search); seen = map (card_id_from_observable_key \<circ> snd) cs in
        map card_id (draw_pile s) = seen @ fold remove1 seen (hy_cards sample_hypothesis)
        \<and> list_all (\<lambda>(i, k). i < length (draw_pile s) \<and> observable_card_key_from_snapshot (draw_pile s ! i) = Some k) cs)
    \<and> cards_in_zone (jget s ''Player'') ''hand'' = map strip_unknown (cards_in_zone (jget sample_root ''Player'') ''hand'')
    \<and> list_all (\<lambda>c. list_ex (\<lambda>c0. instance_id c = instance_id c0 \<and> agree_besides [''PileIndex''] c c0) (draw_pile sample_root)) (draw_pile s)
    \<and> attr (attr (jget s ''Rng'') ''RunRng'') ''Shuffle'' = JObj (rng_to_dict (hy_rng sample_hypothesis))
    \<and> agree_besides [''Player'', ''Rng''] (JObj s) (JObj sample_root)
    \<and> agree_besides [''CardInstances''] (jget s ''Player'') (jget sample_root ''Player'')
    \<and> agree_besides [''RunRng''] (jget s ''Rng'') (jget sample_root ''Rng'')
    \<and> agree_besides [''Shuffle''] (attr (jget s ''Rng'') ''RunRng'') (attr (jget sample_root ''Rng'') ''RunRng'')"
  by (rule applied_hypothesis_realised [OF sample_root_parses sample_root_identified _ sample_applies]) (simp_all add: sample_search_def)

text \<open>A generator that counts up, and the same pile in the other order.\<close>

definition counting_prng :: "nat prng" where
  "counting_prng = \<lparr> pg_seed = (\<lambda>s. s mod 2), pg_range = (\<lambda>n g. (g mod n, Suc g)) \<rparr>"

definition sample_turned :: "(string, json) dict" where
  "sample_turned = sample_piled ''BASH'' ''STRIKE''"

definition sample_stream :: json where
  "sample_stream = JObj (map (\<lambda>k. (k, JInt 3)) [''Counter'', ''State0'', ''State1'', ''State2'', ''State3''])"

definition sample_beliefs :: "hypothesis list" where
  "sample_beliefs = projr (generate_belief_hypotheses (\<lambda>_. ''1'') counting_prng (compute_public_multiset sample_root) 2 (\<lambda>_. sample_stream))"

lemma sample_generated:
  "generate_belief_hypotheses (\<lambda>_. ''1'') counting_prng (compute_public_multiset sample_root) 2 (\<lambda>_. sample_stream) = Inr sample_beliefs"
  "map card_id (draw_pile sample_turned) = [''BASH'', ''STRIKE'']"
  by code_simp+

end
