(* ===== verification/Search_Coordinator.thy ===== *)
theory Search_Coordinator
  imports Branch_Dispatch Fault_Taxonomy Rng_Hypothesis
begin

text \<open>
  The search coordinator: \<open>Combat/search/search_coordinator.py\<close>.  It turns a decision context into
  work items, dispatches them until each has a final outcome, aggregates the outcomes and commits one
  root action, provided that Main has not moved.

  The dispatch of a batch is a parameter of the retry loop, whose contract is the locale
  \<open>batch_dispatcher\<close>; it is interpreted on \<open>dispatch_with\<close>, the batches of Branch_Dispatch run by the
  workers of Branch_Leases.  A raised exception leaves the metrics counted so far.
\<close>

section \<open>Configuration and metrics\<close>

record search_config =
  sf_width :: int
  sf_hypothesis_count :: int
  sf_min_coverage :: rat
  sf_worker_count :: int
  sf_max_retries :: int
  sf_request_timeout :: rat

definition default_search_config :: search_config where
  "default_search_config = \<lparr> sf_width = 8, sf_hypothesis_count = 4, sf_min_coverage = 1 / 2, sf_worker_count = 2,
     sf_max_retries = 1, sf_request_timeout = 120 \<rparr>"

record search_metrics =
  mx_pipeline :: nat
  mx_pruned :: nat
  mx_items :: nat
  mx_hypothesis_involved :: bool
  mx_hypotheses :: nat
  mx_rounds :: nat
  mx_branch_steps :: nat
  mx_bootstrap_steps :: nat
  mx_holder_steps :: nat
  mx_replays :: nat
  mx_faults :: nat
  mx_retries :: nat
  mx_workers :: "nat list"
  mx_final_successes :: nat
  mx_final_faults :: nat
  mx_mode :: "string option"
  mx_best_score :: "rat option"
  mx_diagnostics :: "(aggregation_diagnostics \<times> root_aggregation list) option"

definition new_search_metrics :: search_metrics where
  "new_search_metrics = \<lparr> mx_pipeline = 0, mx_pruned = 0, mx_items = 0, mx_hypothesis_involved = False, mx_hypotheses = 0,
     mx_rounds = 0, mx_branch_steps = 0, mx_bootstrap_steps = 0, mx_holder_steps = 0, mx_replays = 0, mx_faults = 0,
     mx_retries = 0, mx_workers = [], mx_final_successes = 0, mx_final_faults = 0, mx_mode = None, mx_best_score = None,
     mx_diagnostics = None \<rparr>"

definition worker_utilization_fraction :: "search_metrics \<Rightarrow> rat" where
  "worker_utilization_fraction m =
     (if mx_items m = 0 then 0 else of_nat (length (mx_workers m)) / of_nat (mx_items m))"

text \<open>The state of a search: what the dispatcher works on, and the metrics when the caller supplied them.\<close>

type_synonym 's search_state = "'s \<times> search_metrics option"

definition on_pool :: "('s, 'a) stateop \<Rightarrow> ('s search_state, 'a) stateop" where
  "on_pool f x = (case f (fst x) of (r, s) \<Rightarrow> (r, (s, snd x)))"

definition tally :: "(search_metrics \<Rightarrow> search_metrics) \<Rightarrow> ('s search_state, unit) stateop" where
  "tally f = modify (\<lambda>x. (fst x, map_option f (snd x)))"

section \<open>The identity of Main\<close>

record invariant_check =
  ic_ok :: bool
  ic_mismatches :: "string list"
  ic_diagnostics :: "(string, json) dict"

text \<open>
  \<open>dataclasses.asdict\<close> of a root.  The other dataclasses of the model carry no field.
\<close>

definition root_asdict :: "root \<Rightarrow> json res" where
  "root_asdict r = (case r of
       Snapshot d \<Rightarrow> Inr (JObj d)
     | Combat_start spec \<Rightarrow> Inr (JObj [(''scenario_spec'', spec)])
     | Room_entry snap room \<Rightarrow> Inr (JObj [(''map_snapshot'', JStr snap), (''room_id'', JInt room)])
     | Other_dataclass _ \<Rightarrow> Inr (JObj [])
     | _ \<Rightarrow> Inl (PyExc ''TypeError'' ''asdict() should be called on dataclass instances''))"

definition snapshot_content_digest :: "(string \<Rightarrow> string) \<Rightarrow> root \<Rightarrow> string res" where
  "snapshot_content_digest sha r = sbind (root_asdict r) (\<lambda>v. Inr (sha (canonical_json True v)))"

definition live_state_identity :: "'m main_state \<Rightarrow> string option \<times> int" where
  "live_state_identity st = (case bs_frame (ml_result st) of None \<Rightarrow> (None, - 1) | Some f \<Rightarrow> (fr_session f, fr_step f))"

definition identity_json :: "string option \<times> int \<Rightarrow> json" where
  "identity_json i = JObj [(''combat_session_id'', opt_str_json (fst i)), (''step_index'', JInt (snd i))]"

text \<open>The part of the check that compares the held snapshot, with its diagnostics.\<close>

definition check_held ::
  "(string \<Rightarrow> string) \<Rightarrow> bool \<Rightarrow> root \<Rightarrow> root option \<Rightarrow> (string list \<times> (string, json) dict) res" where
  "check_held sha is_start expected held =
     (if is_start
      then Inr (if held \<noteq> None then [''held_snapshot''] else [],
                [(''expected_held_snapshot_sha256'', JNull), (''live_held_snapshot_sha256'', JNull),
                 (''combat_start_replay_root_expected'', JBool True)])
      else case held of
        None \<Rightarrow> sbind (snapshot_content_digest sha expected) (\<lambda>e.
          Inr ([''held_snapshot''], [(''expected_held_snapshot_sha256'', JStr e), (''live_held_snapshot_sha256'', JNull)]))
      | Some r \<Rightarrow> sbind (snapshot_content_digest sha expected) (\<lambda>e. sbind (snapshot_content_digest sha r) (\<lambda>l.
          Inr (if l \<noteq> e then [''held_snapshot''] else [],
               [(''expected_held_snapshot_sha256'', JStr e), (''live_held_snapshot_sha256'', JStr l)]))))"

definition check_main_invariant :: "(string \<Rightarrow> string) \<Rightarrow> decision_context \<Rightarrow> 'm main_state \<Rightarrow> invariant_check res" where
  "check_main_invariant sha ctx live =
     (let expected = (sg_session (dc_signature ctx), sg_step (dc_signature ctx)); current = live_state_identity live;
          same = ml_prefix live = dc_prefix ctx in
      sbind (search_root (dc_root ctx) :: unit search_adapter res) (\<lambda>a.
      sbind (check_held sha (sr_is_combat_start a) (dc_root ctx) (ml_held live)) (\<lambda>(held, diagnostics).
        let mismatches = (if current \<noteq> expected then [''state_identity''] else []) @ held @ (if same then [] else [''replay_prefix'']) in
        Inr \<lparr> ic_ok = (mismatches = []), ic_mismatches = mismatches,
              ic_diagnostics = [(''expected_state_identity'', identity_json expected), (''live_state_identity'', identity_json current)]
                @ diagnostics
                @ [(''expected_replay_prefix_length'', JInt (int (length (dc_prefix ctx)))),
                   (''live_replay_prefix_length'', JInt (int (length (ml_prefix live)))), (''replay_prefix_matches'', JBool same)] \<rparr>)))"

section \<open>Work items\<close>

text \<open>The functions outside the repository that a search uses.\<close>

record 'g search_env =
  se_loads :: "string \<Rightarrow> json res"
  se_sha :: "string \<Rightarrow> string"
  se_float :: float_env
  se_prng :: "'g prng"

definition candidate_batch :: "pipeline_result \<Rightarrow> pipeline_ref list" where
  "candidate_batch p = (case p of Pipeline_success cont subs _ _ _ \<Rightarrow> cont # subs | No_viable_candidates _ _ _ \<Rightarrow> [])"

text \<open>\<open>any(...)\<close> stops at the first candidate that needs a hypothesis.\<close>

fun batch_requires_hypothesis :: "decision_context \<Rightarrow> pipeline_ref list \<Rightarrow> bool res" where
  "batch_requires_hypothesis ctx [] = Inr False"
| "batch_requires_hypothesis ctx (c # cs) =
     sbind (consume_check (Ref c) ctx HYPOTHESIS_MODE_STANDARD False) (\<lambda>r.
       if requires_hypothesis r then Inr True else batch_requires_hypothesis ctx cs)"

definition kind_at :: "nat \<Rightarrow> string" where
  "kind_at i = (if i = 0 then WORK_KIND_CONTINUATION else WORK_KIND_SUB_BRANCH)"

definition plain_work_items :: "'g search_env \<Rightarrow> decision_context \<Rightarrow> pipeline_ref list \<Rightarrow> work_item list res" where
  "plain_work_items env ctx cs =
     sbind (derive_context_id (se_loads env) (se_sha env) ctx) (\<lambda>cid.
       map_res (\<lambda>(i, c). from_candidate_ref (se_loads env) (se_sha env) ctx c (kind_at i) (Some cid) None) (enumerate 0 cs))"

definition PUBLIC_MULTISET_COVERAGE :: coverage_assessment where
  "PUBLIC_MULTISET_COVERAGE = \<lparr> cv_complete = True, cv_uncertain = [],
     cv_reason = ''PUBLIC_MULTISET is read from Player.CardInstances where Zone=draw_pile or naturally dealt from CombatScenario.Seed'' \<rparr>"

definition start_work_item :: "'g search_env \<Rightarrow> decision_context \<Rightarrow> (nat \<times> pipeline_ref) \<times> hypothesis \<times> root \<Rightarrow> work_item res" where
  "start_work_item env ctx p = (case p of ((i, c), h, r) \<Rightarrow>
     from_candidate_ref (se_loads env) (se_sha env)
       (ctx\<lparr>dc_root := r, dc_hypothesis := Some (to_slot_value (se_sha env) h)\<rparr>) c (kind_at i) None None)"

definition cell_work_item :: "'g search_env \<Rightarrow> decision_context \<Rightarrow> nat \<times> grid_cell \<Rightarrow> work_item res" where
  "cell_work_item env ctx p = (case p of (i, cell) \<Rightarrow>
     sbind (apply_hypothesis_to_context (se_float env) (se_sha env) ctx (gc_hypothesis cell)) (\<lambda>c.
       from_candidate_ref (se_loads env) (se_sha env) c (gc_action cell) (kind_at i) None None))"

text \<open>The position of each cell's root action in the batch: the grid lists the hypotheses of one action after the other.\<close>

definition root_indices :: "nat \<Rightarrow> nat \<Rightarrow> nat list" where
  "root_indices actions hypotheses = concat (map (replicate hypotheses) [0..<actions])"

definition shuffle_stream :: "(string, json) dict \<Rightarrow> json res" where
  "shuffle_stream d = (case attr (attr (JObj d) ''Rng'') ''RunRng'' of
       JObj streams \<Rightarrow> (case dget streams ''Shuffle'' of Some v \<Rightarrow> Inr v | None \<Rightarrow> Inl (PyExc ''KeyError'' (repr_str ''Shuffle'')))
     | v \<Rightarrow> Inl (no_attribute v ''__getitem__''))"

text \<open>The hypotheses of a captured root: orders of its public multiset, all with its one Shuffle stream.\<close>

definition root_beliefs :: "'g search_env \<Rightarrow> int \<Rightarrow> (string, json) dict \<Rightarrow> hypothesis list res" where
  "root_beliefs env n d =
     sbind (shuffle_stream d) (\<lambda>stream.
       generate_belief_hypotheses (se_sha env) (se_prng env) (compute_public_multiset d) n (\<lambda>_. stream))"

definition hypothesis_work_items ::
  "'g search_env \<Rightarrow> search_config \<Rightarrow> decision_context \<Rightarrow> pipeline_ref list \<Rightarrow> (work_item list \<times> coverage_assessment) res" where
  "hypothesis_work_items env config ctx cs =
     sbind (search_root (dc_root ctx) :: unit search_adapter res) (\<lambda>a.
     sbind (if sr_is_combat_start a
            then sbind (derive_combat_start_replay_roots (se_sha env)
                    (case dc_root ctx of Combat_start spec \<Rightarrow> spec | _ \<Rightarrow> JNull) (sf_hypothesis_count config)) (\<lambda>roots.
                 map_res (start_work_item env ctx) (List.product (enumerate 0 cs) roots))
            else sbind (captured (dc_root ctx)) (\<lambda>d.
                 sbind (root_beliefs env (sf_hypothesis_count config) d) (\<lambda>hs.
                 sbind (build_grid (se_float env) (se_sha env) cs hs d) (\<lambda>cells.
                 map_res (cell_work_item env ctx) (zip (root_indices (length cs) (length hs)) cells)))))
       (\<lambda>items. Inr (items, PUBLIC_MULTISET_COVERAGE)))"

definition coverage_diagnostics :: "coverage_assessment \<Rightarrow> json" where
  "coverage_diagnostics c = JObj [(''is_complete'', JBool (cv_complete c)),
     (''uncertain_sources'', JArr (map JStr (cv_uncertain c))), (''reason'', JStr (cv_reason c))]"

text \<open>The items of a batch, and the coverage when hypotheses are involved.\<close>

definition batch_work_items ::
  "'g search_env \<Rightarrow> search_config \<Rightarrow> decision_context \<Rightarrow> pipeline_ref list \<Rightarrow> bool \<Rightarrow> (work_item list \<times> coverage_assessment option) res" where
  "batch_work_items env config ctx cs involved =
     (if involved then sbind (hypothesis_work_items env config ctx cs) (\<lambda>(items, coverage). Inr (items, Some coverage))
      else sbind (plain_work_items env ctx cs) (\<lambda>items. Inr (items, None)))"

section \<open>The retry loop\<close>

record retry_locals =
  rl_attempts :: "(string, attempt) dict"
  rl_results :: "(string, branch_result) dict"
  rl_states :: "(string, string) dict"

definition attempt_json :: "attempt \<Rightarrow> json" where
  "attempt_json a = JObj [(''work_id'', JStr (at_work a)), (''attempt_count'', JInt (at_count a)), (''state'', JStr (at_state a)),
     (''worker_generation'', JInt (at_generation a))]"

definition round_cap_error :: "int \<Rightarrow> retry_locals \<Rightarrow> 'a res" where
  "round_cap_error max_retries loc = runtime_error (''SearchCoordinator retry loop exceeded defensive round cap ''
     @ str_int (max_retries + 2) @ '' for max_retries='' @ str_int max_retries @ ''; states=''
     @ repr_json (JObj (map (\<lambda>(k, a). (k, attempt_json a)) (rl_attempts loc))))"

definition count_step :: "branch_result \<Rightarrow> search_metrics \<Rightarrow> search_metrics" where
  "count_step r m =
     (let m1 = m\<lparr>mx_branch_steps := mx_branch_steps m + 1\<rparr>;
          m2 = (if br_mode r = EXECUTION_MODE_BOOTSTRAP_STEP
                then m1\<lparr>mx_bootstrap_steps := mx_bootstrap_steps m1 + 1, mx_replays := mx_replays m1 + 1\<rparr>
                else if br_mode r = EXECUTION_MODE_HOLDER_STEP then m1\<lparr>mx_holder_steps := mx_holder_steps m1 + 1\<rparr> else m1)
      in case br_worker r of None \<Rightarrow> m2 | Some w \<Rightarrow> m2\<lparr>mx_workers := List.insert w (mx_workers m2)\<rparr>)"

definition finish :: "string \<Rightarrow> branch_result \<Rightarrow> string \<Rightarrow> retry_locals \<Rightarrow> retry_locals" where
  "finish w r state loc = loc\<lparr>rl_results := dset w r (rl_results loc), rl_states := dset w state (rl_states loc)\<rparr>"

definition put_attempt :: "string \<Rightarrow> attempt \<Rightarrow> retry_locals \<Rightarrow> retry_locals res" where
  "put_attempt w a loc = sbind (attempt_checked a) (\<lambda>a. Inr (loc\<lparr>rl_attempts := dset w a (rl_attempts loc)\<rparr>))"

definition settled_generation :: "branch_result \<Rightarrow> attempt \<Rightarrow> int" where
  "settled_generation r a = (case br_generation r of None \<Rightarrow> at_generation a
     | Some g \<Rightarrow> if g = 0 then at_generation a else int g)"

text \<open>One answer: the locals after it, and whether its item goes into the next round.\<close>

definition settle_answer ::
  "int \<Rightarrow> work_item \<Rightarrow> branch_result \<Rightarrow> retry_locals \<Rightarrow> ('s search_state, retry_locals \<times> bool) stateop" where
  "settle_answer max_retries w r loc =
     obind (tally (count_step r)) (\<lambda>_.
       case dget (rl_attempts loc) (wi_id w) of
         None \<Rightarrow> olift (Inl (PyExc ''KeyError'' (repr_str (wi_id w))))
       | Some a \<Rightarrow>
           if br_status r = BRANCH_STATUS_SUCCESS
           then obind (olift (put_attempt (wi_id w)
                  (a\<lparr>at_state := WORK_ITEM_FINAL_SUCCESS, at_generation := settled_generation r a\<rparr>) loc)) (\<lambda>loc.
                oreturn (finish (wi_id w) r WORK_ITEM_FINAL_SUCCESS loc, False))
           else if br_status r \<noteq> BRANCH_STATUS_FAULT
           then olift (runtime_error (''unknown BranchResult status '' @ repr_str (br_status r)))
           else obind (olift (classify_diagnostics (br_diagnostics r))) (\<lambda>kind.
                obind (tally (\<lambda>m. m\<lparr>mx_faults := mx_faults m + 1\<rparr>)) (\<lambda>_.
                obind (olift (decide_retry a kind max_retries)) (\<lambda>d.
                obind (olift (put_attempt (wi_id w)
                  (a\<lparr>at_count := rd_count d, at_state := rd_next d, at_generation := rd_generation d\<rparr>) loc)) (\<lambda>loc.
                if rd_retry d
                then obind (tally (\<lambda>m. m\<lparr>mx_retries := mx_retries m + 1\<rparr>)) (\<lambda>_. oreturn (loc, True))
                else oreturn (finish (wi_id w) r WORK_ITEM_FINAL_FAULT loc, False))))))"

text \<open>The answers of a round, with the items of the next round in order.\<close>

fun settle_answers ::
  "int \<Rightarrow> (string, work_item) dict \<Rightarrow> (work_item \<times> branch_result) list \<Rightarrow> retry_locals
   \<Rightarrow> ('s search_state, retry_locals \<times> work_item list) stateop" where
  "settle_answers max_retries by_id [] loc = oreturn (loc, [])"
| "settle_answers max_retries by_id ((w, r) # xs) loc =
     obind (settle_answer max_retries w r loc) (\<lambda>(loc, retry).
     obind (olift (if retry then (case dget by_id (wi_id w) of
              None \<Rightarrow> Inl (PyExc ''KeyError'' (repr_str (wi_id w))) | Some w' \<Rightarrow> Inr [w']) else Inr [])) (\<lambda>again.
     obind (settle_answers max_retries by_id xs loc) (\<lambda>(loc, rest). oreturn (loc, again @ rest))))"

function dispatch_rounds ::
  "(work_item list \<Rightarrow> ('s, branch_result list) stateop) \<Rightarrow> int \<Rightarrow> (string, work_item) dict \<Rightarrow> int \<Rightarrow> work_item list
   \<Rightarrow> retry_locals \<Rightarrow> ('s search_state, retry_locals) stateop" where
  "dispatch_rounds dispatch max_retries by_id n pending loc =
     (if pending = [] then oreturn loc
      else obind (tally (\<lambda>m. m\<lparr>mx_rounds := mx_rounds m + 1\<rparr>)) (\<lambda>_.
        if n + 1 > max_retries + 2 then olift (round_cap_error max_retries loc)
        else obind (on_pool (dispatch pending)) (\<lambda>rs.
          if length rs \<noteq> length pending
          then olift (runtime_error (''dispatch_work_items returned '' @ digits (length rs) @ '' results for ''
                 @ digits (length pending) @ '' WorkItems''))
          else obind (settle_answers max_retries by_id (zip pending rs) loc) (\<lambda>(loc, again).
            dispatch_rounds dispatch max_retries by_id (n + 1) again loc))))"
  by pat_completeness auto

termination dispatch_rounds
  by (relation "measure (\<lambda>(dispatch, max_retries, by_id, n, pending, loc). nat (max_retries + 2 - n))") auto

declare dispatch_rounds.simps [simp del]

definition final_outcome :: "retry_locals \<Rightarrow> work_item \<Rightarrow> (work_item \<times> branch_result \<times> string) res" where
  "final_outcome loc w = (case (dget (rl_results loc) (wi_id w), dget (rl_states loc) (wi_id w)) of
       (Some r, Some s) \<Rightarrow> Inr (w, r, s) | _ \<Rightarrow> Inl (PyExc ''KeyError'' (repr_str (wi_id w))))"

definition count_finals :: "retry_locals \<Rightarrow> search_metrics \<Rightarrow> search_metrics" where
  "count_finals loc m = (let states = map snd (rl_states loc) in
     m\<lparr>mx_final_successes := mx_final_successes m + count_list states WORK_ITEM_FINAL_SUCCESS,
       mx_final_faults := mx_final_faults m + count_list states WORK_ITEM_FINAL_FAULT\<rparr>)"

definition initial_locals :: "work_item list \<Rightarrow> retry_locals" where
  "initial_locals items = \<lparr> rl_attempts = dupdate [] (map (\<lambda>w. (wi_id w, new_attempt (wi_id w))) items), rl_results = [], rl_states = [] \<rparr>"

definition dispatch_work_items_until_final ::
  "(work_item list \<Rightarrow> ('s, branch_result list) stateop) \<Rightarrow> int \<Rightarrow> work_item list
   \<Rightarrow> ('s search_state, (work_item \<times> branch_result \<times> string) list) stateop" where
  "dispatch_work_items_until_final dispatch max_retries items =
     obind (dispatch_rounds dispatch max_retries (dupdate [] (map (\<lambda>w. (wi_id w, w)) items)) 0 items (initial_locals items)) (\<lambda>loc.
     obind (tally (count_finals loc)) (\<lambda>_. olift (map_res (final_outcome loc) items)))"

section \<open>The strategy\<close>

definition involved_hypotheses :: "work_item list \<Rightarrow> nat" where
  "involved_hypotheses items = length (remdups (List.map_filter (\<lambda>w. dc_hypothesis (wi_context w)) items))"

text \<open>The candidates of a pipeline, dispatched: whether hypotheses are involved, the coverage, the outcomes.\<close>

definition dispatch_candidates ::
  "'g search_env \<Rightarrow> (work_item list \<Rightarrow> ('s, branch_result list) stateop) \<Rightarrow> search_config \<Rightarrow> decision_context \<Rightarrow> pipeline_result
   \<Rightarrow> ('s search_state, bool \<times> coverage_assessment option \<times> (work_item \<times> branch_result \<times> string) list) stateop" where
  "dispatch_candidates env dispatch config ctx pipeline =
     (let cs = candidate_batch pipeline in
      obind (tally (\<lambda>m. m\<lparr>mx_pipeline := length (ps_ranked pipeline), mx_pruned := length cs\<rparr>)) (\<lambda>_.
      obind (olift (batch_requires_hypothesis ctx cs)) (\<lambda>involved.
      obind (tally (\<lambda>m. m\<lparr>mx_hypothesis_involved := involved\<rparr>)) (\<lambda>_.
      obind (olift (batch_work_items env config ctx cs involved)) (\<lambda>(items, coverage).
      obind (tally (\<lambda>m. m\<lparr>mx_items := length items, mx_hypotheses := involved_hypotheses items\<rparr>)) (\<lambda>_.
      obind (dispatch_work_items_until_final dispatch (sf_max_retries config) items) (\<lambda>outcomes.
        oreturn (involved, coverage, outcomes))))))))"

definition dispatch_explicit_candidates ::
  "'g search_env \<Rightarrow> (work_item list \<Rightarrow> ('s, branch_result list) stateop) \<Rightarrow> search_config \<Rightarrow> decision_context \<Rightarrow> int list
   \<Rightarrow> ('s search_state, (work_item \<times> branch_result \<times> string) list) stateop" where
  "dispatch_explicit_candidates env dispatch config ctx indices =
     obind (olift (build_candidate_pipeline_result_for_explicit_candidates ctx indices)) (\<lambda>pipeline.
     obind (dispatch_candidates env dispatch config ctx pipeline) (\<lambda>(involved, coverage, outcomes). oreturn outcomes))"

definition with_coverage :: "coverage_assessment option \<Rightarrow> log_entry \<Rightarrow> log_entry res" where
  "with_coverage coverage e = (case coverage of None \<Rightarrow> Inr e
     | Some c \<Rightarrow> log_entry_checked
         (e\<lparr>le_diagnostics := dset ''public_multiset_coverage'' (coverage_diagnostics c) (le_diagnostics e)\<rparr>))"

definition outcome_entries ::
  "(string \<Rightarrow> string) \<Rightarrow> coverage_assessment option \<Rightarrow> (work_item \<times> branch_result \<times> string) list \<Rightarrow> log_entry list res" where
  "outcome_entries sha coverage outcomes =
     sbind (map_res (\<lambda>(w, r, s). to_decision_log_entry sha w r (Some s)) outcomes) (map_res (with_coverage coverage))"

definition aggregate_entries :: "rat \<Rightarrow> bool \<Rightarrow> log_entry list \<Rightarrow> aggregation res" where
  "aggregate_entries fraction involved es =
     (if involved then aggregate_hypothesis_results fraction es else aggregate_plain_results es)"

definition aggregation_mode :: "aggregation_diagnostics \<Rightarrow> string" where
  "aggregation_mode d = (case d of No_plain_results _ _ \<Rightarrow> ''plain'' | Plain_results _ _ \<Rightarrow> ''plain'' | _ \<Rightarrow> ''hypothesis'')"

definition record_aggregation :: "aggregation \<Rightarrow> search_metrics \<Rightarrow> search_metrics" where
  "record_aggregation ag m = m\<lparr>mx_mode := Some (aggregation_mode (ag_diagnostics ag)), mx_best_score := map_option ra_score (ag_best ag),
     mx_diagnostics := Some (ag_diagnostics ag, ag_viable ag)\<rparr>"

text \<open>The check of Main, which remembers its last result; without a provider it always passes.\<close>

definition verify_main_invariant ::
  "(string \<Rightarrow> string) \<Rightarrow> ('s search_state, 'm main_state) stateop option \<Rightarrow> decision_context
   \<Rightarrow> ('s search_state \<times> invariant_check option, bool) stateop" where
  "verify_main_invariant sha provider ctx x = (case provider of
       None \<Rightarrow> (Inr True, (fst x, Some \<lparr> ic_ok = True, ic_mismatches = [], ic_diagnostics = [] \<rparr>))
     | Some p \<Rightarrow> (case obind p (\<lambda>live. olift (check_main_invariant sha ctx live)) (fst x) of
           (Inl e, s') \<Rightarrow> (Inl e, (s', snd x))
         | (Inr c, s') \<Rightarrow> (Inr (ic_ok c), (s', Some c))))"

text \<open>
  What the strategy does at its end: it returns a search result, or raises
  \<open>MainInvariantViolatedError\<close> with the outcome and the check.
\<close>

datatype strategy_end =
    Strategy_result search_result
  | Invariant_violated main_fault_outcome aggregation_diagnostics invariant_check

definition mismatch_text :: "string list \<Rightarrow> string" where
  "mismatch_text ms = (if ms = [] then ''unknown'' else join_with '', '' ms)"

definition finish_strategy :: "invariant_check option \<Rightarrow> commit_decision \<Rightarrow> strategy_end res" where
  "finish_strategy check d = (case d of
       Commit_search r \<Rightarrow> Inr (Strategy_result r)
     | Commit_main_fault m diagnostics \<Rightarrow>
         (let c = (case check of Some c \<Rightarrow> c | None \<Rightarrow> \<lparr> ic_ok = False, ic_mismatches = [''unknown''], ic_diagnostics = [] \<rparr>) in
          sbind (main_fault_checked (m\<lparr>mf_detail := mf_detail m @ ''; mismatches='' @ mismatch_text (ic_mismatches c)\<rparr>)) (\<lambda>m.
            Inr (Invariant_violated m diagnostics c))))"

definition commit_outcomes ::
  "'g search_env \<Rightarrow> ('s search_state, 'm main_state) stateop option \<Rightarrow> search_config \<Rightarrow> decision_context \<Rightarrow> bool
   \<Rightarrow> coverage_assessment option \<Rightarrow> (work_item \<times> branch_result \<times> string) list \<Rightarrow> ('s search_state, strategy_end) stateop" where
  "commit_outcomes env provider config ctx involved coverage outcomes =
     obind (olift (outcome_entries (se_sha env) coverage outcomes)) (\<lambda>es.
     obind (olift (aggregate_entries (sf_min_coverage config) involved es)) (\<lambda>ag.
     obind (tally (record_aggregation ag)) (\<lambda>_ s.
       case build_commit_decision ag involved (verify_main_invariant (se_sha env) provider ctx) (s, None) of
         (Inl e, (s', _)) \<Rightarrow> (Inl e, s')
       | (Inr d, (s', check)) \<Rightarrow> (finish_strategy check d, s'))))"

definition search_strategy ::
  "'g search_env \<Rightarrow> (work_item list \<Rightarrow> ('s, branch_result list) stateop) \<Rightarrow> ('s search_state, 'm main_state) stateop option
   \<Rightarrow> search_config \<Rightarrow> decision_context \<Rightarrow> ('s search_state, strategy_end) stateop" where
  "search_strategy env dispatch provider config ctx =
     obind (olift (build_candidate_pipeline_result (sf_width config) None ctx)) (\<lambda>pipeline.
       case pipeline of
         No_viable_candidates detail _ _ \<Rightarrow> oreturn (Strategy_result (Search_evaluation_failure detail))
       | Pipeline_success _ _ _ _ _ \<Rightarrow>
           obind (dispatch_candidates env dispatch config ctx pipeline) (\<lambda>(involved, coverage, outcomes).
             commit_outcomes env provider config ctx involved coverage outcomes))"

section \<open>The retry loop settles\<close>

text \<open>
  What a dispatcher promises: it returns one answer per item, in order, each for its own item, and
  every answer is a success or a fault of the taxonomy.
\<close>

definition judged :: "branch_result \<Rightarrow> bool" where
  "judged r \<longleftrightarrow> br_status r \<in> {BRANCH_STATUS_SUCCESS, BRANCH_STATUS_FAULT} \<and> classifiable r"

definition final_state_of :: "branch_result \<Rightarrow> string" where
  "final_state_of r = (if br_status r = BRANCH_STATUS_SUCCESS then WORK_ITEM_FINAL_SUCCESS else WORK_ITEM_FINAL_FAULT)"

text \<open>An attempt that has faulted \<open>n\<close> times and may be dispatched again.\<close>

definition open_attempt :: "nat \<Rightarrow> attempt \<Rightarrow> bool" where
  "open_attempt n a \<longleftrightarrow> at_state a \<in> {WORK_ITEM_RUNNING, WORK_ITEM_RETRYING} \<and> at_count a = int n \<and> 0 < at_generation a"

definition retried :: "nat \<Rightarrow> nat \<Rightarrow> branch_result \<Rightarrow> bool" where
  "retried max_retries n r \<longleftrightarrow> br_status r \<noteq> BRANCH_STATUS_SUCCESS \<and> n < max_retries"

text \<open>The rounds and the branch steps counted between two states.\<close>

fun counted :: "nat \<Rightarrow> nat \<Rightarrow> search_metrics option \<Rightarrow> search_metrics option \<Rightarrow> bool" where
  "counted k b None None = True"
| "counted k b (Some m) (Some m') \<longleftrightarrow> mx_rounds m' = mx_rounds m + k \<and> mx_branch_steps m' = mx_branch_steps m + b"
| "counted k b _ _ = False"

lemma counted_trans: "counted k b x y \<Longrightarrow> counted k' b' y z \<Longrightarrow> counted (k + k') (b + b') x z"
  by (cases x; cases y; cases z) auto

lemma counted_map: "(\<And>m. mx_rounds (f m) = mx_rounds m + k \<and> mx_branch_steps (f m) = mx_branch_steps m + b) \<Longrightarrow> counted k b x (map_option f x)"
  by (cases x) auto

lemma count_step_counts: "mx_rounds (count_step r m) = mx_rounds m \<and> mx_branch_steps (count_step r m) = mx_branch_steps m + 1"
  by (simp add: count_step_def Let_def split: option.split)

lemma tally_run [simp]: "tally f x = (Inr (), (fst x, map_option f (snd x)))"
  by (simp add: tally_def modify_def)

lemma obind_tally [simp]: "obind (tally f) g x = g () (fst x, map_option f (snd x))"
  by (simp add: obind_def)

lemma decide_retry_open:
  assumes "open_attempt n a" "k \<in> set BRANCH_FAULT_KINDS"
  obtains d where "decide_retry a k (int max_retries) = Inr d" "rd_retry d \<longleftrightarrow> n < max_retries" "rd_count d = int n + 1"
    "0 < rd_generation d" "rd_next d = (if n < max_retries then WORK_ITEM_RETRYING else WORK_ITEM_FINAL_FAULT)"
proof -
  from known_kind(1) [OF assms(2)] obtain p where "worker_reuse_policy k = Inr p" by blast
  with assms(1) show thesis
    by (intro that [of "projr (decide_retry a k (int max_retries))"]) (auto simp: decide_retry_def open_attempt_def Let_def)
qed

lemma put_attempt_ok:
  "at_state a \<in> set WORK_ITEM_STATES \<Longrightarrow> 0 \<le> at_count a \<Longrightarrow> 0 < at_generation a \<Longrightarrow>
    put_attempt w a loc = Inr (loc\<lparr>rl_attempts := dset w a (rl_attempts loc)\<rparr>)"
  by (simp add: put_attempt_def attempt_checked_def)

lemma settle_answer_ok:
  assumes "judged r" "dget (rl_attempts loc) (wi_id w) = Some a" "open_attempt n a"
  obtains loc' s' a' where "settle_answer (int max_retries) w r loc s = (Inr (loc', retried max_retries n r), s')"
    "counted 0 1 (snd s) (snd s')" "rl_attempts loc' = dset (wi_id w) a' (rl_attempts loc)"
    "retried max_retries n r \<longrightarrow> open_attempt (n + 1) a'"
    "rl_results loc' = (if retried max_retries n r then rl_results loc else dset (wi_id w) r (rl_results loc))"
    "rl_states loc' = (if retried max_retries n r then rl_states loc else dset (wi_id w) (final_state_of r) (rl_states loc))"
proof (cases "br_status r = BRANCH_STATUS_SUCCESS")
  case True
  let ?a = "a\<lparr>at_state := WORK_ITEM_FINAL_SUCCESS, at_generation := settled_generation r a\<rparr>"
  have "put_attempt (wi_id w) ?a loc = Inr (loc\<lparr>rl_attempts := dset (wi_id w) ?a (rl_attempts loc)\<rparr>)"
    using assms(3) by (intro put_attempt_ok) (auto simp: open_attempt_def WORK_ITEM_STATES_def settled_generation_def split: option.split)
  with True assms(2) show thesis
    by (intro that [where a' = ?a and loc' = "finish (wi_id w) r WORK_ITEM_FINAL_SUCCESS (loc\<lparr>rl_attempts := dset (wi_id w) ?a (rl_attempts loc)\<rparr>)"
          and s' = "snd (settle_answer (int max_retries) w r loc s)"])
      (auto simp: settle_answer_def finish_def retried_def final_state_of_def counted_map count_step_counts)
next
  case False
  with assms(1) obtain k where k: "br_status r = BRANCH_STATUS_FAULT" "k \<in> set BRANCH_FAULT_KINDS" "classify_diagnostics (br_diagnostics r) = Inr k"
    by (auto simp: judged_def classifiable_def)
  from decide_retry_open [OF assms(3) k(2), of max_retries] obtain d where d: "decide_retry a k (int max_retries) = Inr d"
    "rd_retry d \<longleftrightarrow> n < max_retries" "rd_count d = int n + 1" "0 < rd_generation d"
    "rd_next d = (if n < max_retries then WORK_ITEM_RETRYING else WORK_ITEM_FINAL_FAULT)" by metis
  let ?a = "a\<lparr>at_count := rd_count d, at_state := rd_next d, at_generation := rd_generation d\<rparr>"
  have "put_attempt (wi_id w) ?a loc = Inr (loc\<lparr>rl_attempts := dset (wi_id w) ?a (rl_attempts loc)\<rparr>)"
    using d by (intro put_attempt_ok) (auto simp: WORK_ITEM_STATES_def)
  with False assms(2) k d show thesis
    by (intro that [where a' = ?a and s' = "snd (settle_answer (int max_retries) w r loc s)"
          and loc' = "(if n < max_retries then id else finish (wi_id w) r WORK_ITEM_FINAL_FAULT) (loc\<lparr>rl_attempts := dset (wi_id w) ?a (rl_attempts loc)\<rparr>)"])
      (auto simp: settle_answer_def finish_def retried_def final_state_of_def open_attempt_def option.map_comp comp_def
        intro!: counted_map simp: count_step_counts)
qed

definition same_at :: "string \<Rightarrow> retry_locals \<Rightarrow> retry_locals \<Rightarrow> bool" where
  "same_at i loc loc' \<longleftrightarrow> dget (rl_attempts loc') i = dget (rl_attempts loc) i
     \<and> dget (rl_results loc') i = dget (rl_results loc) i \<and> dget (rl_states loc') i = dget (rl_states loc) i"

definition open_at :: "nat \<Rightarrow> retry_locals \<Rightarrow> string \<Rightarrow> bool" where
  "open_at n loc i \<longleftrightarrow> (\<exists>a. dget (rl_attempts loc) i = Some a \<and> open_attempt n a)"

definition final_at :: "retry_locals \<Rightarrow> string \<Rightarrow> branch_result \<Rightarrow> bool" where
  "final_at loc i r \<longleftrightarrow> dget (rl_results loc) i = Some r \<and> dget (rl_states loc) i = Some (final_state_of r)"

definition settled_at :: "nat \<Rightarrow> nat \<Rightarrow> retry_locals \<Rightarrow> work_item \<Rightarrow> branch_result \<Rightarrow> bool" where
  "settled_at max_retries n loc w r \<longleftrightarrow> (if retried max_retries n r then open_at (n + 1) loc (wi_id w) else final_at loc (wi_id w) r)"

lemma same_at_simps:
  assumes "same_at i loc loc'"
  shows "open_at n loc' i = open_at n loc i" "final_at loc' i r = final_at loc i r"
  using assms by (simp_all add: same_at_def open_at_def final_at_def)

lemma same_at_trans: "same_at i x y \<Longrightarrow> same_at i y z \<Longrightarrow> same_at i x z"
  by (simp add: same_at_def)

lemma settle_answer_at:
  assumes "judged r" "open_at n loc (wi_id w)"
  obtains loc' s' where "settle_answer (int max_retries) w r loc s = (Inr (loc', retried max_retries n r), s')"
    "counted 0 1 (snd s) (snd s')" "settled_at max_retries n loc' w r" "\<And>i. i \<noteq> wi_id w \<Longrightarrow> same_at i loc loc'"
proof -
  from assms(2) obtain a where a: "dget (rl_attempts loc) (wi_id w) = Some a" "open_attempt n a" by (auto simp: open_at_def)
  obtain loc' s' a' where f: "settle_answer (int max_retries) w r loc s = (Inr (loc', retried max_retries n r), s')"
    "counted 0 1 (snd s) (snd s')" "rl_attempts loc' = dset (wi_id w) a' (rl_attempts loc)"
    "retried max_retries n r \<longrightarrow> open_attempt (n + 1) a'"
    "rl_results loc' = (if retried max_retries n r then rl_results loc else dset (wi_id w) r (rl_results loc))"
    "rl_states loc' = (if retried max_retries n r then rl_states loc else dset (wi_id w) (final_state_of r) (rl_states loc))"
    by (rule settle_answer_ok [OF assms(1) a])
  then have "settled_at max_retries n loc' w r" "\<And>i. i \<noteq> wi_id w \<Longrightarrow> same_at i loc loc'"
    by (auto simp: settled_at_def same_at_def open_at_def final_at_def)
  with f(1,2) show thesis by (rule that)
qed

lemma settle_answers_at:
  assumes "distinct (map (wi_id \<circ> fst) xs)" "list_all (\<lambda>(w, r). judged r \<and> dget by_id (wi_id w) = Some w \<and> open_at n loc (wi_id w)) xs"
  shows "\<exists>loc' s'. settle_answers (int max_retries) by_id xs loc s = (Inr (loc', map fst (filter (retried max_retries n \<circ> snd) xs)), s')
    \<and> counted 0 (length xs) (snd s) (snd s') \<and> list_all (\<lambda>(w, r). settled_at max_retries n loc' w r) xs
    \<and> (\<forall>i. i \<notin> (wi_id \<circ> fst) ` set xs \<longrightarrow> same_at i loc loc')"
  using assms
proof (induction xs arbitrary: loc s)
  case Nil
  have "counted 0 0 x x" for x by (cases x) auto
  then show ?case by (simp add: same_at_def)
next
  case (Cons x xs)
  obtain w r where x: "x = (w, r)" by (cases x)
  from Cons.prems(2) x have "judged r" "open_at n loc (wi_id w)" by simp_all
  from settle_answer_at [OF this, of max_retries s] obtain l1 s1 where one: "settle_answer (int max_retries) w r loc s = (Inr (l1, retried max_retries n r), s1)"
      "counted 0 1 (snd s) (snd s1)" "settled_at max_retries n l1 w r" "\<And>i. i \<noteq> wi_id w \<Longrightarrow> same_at i loc l1"
    by metis
  have apart: "wi_id v \<noteq> wi_id w" if "(v, q) \<in> set xs" for v q
    using Cons.prems(1) x that by (force simp: image_iff)
  have "list_all (\<lambda>(w, r). judged r \<and> dget by_id (wi_id w) = Some w \<and> open_at n l1 (wi_id w)) xs"
    using Cons.prems(2) apart same_at_simps(1) [OF one(4)] by (auto simp: list_all_iff)
  moreover have "distinct (map (wi_id \<circ> fst) xs)" using Cons.prems(1) by (simp add: comp_def)
  ultimately obtain l2 s2 where
      two: "settle_answers (int max_retries) by_id xs l1 s1 = (Inr (l2, map fst (filter (retried max_retries n \<circ> snd) xs)), s2)"
      "counted 0 (length xs) (snd s1) (snd s2)" "list_all (\<lambda>(w, r). settled_at max_retries n l2 w r) xs"
      "\<forall>i. i \<notin> (wi_id \<circ> fst) ` set xs \<longrightarrow> same_at i l1 l2"
    using Cons.IH [of l1 s1] by blast
  have "wi_id w \<notin> (wi_id \<circ> fst) ` set xs" using Cons.prems(1) x by auto
  from same_at_simps [OF two(4) [rule_format, OF this]] one(3) have "settled_at max_retries n l2 w r"
    by (auto simp: settled_at_def split: if_splits)
  moreover have "counted 0 (length (x # xs)) (snd s) (snd s2)" using counted_trans [OF one(2) two(2)] by simp
  moreover have "settle_answers (int max_retries) by_id (x # xs) loc s
      = (Inr (l2, map fst (filter (retried max_retries n \<circ> snd) (x # xs))), s2)"
    using one(1) two(1) Cons.prems(2) x by (simp add: obind_def)
  ultimately show ?case using two(3) one(4) two(4) x by (auto simp: comp_def intro: same_at_trans)
qed

text \<open>
  Before a round: the pending items are those of the batch without a final outcome, each with \<open>n\<close>
  faults; a fault is final only when the retries are used up.
\<close>

definition round_state :: "work_item list \<Rightarrow> nat \<Rightarrow> nat \<Rightarrow> work_item list \<Rightarrow> retry_locals \<Rightarrow> bool" where
  "round_state items max_retries n pending loc \<longleftrightarrow>
     distinct (map wi_id pending) \<and> set pending \<subseteq> set items \<and> (pending = [] \<or> n \<le> max_retries)
     \<and> list_all (\<lambda>w. open_at n loc (wi_id w)) pending
     \<and> list_all (\<lambda>w. w \<in> set pending \<or> (\<exists>r. final_at loc (wi_id w) r \<and> br_item r = w
          \<and> (br_status r = BRANCH_STATUS_SUCCESS \<or> n = max_retries + 1))) items"

locale batch_dispatcher =
  fixes dispatch :: "work_item list \<Rightarrow> ('s, branch_result list) stateop"
  assumes dispatch_answers: "\<exists>rs s'. dispatch ws s = (Inr rs, s') \<and> map br_item rs = ws \<and> list_all judged rs"

context batch_dispatcher
begin

lemma one_round:
  assumes "round_state items max_retries n pending loc" "pending \<noteq> []" "distinct (map wi_id items)"
    "list_all (\<lambda>w. dget by_id (wi_id w) = Some w) items"
  obtains rs s1 loc' s2 where "dispatch pending (fst s) = (Inr rs, s1)" "length rs = length pending"
    "settle_answers (int max_retries) by_id (zip pending rs) loc (s1, x)
      = (Inr (loc', map fst (filter (retried max_retries n \<circ> snd) (zip pending rs))), s2)"
    "round_state items max_retries (n + 1) (map fst (filter (retried max_retries n \<circ> snd) (zip pending rs))) loc'"
    "counted 0 (length pending) x (snd s2)"
proof -
  from dispatch_answers [of pending "fst s"] obtain rs s1 where d: "dispatch pending (fst s) = (Inr rs, s1)" "map br_item rs = pending" "list_all judged rs"
    by blast
  let ?xs = "zip pending rs"
  let ?again = "map fst (filter (retried max_retries n \<circ> snd) ?xs)"
  have len: "length rs = length pending" using d(2) by (metis length_map)
  have ids: "map (wi_id \<circ> fst) ?xs = map wi_id pending" using len by (simp flip: map_map)
  have item: "br_item r = w" "judged r" "w \<in> set pending" if "(w, r) \<in> set ?xs" for w r
    using that d(2,3) by (auto simp: in_set_zip list_all_length)
  have "list_all (\<lambda>(w, r). judged r \<and> dget by_id (wi_id w) = Some w \<and> open_at n loc (wi_id w)) ?xs"
    using assms(1,4) item by (fastforce simp: list_all_iff round_state_def)
  moreover have "distinct (map (wi_id \<circ> fst) ?xs)" using assms(1) ids by (simp add: round_state_def)
  ultimately obtain loc' s2 where
      a: "settle_answers (int max_retries) by_id ?xs loc (s1, x) = (Inr (loc', ?again), s2)"
      "counted 0 (length ?xs) x (snd s2)" "list_all (\<lambda>(w, r). settled_at max_retries n loc' w r) ?xs"
      "\<forall>i. i \<notin> (wi_id \<circ> fst) ` set ?xs \<longrightarrow> same_at i loc loc'"
    using settle_answers_at [of ?xs by_id n loc max_retries "(s1, x)", unfolded snd_conv] by blast
  have sub: "set ?again \<subseteq> set pending" using item(3) by auto
  have "distinct (map wi_id ?again)"
    unfolding map_map using assms(1) ids by (intro distinct_map_filter) (simp add: round_state_def)
  moreover have "list_all (\<lambda>w. open_at (n + 1) loc' (wi_id w)) ?again"
    using a(3) by (auto simp: list_all_iff settled_at_def split: if_splits)
  moreover have "w \<in> set ?again \<or> (\<exists>r. final_at loc' (wi_id w) r \<and> br_item r = w
      \<and> (br_status r = BRANCH_STATUS_SUCCESS \<or> n + 1 = max_retries + 1))" if w: "w \<in> set items" for w
  proof (cases "w \<in> set pending")
    case True
    with len obtain r where r: "(w, r) \<in> set ?xs" by (metis in_set_impl_in_set_zip1)
    with a(3) have s: "settled_at max_retries n loc' w r" by (auto simp: list_all_iff)
    show ?thesis
    proof (cases "retried max_retries n r")
      case True
      with r show ?thesis by force
    next
      case False
      moreover have "n \<le> max_retries" using assms(1,2) by (simp add: round_state_def)
      ultimately have "final_at loc' (wi_id w) r" "br_status r = BRANCH_STATUS_SUCCESS \<or> n + 1 = max_retries + 1"
        using s by (auto simp: settled_at_def retried_def)
      with item(1) [OF r] show ?thesis by blast
    qed
  next
    case False
    moreover have "set pending \<subseteq> set items" using assms(1) by (simp add: round_state_def)
    ultimately have "wi_id w \<notin> wi_id ` set pending"
      using inj_onD [of wi_id "set items" w] assms(3) w by (auto simp: distinct_map)
    then have "same_at (wi_id w) loc loc'" using a(4) ids by (metis list.set_map)
    with assms(1,2) w False show ?thesis by (auto simp: round_state_def list_all_iff same_at_simps)
  qed
  moreover have "?again = [] \<or> n + 1 \<le> max_retries"
    by (cases "n < max_retries") (auto simp: retried_def)
  ultimately have "round_state items max_retries (n + 1) ?again loc'"
    using assms(1) sub unfolding round_state_def list_all_iff by blast
  with d(1) len a(1,2) show thesis by (intro that) simp_all
qed

end

context batch_dispatcher
begin

lemma rounds_settle:
  assumes "distinct (map wi_id items)" "list_all (\<lambda>w. dget by_id (wi_id w) = Some w) items"
    "round_state items max_retries n pending loc"
  shows "\<exists>k b loc' s'. dispatch_rounds dispatch (int max_retries) by_id (int n) pending loc s = (Inr loc', s')
    \<and> round_state items max_retries (n + k) [] loc' \<and> counted k b (snd s) (snd s')
    \<and> b \<le> k * length pending \<and> (pending = [] \<and> k = 0 \<or> n + k \<le> max_retries + 1)"
  using assms(3)
proof (induction "max_retries + 1 - n" arbitrary: n pending loc s rule: less_induct)
  case less
  have none: "counted 0 0 x x" for x by (cases x) auto
  show ?case
  proof (cases "pending = []")
    case True
    with less.prems show ?thesis
      by (intro exI [of _ 0] exI [of _ loc] exI [of _ s]) (simp add: dispatch_rounds.simps none)
  next
    case False
    let ?x = "map_option (\<lambda>m. m\<lparr>mx_rounds := mx_rounds m + 1\<rparr>) (snd s)"
    obtain rs s1 loc1 s2 where r: "dispatch pending (fst s) = (Inr rs, s1)" "length rs = length pending"
      "settle_answers (int max_retries) by_id (zip pending rs) loc (s1, ?x)
        = (Inr (loc1, map fst (filter (retried max_retries n \<circ> snd) (zip pending rs))), s2)"
      "round_state items max_retries (n + 1) (map fst (filter (retried max_retries n \<circ> snd) (zip pending rs))) loc1"
      "counted 0 (length pending) ?x (snd s2)"
      by (rule one_round [OF less.prems False assms(1,2)])
    let ?again = "map fst (filter (retried max_retries n \<circ> snd) (zip pending rs))"
    have n: "n \<le> max_retries" using less.prems False by (simp add: round_state_def)
    then obtain k b loc' s' where i: "dispatch_rounds dispatch (int max_retries) by_id (int (n + 1)) ?again loc1 s2 = (Inr loc', s')"
      "round_state items max_retries (n + 1 + k) [] loc'" "counted k b (snd s2) (snd s')" "b \<le> k * length ?again"
      "?again = [] \<and> k = 0 \<or> n + 1 + k \<le> max_retries + 1"
      using less.hyps [of "n + 1", OF _ r(4), of s2] by (metis Suc_eq_plus1 diff_less_mono2 le_imp_less_Suc lessI)
    have "length ?again \<le> length pending" using length_filter_le [of _ "zip pending rs"] r(2) by (simp add: le_trans)
    with i(4) have b: "length pending + b \<le> (k + 1) * length pending" by (simp add: le_trans)
    have "counted 1 0 (snd s) ?x" by (rule counted_map) simp
    from counted_trans [OF this counted_trans [OF r(5) i(3)]] have c: "counted (k + 1) (length pending + b) (snd s) (snd s')" by simp
    have "dispatch_rounds dispatch (int max_retries) by_id (int n) pending loc s = (Inr loc', s')"
      using False n r(1-3) i(1) by (subst dispatch_rounds.simps) (simp add: on_pool_def obind_def add.commute)
    with i(2,5) b c n show ?thesis by (intro exI [of _ "k + 1"] exI [of _ "length pending + b"]) auto
  qed
qed

lemma until_final:
  assumes "distinct (map wi_id items)"
  shows "\<exists>outs s' k b. dispatch_work_items_until_final dispatch (int max_retries) items s = (Inr outs, s')
    \<and> map fst outs = items \<and> list_all (\<lambda>(w, r, st). br_item r = w \<and> st = final_state_of r) outs
    \<and> counted k b (snd s) (snd s') \<and> k \<le> max_retries + 1 \<and> b \<le> k * length items
    \<and> (list_all (\<lambda>(w, r, st). br_status r = BRANCH_STATUS_SUCCESS) outs \<or> k = max_retries + 1)"
proof -
  let ?by = "dupdate [] (map (\<lambda>w. (wi_id w, w)) items)" and ?loc = "initial_locals items"
  have get: "dget (dupdate [] (map (\<lambda>w. (wi_id w, f w)) items)) (wi_id w) = Some (f w)" if "w \<in> set items" for f w
  proof -
    have d: "distinct (dkeys (map (\<lambda>w. (wi_id w, f w)) items))" using assms by (simp add: comp_def)
    moreover have "map_of (map (\<lambda>w. (wi_id w, f w)) items) (wi_id w) = Some (f w)"
      using that by (intro map_of_is_SomeI [OF d]) auto
    ultimately show ?thesis by (simp add: dget_dupdate)
  qed
  have by_id: "list_all (\<lambda>w. dget ?by (wi_id w) = Some w) items" using get [of _ id] by (simp add: list_all_iff)
  have "round_state items max_retries 0 items ?loc"
    using get [of _ "new_attempt \<circ> wi_id"] assms
    by (auto simp: round_state_def list_all_iff initial_locals_def open_at_def open_attempt_def new_attempt_def comp_def)
  from rounds_settle [OF assms by_id this, of s] obtain k b loc s1 where
      l: "dispatch_rounds dispatch (int max_retries) ?by 0 items ?loc s = (Inr loc, s1)" "round_state items max_retries k [] loc"
        "counted k b (snd s) (snd s1)" "b \<le> k * length items" "k \<le> max_retries + 1" by auto
  have "\<exists>r. final_outcome loc w = Inr (w, r, final_state_of r) \<and> br_item r = w
      \<and> (br_status r = BRANCH_STATUS_SUCCESS \<or> k = max_retries + 1)" if "w \<in> set items" for w
    using l(2) that by (fastforce simp: round_state_def list_all_iff final_at_def final_outcome_def)
  then obtain f where f: "\<And>w. w \<in> set items \<Longrightarrow> final_outcome loc w = Inr (w, f w, final_state_of (f w)) \<and> br_item (f w) = w
      \<and> (br_status (f w) = BRANCH_STATUS_SUCCESS \<or> k = max_retries + 1)" by metis
  then have outs: "map_res (final_outcome loc) items = Inr (map (\<lambda>w. (w, f w, final_state_of (f w))) items)"
    by (auto simp: map_res_Inr_nth)
  have "counted 0 0 (snd s1) (map_option (count_finals loc) (snd s1))"
    by (rule counted_map) (simp add: count_finals_def Let_def)
  from counted_trans [OF l(3) this] have c: "counted k b (snd s) (map_option (count_finals loc) (snd s1))" by simp
  have "dispatch_work_items_until_final dispatch (int max_retries) items s
      = (Inr (map (\<lambda>w. (w, f w, final_state_of (f w))) items), (fst s1, map_option (count_finals loc) (snd s1)))"
    using l(1) outs by (simp add: dispatch_work_items_until_final_def obind_def olift_def)
  with c l(4,5) f show ?thesis
    by (intro exI [of _ "map (\<lambda>w. (w, f w, final_state_of (f w))) items"] exI [of _ "(fst s1, map_option (count_finals loc) (snd s1))"]
        exI [of _ k] exI [of _ b]) (auto simp: list_all_iff comp_def)
qed

end

text \<open>Batches run by worker processes: a worker runs each request on its own runtime.\<close>

definition worker_exec :: "'s worker_env \<Rightarrow> nat \<Rightarrow> worker_request \<Rightarrow> (nat \<Rightarrow> 's worker_runtime, branch_result) stateop" where
  "worker_exec env w rq pool = (case execute_request env rq (pool w) of (r, rt) \<Rightarrow> (r, pool(w := rt)))"

definition worker_batches ::
  "(string \<Rightarrow> string) \<Rightarrow> 's worker_env \<Rightarrow> nat list \<Rightarrow> (nat, nat) dict \<Rightarrow> work_item list
   \<Rightarrow> ((nat \<Rightarrow> 's worker_runtime) \<times> lease_registry, branch_result list) stateop" where
  "worker_batches sha env ids gens = dispatch_with sha (worker_exec env) ids gens"

definition judged_results :: "results \<Rightarrow> bool" where
  "judged_results res \<longleftrightarrow> (\<forall>k r. dget res k = Some r \<longrightarrow> well_formed_result r \<and> judged r)"

lemma judged_results_dset: "judged_results res \<Longrightarrow> well_formed_result r \<Longrightarrow> judged r \<Longrightarrow> judged_results (dset k r res)"
  by (simp add: judged_results_def)

lemma worker_exec_judged:
  assumes "proper_mode rq"
  obtains r pool' where "worker_exec env w rq pool = (Inr r, pool')" "well_formed_result r" "judged r"
proof -
  from execute_request_total [OF assms, of env "pool w"] obtain r rt' where
      r: "execute_request env rq (pool w) = (Inr r, rt')" "well_formed_result r" by blast
  have "judged r"
    using r(2) execute_request_classifiable [OF r(1)] by (auto simp: judged_def well_formed_result_def)
  with r show thesis by (intro that [of r "pool(w := rt')"]) (simp_all add: worker_exec_def)
qed

lemma execute_all_judged:
  assumes "judged_results res"
  shows "\<exists>res' s'. execute_all sha (worker_exec env) ids gens ws n res s = (Inr res', s') \<and> judged_results res'
    \<and> wi_id ` set ws \<union> set (dkeys res) \<subseteq> set (dkeys res')"
  using assms
proof (induction ws arbitrary: n res s)
  case Nil
  then show ?case by (cases s) simp
next
  case (Cons w ws)
  obtain x reg where s: "s = (x, reg)" by (cases s)
  let ?route = "route_work_item sha w ids gens n reg"
  have "proper_mode (rt_request ?route)" using route_mode by (auto simp: proper_mode_def)
  then obtain r x' where r: "worker_exec env (rt_worker ?route) (rt_request ?route) x = (Inr r, x')" "well_formed_result r" "judged r"
    by (rule worker_exec_judged)
  from Cons.IH [OF judged_results_dset [OF Cons.prems r(2,3)], of "rt_next ?route" "wi_id w" "(x', rt_registry ?route)"]
  show ?case using r(1) s by (auto simp: Let_def)
qed

lemma settle_judged:
  assumes "judged_results res" "wi_id ` set ws \<subseteq> set (dkeys res)"
  shows "\<exists>rs reg'. settle ws res reg = (Inr rs, reg') \<and> map br_item rs = ws \<and> list_all judged rs"
  using assms(2)
proof (induction ws arbitrary: reg)
  case (Cons w ws)
  then obtain r0 where r0: "dget res (wi_id w) = Some r0"
    by (metis dget_iff_dkeys image_subset_iff list.set_intros(1) option.exhaust)
  with assms(1) have w: "well_formed_result r0" "judged r0" by (auto simp: judged_results_def)
  from restore_ok [OF w(1), of w] obtain r where r: "restore_result_for_caller_work_item w r0 = Inr r" "br_item r = w" by blast
  then have "judged r"
    using w(2) by (auto simp: restore_result_for_caller_work_item_def branch_result_checked_Inr judged_def classifiable_def split: if_splits)
  with r0 r Cons.IH [of "settle_leases w r reg"] Cons.prems show ?case by auto
qed simp

interpretation workers: batch_dispatcher "worker_batches sha env ids gens" for sha env ids gens
proof
  fix ws :: "work_item list" and s :: "(nat \<Rightarrow> 'a worker_runtime) \<times> lease_registry"
  have "judged_results []" by (simp add: judged_results_def)
  from execute_all_judged [OF this, of sha env ids gens ws 0 s] obtain res x reg where
      e: "execute_all sha (worker_exec env) ids gens ws 0 [] s = (Inr res, (x, reg))" "judged_results res" "wi_id ` set ws \<subseteq> set (dkeys res)"
    by auto
  from settle_judged [OF e(2,3), of reg] e(1)
  show "\<exists>rs s'. worker_batches sha env ids gens ws s = (Inr rs, s') \<and> map br_item rs = ws \<and> list_all judged rs"
    by (auto simp: worker_batches_def dispatch_with_def split: prod.splits)
qed

section \<open>What is committed\<close>

lemma item_candidate: "from_candidate_ref loads sha c cand kind cid wid = Inr w \<Longrightarrow> wi_candidate w = cand"
  by (auto simp: from_candidate_ref_def sbind_eq_Inr Let_def work_item_checked_def split: if_splits)

lemma batch_items_candidates:
  assumes "batch_work_items env config ctx cs involved = Inr (items, coverage)" "w \<in> set items"
  shows "wi_candidate w \<in> set cs"
proof (cases involved)
  case False
  with assms obtain cid where "map_res (\<lambda>(i, c). from_candidate_ref (se_loads env) (se_sha env) ctx c (kind_at i) (Some cid) None) (enumerate 0 cs) = Inr items"
    by (auto simp: batch_work_items_def plain_work_items_def sbind_eq_Inr)
  from map_res_set [OF this assms(2)] show ?thesis
    by (auto dest!: item_candidate simp: in_set_enumerate_eq) (metis nth_mem)
next
  case True
  with assms(1) have h: "hypothesis_work_items env config ctx cs = Inr (items, PUBLIC_MULTISET_COVERAGE)"
    by (auto simp: batch_work_items_def hypothesis_work_items_def sbind_eq_Inr)
  then consider roots where "map_res (start_work_item env ctx) (List.product (enumerate 0 cs) roots) = Inr items"
    | cells hs d where "build_grid (se_float env) (se_sha env) cs hs d = Inr cells"
        "map_res (cell_work_item env ctx) (zip (root_indices (length cs) (length hs)) cells) = Inr items"
    by (auto simp: hypothesis_work_items_def sbind_eq_Inr split: if_splits)
  then show ?thesis
  proof cases
    case 1
    from map_res_set [OF this assms(2)] show ?thesis
      by (auto dest!: item_candidate simp: start_work_item_def in_set_enumerate_eq) (metis nth_mem)
  next
    case 2
    from map_res_set [OF 2(2) assms(2)] obtain i cell where "(i, cell) \<in> set (zip (root_indices (length cs) (length hs)) cells)"
      "cell_work_item env ctx (i, cell) = Inr w" by auto
    then have "cell \<in> set cells" "wi_candidate w = gc_action cell"
      by (auto simp: cell_work_item_def sbind_eq_Inr dest: set_zip_rightD item_candidate)
    moreover have "gc_action c \<in> set cs" if "c \<in> set cells" for c
      using map_res_set [OF 2(1) [unfolded build_grid_def] that] by (auto simp: sbind_eq_Inr)
    ultimately show ?thesis by simp
  qed
qed

lemma until_final_items:
  assumes "dispatch_work_items_until_final dispatch max_retries items s = (Inr outs, s')"
  shows "map fst outs = items"
proof -
  from assms obtain loc where "map_res (final_outcome loc) items = Inr outs"
    by (auto simp: dispatch_work_items_until_final_def obind_Inr olift_def)
  then show ?thesis
    by (intro nth_equalityI) (auto simp: map_res_Inr_nth final_outcome_def split: option.splits prod.splits, metis Inr_inject fst_conv)
qed

lemma entry_of_item:
  assumes "outcome_entries sha coverage outcomes = Inr es" "e \<in> set es"
  obtains w where "w \<in> fst ` set outcomes" "le_action e = Some (pr_action (wi_candidate w))" "le_target e = pr_target (wi_candidate w)"
    "le_enemy e = pr_enemy (wi_candidate w)" "le_state e = WORK_ITEM_FINAL_SUCCESS \<longrightarrow> le_score e \<noteq> None"
proof -
  from assms(1) obtain ls where ls: "map_res (\<lambda>(w, r, s). to_decision_log_entry sha w r (Some s)) outcomes = Inr ls"
    "map_res (with_coverage coverage) ls = Inr es" by (auto simp: outcome_entries_def sbind_eq_Inr)
  from map_res_set [OF ls(2) assms(2)] obtain l where l: "l \<in> set ls" "with_coverage coverage l = Inr e" by blast
  from map_res_set [OF ls(1) l(1)] obtain w r s where w: "(w, r, s) \<in> set outcomes" "to_decision_log_entry sha w r (Some s) = Inr l" by auto
  have "le_action l = Some (pr_action (wi_candidate w))" "le_target l = pr_target (wi_candidate w)" "le_enemy l = pr_enemy (wi_candidate w)"
    "le_state l = WORK_ITEM_FINAL_SUCCESS \<longrightarrow> le_score l \<noteq> None"
    using w(2) by (auto simp: to_decision_log_entry_def sbind_eq_Inr log_entry_checked_def value_error_def Let_def split: if_splits prod.splits)
  moreover have "le_action e = le_action l" "le_target e = le_target l" "le_enemy e = le_enemy l" "le_state e = le_state l" "le_score e = le_score l"
    using l(2) by (auto simp: with_coverage_def log_entry_checked_def value_error_def split: option.splits if_splits)
  ultimately show thesis using that [of w] w(1) by force
qed

lemma best_is_success:
  assumes "aggregate_entries fraction involved es = Inr ag" "ag_best ag = Some best"
    "\<forall>e \<in> set es. le_state e = WORK_ITEM_FINAL_SUCCESS \<longrightarrow> le_score e \<noteq> None"
  shows "ra_entry best \<in> set es"
proof (cases involved)
  case True
  with assms(1) have ag: "aggregate_hypothesis_results fraction es = Inr ag" by (simp add: aggregate_entries_def)
  have "\<forall>e \<in> set (success_entries es). le_score e \<noteq> None" using assms(3) by (simp add: success_entries_def)
  from aggregation_facts(2) [OF ag this aggregation_best(1) [OF ag assms(2)]] show ?thesis by (simp add: success_entries_def)
next
  case False
  with assms(1,2) have "best \<in> set (map plain_aggregation (sort_key plain_rank (success_entries es)))"
    by (auto simp: aggregate_entries_def aggregate_plain_results_def sbind_eq_Inr Let_def split: if_splits)
      (metis hd_in_set image_eqI image_set list.map_disc_iff set_empty set_sort)
  then show ?thesis by (auto simp: plain_aggregation_def success_entries_def)
qed

lemma build_commit_Inr:
  assumes "build_commit_decision ag involved verify s = (Inr (Commit_search (Search_success ps)), s')"
  obtains best p where "ag_best ag = Some best" "verify s = (Inr True, s')" "commit_step_of (ra_entry best) involved = Inr p" "ps = [p]"
  using assms by (auto simp: build_commit_decision_def obind_Inr olift_def split: option.splits if_splits)

lemma verified_Inr:
  assumes "verify_main_invariant sha (Some provider) ctx x = (Inr True, y)"
  obtains live c where "provider (fst x) = (Inr live, fst y)" "check_main_invariant sha ctx live = Inr c" "ic_ok c"
  using assms by (auto simp: verify_main_invariant_def obind_Inr olift_def split: prod.splits sum.splits)

lemma finish_result: "finish_strategy check d = Inr (Strategy_result r) \<longleftrightarrow> d = Commit_search r"
  by (auto simp: finish_strategy_def sbind_eq_Inr Let_def split: commit_decision.splits)

text \<open>Main is where the context was taken: same position, same held root, same steps since.\<close>

definition main_unmoved :: "(string \<Rightarrow> string) \<Rightarrow> decision_context \<Rightarrow> 'm main_state \<Rightarrow> bool" where
  "main_unmoved sha ctx live \<longleftrightarrow>
     live_state_identity live = (sg_session (dc_signature ctx), sg_step (dc_signature ctx))
     \<and> ml_prefix live = dc_prefix ctx
     \<and> (case ml_held live of
          None \<Rightarrow> is_combat_start (dc_root ctx)
        | Some r \<Rightarrow> \<not> is_combat_start (dc_root ctx) \<and> snapshot_content_digest sha r = snapshot_content_digest sha (dc_root ctx))"

lemma search_root_start: "search_root r = Inr (a :: 's search_adapter) \<Longrightarrow> sr_is_combat_start a \<longleftrightarrow> is_combat_start r"
  by (auto simp: search_root_def is_combat_start_def adapter_defs Let_def split: root.splits)

lemma check_main_exact:
  assumes "check_main_invariant sha ctx live = Inr c"
  shows "ic_ok c \<longleftrightarrow> main_unmoved sha ctx live"
proof -
  from assms obtain a held d where a: "search_root (dc_root ctx) = Inr (a :: unit search_adapter)"
    and h: "check_held sha (sr_is_combat_start a) (dc_root ctx) (ml_held live) = Inr (held, d)"
    and c: "ic_ok c \<longleftrightarrow> live_state_identity live = (sg_session (dc_signature ctx), sg_step (dc_signature ctx))
      \<and> held = [] \<and> ml_prefix live = dc_prefix ctx"
    by (auto simp: check_main_invariant_def sbind_eq_Inr Let_def split: prod.splits)
  have "held = [] \<longleftrightarrow> (case ml_held live of None \<Rightarrow> is_combat_start (dc_root ctx)
      | Some r \<Rightarrow> \<not> is_combat_start (dc_root ctx) \<and> snapshot_content_digest sha r = snapshot_content_digest sha (dc_root ctx))"
    using h search_root_start [OF a] by (auto simp: check_held_def sbind_eq_Inr split: if_splits option.splits)
  with c show ?thesis by (auto simp: main_unmoved_def)
qed

section \<open>Properties\<close>

text \<open>
  C26.  What the beliefs of a search know of its root: two captured roots with the same public
  multiset of the draw pile and the same Shuffle stream give the same hypotheses, whatever the
  order of the pile and the rest of the state; there is one per index, each is an order of exactly
  those cards, and each carries the root's own Shuffle stream, which is thus the same for all.
\<close>

theorem root_beliefs_hide_order:
  assumes "\<And>n g. 0 < n \<Longrightarrow> fst (pg_range (se_prng env) n g) < n"
    and "mset (map card_id (draw_pile d)) = mset (map card_id (draw_pile d'))" "shuffle_stream d = shuffle_stream d'"
    and "root_beliefs env n d = Inr hs"
  shows "root_beliefs env n d' = Inr hs \<and> map hy_index hs = [0..<nat n]
    \<and> list_all (\<lambda>h. mset (hy_cards h) = mset (map card_id (draw_pile d))
        \<and> sbind (shuffle_stream d) rng_from_like = Inr (hy_rng h)) hs"
proof -
  from assms(4) obtain stream where s: "shuffle_stream d = Inr stream"
    "generate_belief_hypotheses (se_sha env) (se_prng env) (compute_public_multiset d) n (\<lambda>_. stream) = Inr hs"
    by (auto simp: root_beliefs_def sbind_eq_Inr)
  from beliefs_of_multiset [OF assms(1,2) s(2)] s(1) assms(3) show ?thesis
    by (simp add: root_beliefs_def)
qed

definition belief_env :: "nat search_env" where
  "belief_env = \<lparr> se_loads = (\<lambda>_. Inr JNull), se_sha = (\<lambda>_. ''1''), se_float = (\<lambda>_. None), se_prng = counting_prng \<rparr>"

lemma belief_streams: "shuffle_stream sample_root = Inr sample_stream" "shuffle_stream sample_turned = Inr sample_stream"
  by code_simp+

theorem root_beliefs_hide_order_witness:
  "root_beliefs belief_env 2 sample_turned = Inr sample_beliefs \<and> map hy_index sample_beliefs = [0..<nat 2]
    \<and> list_all (\<lambda>h. mset (hy_cards h) = mset (map card_id (draw_pile sample_root))
        \<and> sbind (shuffle_stream sample_root) rng_from_like = Inr (hy_rng h)) sample_beliefs"
proof (rule root_beliefs_hide_order)
  show "root_beliefs belief_env 2 sample_root = Inr sample_beliefs"
    using sample_generated(1) by (simp add: root_beliefs_def belief_streams belief_env_def)
  show "mset (map card_id (draw_pile sample_root)) = mset (map card_id (draw_pile sample_turned))"
    by (simp only: sample_root_pile(2) sample_generated(2)) (simp add: add_mset_commute)
qed (simp_all only: belief_streams, simp_all add: belief_env_def counting_prng_def)


text \<open>
  C28.  What a search commits is one step of one candidate of its pruned batch, and it commits only
  when Main, read at commit time, is where the context was taken: same session and step, same steps
  since the root, and the held root unchanged (none, for a search from the start of a combat).
\<close>

theorem commits_candidate_of_unmoved_main:
  assumes "search_strategy env dispatch (Some provider) config ctx s = (Inr (Strategy_result (Search_success ps)), s')"
  shows "\<exists>pipeline c p live x. build_candidate_pipeline_result (sf_width config) None ctx = Inr pipeline
    \<and> c \<in> set (candidate_batch pipeline) \<and> ps = [p]
    \<and> pl_action p = pr_action c \<and> pl_target p = pr_target c \<and> pl_enemy p = pr_enemy c
    \<and> provider x = (Inr live, s') \<and> main_unmoved (se_sha env) ctx live"
proof -
  from assms obtain pipeline where p: "build_candidate_pipeline_result (sf_width config) None ctx = Inr pipeline"
    and run: "(case pipeline of
         No_viable_candidates detail _ _ \<Rightarrow> oreturn (Strategy_result (Search_evaluation_failure detail))
       | Pipeline_success _ _ _ _ _ \<Rightarrow>
           obind (dispatch_candidates env dispatch config ctx pipeline) (\<lambda>(involved, coverage, outcomes).
             commit_outcomes env (Some provider) config ctx involved coverage outcomes)) s = (Inr (Strategy_result (Search_success ps)), s')"
    by (auto simp: search_strategy_def obind_Inr olift_def)
  then obtain involved coverage outs s1 where
      d: "dispatch_candidates env dispatch config ctx pipeline s = (Inr (involved, coverage, outs), s1)"
      and c: "commit_outcomes env (Some provider) config ctx involved coverage outs s1 = (Inr (Strategy_result (Search_success ps)), s')"
    by (cases pipeline) (auto simp: obind_Inr split: prod.splits)
  from d obtain items x y where items: "batch_work_items env config ctx (candidate_batch pipeline) involved = Inr (items, coverage)"
      "dispatch_work_items_until_final dispatch (sf_max_retries config) items x = (Inr outs, y)"
    by (auto simp: dispatch_candidates_def obind_Inr olift_def Let_def split: prod.splits)
  from c obtain es ag s2 where e: "outcome_entries (se_sha env) coverage outs = Inr es"
      "aggregate_entries (sf_min_coverage config) involved es = Inr ag"
    and run: "(case build_commit_decision ag involved (verify_main_invariant (se_sha env) (Some provider) ctx) (s2, None) of
         (Inl e, (s', _)) \<Rightarrow> (Inl e, s')
       | (Inr d, (s', check)) \<Rightarrow> (finish_strategy check d, s')) = (Inr (Strategy_result (Search_success ps)), s')"
    by (auto simp: commit_outcomes_def obind_Inr olift_def)
  from run obtain s3 where commit: "build_commit_decision ag involved (verify_main_invariant (se_sha env) (Some provider) ctx) (s2, None)
        = (Inr (Commit_search (Search_success ps)), (s', s3))"
    by (auto simp: finish_result split: prod.splits sum.splits)
  from build_commit_Inr [OF commit] obtain best q where b: "ag_best ag = Some best" "ps = [q]"
      "verify_main_invariant (se_sha env) (Some provider) ctx (s2, None) = (Inr True, (s', s3))"
      "commit_step_of (ra_entry best) involved = Inr q" by metis
  from verified_Inr [OF b(3)] obtain live check where v: "provider s2 = (Inr live, s')" "check_main_invariant (se_sha env) ctx live = Inr check" "ic_ok check"
    by auto
  have "ra_entry best \<in> set es"
    by (rule best_is_success [OF e(2) b(1)]) (auto elim: entry_of_item [OF e(1)])
  from entry_of_item [OF e(1) this] obtain w where w: "w \<in> fst ` set outs" "le_action (ra_entry best) = Some (pr_action (wi_candidate w))"
      "le_target (ra_entry best) = pr_target (wi_candidate w)" "le_enemy (ra_entry best) = pr_enemy (wi_candidate w)" by metis
  have "w \<in> set items" using w(1) until_final_items [OF items(2)] by (metis set_map)
  from batch_items_candidates [OF items(1) this] b(2,4) w(2-4) p v(1) check_main_exact [OF v(2)] v(3) show ?thesis
    by (intro exI [of _ pipeline] exI [of _ "wi_candidate w"] exI [of _ q] exI [of _ live] exI [of _ s2])
      (auto simp: commit_step_of_def)
qed

section \<open>Samples and witnesses\<close>


text \<open>
  Work ids are digests of the action and its score, so two copies of a card give two items of one id.
  When both fault, the attempt they share is final after the first round while one of them is pending.
\<close>

definition faulting_batches :: "work_item list \<Rightarrow> (unit, branch_result list) stateop" where
  "faulting_batches ws s = (Inr (map (\<lambda>w. (empty_result BRANCH_STATUS_FAULT w EXECUTION_MODE_BOOTSTRAP_STEP (Some 0) (Some 1))
     \<lparr>br_diagnostics := [(''fault_kind'', JStr ''action_fault'')]\<rparr>) ws), s)"

lemma equal_ids_raise:
  "fst (dispatch_work_items_until_final faulting_batches 1 [sample_item ''sub_branch'', sample_item ''sub_branch''] ((), None))
     = Inl (PyExc ''ValueError'' (''cannot retry from final WorkItem state '' @ repr_str ''FinalFault''))"
  by code_simp

text \<open>A turn where the only legal action is to end it; every branch succeeds.\<close>

definition quiet_context :: decision_context where
  "quiet_context = sample_context\<lparr>dc_root := Snapshot [(''TurnNumber'', JInt 1)], dc_prefix := [],
     dc_signature := sample_signature\<lparr>sg_session := Some ''c1''\<rparr>,
     dc_result := (sample_state 1)\<lparr>
     bs_engine := [(''hand'', JArr []), (''drawPile'', JArr []), (''enemies'', JArr [JObj [(''hp'', JInt 9)]]), (''energy'', JInt 3)],
     bs_cached := Some [[(''action_type'', JStr ''system''), (''semantic_key'', JStr ''end'')]]\<rparr>\<rparr>"

definition succeeding_batches :: "work_item list \<Rightarrow> (unit, branch_result list) stateop" where
  "succeeding_batches ws s = (Inr (map (\<lambda>w. empty_result BRANCH_STATUS_SUCCESS w EXECUTION_MODE_BOOTSTRAP_STEP (Some 0) (Some 1)) ws), s)"

definition quiet_main :: "unit main_state" where
  "quiet_main = (initialize_main_loop_state () (sample_state 1) None)\<lparr>ml_held := Some (dc_root quiet_context)\<rparr>"

definition quiet_env :: "nat search_env" where
  "quiet_env = \<lparr> se_loads = (\<lambda>_. Inr JNull), se_sha = (\<lambda>_. ''d''), se_float = (\<lambda>_. None), se_prng = counting_prng \<rparr>"

definition quiet_plan :: "planned_step list" where
  "quiet_plan = (case fst (search_strategy quiet_env succeeding_batches (Some (oreturn quiet_main)) default_search_config quiet_context ((), None)) of
     Inr (Strategy_result (Search_success ps)) \<Rightarrow> ps | _ \<Rightarrow> [])"

lemma quiet_search:
  "search_strategy quiet_env succeeding_batches (Some (oreturn quiet_main)) default_search_config quiet_context ((), None)
     = (Inr (Strategy_result (Search_success quiet_plan)), ((), None))"
  by code_simp

theorem commits_candidate_of_unmoved_main_witness:
  "\<exists>pipeline c p live x. build_candidate_pipeline_result (sf_width default_search_config) None quiet_context = Inr pipeline
    \<and> c \<in> set (candidate_batch pipeline) \<and> quiet_plan = [p]
    \<and> pl_action p = pr_action c \<and> pl_target p = pr_target c \<and> pl_enemy p = pr_enemy c
    \<and> oreturn quiet_main x = (Inr live, ((), None :: search_metrics option)) \<and> main_unmoved (se_sha quiet_env) quiet_context live"
  by (rule commits_candidate_of_unmoved_main [OF quiet_search])

end
