(* ===== verification/Branch_Manager.thy ===== *)
theory Branch_Manager
  imports Branch_Dispatch
begin

text \<open>
  Asynchronous branches: \<open>Combat/search/branch_manager.py\<close>.  A manager keeps a record per branch with
  its state, submits queued branches to free workers, collects their results, and cancels and releases
  branches with their descendants.

  A poll reads the result queue, given as a list of events (Branch_Dispatch), and the clock, given as
  the sequence of its readings.  The records are mutable objects of the code; here a dict of records by
  branch id.  A raised exception keeps the state it was raised in.
\<close>

section \<open>Branches\<close>

definition BRANCH_STATE_QUEUED :: string where "BRANCH_STATE_QUEUED = ''queued''"
definition BRANCH_STATE_RUNNING :: string where "BRANCH_STATE_RUNNING = ''running''"
definition BRANCH_STATE_COMPLETED :: string where "BRANCH_STATE_COMPLETED = ''completed''"
definition BRANCH_STATE_PARTIAL :: string where "BRANCH_STATE_PARTIAL = ''partial''"
definition BRANCH_STATE_CANCELLED :: string where "BRANCH_STATE_CANCELLED = ''cancelled''"
definition BRANCH_STATE_FAULTED :: string where "BRANCH_STATE_FAULTED = ''faulted''"
definition BRANCH_STATE_RELEASED :: string where "BRANCH_STATE_RELEASED = ''released''"

lemmas branch_state_defs = BRANCH_STATE_QUEUED_def BRANCH_STATE_RUNNING_def BRANCH_STATE_COMPLETED_def BRANCH_STATE_PARTIAL_def
  BRANCH_STATE_CANCELLED_def BRANCH_STATE_FAULTED_def BRANCH_STATE_RELEASED_def

definition TERMINAL_STATES :: "string list" where
  "TERMINAL_STATES = [BRANCH_STATE_COMPLETED, BRANCH_STATE_PARTIAL, BRANCH_STATE_CANCELLED, BRANCH_STATE_FAULTED, BRANCH_STATE_RELEASED]"

definition ACTIVE_STATES :: "string list" where
  "ACTIVE_STATES = [BRANCH_STATE_QUEUED, BRANCH_STATE_RUNNING]"

definition unknown_branch :: "string \<Rightarrow> 'a res" where
  "unknown_branch b = Inl (PyExc ''UnknownBranchError'' (repr_str b))"

record branch_record =
  bx_item :: "work_item option"
  bx_state :: string
  bx_parent :: "string option"
  bx_children :: "string list"
  bx_worker :: "nat option"
  bx_generation :: "nat option"
  bx_request :: "nat option"
  bx_mode :: "string option"
  bx_result :: "branch_result option"

record branch_manager =
  mg_max :: int
  mg_records :: "(string, branch_record) dict"
  mg_requests :: "(nat, string) dict"
  mg_serial :: nat
  mg_bootstrap :: nat
  mg_pool :: pool_state
  mg_reads :: nat

definition new_branch_manager :: "pool_state \<Rightarrow> int \<Rightarrow> branch_manager res" where
  "new_branch_manager pool max_branches =
     (if max_branches \<le> 0 then value_error ''max_branches must be a positive integer''
      else Inr \<lparr> mg_max = max_branches, mg_records = [], mg_requests = [], mg_serial = 0, mg_bootstrap = 0, mg_pool = pool, mg_reads = 0 \<rparr>)"

definition with_record :: "string \<Rightarrow> (branch_record \<Rightarrow> branch_record) \<Rightarrow> branch_manager \<Rightarrow> branch_manager" where
  "with_record b f m = (case dget (mg_records m) b of None \<Rightarrow> m | Some r \<Rightarrow> m\<lparr>mg_records := dset b (f r) (mg_records m)\<rparr>)"

definition on_branch_pool :: "(pool_state, 'a) stateop \<Rightarrow> (branch_manager, 'a) stateop" where
  "on_branch_pool f m = (case f (mg_pool m) of (r, p) \<Rightarrow> (r, m\<lparr>mg_pool := p\<rparr>))"

definition on_leases :: "(lease_registry \<Rightarrow> lease_registry) \<Rightarrow> branch_manager \<Rightarrow> branch_manager" where
  "on_leases f m = m\<lparr>mg_pool := (fst (mg_pool m), f (snd (mg_pool m)))\<rparr>"

section \<open>Submission\<close>

definition branch_name :: "nat \<Rightarrow> string" where
  "branch_name n = ''branch-'' @ digits n"

definition active_branch_count :: "branch_manager \<Rightarrow> nat" where
  "active_branch_count m = length (filter (\<lambda>(b, r). bx_state r \<in> set ACTIVE_STATES) (mg_records m))"

definition queued_record :: "work_item \<Rightarrow> string option \<Rightarrow> branch_record" where
  "queued_record w parent = \<lparr> bx_item = Some w, bx_state = BRANCH_STATE_QUEUED, bx_parent = parent, bx_children = [], bx_worker = None,
     bx_generation = None, bx_request = None, bx_mode = None, bx_result = None \<rparr>"

definition add_child :: "string \<times> branch_record \<Rightarrow> branch_manager \<Rightarrow> branch_manager" where
  "add_child p m = (case bx_parent (snd p) of None \<Rightarrow> m
     | Some parent \<Rightarrow> with_record parent (\<lambda>r. r\<lparr>bx_children := bx_children r @ [fst p]\<rparr>) m)"

definition first_unknown :: "branch_manager \<Rightarrow> (work_item \<times> string option) list \<Rightarrow> string option" where
  "first_unknown m entries = (case List.find (\<lambda>b. \<not> dhas (mg_records m) b) (List.map_filter snd entries) of None \<Rightarrow> None | Some b \<Rightarrow> Some b)"

definition submit_many :: "(work_item \<times> string option) list \<Rightarrow> (branch_manager, string list) stateop" where
  "submit_many entries m = (case first_unknown m entries of
       Some b \<Rightarrow> (unknown_branch b, m)
     | None \<Rightarrow>
         if mg_max m < int (active_branch_count m + length entries)
         then (Inl (PyExc ''BranchLimitExceededError'' (''submitting '' @ digits (length entries) @ '' Branch(es) would exceed max_branches=''
                @ str_int (mg_max m) @ '' (currently '' @ digits (active_branch_count m) @ '' active)'')), m)
         else let new = map (\<lambda>(i, (w, parent)). (branch_name (mg_serial m + i), queued_record w parent)) (enumerate 1 entries);
                  m1 = m\<lparr>mg_serial := mg_serial m + length entries, mg_records := dupdate (mg_records m) new\<rparr>
              in (Inr (map fst new), foldl (\<lambda>m p. add_child p m) m1 new))"

definition submit :: "work_item list \<Rightarrow> string option \<Rightarrow> (branch_manager, string list) stateop" where
  "submit ws parent = submit_many (map (\<lambda>w. (w, parent)) ws)"

section \<open>Cancel and release\<close>

text \<open>\<open>_cancel_one\<close> of the record of a known branch.\<close>

definition cancel_one :: "string \<Rightarrow> branch_record \<Rightarrow> (branch_manager, string) stateop" where
  "cancel_one b r =
     (if bx_state r \<in> {BRANCH_STATE_CANCELLED, BRANCH_STATE_RELEASED} then oreturn (bx_state r)
      else if bx_state r = BRANCH_STATE_QUEUED
      then obind (modify (with_record b (\<lambda>r. r\<lparr>bx_state := BRANCH_STATE_CANCELLED\<rparr>))) (\<lambda>_. oreturn BRANCH_STATE_CANCELLED)
      else if bx_state r = BRANCH_STATE_RUNNING
      then (case bx_worker r of
          None \<Rightarrow> olift (Inl (PyExc ''AssertionError'' []))
        | Some w \<Rightarrow>
            obind (on_branch_pool (respawn_worker w)) (\<lambda>_.
            obind (modify (\<lambda>m. case bx_request r of None \<Rightarrow> m | Some i \<Rightarrow> m\<lparr>mg_requests := dpop i (mg_requests m)\<rparr>)) (\<lambda>_.
            obind (modify (with_record b (\<lambda>r. r\<lparr>bx_state := BRANCH_STATE_CANCELLED\<rparr>))) (\<lambda>_. oreturn BRANCH_STATE_CANCELLED))))
      else obind (modify (\<lambda>m. case bx_result r of None \<Rightarrow> m
                 | Some x \<Rightarrow> (case br_lease x of None \<Rightarrow> m | Some l \<Rightarrow> on_leases (reg_invalidate_lease l) m))) (\<lambda>_.
           obind (modify (with_record b (\<lambda>r. r\<lparr>bx_result := None, bx_state := BRANCH_STATE_CANCELLED\<rparr>))) (\<lambda>_. oreturn BRANCH_STATE_CANCELLED)))"

text \<open>Overwriting an entry changes a count by that entry only.\<close>

lemma filter_dset:
  "dget d k = Some x \<Longrightarrow> length (filter (\<lambda>e. P (snd e)) (dset k v d)) + (if P x then 1 else 0)
    = length (filter (\<lambda>e. P (snd e)) d) + (if P v then 1 else 0)"
  unfolding dset_def by (induction d) (auto split: if_splits)

lemma known_key: "dget d k = Some x \<Longrightarrow> k \<in> set (dkeys d)"
  by (drule map_of_SomeD) force

lemma get_with_record [simp]:
  "dget (mg_records (with_record b f m)) c = (if c = b then map_option f (dget (mg_records m) b) else dget (mg_records m) c)"
  by (simp add: with_record_def split: option.split)

lemma with_record_keys [simp]: "dkeys (mg_records (with_record b f m)) = dkeys (mg_records m)"
proof (cases "dget (mg_records m) b")
  case (Some r)
  then have "b \<in> set (dkeys (mg_records m))" by (rule known_key)
  with Some show ?thesis by (simp add: with_record_def dkeys_dset)
qed (simp add: with_record_def)

lemma on_leases_simps [simp]: "mg_records (on_leases f m) = mg_records m" "mg_requests (on_leases f m) = mg_requests m"
  by (simp_all add: on_leases_def)

lemma cancel_one_keys: "cancel_one b r m = (x, m') \<Longrightarrow> dkeys (mg_records m') = dkeys (mg_records m)"
  by (auto simp: cancel_one_def obind_def modify_def on_branch_pool_def olift_def split: if_splits option.splits prod.splits sum.splits)

text \<open>The stack of branches to visit, its top at the head; \<open>visited\<close> is a dict.\<close>

function cancel_loop :: "string list \<Rightarrow> (string, string) dict \<Rightarrow> (branch_manager, (string, string) dict) stateop" where
  "cancel_loop stack visited m = (case stack of
       [] \<Rightarrow> (Inr visited, m)
     | b # bs \<Rightarrow>
         if dhas visited b then cancel_loop bs visited m
         else (case dget (mg_records m) b of
             None \<Rightarrow> (unknown_branch b, m)
           | Some r \<Rightarrow> (case cancel_one b r m of
                 (Inl e, m') \<Rightarrow> (Inl e, m')
               | (Inr s, m') \<Rightarrow> cancel_loop (rev (bx_children r) @ bs) (dset b s visited) m')))"
  by pat_completeness auto

termination cancel_loop
proof (relation "measures [\<lambda>(stack, visited, m). card (set (dkeys (mg_records m)) - set (dkeys visited)), \<lambda>(stack, visited, m). length stack]", goal_cases)
  case (3 stack visited m b bs r x m' s)
  then have k: "dkeys (mg_records m') = dkeys (mg_records m)" "b \<in> set (dkeys (mg_records m))" "b \<notin> set (dkeys visited)"
    by (auto dest: cancel_one_keys [OF sym] known_key simp: dhas_def map_of_eq_None_iff)
  then have "card (set (dkeys (mg_records m)) - insert b (set (dkeys visited))) < card (set (dkeys (mg_records m)) - set (dkeys visited))"
    by (intro psubset_card_mono) auto
  moreover have "set (dkeys (mg_records m')) = set (dkeys (mg_records m))" using k(1) by (rule arg_cong)
  ultimately show ?case by simp
qed simp_all

declare cancel_loop.simps [simp del]

definition cancel_branches :: "string list \<Rightarrow> (branch_manager, (string, string) dict) stateop" where
  "cancel_branches bs = cancel_loop (rev bs) []"

definition released_leaf :: "branch_record \<Rightarrow> bool" where
  "released_leaf r \<longleftrightarrow> bx_state r = BRANCH_STATE_RELEASED \<and> bx_children r = []"

definition hangs :: "string \<times> branch_record \<Rightarrow> bool" where
  "hangs e \<longleftrightarrow> bx_parent (snd e) \<noteq> None"

lemma hanging_dset:
  "dget d k = Some x \<Longrightarrow> length (filter hangs (dset k v d)) + (if bx_parent x = None then 0 else 1)
    = length (filter hangs d) + (if bx_parent v = None then 0 else 1)"
  using filter_dset [of d k x "\<lambda>r. bx_parent r \<noteq> None" v] by (simp add: hangs_def [abs_def] split: if_splits)

lemma orphan_shrinks:
  assumes "dget (mg_records m) b = Some r" "bx_parent r = Some p" "\<And>x. bx_parent (f x) = bx_parent x"
  shows "length (filter hangs (mg_records (with_record b (\<lambda>r. r\<lparr>bx_parent := None\<rparr>) (with_record p f m)))) < length (filter hangs (mg_records m))"
proof -
  have same: "length (filter hangs (mg_records (with_record p f m))) = length (filter hangs (mg_records m))"
  proof (cases "dget (mg_records m) p")
    case (Some x)
    from hanging_dset [OF this, of "f x"] Some assms(3) show ?thesis by (simp add: with_record_def)
  qed (simp add: with_record_def)
  obtain r' where r': "dget (mg_records (with_record p f m)) b = Some r'" "bx_parent r' = Some p"
    using assms by (cases "b = p") auto
  have "length (filter hangs (mg_records (with_record b (\<lambda>r. r\<lparr>bx_parent := None\<rparr>) (with_record p f m)))) + 1
      = length (filter hangs (mg_records (with_record p f m)))"
    using hanging_dset [OF r'(1), of "r'\<lparr>bx_parent := None\<rparr>"] r' unfolding with_record_def [of b] by simp
  with same show ?thesis by simp
qed

text \<open>\<open>_prune_released_leaf_from_parent\<close>: walks up while a released leaf hangs on a parent.\<close>

function prune_released :: "string \<Rightarrow> branch_manager \<Rightarrow> branch_manager" where
  "prune_released b m = (case dget (mg_records m) b of None \<Rightarrow> m
     | Some r \<Rightarrow> (case bx_parent r of None \<Rightarrow> m
         | Some p \<Rightarrow>
             if \<not> released_leaf r then m
             else if \<not> dhas (mg_records m) p then with_record b (\<lambda>r. r\<lparr>bx_parent := None\<rparr>) m
             else prune_released p (with_record b (\<lambda>r. r\<lparr>bx_parent := None\<rparr>)
                    (with_record p (\<lambda>r. r\<lparr>bx_children := remove1 b (bx_children r)\<rparr>) m))))"
  by pat_completeness auto

termination prune_released
  by (relation "measure (\<lambda>(b, m). length (filter hangs (mg_records m)))") (auto intro!: orphan_shrinks)

declare prune_released.simps [simp del]

definition compacted :: "branch_manager \<Rightarrow> branch_record \<Rightarrow> branch_record" where
  "compacted m r = r\<lparr>bx_item := None, bx_result := None, bx_worker := None, bx_generation := None, bx_request := None, bx_mode := None,
     bx_children := filter (\<lambda>c. case dget (mg_records m) c of None \<Rightarrow> False
        | Some x \<Rightarrow> bx_state x \<noteq> BRANCH_STATE_RELEASED \<or> bx_children x \<noteq> []) (bx_children r)\<rparr>"

definition compact_released :: "string \<Rightarrow> branch_manager \<Rightarrow> branch_manager" where
  "compact_released b m = prune_released b (with_record b (compacted m) m)"

definition release_one :: "string \<Rightarrow> (branch_manager, string) stateop" where
  "release_one b m = (case dget (mg_records m) b of
       None \<Rightarrow> (unknown_branch b, m)
     | Some r \<Rightarrow>
         obind (if bx_state r = BRANCH_STATE_RELEASED then oreturn ()
                else obind (if bx_state r \<in> set ACTIVE_STATES \<or> bx_state r \<notin> set TERMINAL_STATES
                       then obind (cancel_one b r) (\<lambda>_. oreturn ())
                       else modify (\<lambda>m. case bx_result r of None \<Rightarrow> m
                              | Some x \<Rightarrow> (case br_lease x of None \<Rightarrow> m | Some l \<Rightarrow> on_leases (reg_invalidate_lease l) m))) (\<lambda>_.
                     modify (with_record b (\<lambda>r. r\<lparr>bx_state := BRANCH_STATE_RELEASED\<rparr>)))) (\<lambda>_.
         obind (modify (compact_released b)) (\<lambda>_. oreturn BRANCH_STATE_RELEASED)) m)"

fun release_loop :: "string list \<Rightarrow> (string, string) dict \<Rightarrow> (branch_manager, (string, string) dict) stateop" where
  "release_loop [] statuses m = (Inr statuses, m)"
| "release_loop (b # bs) statuses m = (case release_one b m of
       (Inl e, m') \<Rightarrow> (Inl e, m')
     | (Inr s, m') \<Rightarrow> release_loop bs (dset b s statuses) m')"

definition release_branches :: "string list \<Rightarrow> (branch_manager, (string, string) dict) stateop" where
  "release_branches bs = release_loop bs []"

definition close_all_branches :: "(branch_manager, unit) stateop" where
  "close_all_branches m = (let ids = dkeys (mg_records m) in
     if ids = [] then (Inr (), m)
     else obind (cancel_branches ids) (\<lambda>_. obind (release_branches ids) (\<lambda>_. oreturn ())) m)"

section \<open>Status\<close>

fun get_branch_status :: "branch_manager \<Rightarrow> string list \<Rightarrow> (string, string) dict \<Rightarrow> (string, string) dict res" where
  "get_branch_status m [] statuses = Inr statuses"
| "get_branch_status m (b # bs) statuses = (case dget (mg_records m) b of
       None \<Rightarrow> unknown_branch b | Some r \<Rightarrow> get_branch_status m bs (dset b (bx_state r) statuses))"

definition get_branch_result :: "branch_manager \<Rightarrow> string \<Rightarrow> branch_result res" where
  "get_branch_result m b = (case dget (mg_records m) b of
       None \<Rightarrow> unknown_branch b
     | Some r \<Rightarrow>
         if bx_state r = BRANCH_STATE_RELEASED
         then Inl (PyExc ''BranchReleasedError'' (''Branch '' @ b @ [CHR 0x27] @ ''s result was released and must not be reused''))
         else (case bx_result r of None \<Rightarrow> runtime_error (''Branch '' @ b @ '' has no result yet (state='' @ repr_str (bx_state r) @ '')'')
             | Some x \<Rightarrow> Inr x))"

section \<open>Polling\<close>

record poll_env =
  pe_sha :: "string \<Rightarrow> string"
  pe_traceback :: string
  pe_ipc :: bool
  pe_clock :: "nat \<Rightarrow> rat"
  pe_timeout :: rat

record poll_locals =
  po_waiting :: "string list"
  po_running :: "(nat, string) dict"
  po_request_workers :: "(nat, nat) dict"
  po_worker_requests :: "(nat, nat) dict"
  po_deadlines :: "(nat, rat) dict"
  po_results :: "(string, branch_result) dict"

definition new_poll_locals :: "string list \<Rightarrow> poll_locals" where
  "new_poll_locals bs = \<lparr> po_waiting = bs, po_running = [], po_request_workers = [], po_worker_requests = [], po_deadlines = [], po_results = [] \<rparr>"

type_synonym poll_state = "branch_manager \<times> poll_locals"

definition free_workers :: "poll_state \<Rightarrow> nat list" where
  "free_workers s = filter (\<lambda>w. \<not> dhas (po_worker_requests (snd s)) w) (dkeys (bp_generations (fst (mg_pool (fst s)))))"

text \<open>The holder of a valid lease for a continuation, when it is not free.\<close>

definition holder_busy :: "poll_env \<Rightarrow> nat list \<Rightarrow> branch_manager \<Rightarrow> work_item \<Rightarrow> bool" where
  "holder_busy env free m w \<longleftrightarrow> wi_kind w = WORK_KIND_CONTINUATION
     \<and> (case reg_get (wi_context_id w) (dc_hypothesis (wi_context w)) (snd (mg_pool m)) of
          None \<Rightarrow> False
        | Some l \<Rightarrow> (case dget (bp_generations (fst (mg_pool m))) (ls_worker l) of
              None \<Rightarrow> False | Some g \<Rightarrow> lease_is_valid_for (pe_sha env) l w (Some g) \<and> ls_worker l \<notin> set free))"

text \<open>Routing and submission of one branch; an exception restores the bootstrap index and the leases.\<close>

definition submit_branch :: "poll_env \<Rightarrow> nat list \<Rightarrow> string \<Rightarrow> work_item \<Rightarrow> (branch_manager, nat \<times> nat \<times> string) stateop" where
  "submit_branch env free b w m =
     (let p = fst (mg_pool m); route = route_work_item (pe_sha env) w free (bp_generations p) (mg_bootstrap m) (snd (mg_pool m)) in
      case (if rt_worker route \<notin> set free
            then runtime_error (''routing selected busy worker '' @ digits (rt_worker route) @ '' for Branch '' @ b)
            else if pe_ipc env then work_item_for_ipc w else Inr w) of
        Inl e \<Rightarrow> (Inl e, m)
      | Inr _ \<Rightarrow> (case submit_request (rt_worker route) (p, rt_registry route) of
            (Inl e, _) \<Rightarrow> (Inl e, m)
          | (Inr rid, pool) \<Rightarrow> (Inr (rt_worker route, rid, rq_mode (rt_request route)), m\<lparr>mg_pool := pool, mg_bootstrap := rt_next route\<rparr>)))"

definition started :: "poll_env \<Rightarrow> string \<Rightarrow> nat \<Rightarrow> nat \<Rightarrow> string \<Rightarrow> poll_state \<Rightarrow> poll_state" where
  "started env b w rid mode s = (case s of (m, l) \<Rightarrow>
     ((with_record b (\<lambda>r. r\<lparr>bx_state := BRANCH_STATE_RUNNING, bx_worker := Some w, bx_generation := dget (bp_generations (fst (mg_pool m))) w,
         bx_request := Some rid, bx_mode := Some mode\<rparr>) m)\<lparr>mg_requests := dset rid b (mg_requests m), mg_reads := mg_reads m + 1\<rparr>,
      l\<lparr>po_running := dset rid b (po_running l), po_request_workers := dset rid w (po_request_workers l),
        po_worker_requests := dset w rid (po_worker_requests l),
        po_deadlines := dset w (pe_clock env (mg_reads m) + pe_timeout env) (po_deadlines l), po_waiting := remove1 b (po_waiting l)\<rparr>))"

text \<open>The first waiting branch that can go to a free worker.\<close>

fun try_dispatch :: "poll_env \<Rightarrow> nat list \<Rightarrow> string list \<Rightarrow> (poll_state, bool) stateop" where
  "try_dispatch env free [] s = (Inr False, s)"
| "try_dispatch env free (b # bs) (m, l) = (case dget (mg_records m) b of
       None \<Rightarrow> (Inl (PyExc ''KeyError'' (repr_str b)), (m, l))
     | Some r \<Rightarrow>
         if bx_state r \<noteq> BRANCH_STATE_QUEUED then try_dispatch env free bs (m, l\<lparr>po_waiting := remove1 b (po_waiting l)\<rparr>)
         else (case bx_item r of
             None \<Rightarrow> (runtime_error (''queued Branch '' @ b @ '' has no WorkItem''), (m, l))
           | Some w \<Rightarrow>
               if holder_busy env free m w then try_dispatch env free bs (m, l)
               else (case submit_branch env free b w m of
                   (Inl e, m') \<Rightarrow> (Inl e, (m', l))
                 | (Inr (worker, rid, mode), m') \<Rightarrow> (Inr True, started env b worker rid mode (m', l)))))"

definition queued_at :: "branch_manager \<Rightarrow> nat" where
  "queued_at m = length (filter (\<lambda>e. bx_state (snd e) = BRANCH_STATE_QUEUED) (mg_records m))"

lemma submit_branch_records:
  "submit_branch env free b w m = (x, m') \<Longrightarrow> mg_records m' = mg_records m \<and> mg_requests m' = mg_requests m \<and> mg_reads m' = mg_reads m
    \<and> mg_max m' = mg_max m \<and> mg_serial m' = mg_serial m"
  by (auto simp: submit_branch_def Let_def split: sum.splits prod.splits)

lemma started_queued:
  assumes "dget (mg_records m) b = Some r" "bx_state r = BRANCH_STATE_QUEUED"
  shows "queued_at (fst (started env b w rid mode (m, l))) < queued_at m"
  using assms filter_dset [OF assms(1), of "\<lambda>r. bx_state r = BRANCH_STATE_QUEUED" "r\<lparr>bx_state := BRANCH_STATE_RUNNING, bx_worker := Some w,
      bx_generation := dget (bp_generations (fst (mg_pool m))) w, bx_request := Some rid, bx_mode := Some mode\<rparr>"]
  by (simp add: started_def queued_at_def with_record_def branch_state_defs)

lemma try_dispatch_shrinks:
  "try_dispatch env free bs s = (Inr True, s') \<Longrightarrow> queued_at (fst s') < queued_at (fst s)"
proof (induction env free bs s rule: try_dispatch.induct)
  case (2 env free b bs m l)
  then obtain r where r: "dget (mg_records m) b = Some r" by (auto split: option.splits)
  show ?case
  proof (cases "bx_state r = BRANCH_STATE_QUEUED")
    case False
    with 2 r show ?thesis by fastforce
  next
    case True
    with "2.prems" r obtain w where w: "bx_item r = Some w" by (auto simp: runtime_error_def split: option.splits)
    show ?thesis
    proof (cases "holder_busy env free m w")
      case True
      with 2 r w \<open>bx_state r = BRANCH_STATE_QUEUED\<close> show ?thesis by simp
    next
      case False
      with "2.prems" r w True obtain wk rid mode m' where "submit_branch env free b w m = (Inr (wk, rid, mode), m')"
        "s' = started env b wk rid mode (m', l)" by (auto split: sum.splits prod.splits)
      with submit_branch_records [of env free b w m] started_queued [of m' b r env wk rid mode l] r True show ?thesis
        by (simp add: queued_at_def)
    qed
  qed
qed simp

function dispatch_available :: "poll_env \<Rightarrow> (poll_state, unit) stateop" where
  "dispatch_available env s =
     (if po_waiting (snd s) = [] \<or> free_workers s = [] then (Inr (), s)
      else (case try_dispatch env (free_workers s) (po_waiting (snd s)) s of
          (Inl e, s') \<Rightarrow> (Inl e, s')
        | (Inr dispatched, s') \<Rightarrow> if dispatched then dispatch_available env s' else (Inr (), s')))"
  by pat_completeness auto

termination dispatch_available
  by (relation "measure (\<lambda>(env, s). queued_at (fst s))") (auto dest: try_dispatch_shrinks [OF sym])

declare dispatch_available.simps [simp del]

text \<open>\<open>_finish\<close>: the result, the state and the leases of a branch whose request was answered.\<close>

definition finish_record :: "string \<Rightarrow> branch_result \<Rightarrow> (branch_manager, unit) stateop" where
  "finish_record b x m = (case dget (mg_records m) b of
       None \<Rightarrow> (Inl (PyExc ''KeyError'' (repr_str b)), m)
     | Some r \<Rightarrow> (case bx_item r of
           None \<Rightarrow> (runtime_error (''active Branch '' @ b @ '' has no WorkItem''), m)
         | Some w \<Rightarrow> (Inr (), on_leases (settle_leases w x) (with_record b (\<lambda>r. r\<lparr>bx_result := Some x,
               bx_state := (if br_status x = BRANCH_STATUS_SUCCESS then BRANCH_STATE_COMPLETED else BRANCH_STATE_FAULTED)\<rparr>) m))))"

text \<open>The entries of a request that is over.\<close>

definition drop_request :: "nat \<Rightarrow> nat \<Rightarrow> poll_state \<Rightarrow> poll_state" where
  "drop_request rid w s = (case s of (m, l) \<Rightarrow>
     (m\<lparr>mg_requests := dpop rid (mg_requests m)\<rparr>,
      l\<lparr>po_running := dpop rid (po_running l), po_request_workers := dpop rid (po_request_workers l),
        po_worker_requests := dpop w (po_worker_requests l), po_deadlines := dpop w (po_deadlines l)\<rparr>))"

definition is_gone :: "branch_record \<Rightarrow> bool" where
  "is_gone r \<longleftrightarrow> bx_state r \<in> {BRANCH_STATE_CANCELLED, BRANCH_STATE_RELEASED}"

definition on_manager :: "(branch_manager, 'a) stateop \<Rightarrow> (poll_state, 'a) stateop" where
  "on_manager f s = (case f (fst s) of (r, m) \<Rightarrow> (r, (m, snd s)))"

definition record_result :: "string \<Rightarrow> branch_result \<Rightarrow> (poll_state, unit) stateop" where
  "record_result b x = obind (on_manager (finish_record b x)) (\<lambda>_.
     modify (\<lambda>s. (fst s, (snd s)\<lparr>po_results := dset b x (po_results (snd s))\<rparr>)))"

definition branch_timeout :: "poll_env \<Rightarrow> string \<Rightarrow> work_item \<Rightarrow> string option \<Rightarrow> nat \<Rightarrow> nat option \<Rightarrow> branch_result res" where
  "branch_timeout env b w mode worker generation = (case mode of
       None \<Rightarrow> value_error ''unknown execution_mode None''
     | Some md \<Rightarrow> fault_result w md (Some worker) generation (PyExc ''TimeoutError'' (''timed out waiting for Branch '' @ b)) (pe_traceback env) ''task_timeout'')"

definition expire_worker :: "poll_env \<Rightarrow> nat \<Rightarrow> (poll_state, unit) stateop" where
  "expire_worker env w s = (case dget (po_worker_requests (snd s)) w of
       None \<Rightarrow> (Inl (PyExc ''KeyError'' (digits w)), s)
     | Some rid \<Rightarrow> (case dget (po_running (snd s)) rid of
           None \<Rightarrow> (Inl (PyExc ''KeyError'' (digits rid)), s)
         | Some b \<Rightarrow> (case dget (mg_records (fst s)) b of
               None \<Rightarrow> (Inl (PyExc ''KeyError'' (repr_str b)), drop_request rid w s)
             | Some r \<Rightarrow>
                 if is_gone r then (Inr (), drop_request rid w s)
                 else (case bx_item r of
                     None \<Rightarrow> (runtime_error (''running Branch '' @ b @ '' has no WorkItem''), drop_request rid w s)
                   | Some item \<Rightarrow>
                       (let stale = dget (bp_generations (fst (mg_pool (fst s)))) w in
                        obind (on_manager (on_branch_pool (respawn_worker w))) (\<lambda>_.
                        obind (olift (branch_timeout env b item (bx_mode r) w stale)) (record_result b)) (drop_request rid w s))))))"

fun expire_workers :: "poll_env \<Rightarrow> nat list \<Rightarrow> (poll_state, unit) stateop" where
  "expire_workers env [] s = (Inr (), s)"
| "expire_workers env (w # ws) s = obind (expire_worker env w) (\<lambda>_. expire_workers env ws) s"

definition expired_workers :: "rat \<Rightarrow> poll_state \<Rightarrow> nat list" where
  "expired_workers now s = map fst (filter (\<lambda>(w, d). d \<le> now) (po_deadlines (snd s)))"

definition read_clock :: "poll_env \<Rightarrow> (poll_state, rat) stateop" where
  "read_clock env s = (Inr (pe_clock env (mg_reads (fst s))), ((fst s)\<lparr>mg_reads := mg_reads (fst s) + 1\<rparr>, snd s))"

definition receive :: "nat \<Rightarrow> branch_result \<Rightarrow> (poll_state, unit) stateop" where
  "receive rid x s = (case dget (po_running (snd s)) rid of
       None \<Rightarrow> (Inr (), s)
     | Some b \<Rightarrow> (case dget (po_request_workers (snd s)) rid of
           None \<Rightarrow> (Inl (PyExc ''KeyError'' (digits rid)), s)
         | Some w \<Rightarrow> (case dget (mg_records (fst s)) b of
               None \<Rightarrow> (Inl (PyExc ''KeyError'' (repr_str b)), drop_request rid w s)
             | Some r \<Rightarrow>
                 if is_gone r then (Inr (), drop_request rid w s)
                 else (case bx_item r of
                     None \<Rightarrow> (runtime_error (''active Branch '' @ b @ '' has no WorkItem''), drop_request rid w s)
                   | Some item \<Rightarrow> obind (olift (restore_result_for_caller_work_item item x)) (record_result b) (drop_request rid w s)))))"

text \<open>One event of the loop, and the dispatch that follows it (none after a stray reply).\<close>

definition handle_event :: "poll_env \<Rightarrow> queue_event \<Rightarrow> (poll_state, unit) stateop" where
  "handle_event env e s = (case e of
       Queue_empty \<Rightarrow> obind (read_clock env) (\<lambda>now s. obind (expire_workers env (expired_workers now s)) (\<lambda>_. dispatch_available env) s) s
     | Reply rid x \<Rightarrow> if dhas (po_running (snd s)) rid then obind (receive rid x) (\<lambda>_. dispatch_available env) s else (Inr (), s))"

text \<open>Before the queue is read: some request is live, and the clock has been read for the wait.\<close>

definition await_ready :: "poll_env \<Rightarrow> (poll_state, unit) stateop" where
  "await_ready env =
     obind (\<lambda>s. if po_running (snd s) = [] then dispatch_available env s else (Inr (), s)) (\<lambda>_ s.
       if po_running (snd s) = [] then (runtime_error ''queued Branches could not be routed to any worker'', s)
       else if po_deadlines (snd s) = [] then (value_error ''min() iterable argument is empty'', s)
       else obind (read_clock env) (\<lambda>_. oreturn ()) s)"

definition poll_done :: "poll_state \<Rightarrow> bool" where
  "poll_done s \<longleftrightarrow> po_waiting (snd s) = [] \<and> po_running (snd s) = []"

text \<open>The loop; \<open>None\<close> while the queue has delivered nothing more.\<close>

fun poll_loop :: "poll_env \<Rightarrow> queue_event list \<Rightarrow> poll_state \<Rightarrow> (string, branch_result) dict res option \<times> poll_state" where
  "poll_loop env [] s =
     (if poll_done s then (Some (Inr (po_results (snd s))), s)
      else (case await_ready env s of (Inl e, s') \<Rightarrow> (Some (Inl e), s') | (Inr _, s') \<Rightarrow> (None, s')))"
| "poll_loop env (e # es) s =
     (if poll_done s then (Some (Inr (po_results (snd s))), s)
      else (case await_ready env s of
          (Inl e, s') \<Rightarrow> (Some (Inl e), s')
        | (Inr _, s') \<Rightarrow> (case handle_event env e s' of
              (Inl e, s'') \<Rightarrow> (Some (Inl e), s'')
            | (Inr _, s'') \<Rightarrow> poll_loop env es s'')))"

definition quarantine_poll_branches :: "string list \<Rightarrow> (branch_manager, unit) stateop" where
  "quarantine_poll_branches bs m =
     (let known = filter (dhas (mg_records m)) bs in
      if known = [] then (Inr (), m)
      else (case cancel_branches known m of (r, m1) \<Rightarrow> (case release_branches known m1 of
          (Inl e, m2) \<Rightarrow> (Inl e, m2)
        | (Inr _, m2) \<Rightarrow> (case r of Inl e \<Rightarrow> (Inl e, m2) | Inr _ \<Rightarrow> (Inr (), m2)))))"

fun select_branches :: "branch_manager \<Rightarrow> string list \<Rightarrow> string list \<Rightarrow> string list res" where
  "select_branches m [] chosen = Inr chosen"
| "select_branches m (b # bs) chosen =
     (if b \<in> set chosen then select_branches m bs chosen
      else (case dget (mg_records m) b of
          None \<Rightarrow> unknown_branch b
        | Some r \<Rightarrow>
            if bx_state r \<noteq> BRANCH_STATE_QUEUED
            then runtime_error (''Branch '' @ b @ '' must be queued when explicitly polled, got state='' @ repr_str (bx_state r))
            else select_branches m bs (chosen @ [b])))"

definition polled_branches :: "branch_manager \<Rightarrow> string list option \<Rightarrow> string list res" where
  "polled_branches m ids = (case ids of
       None \<Rightarrow> Inr (map fst (filter (\<lambda>(b, r). bx_state r = BRANCH_STATE_QUEUED) (mg_records m)))
     | Some bs \<Rightarrow> select_branches m bs [])"

definition poll ::
  "poll_env \<Rightarrow> string list option \<Rightarrow> queue_event list \<Rightarrow> branch_manager \<Rightarrow> (string, branch_result) dict res option \<times> branch_manager" where
  "poll env ids events m =
     (if pe_timeout env \<le> 0 then (Some (value_error ''timeout must be positive''), m)
      else (case polled_branches m ids of
          Inl e \<Rightarrow> (Some (Inl e), m)
        | Inr bs \<Rightarrow>
            (case (case dispatch_available env (m, new_poll_locals bs) of
                (Inl e, s) \<Rightarrow> (Some (Inl e), s)
              | (Inr _, s) \<Rightarrow> poll_loop env events s) of
               (None, s) \<Rightarrow> (None, fst s)
             | (Some (Inr res), s) \<Rightarrow> (Some (Inr res), fst s)
             | (Some (Inl e), s) \<Rightarrow> (case quarantine_poll_branches bs (fst s) of
                   (Inl e', m') \<Rightarrow> (Some (Inl e'), m')
                 | (Inr _, m') \<Rightarrow> (Some (Inl e), m')))))"

section \<open>Cancelling\<close>

definition cancelled_record :: "branch_record \<Rightarrow> branch_record" where
  "cancelled_record r =
     (if is_gone r then r
      else if bx_state r \<in> set ACTIVE_STATES then r\<lparr>bx_state := BRANCH_STATE_CANCELLED\<rparr>
      else r\<lparr>bx_result := None, bx_state := BRANCH_STATE_CANCELLED\<rparr>)"

text \<open>A running branch can be cancelled: its worker is one of the open pool.\<close>

definition stoppable :: "branch_manager \<Rightarrow> branch_record \<Rightarrow> bool" where
  "stoppable m r \<longleftrightarrow> bx_state r = BRANCH_STATE_RUNNING \<longrightarrow>
     pool_ready (mg_pool m) \<and> (\<exists>w \<in> pool_workers (mg_pool m). bx_worker r = Some w)"

text \<open>What cancelling leaves alone: everything but the records, the requests and the leases.\<close>

definition same_frame :: "branch_manager \<Rightarrow> branch_manager \<Rightarrow> bool" where
  "same_frame m m' \<longleftrightarrow> dkeys (mg_records m') = dkeys (mg_records m) \<and> mg_max m' = mg_max m \<and> mg_serial m' = mg_serial m
     \<and> pool_ready (mg_pool m') = pool_ready (mg_pool m) \<and> pool_workers (mg_pool m') = pool_workers (mg_pool m)"

lemma same_frame_refl [simp]: "same_frame m m"
  by (simp add: same_frame_def)

lemma same_frame_trans: "same_frame x y \<Longrightarrow> same_frame y z \<Longrightarrow> same_frame x z"
  by (simp add: same_frame_def)

lemma with_record_frame [simp]: "same_frame m (with_record b f m)"
  by (simp add: same_frame_def) (simp add: with_record_def split: option.split)

lemma on_leases_frame [simp]: "same_frame m (on_leases f m)"
  by (simp add: same_frame_def on_leases_def pool_ready_def)

lemma with_record_other [simp]:
  "mg_requests (with_record b f m) = mg_requests m" "mg_pool (with_record b f m) = mg_pool m" "mg_max (with_record b f m) = mg_max m"
  "mg_serial (with_record b f m) = mg_serial m" "mg_reads (with_record b f m) = mg_reads m"
  by (simp_all add: with_record_def split: option.split)

lemma cancelled_simps [simp]:
  "bx_children (cancelled_record r) = bx_children r" "bx_parent (cancelled_record r) = bx_parent r" "bx_item (cancelled_record r) = bx_item r"
  "cancelled_record (cancelled_record r) = cancelled_record r" "is_gone (cancelled_record r)"
  by (simp_all add: cancelled_record_def is_gone_def)

lemma cancel_one_ok:
  assumes "dget (mg_records m) b = Some r" "stoppable m r"
  obtains m' where "cancel_one b r m = (Inr (bx_state (cancelled_record r)), m')" "same_frame m m'"
    "\<And>c. dget (mg_records m') c = (if c = b then Some (cancelled_record r) else dget (mg_records m) c)"
    "mg_requests m' = (if bx_state r = BRANCH_STATE_RUNNING then (case bx_request r of None \<Rightarrow> mg_requests m | Some i \<Rightarrow> dpop i (mg_requests m))
      else mg_requests m)"
proof -
  consider "is_gone r" | "bx_state r = BRANCH_STATE_QUEUED" | "bx_state r = BRANCH_STATE_RUNNING"
    | "\<not> is_gone r" "bx_state r \<notin> set ACTIVE_STATES" by (auto simp: ACTIVE_STATES_def)
  then show thesis
  proof cases
    case 1
    with assms(1) show thesis
      by (intro that [of m]) (auto simp: cancel_one_def cancelled_record_def is_gone_def branch_state_defs)
  next
    case 2
    with assms(1) show thesis
      by (intro that [of "with_record b (\<lambda>r. r\<lparr>bx_state := BRANCH_STATE_CANCELLED\<rparr>) m"])
        (auto simp: cancel_one_def cancelled_record_def is_gone_def branch_state_defs ACTIVE_STATES_def modify_def obind_def)
  next
    case 3
    with assms(2) obtain w where w: "bx_worker r = Some w" "pool_ready (mg_pool m)" "w \<in> pool_workers (mg_pool m)"
      by (auto simp: stoppable_def)
    from respawn_ok [OF w(2,3)] obtain p where p: "respawn_worker w (mg_pool m) = (Inr (), p)" "pool_ready p" "pool_workers p = pool_workers (mg_pool m)"
      by blast
    let ?n = "with_record b (\<lambda>r. r\<lparr>bx_state := BRANCH_STATE_CANCELLED\<rparr>)
      (case bx_request r of None \<Rightarrow> m\<lparr>mg_pool := p\<rparr> | Some i \<Rightarrow> m\<lparr>mg_pool := p, mg_requests := dpop i (mg_requests m)\<rparr>)"
    have "same_frame m ?n"
      using p w(2) by (intro same_frame_trans [OF _ with_record_frame]) (auto simp: same_frame_def split: option.split)
    with 3 w p assms(1) show thesis
      by (intro that [of ?n])
        (auto simp: cancel_one_def cancelled_record_def is_gone_def branch_state_defs ACTIVE_STATES_def modify_def obind_def on_branch_pool_def
          split: option.split)
  next
    case 4
    let ?n = "with_record b (\<lambda>r. r\<lparr>bx_result := None, bx_state := BRANCH_STATE_CANCELLED\<rparr>)
      (case bx_result r of None \<Rightarrow> m | Some x \<Rightarrow> (case br_lease x of None \<Rightarrow> m | Some l \<Rightarrow> on_leases (reg_invalidate_lease l) m))"
    have "same_frame m ?n" by (intro same_frame_trans [OF _ with_record_frame]) (auto split: option.split)
    with 4 assms(1) show thesis
      by (intro that [of ?n])
        (auto simp: cancel_one_def cancelled_record_def is_gone_def ACTIVE_STATES_def modify_def obind_def split: option.split)
  qed
qed

text \<open>The children of the records, and the branches below a set of branches.\<close>

definition child_of :: "branch_manager \<Rightarrow> (string \<times> string) set" where
  "child_of m = {(b, c). \<exists>r. dget (mg_records m) b = Some r \<and> c \<in> set (bx_children r)}"

definition below :: "branch_manager \<Rightarrow> string set \<Rightarrow> string set" where
  "below m B = (child_of m)\<^sup>* `` B"

text \<open>Every running branch can be stopped and every child is known.\<close>

definition cancellable :: "branch_manager \<Rightarrow> bool" where
  "cancellable m \<longleftrightarrow> (\<forall>b r. dget (mg_records m) b = Some r \<longrightarrow> stoppable m r)
     \<and> (\<forall>b c. (b, c) \<in> child_of m \<longrightarrow> dget (mg_records m) c \<noteq> None)"

definition cancelled_in :: "string set \<Rightarrow> branch_manager \<Rightarrow> branch_manager \<Rightarrow> bool" where
  "cancelled_in V m m' \<longleftrightarrow> (\<forall>c. dget (mg_records m') c = (if c \<in> V then map_option cancelled_record (dget (mg_records m) c) else dget (mg_records m) c))"

lemma cancelled_child_of: "cancelled_in V m m' \<Longrightarrow> child_of m' = child_of m"
  by (fastforce simp: child_of_def cancelled_in_def split: if_splits)

lemma cancelled_not_running: "bx_state (cancelled_record r) \<noteq> BRANCH_STATE_RUNNING"
  by (simp add: cancelled_record_def is_gone_def branch_state_defs)

lemma cancelled_cancellable:
  assumes "cancellable m" "cancelled_in V m m'" "same_frame m m'"
  shows "cancellable m'"
proof -
  have "stoppable m' r" if r: "dget (mg_records m') b = Some r" for b r
  proof (cases "b \<in> V")
    case True
    with r assms(2) obtain x where "r = cancelled_record x" by (auto simp: cancelled_in_def)
    then show ?thesis by (simp add: stoppable_def cancelled_not_running)
  next
    case False
    with r assms(2) have "dget (mg_records m) b = Some r" by (simp add: cancelled_in_def)
    with assms(1,3) show ?thesis by (auto simp: cancellable_def stoppable_def same_frame_def)
  qed
  moreover have "dget (mg_records m') c \<noteq> None" if "(b, c) \<in> child_of m'" for b c
    using that assms(1,2) cancelled_child_of [OF assms(2)] by (auto simp: cancellable_def cancelled_in_def)
  ultimately show ?thesis by (simp add: cancellable_def)
qed

lemma cancelled_in_trans:
  assumes "cancelled_in V m m1" "cancelled_in W m1 m2"
  shows "cancelled_in (V \<union> W) m m2"
  using assms by (auto simp: cancelled_in_def option.map_comp comp_def)

lemma below_simps:
  "below m {} = {}" "below m (insert b B) = below m {b} \<union> below m B" "b \<in> below m {b}"
  "(b, c) \<in> child_of m \<Longrightarrow> below m {c} \<subseteq> below m {b}"
  by (auto simp: below_def intro: converse_rtrancl_into_rtrancl)

lemma below_union: "below m (A \<union> B) = below m A \<union> below m B"
  by (auto simp: below_def)

lemma below_children: "dget (mg_records m) b = Some r \<Longrightarrow> below m (set (bx_children r)) \<subseteq> below m {b}"
  by (auto simp: below_def child_of_def intro: converse_rtrancl_into_rtrancl)

text \<open>The outcome of a traversal that starts with some branches visited.\<close>

definition traversed :: "string list \<Rightarrow> (string, string) dict \<Rightarrow> branch_manager \<Rightarrow> (string, string) dict \<Rightarrow> branch_manager \<Rightarrow> bool" where
  "traversed stack visited m v m' \<longleftrightarrow> same_frame m m'
     \<and> cancelled_in (set (dkeys v) - set (dkeys visited)) m m'
     \<and> set (dkeys visited) \<union> set stack \<subseteq> set (dkeys v) \<and> child_of m `` set (dkeys v) \<subseteq> set (dkeys v)
     \<and> set (dkeys v) \<subseteq> set (dkeys visited) \<union> below m (set stack)
     \<and> (\<forall>c \<in> set (dkeys visited). dget v c = dget visited c)
     \<and> (\<forall>c \<in> set (dkeys v) - set (dkeys visited). dget v c = map_option bx_state (dget (mg_records m') c))"

lemma traversed_step:
  assumes t: "traversed (rev (bx_children r) @ bs) (dset b (bx_state (cancelled_record r)) visited) m1 v m'"
    and m1: "same_frame m m1" "cancelled_in {b} m m1" and r: "dget (mg_records m) b = Some r" and b: "b \<notin> set (dkeys visited)"
  shows "traversed (b # bs) visited m v m'"
proof -
  let ?s = "bx_state (cancelled_record r)"
  note c = cancelled_child_of [OF m1(2)]
  have below: "below m1 X = below m X" for X by (simp add: below_def c)
  from t have bv: "b \<in> set (dkeys v)" "dget v b = Some ?s" by (simp_all add: traversed_def)
  have "dget (mg_records m1) b = Some (cancelled_record r)" using m1(2) r by (simp add: cancelled_in_def)
  moreover have "dget (mg_records m') b = dget (mg_records m1) b" using t by (simp add: traversed_def cancelled_in_def)
  ultimately have at_b: "map_option bx_state (dget (mg_records m') b) = Some ?s" by simp
  have "cancelled_in ({b} \<union> (set (dkeys v) - insert b (set (dkeys visited)))) m m'"
    using t by (intro cancelled_in_trans [OF m1(2)]) (simp add: traversed_def)
  moreover have "{b} \<union> (set (dkeys v) - insert b (set (dkeys visited))) = set (dkeys v) - set (dkeys visited)" using bv b by auto
  ultimately have ci: "cancelled_in (set (dkeys v) - set (dkeys visited)) m m'" by simp
  have sub: "set (dkeys v) \<subseteq> set (dkeys visited) \<union> below m (set (b # bs))"
  proof -
    have v: "set (dkeys v) \<subseteq> set (dkeys (dset b ?s visited)) \<union> below m1 (set (rev (bx_children r) @ bs))"
      using t unfolding traversed_def by (elim conjE)
    have keys: "set (dkeys (dset b ?s visited)) = insert b (set (dkeys visited))" by (rule set_dkeys_dset)
    have kids: "below m1 (set (rev (bx_children r) @ bs)) = below m (set (bx_children r)) \<union> below m (set bs)"
      by (simp add: below below_union)
    have all: "below m (set (b # bs)) = below m {b} \<union> below m (set bs)" by (simp only: list.simps(15) below_simps(2) [of m b "set bs"])
    from below_children [OF r] below_simps(3) [of b m] v show ?thesis unfolding keys kids all by blast
  qed
  show ?thesis
    unfolding traversed_def
  proof (intro conjI)
    show "same_frame m m'" using t m1(1) by (auto simp: traversed_def intro: same_frame_trans)
    show "set (dkeys visited) \<union> set (b # bs) \<subseteq> set (dkeys v)" using t by (simp add: traversed_def)
    show "child_of m `` set (dkeys v) \<subseteq> set (dkeys v)" using t c by (simp add: traversed_def)
    show "\<forall>x \<in> set (dkeys visited). dget v x = dget visited x"
    proof
      fix x
      assume x: "x \<in> set (dkeys visited)"
      have "\<forall>x \<in> set (dkeys (dset b ?s visited)). dget v x = dget (dset b ?s visited) x" using t unfolding traversed_def by (elim conjE)
      moreover have "x \<in> set (dkeys (dset b ?s visited))" unfolding set_dkeys_dset using x by (rule insertI2)
      moreover have "x \<noteq> b" using x b by metis
      ultimately show "dget v x = dget visited x" by (metis dget_dset)
    qed
    show "\<forall>x \<in> set (dkeys v) - set (dkeys visited). dget v x = map_option bx_state (dget (mg_records m') x)"
      using t bv(2) at_b by (auto simp: traversed_def)
  qed (use ci sub in simp_all)
qed

lemma cancel_loop_ok:
  assumes "cancellable m" "set stack \<subseteq> set (dkeys (mg_records m))"
    "child_of m `` set (dkeys visited) \<subseteq> set (dkeys visited) \<union> set stack"
  shows "\<exists>v m'. cancel_loop stack visited m = (Inr v, m') \<and> traversed stack visited m v m'"
  using assms
proof (induction stack visited m rule: cancel_loop.induct)
  case (1 stack visited m)
  show ?case
  proof (cases stack)
    case Nil
    with "1.prems" show ?thesis
      by (simp add: cancel_loop.simps traversed_def cancelled_in_def)
  next
    case (Cons b bs)
    show ?thesis
    proof (cases "dhas visited b")
      case True
      then have b: "b \<in> set (dkeys visited)" using known_key by (force simp only: dhas_def)
      with "1.prems" Cons have p: "cancellable m" "set bs \<subseteq> set (dkeys (mg_records m))"
        "child_of m `` set (dkeys visited) \<subseteq> set (dkeys visited) \<union> set bs" by auto
      from "1.IH"(1) [OF Cons True p] obtain v m' where v: "cancel_loop bs visited m = (Inr v, m')" "traversed bs visited m v m'" by blast
      have "traversed stack visited m v m'"
        using v(2) b Cons below_simps(2) [of m b "set bs"] by (auto simp: traversed_def)
      with v(1) True Cons show ?thesis by (subst cancel_loop.simps) simp
    next
      case False
      then have b: "b \<notin> set (dkeys visited)" by (simp add: dhas_def dget_None_iff)
      from "1.prems"(2) Cons obtain r where r: "dget (mg_records m) b = Some r"
        by (metis dget_iff_dkeys insert_subset list.simps(15) option.exhaust)
      with "1.prems"(1) have "stoppable m r" by (simp add: cancellable_def)
      from cancel_one_ok [OF r this] obtain m1 where m1: "cancel_one b r m = (Inr (bx_state (cancelled_record r)), m1)" "same_frame m m1"
        "\<And>c. dget (mg_records m1) c = (if c = b then Some (cancelled_record r) else dget (mg_records m) c)" by metis
      have ci: "cancelled_in {b} m m1" using m1(3) r by (simp add: cancelled_in_def)
      have keys: "set (dkeys (mg_records m1)) = set (dkeys (mg_records m))" using m1(2) by (simp add: same_frame_def)
      have kids: "set (bx_children r) \<subseteq> set (dkeys (mg_records m))" "child_of m `` {b} = set (bx_children r)"
        using "1.prems"(1) r by (auto simp: cancellable_def child_of_def) (metis known_key image_set)
      have "child_of m1 `` set (dkeys (dset b (bx_state (cancelled_record r)) visited))
          \<subseteq> set (dkeys (dset b (bx_state (cancelled_record r)) visited)) \<union> set (rev (bx_children r) @ bs)"
        using "1.prems"(3) kids(2) Cons cancelled_child_of [OF ci] by auto
      moreover have "set (rev (bx_children r) @ bs) \<subseteq> set (dkeys (mg_records m1))" using "1.prems"(2) kids(1) keys Cons by simp
      ultimately obtain v m' where v: "cancel_loop (rev (bx_children r) @ bs) (dset b (bx_state (cancelled_record r)) visited) m1 = (Inr v, m')"
          "traversed (rev (bx_children r) @ bs) (dset b (bx_state (cancelled_record r)) visited) m1 v m'"
        using "1.IH"(2) [OF Cons False r m1(1) [symmetric] refl] cancelled_cancellable [OF "1.prems"(1) ci m1(2)] by blast
      from traversed_step [OF v(2) m1(2) ci r b] v(1) m1(1) r False Cons show ?thesis by (subst cancel_loop.simps) simp
    qed
  qed
qed

lemma cancel_branches_ok:
  assumes "cancellable m" "set bs \<subseteq> set (dkeys (mg_records m))"
  obtains v m' where "cancel_branches bs m = (Inr v, m')" "set (dkeys v) = below m (set bs)" "same_frame m m'"
    "cancelled_in (below m (set bs)) m m'" "\<And>b. b \<in> below m (set bs) \<Longrightarrow> dget v b = map_option bx_state (dget (mg_records m') b)"
proof -
  from cancel_loop_ok [OF assms(1), of "rev bs" "[]"] assms(2) obtain v m' where
      v: "cancel_branches bs m = (Inr v, m')" "traversed (rev bs) [] m v m'" by (auto simp: cancel_branches_def)
  then have closed: "child_of m `` set (dkeys v) \<subseteq> set (dkeys v)" "set bs \<subseteq> set (dkeys v)" "set (dkeys v) \<subseteq> below m (set bs)"
    by (simp_all add: traversed_def)
  have "y \<in> set (dkeys v)" if "(x, y) \<in> (child_of m)\<^sup>*" "x \<in> set (dkeys v)" for x y
    using that by (induction rule: rtrancl_induct) (use closed(1) in blast)+
  with closed(2,3) have "set (dkeys v) = below m (set bs)" unfolding below_def by blast
  then show thesis using v by (intro that [of v m']) (simp_all only: traversed_def, simp_all)
qed

section \<open>The state of a poll\<close>

definition final_branch_state :: "branch_result \<Rightarrow> string" where
  "final_branch_state x = (if br_status x = BRANCH_STATUS_SUCCESS then BRANCH_STATE_COMPLETED else BRANCH_STATE_FAULTED)"

definition same_links :: "branch_record \<Rightarrow> branch_record \<Rightarrow> bool" where
  "same_links r r0 \<longleftrightarrow> bx_item r = bx_item r0 \<and> bx_parent r = bx_parent r0 \<and> bx_children r = bx_children r0"

definition resolved_by :: "branch_result \<Rightarrow> branch_record \<Rightarrow> bool" where
  "resolved_by x r \<longleftrightarrow> bx_result r = Some x \<and> bx_state r = final_branch_state x"

definition running_as :: "nat \<Rightarrow> nat \<Rightarrow> branch_record \<Rightarrow> bool" where
  "running_as rid w r \<longleftrightarrow> bx_state r = BRANCH_STATE_RUNNING \<and> bx_request r = Some rid \<and> bx_worker r = Some w \<and> bx_result r = None
     \<and> bx_mode r \<in> {Some EXECUTION_MODE_BOOTSTRAP_STEP, Some EXECUTION_MODE_HOLDER_STEP}"

text \<open>
  A polled branch waits, runs as a live request, or is resolved; its item and its links are those it
  had when the poll began.
\<close>

definition phase :: "poll_locals \<Rightarrow> string \<Rightarrow> branch_record \<Rightarrow> bool" where
  "phase l b r \<longleftrightarrow>
     b \<in> set (po_waiting l) \<and> bx_state r = BRANCH_STATE_QUEUED \<and> bx_result r = None \<and> dget (po_results l) b = None
   \<or> b \<notin> set (po_waiting l) \<and> dget (po_results l) b = None
       \<and> (\<exists>rid w. running_as rid w r \<and> dget (po_running l) rid = Some b \<and> dget (po_request_workers l) rid = Some w)
   \<or> b \<notin> set (po_waiting l) \<and> (\<exists>x. dget (po_results l) b = Some x \<and> resolved_by x r)"

definition records_inv :: "branch_manager \<Rightarrow> string list \<Rightarrow> poll_state \<Rightarrow> bool" where
  "records_inv m0 bs s \<longleftrightarrow>
     dkeys (mg_records (fst s)) = dkeys (mg_records m0) \<and> mg_max (fst s) = mg_max m0 \<and> mg_serial (fst s) = mg_serial m0
     \<and> pool_workers (mg_pool (fst s)) = pool_workers (mg_pool m0) \<and> mg_requests (fst s) = po_running (snd s)
     \<and> distinct (po_waiting (snd s)) \<and> set (po_waiting (snd s)) \<subseteq> set bs \<and> set (dkeys (po_results (snd s))) \<subseteq> set bs
     \<and> (\<forall>b. b \<notin> set bs \<longrightarrow> dget (mg_records (fst s)) b = dget (mg_records m0) b)
     \<and> (\<forall>b \<in> set bs. \<exists>r r0. dget (mg_records (fst s)) b = Some r \<and> dget (mg_records m0) b = Some r0 \<and> same_links r r0
          \<and> bx_item r0 \<noteq> None \<and> phase (snd s) b r)"

text \<open>The tables of the live requests agree, and each live request belongs to a branch of the poll that runs as it.\<close>

definition tables_inv :: "string list \<Rightarrow> poll_state \<Rightarrow> bool" where
  "tables_inv bs s \<longleftrightarrow>
     (\<forall>rid b. dget (po_running (snd s)) rid = Some b \<longrightarrow> b \<in> set bs \<and> rid \<le> bp_next_request (fst (mg_pool (fst s)))
        \<and> (\<exists>r w. dget (mg_records (fst s)) b = Some r \<and> running_as rid w r \<and> dget (po_request_workers (snd s)) rid = Some w
             \<and> dget (po_worker_requests (snd s)) w = Some rid))
     \<and> (\<forall>w rid. dget (po_worker_requests (snd s)) w = Some rid \<longrightarrow> w \<in> pool_workers (mg_pool (fst s))
          \<and> dget (po_request_workers (snd s)) rid = Some w \<and> dget (po_running (snd s)) rid \<noteq> None \<and> dget (po_deadlines (snd s)) w \<noteq> None)
     \<and> (\<forall>w. dget (po_deadlines (snd s)) w \<noteq> None \<longrightarrow> dget (po_worker_requests (snd s)) w \<noteq> None)
     \<and> distinct (dkeys (po_deadlines (snd s)))
     \<and> (po_running (snd s) \<noteq> [] \<longrightarrow> pool_ready (mg_pool (fst s)))"

abbreviation poll_inv :: "branch_manager \<Rightarrow> string list \<Rightarrow> poll_state \<Rightarrow> bool" where
  "poll_inv m0 bs s \<equiv> records_inv m0 bs s \<and> tables_inv bs s"

lemma poll_inv_reads [simp]:
  "records_inv m0 bs (m\<lparr>mg_reads := n\<rparr>, l) = records_inv m0 bs (m, l)" "tables_inv bs (m\<lparr>mg_reads := n\<rparr>, l) = tables_inv bs (m, l)"
  by (simp_all add: records_inv_def tables_inv_def)

text \<open>A branch starts on a free worker under a fresh request id.\<close>

lemma started_records:
  assumes "records_inv m0 bs (m, l)" "b \<in> set (po_waiting l)" "\<forall>i c. dget (po_running l) i = Some c \<longrightarrow> i \<noteq> rid"
    "mode \<in> {EXECUTION_MODE_BOOTSTRAP_STEP, EXECUTION_MODE_HOLDER_STEP}"
  shows "records_inv m0 bs (started env b w rid mode (m, l))"
proof -
  let ?s = "started env b w rid mode (m, l)"
  from assms(1,2) have b: "b \<in> set bs" "distinct (po_waiting l)" by (auto simp: records_inv_def)
  have "\<exists>r r0. dget (mg_records (fst ?s)) c = Some r \<and> dget (mg_records m0) c = Some r0 \<and> same_links r r0
      \<and> bx_item r0 \<noteq> None \<and> phase (snd ?s) c r" if c: "c \<in> set bs" for c
  proof -
    from assms(1) c obtain r r0 where r: "dget (mg_records m) c = Some r" "dget (mg_records m0) c = Some r0" "same_links r r0"
      "bx_item r0 \<noteq> None" "phase l c r" by (auto simp: records_inv_def)
    show ?thesis
    proof (cases "c = b")
      case True
      with r assms(2,4) b(2) show ?thesis
        by (auto simp: started_def phase_def running_as_def same_links_def)
    next
      case False
      with r assms(3) b(2) show ?thesis by (auto simp: started_def phase_def)
    qed
  qed
  then show ?thesis
    unfolding records_inv_def
  proof (intro conjI)
    show "pool_workers (mg_pool (fst ?s)) = pool_workers (mg_pool m0)" using assms(1) unfolding records_inv_def by (simp add: started_def)
  qed (use assms(1) b in \<open>auto simp: records_inv_def started_def dest: in_set_remove1\<close>)
qed

lemma polled_record:
  assumes "records_inv m0 bs (m, l)" "b \<in> set bs"
  obtains r r0 where "dget (mg_records m) b = Some r" "dget (mg_records m0) b = Some r0" "same_links r r0" "bx_item r0 \<noteq> None" "phase l b r"
  using assms unfolding records_inv_def by (auto simp del: not_None_eq)

lemma waiting_record:
  assumes "records_inv m0 bs (m, l)" "b \<in> set (po_waiting l)"
  obtains r w where "b \<in> set bs" "dget (mg_records m) b = Some r" "bx_state r = BRANCH_STATE_QUEUED" "bx_result r = None" "bx_item r = Some w"
proof -
  from assms have b: "b \<in> set bs" by (auto simp: records_inv_def)
  from polled_record [OF assms(1) b] obtain r r0 where r: "dget (mg_records m) b = Some r" "same_links r r0" "bx_item r0 \<noteq> None" "phase l b r" by metis
  with assms(2) b show thesis by (intro that [of r "the (bx_item r)"]) (auto simp: phase_def same_links_def)
qed

lemma live_request:
  assumes "tables_inv bs (m, l)" "dget (po_running l) rid = Some b"
  obtains r w where "b \<in> set bs" "rid \<le> bp_next_request (fst (mg_pool m))" "dget (mg_records m) b = Some r" "running_as rid w r"
    "dget (po_request_workers l) rid = Some w" "dget (po_worker_requests l) w = Some rid"
proof -
  from assms(1) have "\<forall>rid b. dget (po_running l) rid = Some b \<longrightarrow> b \<in> set bs \<and> rid \<le> bp_next_request (fst (mg_pool m))
      \<and> (\<exists>r w. dget (mg_records m) b = Some r \<and> running_as rid w r \<and> dget (po_request_workers l) rid = Some w
           \<and> dget (po_worker_requests l) w = Some rid)"
    unfolding tables_inv_def fst_conv snd_conv by (elim conjE)
  with assms(2) that show thesis by blast
qed

lemma held_worker:
  assumes "tables_inv bs (m, l)" "dget (po_worker_requests l) w = Some rid"
  obtains b d where "w \<in> pool_workers (mg_pool m)" "dget (po_request_workers l) rid = Some w" "dget (po_running l) rid = Some b"
    "dget (po_deadlines l) w = Some d"
proof -
  from assms(1) have "\<forall>w rid. dget (po_worker_requests l) w = Some rid \<longrightarrow> w \<in> pool_workers (mg_pool m)
      \<and> dget (po_request_workers l) rid = Some w \<and> dget (po_running l) rid \<noteq> None \<and> dget (po_deadlines l) w \<noteq> None"
    unfolding tables_inv_def fst_conv snd_conv by (elim conjE)
  with assms(2) that show thesis by blast
qed

lemma started_tables:
  assumes "records_inv m0 bs (m, l)" "tables_inv bs (m, l)" "b \<in> set (po_waiting l)" "w \<in> pool_workers (mg_pool m)"
    "dget (po_worker_requests l) w = None" "pool_ready (mg_pool m)" "rid \<le> bp_next_request (fst (mg_pool m))"
    "\<forall>i c. dget (po_running l) i = Some c \<longrightarrow> i \<noteq> rid" "mode \<in> {EXECUTION_MODE_BOOTSTRAP_STEP, EXECUTION_MODE_HOLDER_STEP}"
  shows "tables_inv bs (started env b w rid mode (m, l))"
proof -
  obtain r where b: "b \<in> set bs" and r: "dget (mg_records m) b = Some r" "bx_state r = BRANCH_STATE_QUEUED" "bx_result r = None"
    by (rule waiting_record [OF assms(1,3)])
  have other: "c \<noteq> b" if "dget (po_running l) i = Some c" for i c
    by (rule live_request [OF assms(2) that]) (use r in \<open>auto simp: running_as_def branch_state_defs\<close>)
  show ?thesis
    unfolding tables_inv_def
  proof (intro conjI allI impI)
    fix i c
    assume i: "dget (po_running (snd (started env b w rid mode (m, l)))) i = Some c"
    show "c \<in> set bs" "i \<le> bp_next_request (fst (mg_pool (fst (started env b w rid mode (m, l)))))"
      using i assms(2,7) b by (auto simp: started_def tables_inv_def split: if_splits)
    show "\<exists>r w'. dget (mg_records (fst (started env b w rid mode (m, l)))) c = Some r \<and> running_as i w' r
        \<and> dget (po_request_workers (snd (started env b w rid mode (m, l)))) i = Some w'
        \<and> dget (po_worker_requests (snd (started env b w rid mode (m, l)))) w' = Some i"
    proof (cases "i = rid")
      case True
      with i r assms(9) show ?thesis by (auto simp: started_def running_as_def)
    next
      case False
      with i have i': "dget (po_running l) i = Some c" by (simp add: started_def)
      obtain x v where x: "dget (mg_records m) c = Some x" "running_as i v x" "dget (po_request_workers l) i = Some v"
        "dget (po_worker_requests l) v = Some i" by (rule live_request [OF assms(2) i'])
      moreover have "v \<noteq> w" using x(4) assms(5) by auto
      ultimately show ?thesis using False other [OF i'] by (auto simp: started_def)
    qed
  next
    fix v i
    assume v: "dget (po_worker_requests (snd (started env b w rid mode (m, l)))) v = Some i"
    have "v \<in> pool_workers (mg_pool m) \<and> dget (po_request_workers (snd (started env b w rid mode (m, l)))) i = Some v
        \<and> dget (po_running (snd (started env b w rid mode (m, l)))) i \<noteq> None \<and> dget (po_deadlines (snd (started env b w rid mode (m, l)))) v \<noteq> None"
    proof (cases "v = w")
      case True
      with v assms(4) show ?thesis by (simp add: started_def)
    next
      case False
      with v have v': "dget (po_worker_requests l) v = Some i" by (simp add: started_def)
      obtain c d where h: "v \<in> pool_workers (mg_pool m)" "dget (po_request_workers l) i = Some v" "dget (po_running l) i = Some c"
        "dget (po_deadlines l) v = Some d" by (rule held_worker [OF assms(2) v'])
      with assms(8) have "i \<noteq> rid" by blast
      with h False show ?thesis by (simp add: started_def)
    qed
    then show "v \<in> pool_workers (mg_pool (fst (started env b w rid mode (m, l))))"
      "dget (po_request_workers (snd (started env b w rid mode (m, l)))) i = Some v"
      "dget (po_running (snd (started env b w rid mode (m, l)))) i \<noteq> None"
      "dget (po_deadlines (snd (started env b w rid mode (m, l)))) v \<noteq> None"
      by (simp_all add: started_def)
  qed (use assms(2,6) in \<open>auto simp: started_def tables_inv_def split: if_splits\<close>)
qed

lemma poll_inv_pool:
  assumes "poll_inv m0 bs (m, l)" "mg_records m' = mg_records m" "mg_requests m' = mg_requests m" "mg_max m' = mg_max m" "mg_serial m' = mg_serial m"
    "pool_workers (mg_pool m') = pool_workers (mg_pool m)" "pool_ready (mg_pool m) \<longrightarrow> pool_ready (mg_pool m')"
    "bp_next_request (fst (mg_pool m)) \<le> bp_next_request (fst (mg_pool m'))"
  shows "poll_inv m0 bs (m', l)"
  using assms by (fastforce simp: records_inv_def tables_inv_def)

lemma submit_branch_Inr:
  assumes "submit_branch env free b w m = (Inr (wk, rid, mode), m')"
  shows "wk \<in> set free" "rid = bp_next_request (fst (mg_pool m)) + 1" "bp_next_request (fst (mg_pool m')) = rid"
    "pool_workers (mg_pool m') = pool_workers (mg_pool m)" "pool_ready (mg_pool m')" "wk \<in> pool_workers (mg_pool m)"
    "mode \<in> {EXECUTION_MODE_BOOTSTRAP_STEP, EXECUTION_MODE_HOLDER_STEP}"
proof -
  let ?route = "route_work_item (pe_sha env) w free (bp_generations (fst (mg_pool m))) (mg_bootstrap m) (snd (mg_pool m))"
  from assms have r: "submit_request (rt_worker ?route) (fst (mg_pool m), rt_registry ?route) = (Inr rid, mg_pool m')"
      "wk = rt_worker ?route" "mode = rq_mode (rt_request ?route)" "rt_worker ?route \<in> set free"
    by (auto simp: submit_branch_def Let_def runtime_error_def split: sum.splits prod.splits if_splits)
  from submit_request_Inr [OF r(1)] r(2-4) route_mode
  show "wk \<in> set free" "rid = bp_next_request (fst (mg_pool m)) + 1" "bp_next_request (fst (mg_pool m')) = rid"
    "pool_workers (mg_pool m') = pool_workers (mg_pool m)" "pool_ready (mg_pool m')" "wk \<in> pool_workers (mg_pool m)"
    "mode \<in> {EXECUTION_MODE_BOOTSTRAP_STEP, EXECUTION_MODE_HOLDER_STEP}" by auto
qed

lemma submit_branch_Inl: "submit_branch env free b w m = (Inl e, m') \<Longrightarrow> m' = m"
  by (auto simp: submit_branch_def Let_def split: sum.splits prod.splits if_splits)

lemma submitted_started:
  assumes "poll_inv m0 bs (m, l)" "b \<in> set (po_waiting l)" "submit_branch env free b w m = (Inr (wk, rid, mode), m')"
    "dget (po_worker_requests l) wk = None"
  shows "poll_inv m0 bs (started env b wk rid mode (m', l))"
proof -
  note f = submit_branch_Inr [OF assms(3)] and g = submit_branch_records [OF assms(3)]
  have inv: "poll_inv m0 bs (m', l)"
    using f(2-5) g by (intro poll_inv_pool [OF assms(1)]) auto
  have fresh: "\<forall>i c. dget (po_running l) i = Some c \<longrightarrow> i \<noteq> rid"
  proof (intro allI impI)
    fix i c
    assume i: "dget (po_running l) i = Some c"
    show "i \<noteq> rid" by (rule live_request [OF conjunct2 [OF assms(1)] i]) (use f(2) in simp)
  qed
  show ?thesis
    using inv assms(2,4) f fresh by (intro conjI started_records started_tables) auto
qed

lemma try_dispatch_inv:
  assumes "try_dispatch env free cs s = (x, s')" "poll_inv m0 bs s" "set cs \<subseteq> set (po_waiting (snd s))"
    "\<forall>w \<in> set free. dget (po_worker_requests (snd s)) w = None"
  shows "poll_inv m0 bs s'"
  using assms
proof (induction env free cs s arbitrary: x s' rule: try_dispatch.induct)
  case (2 env free b cs m l)
  from "2.prems"(3) have b: "b \<in> set (po_waiting l)" by simp
  obtain r w where r: "dget (mg_records m) b = Some r" "bx_state r = BRANCH_STATE_QUEUED" and w: "bx_item r = Some w"
    by (rule waiting_record [OF conjunct1 [OF "2.prems"(2)] b])
  show ?case
  proof (cases "holder_busy env free m w")
    case True
    with 2 r w show ?thesis by simp
  next
    case False
    show ?thesis
    proof (cases "submit_branch env free b w m")
      case (Pair y m')
      show ?thesis
      proof (cases y)
        case (Inl e)
        with Pair "2.prems"(1,2) r w False submit_branch_Inl [of env free b w m e m'] show ?thesis by auto
      next
        case (Inr t)
        obtain wk rid mode where t: "t = (wk, rid, mode)" by (cases t)
        with Inr Pair have sub: "submit_branch env free b w m = (Inr (wk, rid, mode), m')" by simp
        have "dget (po_worker_requests l) wk = None" using "2.prems"(4) submit_branch_Inr(1) [OF sub] by simp
        from submitted_started [OF "2.prems"(2) b sub this] "2.prems"(1) r w False sub show ?thesis by simp
      qed
    qed
  qed
qed simp

lemma free_workers_free: "w \<in> set (free_workers s) \<Longrightarrow> dget (po_worker_requests (snd s)) w = None"
  by (simp add: free_workers_def dhas_def)

lemma dispatch_available_inv:
  assumes "dispatch_available env s = (x, s')" "poll_inv m0 bs s"
  shows "poll_inv m0 bs s'"
  using assms
proof (induction env s arbitrary: x s' rule: dispatch_available.induct)
  case (1 env s)
  show ?case
  proof (cases "po_waiting (snd s) = [] \<or> free_workers s = []")
    case True
    with "1.prems" show ?thesis by (subst (asm) dispatch_available.simps) auto
  next
    case False
    obtain y s1 where t: "try_dispatch env (free_workers s) (po_waiting (snd s)) s = (y, s1)" by (cases "try_dispatch env (free_workers s) (po_waiting (snd s)) s")
    have inv: "poll_inv m0 bs s1"
      by (rule try_dispatch_inv [OF t "1.prems"(2)]) (auto intro: free_workers_free)
    show ?thesis
    proof (cases "y = Inr True")
      case True
      with False t "1.prems"(1) have "dispatch_available env s1 = (x, s')" by (subst (asm) dispatch_available.simps) simp
      from "1.IH" [OF False t [symmetric] _ _ this inv] True show ?thesis by simp
    next
      case no: False
      then have "s' = s1" using False t "1.prems"(1) by (subst (asm) dispatch_available.simps) (auto split: sum.splits)
      with inv show ?thesis by simp
    qed
  qed
qed

text \<open>A live request is over and its branch is resolved.\<close>

definition resolve_record :: "branch_result \<Rightarrow> branch_record \<Rightarrow> branch_record" where
  "resolve_record x r = r\<lparr>bx_result := Some x, bx_state := final_branch_state x\<rparr>"

lemma finish_record_eq:
  "dget (mg_records m) b = Some r \<Longrightarrow> bx_item r = Some w \<Longrightarrow>
    finish_record b x m = (Inr (), on_leases (settle_leases w x) (with_record b (resolve_record x) m))"
  by (simp add: finish_record_def resolve_record_def [abs_def] final_branch_state_def)

definition resolved_locals :: "nat \<Rightarrow> nat \<Rightarrow> string \<Rightarrow> branch_result \<Rightarrow> poll_locals \<Rightarrow> poll_locals" where
  "resolved_locals rid w b x l = l\<lparr>po_running := dpop rid (po_running l), po_request_workers := dpop rid (po_request_workers l),
     po_worker_requests := dpop w (po_worker_requests l), po_deadlines := dpop w (po_deadlines l), po_results := dset b x (po_results l)\<rparr>"

lemma phase_other:
  assumes "phase l c r" "c \<noteq> b" "dget (po_running l) rid = Some b"
  shows "phase (resolved_locals rid w b x l) c r"
proof -
  have i: "i \<noteq> rid" if "dget (po_running l) i = Some c" for i using that assms(2,3) by auto
  from assms(1) consider "c \<in> set (po_waiting l)" "bx_state r = BRANCH_STATE_QUEUED" "bx_result r = None" "dget (po_results l) c = None"
    | i v where "c \<notin> set (po_waiting l)" "dget (po_results l) c = None" "running_as i v r" "dget (po_running l) i = Some c"
        "dget (po_request_workers l) i = Some v"
    | y where "c \<notin> set (po_waiting l)" "dget (po_results l) c = Some y" "resolved_by y r"
    unfolding phase_def by (elim disjE conjE exE) simp_all
  then show ?thesis
  proof cases
    case 2
    then have "\<exists>i v. running_as i v r \<and> dget (po_running (resolved_locals rid w b x l)) i = Some c
        \<and> dget (po_request_workers (resolved_locals rid w b x l)) i = Some v"
      using i by (intro exI [of _ i] exI [of _ v]) (simp add: resolved_locals_def)
    with 2 assms(2) show ?thesis unfolding phase_def by (intro disjI2 disjI1) (simp add: resolved_locals_def)
  qed (use assms(2) in \<open>auto simp: phase_def resolved_locals_def\<close>)
qed

lemma resolved_records:
  assumes inv: "records_inv m0 bs (m, l)" "tables_inv bs (m, l)" and live: "dget (po_running l) rid = Some b"
    and m': "mg_records m' = mg_records (with_record b (resolve_record x) m)" "mg_requests m' = dpop rid (mg_requests m)"
      "mg_max m' = mg_max m" "mg_serial m' = mg_serial m" "pool_workers (mg_pool m') = pool_workers (mg_pool m)"
  shows "records_inv m0 bs (m', resolved_locals rid w b x l)"
proof -
  obtain r v where b: "b \<in> set bs" and r: "dget (mg_records m) b = Some r" "running_as rid v r"
    by (rule live_request [OF inv(2) live])
  let ?l = "resolved_locals rid w b x l"
  have "\<exists>r r0. dget (mg_records m') c = Some r \<and> dget (mg_records m0) c = Some r0 \<and> same_links r r0 \<and> bx_item r0 \<noteq> None \<and> phase ?l c r"
    if c: "c \<in> set bs" for c
  proof -
    obtain y y0 where y: "dget (mg_records m) c = Some y" "dget (mg_records m0) c = Some y0" "same_links y y0" "bx_item y0 \<noteq> None" "phase l c y"
      by (rule polled_record [OF inv(1) c])
    show ?thesis
    proof (cases "c = b")
      case True
      have "b \<notin> set (po_waiting l)" using y(1,5) r True by (auto simp: phase_def running_as_def branch_state_defs)
      with True y m'(1) show ?thesis by (auto simp: phase_def resolved_locals_def resolve_record_def resolved_by_def same_links_def)
    next
      case False
      from phase_other [OF y(5) False live] have "phase ?l c y" .
      with False y m'(1) show ?thesis by auto
    qed
  qed
  then show ?thesis
    unfolding records_inv_def
  proof (intro conjI)
    show "pool_workers (mg_pool (fst (m', ?l))) = pool_workers (mg_pool m0)"
      using inv(1) m'(5) unfolding records_inv_def fst_conv by (elim conjE) (rule trans)
  qed (use inv(1) m' b in \<open>auto simp: records_inv_def resolved_locals_def\<close>)
qed

lemma resolved_tables:
  assumes inv: "tables_inv bs (m, l)" and live: "dget (po_running l) rid = Some b" "dget (po_request_workers l) rid = Some w"
    and m': "mg_records m' = mg_records (with_record b (resolve_record x) m)" "pool_workers (mg_pool m') = pool_workers (mg_pool m)"
      "pool_ready (mg_pool m) \<longrightarrow> pool_ready (mg_pool m')" "bp_next_request (fst (mg_pool m)) \<le> bp_next_request (fst (mg_pool m'))"
  shows "tables_inv bs (m', resolved_locals rid w b x l)"
proof -
  let ?l = "resolved_locals rid w b x l"
  obtain r where r: "dget (mg_records m) b = Some r" "running_as rid w r" "dget (po_worker_requests l) w = Some rid"
    by (rule live_request [OF inv live(1)]) (use live(2) in auto)
  show ?thesis
    unfolding tables_inv_def fst_conv snd_conv
  proof (intro conjI allI impI)
    fix i c
    assume "dget (po_running ?l) i = Some c"
    then have i: "dget (po_running l) i = Some c" "i \<noteq> rid" by (auto simp: resolved_locals_def split: if_splits)
    obtain y v where y: "c \<in> set bs" "i \<le> bp_next_request (fst (mg_pool m))" "dget (mg_records m) c = Some y" "running_as i v y"
        "dget (po_request_workers l) i = Some v" "dget (po_worker_requests l) v = Some i" by (rule live_request [OF inv i(1)])
    have "c \<noteq> b" using y(3,4) r i(2) by (auto simp: running_as_def)
    moreover have "v \<noteq> w" using y(6) r(3) i(2) by auto
    ultimately show "c \<in> set bs" "i \<le> bp_next_request (fst (mg_pool m'))"
      "\<exists>y v. dget (mg_records m') c = Some y \<and> running_as i v y \<and> dget (po_request_workers ?l) i = Some v \<and> dget (po_worker_requests ?l) v = Some i"
      using y i(2) m'(1,4) by (auto simp: resolved_locals_def)
  next
    fix v i
    assume "dget (po_worker_requests ?l) v = Some i"
    then have v: "dget (po_worker_requests l) v = Some i" "v \<noteq> w" by (auto simp: resolved_locals_def split: if_splits)
    obtain c d where h: "v \<in> pool_workers (mg_pool m)" "dget (po_request_workers l) i = Some v" "dget (po_running l) i = Some c"
        "dget (po_deadlines l) v = Some d" by (rule held_worker [OF inv v(1)])
    have "i \<noteq> rid" using h(2) live(2) v(2) by auto
    with h v(2) m'(2) show "v \<in> pool_workers (mg_pool m')" "dget (po_request_workers ?l) i = Some v" "dget (po_running ?l) i \<noteq> None"
        "dget (po_deadlines ?l) v \<noteq> None" by (auto simp: resolved_locals_def)
  next
    fix v
    assume "dget (po_deadlines ?l) v \<noteq> None"
    with inv show "dget (po_worker_requests ?l) v \<noteq> None" by (auto simp: resolved_locals_def tables_inv_def split: if_splits)
  next
    show "distinct (dkeys (po_deadlines ?l))" using inv by (simp add: resolved_locals_def tables_inv_def)
  next
    assume "po_running ?l \<noteq> []"
    have "po_running l \<noteq> []" using live(1) by auto
    with inv m'(3) show "pool_ready (mg_pool m')" by (simp add: tables_inv_def)
  qed
qed

lemma record_resolution:
  assumes "poll_inv m0 bs (m, l)" "dget (po_running l) rid = Some b" "dget (po_request_workers l) rid = Some w"
    "dget (mg_records m) b = Some r" "bx_item r = Some item"
    "pool_workers p = pool_workers (mg_pool m)" "pool_ready (mg_pool m) \<longrightarrow> pool_ready p" "bp_next_request (fst (mg_pool m)) \<le> bp_next_request (fst p)"
  obtains s' where "record_result b x (drop_request rid w (m\<lparr>mg_pool := p\<rparr>, l)) = (Inr (), s')" "poll_inv m0 bs s'"
    "snd s' = resolved_locals rid w b x l" "pool_ready (mg_pool (fst s')) = pool_ready p"
proof -
  let ?m = "on_leases (settle_leases item x) (with_record b (resolve_record x) (m\<lparr>mg_pool := p, mg_requests := dpop rid (mg_requests m)\<rparr>))"
  have run: "record_result b x (drop_request rid w (m\<lparr>mg_pool := p\<rparr>, l)) = (Inr (), (?m, resolved_locals rid w b x l))"
    using assms(4,5) by (simp add: record_result_def drop_request_def on_manager_def finish_record_eq obind_def modify_def resolved_locals_def)
  have "mg_records ?m = mg_records (with_record b (resolve_record x) m)" by (simp add: with_record_def split: option.split)
  moreover have ready: "pool_ready (mg_pool ?m) = pool_ready p" by (simp add: on_leases_def pool_ready_def)
  moreover have "pool_workers (mg_pool ?m) = pool_workers p" "bp_next_request (fst (mg_pool ?m)) = bp_next_request (fst p)"
    "mg_requests ?m = dpop rid (mg_requests m)" "mg_max ?m = mg_max m" "mg_serial ?m = mg_serial m"
    by (simp_all add: on_leases_def pool_ready_def)
  ultimately have "poll_inv m0 bs (?m, resolved_locals rid w b x l)"
    using assms(1-3,6-8) by (intro conjI resolved_records resolved_tables) auto
  from that [OF run this] ready show thesis by simp
qed

definition unresolved :: "string list \<Rightarrow> poll_state \<Rightarrow> nat" where
  "unresolved bs s = card (set bs - set (dkeys (po_results (snd s))))"

lemma running_unresolved:
  assumes "poll_inv m0 bs (m, l)" "dget (po_running l) rid = Some b"
  shows "b \<in> set bs - set (dkeys (po_results l))"
proof -
  obtain r w where r: "b \<in> set bs" "dget (mg_records m) b = Some r" "running_as rid w r"
    by (rule live_request [OF conjunct2 [OF assms(1)] assms(2)])
  obtain r1 where "dget (mg_records m) b = Some r1" "phase l b r1" by (rule polled_record [OF conjunct1 [OF assms(1)] r(1)])
  with r have "dget (po_results l) b = None"
    by (auto simp: phase_def running_as_def resolved_by_def final_branch_state_def branch_state_defs split: if_splits)
  with r(1) show ?thesis by (simp only: dget_None_iff) blast
qed

lemma resolved_fewer:
  assumes "b \<in> set bs - set (dkeys (po_results l))"
  shows "unresolved bs (m', resolved_locals rid w b x l) < unresolved bs (m, l)"
proof -
  have "po_results (resolved_locals rid w b x l) = dset b x (po_results l)" by (simp add: resolved_locals_def)
  then have "set (dkeys (po_results (resolved_locals rid w b x l))) = insert b (set (dkeys (po_results l)))"
    by (simp only: set_dkeys_dset)
  moreover have "card (set bs - insert b (set (dkeys (po_results l)))) < card (set bs - set (dkeys (po_results l)))"
    using assms by (intro psubset_card_mono) auto
  ultimately show ?thesis unfolding unresolved_def snd_conv by simp
qed

lemma live_record:
  assumes "poll_inv m0 bs (m, l)" "dget (po_running l) rid = Some b"
  obtains r w item where "dget (mg_records m) b = Some r" "running_as rid w r" "bx_item r = Some item" "\<not> is_gone r"
    "dget (po_request_workers l) rid = Some w" "dget (po_worker_requests l) w = Some rid" "w \<in> pool_workers (mg_pool m)"
proof -
  obtain r w where r: "b \<in> set bs" "dget (mg_records m) b = Some r" "running_as rid w r" "dget (po_request_workers l) rid = Some w"
      "dget (po_worker_requests l) w = Some rid" by (rule live_request [OF conjunct2 [OF assms(1)] assms(2)])
  obtain r1 r0 where "dget (mg_records m) b = Some r1" "same_links r1 r0" "bx_item r0 \<noteq> None"
    by (rule polled_record [OF conjunct1 [OF assms(1)] r(1)])
  with r(2) have "bx_item r \<noteq> None" by (auto simp: same_links_def)
  moreover have "w \<in> pool_workers (mg_pool m)" by (rule held_worker [OF conjunct2 [OF assms(1)] r(5)])
  moreover have "\<not> is_gone r" using r(3) by (auto simp: running_as_def is_gone_def branch_state_defs)
  ultimately show thesis using r by (intro that [of r w "the (bx_item r)"]) auto
qed

text \<open>An answer resolves its branch, unless the answer is not one of a worker.\<close>

lemma receive_ok:
  assumes "poll_inv m0 bs (m, l)" "dget (po_running l) rid = Some b" "well_formed_result x"
  obtains s' where "receive rid x (m, l) = (Inr (), s')" "poll_inv m0 bs s'" "unresolved bs s' < unresolved bs (m, l)"
    "pool_ready (mg_pool (fst s')) = pool_ready (mg_pool m)"
proof -
  obtain r w item where r: "dget (mg_records m) b = Some r" "running_as rid w r" "bx_item r = Some item" "\<not> is_gone r"
      "dget (po_request_workers l) rid = Some w" "w \<in> pool_workers (mg_pool m)" by (rule live_record [OF assms(1,2)])
  from restore_ok [OF assms(3), of item] obtain y where y: "restore_result_for_caller_work_item item x = Inr y" by blast
  obtain s' where s': "record_result b y (drop_request rid w (m\<lparr>mg_pool := mg_pool m\<rparr>, l)) = (Inr (), s')" "poll_inv m0 bs s'"
      "snd s' = resolved_locals rid w b y l" "pool_ready (mg_pool (fst s')) = pool_ready (mg_pool m)"
    by (rule record_resolution [where x = y and p = "mg_pool m", OF assms(1,2) r(5,1,3)]) simp_all
  have "unresolved bs (fst s', resolved_locals rid w b y l) < unresolved bs (m, l)"
    by (rule resolved_fewer [OF running_unresolved [OF assms(1,2)]])
  then have "unresolved bs s' < unresolved bs (m, l)" by (metis prod.collapse s'(3))
  moreover have "receive rid x (m, l) = (Inr (), s')"
    using assms(2) r y s'(1) by (simp add: receive_def)
  ultimately show thesis using that s'(2,4) by blast
qed

lemma expire_worker_ok:
  assumes "poll_inv m0 bs (m, l)" "dget (po_worker_requests l) w = Some rid"
  obtains s' where "expire_worker env w (m, l) = (Inr (), s')" "poll_inv m0 bs s'" "unresolved bs s' < unresolved bs (m, l)"
    "\<And>v. v \<noteq> w \<Longrightarrow> dget (po_worker_requests (snd s')) v = dget (po_worker_requests l) v" "pool_ready (mg_pool (fst s'))"
proof -
  obtain b d where h: "w \<in> pool_workers (mg_pool m)" "dget (po_request_workers l) rid = Some w" "dget (po_running l) rid = Some b"
    by (rule held_worker [OF conjunct2 [OF assms(1)] assms(2)])
  obtain r v item where r: "dget (mg_records m) b = Some r" "running_as rid v r" "bx_item r = Some item" "\<not> is_gone r"
      "dget (po_request_workers l) rid = Some v" by (rule live_record [OF assms(1) h(3)])
  have ready: "pool_ready (mg_pool m)" using assms(1) h(3) by (auto simp: tables_inv_def)
  from respawn_ok [OF ready h(1)] obtain p where p: "respawn_worker w (mg_pool m) = (Inr (), p)" "pool_ready p" "pool_workers p = pool_workers (mg_pool m)"
    by blast
  have next_request: "bp_next_request (fst p) = bp_next_request (fst (mg_pool m))"
    using p(1) by (auto simp: respawn_worker_def runtime_error_def split: prod.splits option.splits if_splits)
  let ?g = "dget (bp_generations (fst (mg_pool m))) w"
  obtain y where y: "branch_timeout env b item (bx_mode r) w ?g = Inr y"
    using r(2) fault_result_Inr by (auto simp: branch_timeout_def running_as_def) blast+
  obtain s' where s': "record_result b y (drop_request rid w (m\<lparr>mg_pool := p\<rparr>, l)) = (Inr (), s')" "poll_inv m0 bs s'"
      "snd s' = resolved_locals rid w b y l" "pool_ready (mg_pool (fst s'))"
    by (rule record_resolution [OF assms(1) h(3,2) r(1,3) p(3)]) (simp_all add: p next_request)
  have "unresolved bs (fst s', resolved_locals rid w b y l) < unresolved bs (m, l)"
    by (rule resolved_fewer [OF running_unresolved [OF assms(1) h(3)]])
  then have "unresolved bs s' < unresolved bs (m, l)" by (metis prod.collapse s'(3))
  moreover have "on_manager (on_branch_pool (respawn_worker w)) (drop_request rid w (m, l)) = (Inr (), drop_request rid w (m\<lparr>mg_pool := p\<rparr>, l))"
    using p(1) by (simp add: on_manager_def on_branch_pool_def drop_request_def)
  then have "expire_worker env w (m, l) = (Inr (), s')"
    using assms(2) h(3) r(1,3,4) y s'(1) by (simp add: expire_worker_def Let_def obind_def olift_def)
  moreover have "dget (po_worker_requests (snd s')) v = dget (po_worker_requests l) v" if "v \<noteq> w" for v
    using s'(3) that by (simp add: resolved_locals_def)
  ultimately show thesis using that s'(2,4) by blast
qed

lemma expire_workers_ok:
  assumes "poll_inv m0 bs s" "distinct ws" "\<forall>w \<in> set ws. dget (po_worker_requests (snd s)) w \<noteq> None"
  shows "\<exists>s'. expire_workers env ws s = (Inr (), s') \<and> poll_inv m0 bs s' \<and> unresolved bs s' \<le> unresolved bs s
    \<and> (ws \<noteq> [] \<longrightarrow> unresolved bs s' < unresolved bs s) \<and> (pool_ready (mg_pool (fst s)) \<longrightarrow> pool_ready (mg_pool (fst s')))"
  using assms
proof (induction ws arbitrary: s)
  case (Cons w ws)
  obtain m l where s: "s = (m, l)" by (cases s)
  from Cons.prems(3) s obtain rid where rid: "dget (po_worker_requests l) w = Some rid" by auto
  obtain s1 where s1: "expire_worker env w (m, l) = (Inr (), s1)" "poll_inv m0 bs s1" "unresolved bs s1 < unresolved bs (m, l)"
      "\<And>v. v \<noteq> w \<Longrightarrow> dget (po_worker_requests (snd s1)) v = dget (po_worker_requests l) v"
      "pool_ready (mg_pool (fst s1))"
    using expire_worker_ok [OF _ rid, of m0 bs m env] Cons.prems(1) s by metis
  have "\<forall>v \<in> set ws. dget (po_worker_requests (snd s1)) v \<noteq> None"
    using Cons.prems(2,3) s1(4) s by (metis distinct.simps(2) list.set_intros(2) snd_conv)
  with Cons.IH [OF s1(2)] Cons.prems(2) obtain s2 where "expire_workers env ws s1 = (Inr (), s2)" "poll_inv m0 bs s2"
      "unresolved bs s2 \<le> unresolved bs s1" "pool_ready (mg_pool (fst s2))" using s1(5) by auto
  with s1 s show ?case by (simp add: obind_def)
qed simp


text \<open>With a free worker and items that can be sent, a queued branch is dispatched.\<close>

definition sendable :: "poll_env \<Rightarrow> branch_manager \<Rightarrow> string list \<Rightarrow> bool" where
  "sendable env m bs \<longleftrightarrow> (\<forall>b \<in> set bs. \<forall>r w. dget (mg_records m) b = Some r \<longrightarrow> bx_item r = Some w \<longrightarrow> pe_ipc env \<longrightarrow> (\<exists>i. work_item_for_ipc w = Inr i))"

lemma bootstrap_free: "ids \<noteq> [] \<Longrightarrow> rt_worker (bootstrap_route w ids n r) \<in> set ids"
proof -
  assume ids: "ids \<noteq> []"
  let ?cs = "if filter (\<lambda>w. w \<notin> set (worker_ids_holding_leases r)) ids \<noteq> []
    then filter (\<lambda>w. w \<notin> set (worker_ids_holding_leases r)) ids else ids"
  have "?cs ! (n mod length ?cs) \<in> set ?cs" using ids by (intro nth_mem mod_less_divisor) simp
  moreover have "set ?cs \<subseteq> set ids" by (simp split: if_split)
  ultimately show ?thesis by (simp only: bootstrap_route_def choose_bootstrap_worker_def Let_def prod.case routing.simps subset_iff)
qed

lemma route_free:
  assumes "free \<noteq> []" "\<not> holder_busy env free m w"
  shows "rt_worker (route_work_item (pe_sha env) w free (bp_generations (fst (mg_pool m))) n (snd (mg_pool m))) \<in> set free"
proof -
  note b = bootstrap_free [OF assms(1)]
  show ?thesis
  proof (cases "wi_kind w = WORK_KIND_CONTINUATION")
    case True
    show ?thesis
    proof (cases "reg_get (wi_context_id w) (dc_hypothesis (wi_context w)) (snd (mg_pool m))")
      case None
      with True b show ?thesis by (simp add: route_work_item_def)
    next
      case (Some l)
      show ?thesis
      proof (cases "dget (bp_generations (fst (mg_pool m))) (ls_worker l)")
        case None
        with True Some b show ?thesis by (simp add: route_work_item_def)
      next
        case (Some g)
        with True \<open>reg_get _ _ _ = _\<close> assms(2) b show ?thesis by (simp add: route_work_item_def holder_busy_def)
      qed
    qed
  qed (use b in \<open>simp add: route_work_item_def\<close>)
qed

lemma submit_branch_ok:
  assumes "pool_ready (mg_pool m)" "free \<noteq> []" "set free \<subseteq> pool_workers (mg_pool m)" "\<not> holder_busy env free m w"
    "pe_ipc env \<longrightarrow> (\<exists>i. work_item_for_ipc w = Inr i)"
  obtains wk rid mode m' where "submit_branch env free b w m = (Inr (wk, rid, mode), m')"
proof -
  let ?route = "route_work_item (pe_sha env) w free (bp_generations (fst (mg_pool m))) (mg_bootstrap m) (snd (mg_pool m))"
  have f: "rt_worker ?route \<in> set free" by (rule route_free [OF assms(2,4)])
  with assms(3) have "dget (bp_generations (fst (mg_pool m))) (rt_worker ?route) \<noteq> None" unfolding dget_iff_dkeys by (rule subsetD)
  then obtain g where "dget (bp_generations (fst (mg_pool m))) (rt_worker ?route) = Some g" by blast
  with assms(1) have "\<exists>rid pool. submit_request (rt_worker ?route) (fst (mg_pool m), rt_registry ?route) = (Inr rid, pool)"
    by (simp add: submit_request_def pool_ready_def)
  then obtain rid pool where "submit_request (rt_worker ?route) (fst (mg_pool m), rt_registry ?route) = (Inr rid, pool)" by blast
  moreover obtain i where "(if pe_ipc env then work_item_for_ipc w else Inr w) = Inr i" using assms(5) by (cases "pe_ipc env") auto
  ultimately have "submit_branch env free b w m
      = (Inr (rt_worker ?route, rid, rq_mode (rt_request ?route)), m\<lparr>mg_pool := pool, mg_bootstrap := rt_next ?route\<rparr>)"
    using f by (simp add: submit_branch_def Let_def)
  then show thesis by (rule that)
qed

lemma free_in_pool: "set (free_workers s) \<subseteq> pool_workers (mg_pool (fst s))"
  by (auto simp: free_workers_def)

text \<open>The state of a poll whose items can be sent, on an open pool.\<close>

definition poll_live :: "poll_env \<Rightarrow> branch_manager \<Rightarrow> string list \<Rightarrow> poll_state \<Rightarrow> bool" where
  "poll_live env m0 bs s \<longleftrightarrow> poll_inv m0 bs s \<and> sendable env m0 bs \<and> pool_ready (mg_pool (fst s)) \<and> pool_workers (mg_pool (fst s)) \<noteq> {}"

lemma try_dispatch_ok:
  assumes "poll_live env m0 bs s" "set cs \<subseteq> set (po_waiting (snd s))" "free \<noteq> []" "set free \<subseteq> set (free_workers s)"
  shows "\<exists>t s'. try_dispatch env free cs s = (Inr t, s') \<and> poll_live env m0 bs s' \<and> po_results (snd s') = po_results (snd s)
    \<and> (t \<longrightarrow> po_running (snd s') \<noteq> []) \<and> (\<not> t \<longrightarrow> s' = s)
    \<and> (cs \<noteq> [] \<and> set free = pool_workers (mg_pool (fst s)) \<longrightarrow> t)"
  using assms
proof (induction env free cs s rule: try_dispatch.induct)
  case (2 env free b cs m l)
  from "2.prems"(1) have inv: "poll_inv m0 bs (m, l)" and ready: "pool_ready (mg_pool m)" by (simp_all add: poll_live_def)
  from "2.prems"(2) have b: "b \<in> set (po_waiting l)" by simp
  obtain r w where r: "b \<in> set bs" "dget (mg_records m) b = Some r" "bx_state r = BRANCH_STATE_QUEUED" and w: "bx_item r = Some w"
    by (rule waiting_record [OF conjunct1 [OF inv] b])
  show ?case
  proof (cases "holder_busy env free m w")
    case True
    then have "set free \<noteq> pool_workers (mg_pool m)"
      by (auto simp: holder_busy_def split: option.splits) (metis dget_iff_dkeys option.distinct(1) set_map)
    with 2 r w True show ?thesis by simp
  next
    case False
    have free: "set free \<subseteq> pool_workers (mg_pool m)" using "2.prems"(4) free_in_pool [of "(m, l)"] by auto
    obtain r1 r0 where r0: "dget (mg_records m) b = Some r1" "dget (mg_records m0) b = Some r0" "same_links r1 r0"
      by (rule polled_record [OF conjunct1 [OF inv] r(1)])
    have ipc: "pe_ipc env \<longrightarrow> (\<exists>i. work_item_for_ipc w = Inr i)"
      using "2.prems"(1) r0 r w by (auto simp: poll_live_def sendable_def same_links_def)
    obtain wk rid mode m' where sub: "submit_branch env free b w m = (Inr (wk, rid, mode), m')"
      by (rule submit_branch_ok [OF ready "2.prems"(3) free False ipc])
    have "dget (po_worker_requests l) wk = None"
      using submit_branch_Inr(1) [OF sub] "2.prems"(4) free_workers_free [of wk "(m, l)"] by auto
    then have "poll_inv m0 bs (started env b wk rid mode (m', l))" by (rule submitted_started [OF inv b sub])
    moreover have "pool_ready (mg_pool m')" "pool_workers (mg_pool m') = pool_workers (mg_pool m)"
      using submit_branch_Inr(4,5) [OF sub] by simp_all
    ultimately have "poll_live env m0 bs (started env b wk rid mode (m', l))"
      using "2.prems"(1) by (simp add: poll_live_def started_def)
    moreover have "dset rid b (po_running l) \<noteq> []" by (simp add: dset_def update_nonempty)
    moreover have "po_results (snd (started env b wk rid mode (m', l))) = po_results l"
      "po_running (snd (started env b wk rid mode (m', l))) = dset rid b (po_running l)" by (simp_all add: started_def)
    moreover have "try_dispatch env free (b # cs) (m, l) = (Inr True, started env b wk rid mode (m', l))" using r w False sub by simp
    ultimately show ?thesis by (metis snd_conv)
  qed
next
  case (1 env free s)
  then show ?case by (intro exI [of _ False] exI [of _ s]) simp
qed

lemma dispatch_ok:
  assumes "poll_live env m0 bs s"
  shows "\<exists>s'. dispatch_available env s = (Inr (), s') \<and> poll_live env m0 bs s' \<and> po_results (snd s') = po_results (snd s)
    \<and> (po_running (snd s') = [] \<longrightarrow> po_running (snd s) = []) \<and> (po_waiting (snd s) \<noteq> [] \<longrightarrow> po_running (snd s') \<noteq> [])"
  using assms
proof (induction env s rule: dispatch_available.induct)
  case (1 env s)
  obtain m l where s: "s = (m, l)" by (cases s)
  show ?case
  proof (cases "po_waiting (snd s) = [] \<or> free_workers s = []")
    case True
    have "po_running l \<noteq> []" if none: "free_workers s = []"
    proof -
      from "1.prems" s have "pool_workers (mg_pool m) \<noteq> {}" by (metis fst_conv poll_live_def)
      then obtain v where "v \<in> pool_workers (mg_pool m)" unfolding ex_in_conv [symmetric] by (rule exE)
      with none s have "dhas (po_worker_requests l) v" by (fastforce simp: free_workers_def filter_empty_conv)
      then obtain i where v: "dget (po_worker_requests l) v = Some i" by (auto simp: dhas_def)
      have t: "tables_inv bs (m, l)" using "1.prems" s by (simp add: poll_live_def)
      show ?thesis by (rule held_worker [OF t v]) auto
    qed
    with True "1.prems" s show ?thesis by (subst dispatch_available.simps) auto
  next
    case False
    from False have w: "po_waiting (snd s) \<noteq> []" and f: "free_workers s \<noteq> []" by simp_all
    from try_dispatch_ok [OF "1.prems" subset_refl f subset_refl] obtain t s1 where
        t: "try_dispatch env (free_workers s) (po_waiting (snd s)) s = (Inr t, s1)" "poll_live env m0 bs s1"
          "po_results (snd s1) = po_results (snd s)" "t \<longrightarrow> po_running (snd s1) \<noteq> []" "\<not> t \<longrightarrow> s1 = s"
          "po_waiting (snd s) \<noteq> [] \<and> set (free_workers s) = pool_workers (mg_pool (fst s)) \<longrightarrow> t" by (elim exE conjE)
    show ?thesis
    proof (cases t)
      case True
      from "1.IH" [OF False t(1) [symmetric] refl True t(2)] t(3,4) True obtain s2 where
        "dispatch_available env s1 = (Inr (), s2)" "poll_live env m0 bs s2" "po_results (snd s2) = po_results (snd s)" "po_running (snd s2) \<noteq> []"
        by auto
      with False t(1) True show ?thesis by (subst dispatch_available.simps) simp
    next
      case no: False
      have "po_running l \<noteq> []"
      proof
        assume run: "po_running l = []"
        have "dget (po_worker_requests l) v = None" for v
        proof (rule ccontr)
          assume "dget (po_worker_requests l) v \<noteq> None"
          then obtain i where v: "dget (po_worker_requests l) v = Some i" by blast
          have h: "tables_inv bs (m, l)" using "1.prems" s by (simp add: poll_live_def)
          show False by (rule held_worker [OF h v]) (use run in auto)
        qed
        then have "set (free_workers s) = pool_workers (mg_pool (fst s))" using s by (auto simp: free_workers_def dhas_def)
        with t(6) w no show False by blast
      qed
      with False t no s show ?thesis by (subst dispatch_available.simps) simp
    qed
  qed
qed

text \<open>One turn of the loop.  The results of the queue are those of workers, which are well formed.\<close>

definition genuine :: "queue_event \<Rightarrow> bool" where
  "genuine e \<longleftrightarrow> (case e of Queue_empty \<Rightarrow> True | Reply _ x \<Rightarrow> well_formed_result x)"

text \<open>The event answers a live request, or comes when a deadline has passed.\<close>

definition settles :: "poll_env \<Rightarrow> queue_event \<Rightarrow> poll_state \<Rightarrow> bool" where
  "settles env e s \<longleftrightarrow> (case e of
       Reply rid _ \<Rightarrow> dhas (po_running (snd s)) rid
     | Queue_empty \<Rightarrow> expired_workers (pe_clock env (mg_reads (fst s))) s \<noteq> [])"

fun settled_events :: "poll_env \<Rightarrow> queue_event list \<Rightarrow> poll_state \<Rightarrow> nat" where
  "settled_events env [] s = 0"
| "settled_events env (e # es) s =
     (if poll_done s then 0
      else let s' = snd (await_ready env s) in (if settles env e s' then 1 else 0) + settled_events env es (snd (handle_event env e s')))"

lemma unresolved_results: "po_results (snd s') = po_results (snd s) \<Longrightarrow> unresolved bs s' = unresolved bs s"
  by (simp add: unresolved_def)

lemma read_clock_inv:
  "poll_inv m0 bs s \<Longrightarrow> poll_inv m0 bs (snd (read_clock env s))" "poll_live env m0 bs s \<Longrightarrow> poll_live env m0 bs (snd (read_clock env s))"
  by (cases s, simp add: read_clock_def poll_live_def)+

lemma expired_workers_ok:
  assumes "poll_inv m0 bs s"
  shows "distinct (expired_workers now s)" "\<forall>w \<in> set (expired_workers now s). dget (po_worker_requests (snd s)) w \<noteq> None"
proof -
  from assms have "distinct (dkeys (po_deadlines (snd s)))" unfolding tables_inv_def by (elim conjE)
  then show "distinct (expired_workers now s)" unfolding expired_workers_def by (rule distinct_map_filter)
  from assms have d: "\<forall>w. dget (po_deadlines (snd s)) w \<noteq> None \<longrightarrow> dget (po_worker_requests (snd s)) w \<noteq> None" unfolding tables_inv_def by (elim conjE)
  have "dget (po_deadlines (snd s)) w \<noteq> None" if "w \<in> set (expired_workers now s)" for w
    using that unfolding dget_iff_dkeys expired_workers_def by auto
  with d show "\<forall>w \<in> set (expired_workers now s). dget (po_worker_requests (snd s)) w \<noteq> None" by blast
qed

text \<open>What an event does to the tables, before the dispatch that follows it.\<close>

definition absorb :: "poll_env \<Rightarrow> queue_event \<Rightarrow> (poll_state, unit) stateop" where
  "absorb env e s = (case e of
       Queue_empty \<Rightarrow> obind (read_clock env) (\<lambda>now s. expire_workers env (expired_workers now s) s) s
     | Reply rid x \<Rightarrow> receive rid x s)"

lemma handle_absorb:
  assumes "absorb env e s = (Inr (), s1)"
  shows "handle_event env e s = dispatch_available env s1 \<or> handle_event env e s = (Inr (), s1) \<and> \<not> settles env e s \<and> s1 = s"
  using assms by (auto simp: absorb_def handle_event_def settles_def receive_def obind_def dhas_def split: queue_event.splits prod.splits sum.splits option.splits)

lemma absorb_ok:
  assumes "poll_inv m0 bs s" "genuine e"
  shows "\<exists>s1. absorb env e s = (Inr (), s1) \<and> poll_inv m0 bs s1 \<and> unresolved bs s1 + (if settles env e s then 1 else 0) \<le> unresolved bs s
    \<and> (pool_ready (mg_pool (fst s)) \<longrightarrow> pool_ready (mg_pool (fst s1)))"
proof (cases e)
  case Queue_empty
  let ?s = "snd (read_clock env s)" and ?now = "pe_clock env (mg_reads (fst s))"
  have inv: "poll_inv m0 bs ?s" using read_clock_inv(1) [OF assms(1)] .
  have same: "po_deadlines (snd ?s) = po_deadlines (snd s)" "unresolved bs ?s = unresolved bs s" "mg_pool (fst ?s) = mg_pool (fst s)"
    by (simp_all add: read_clock_def unresolved_def)
  then have "expired_workers ?now ?s = expired_workers ?now s" by (simp add: expired_workers_def)
  with expire_workers_ok [OF inv expired_workers_ok [OF inv, of ?now], of env] same Queue_empty show ?thesis
    by (auto simp: absorb_def obind_def read_clock_def settles_def)
next
  case (Reply rid x)
  obtain m l where s: "s = (m, l)" by (cases s)
  show ?thesis
  proof (cases "dget (po_running l) rid")
    case None
    with Reply s assms(1) show ?thesis by (simp add: absorb_def receive_def settles_def dhas_def)
  next
    case (Some b)
    have wf: "well_formed_result x" using assms(2) Reply by (simp add: genuine_def)
    obtain s1 where "receive rid x (m, l) = (Inr (), s1)" "poll_inv m0 bs s1" "unresolved bs s1 < unresolved bs (m, l)"
      "pool_ready (mg_pool (fst s1)) = pool_ready (mg_pool m)" using assms(1) unfolding s by (rule receive_ok [OF _ Some wf])
    with Reply s show ?thesis by (simp add: absorb_def)
  qed
qed

lemma handle_event_inv:
  assumes "handle_event env e s = (x, s')" "poll_inv m0 bs s" "genuine e"
  shows "poll_inv m0 bs s'"
proof -
  obtain s1 where s1: "absorb env e s = (Inr (), s1)" "poll_inv m0 bs s1" using absorb_ok [OF assms(2,3)] by blast
  from handle_absorb [OF s1(1)] show ?thesis
  proof
    assume "handle_event env e s = dispatch_available env s1"
    with assms(1) have "dispatch_available env s1 = (x, s')" by simp
    then show ?thesis using s1(2) by (rule dispatch_available_inv)
  qed (use assms(1) s1(2) in simp)
qed

lemma handle_event_ok:
  assumes "poll_live env m0 bs s" "genuine e"
  shows "\<exists>s'. handle_event env e s = (Inr (), s') \<and> poll_live env m0 bs s'
    \<and> unresolved bs s' + (if settles env e s then 1 else 0) \<le> unresolved bs s"
proof -
  from assms(1) have inv: "poll_inv m0 bs s" "pool_ready (mg_pool (fst s))" by (simp_all only: poll_live_def)
  from absorb_ok [OF inv(1) assms(2), of env] inv(2) obtain s1 where s1: "absorb env e s = (Inr (), s1)" "poll_inv m0 bs s1"
    "unresolved bs s1 + (if settles env e s then 1 else 0) \<le> unresolved bs s" "pool_ready (mg_pool (fst s1))" by metis
  have "pool_workers (mg_pool (fst s1)) = pool_workers (mg_pool (fst s))"
    using s1(2) inv(1) unfolding records_inv_def by metis
  with assms(1) s1(2,4) have live: "poll_live env m0 bs s1" by (simp only: poll_live_def simp_thms)
  from handle_absorb [OF s1(1)] show ?thesis
  proof
    assume h: "handle_event env e s = dispatch_available env s1"
    from dispatch_ok [OF live] obtain s2 where s2: "dispatch_available env s1 = (Inr (), s2)" "poll_live env m0 bs s2"
      "po_results (snd s2) = po_results (snd s1)" by blast
    then have "unresolved bs s2 = unresolved bs s1" by (intro unresolved_results)
    with h s1(3) s2(1,2) show ?thesis by (intro exI [of _ s2]) simp
  qed (use live s1(3) in auto)
qed

lemma await_ready_inv:
  assumes "await_ready env s = (x, s')" "poll_inv m0 bs s"
  shows "poll_inv m0 bs s'"
proof -
  obtain y s1 where d: "(if po_running (snd s) = [] then dispatch_available env s else (Inr (), s)) = (y, s1)"
    by (cases "if po_running (snd s) = [] then dispatch_available env s else (Inr (), s)") blast
  have "poll_inv m0 bs s1" using d assms(2) dispatch_available_inv [of env s y s1] by (auto split: if_splits)
  moreover have "s' = s1 \<or> s' = snd (read_clock env s1)"
    using assms(1) d by (auto simp: await_ready_def obind_def read_clock_def runtime_error_def value_error_def split: if_splits sum.splits)
  ultimately show ?thesis using read_clock_inv(1) by metis
qed

lemma poll_live_inv: "poll_live env m0 bs s \<Longrightarrow> poll_inv m0 bs s"
  by (simp only: poll_live_def)

lemma deadline_of_running:
  assumes "poll_inv m0 bs s" "po_running (snd s) \<noteq> []"
  shows "po_deadlines (snd s) \<noteq> []" "0 < unresolved bs s"
proof -
  obtain m l where s: "s = (m, l)" by (cases s)
  from assms(2) s obtain rid b where b: "dget (po_running l) rid = Some b" by (cases "po_running l") force+
  have t: "tables_inv bs (m, l)" using assms(1) s by simp
  obtain w where w: "dget (po_worker_requests l) w = Some rid" by (rule live_request [OF t b])
  show "po_deadlines (snd s) \<noteq> []" by (rule held_worker [OF t w]) (use s in auto)
  have "b \<in> set bs - set (dkeys (po_results l))" using running_unresolved [OF _ b] assms(1) s by simp
  then show "0 < unresolved bs s" unfolding unresolved_def s snd_conv by (intro card_gt_0_iff [THEN iffD2] conjI) auto
qed

lemma await_ready_ok:
  assumes "poll_live env m0 bs s" "\<not> poll_done s"
  shows "\<exists>s'. await_ready env s = (Inr (), s') \<and> poll_live env m0 bs s' \<and> unresolved bs s' = unresolved bs s \<and> po_running (snd s') \<noteq> []"
proof -
  have "\<exists>s1. (if po_running (snd s) = [] then dispatch_available env s else (Inr (), s)) = (Inr (), s1) \<and> poll_live env m0 bs s1
      \<and> po_results (snd s1) = po_results (snd s) \<and> po_running (snd s1) \<noteq> []"
  proof (cases "po_running (snd s) = []")
    case True
    with assms(2) have "po_waiting (snd s) \<noteq> []" by (simp add: poll_done_def)
    with True dispatch_ok [OF assms(1)] show ?thesis by metis
  qed (use assms(1) in \<open>intro exI [of _ s]; simp\<close>)
  then obtain s1 where s1: "(if po_running (snd s) = [] then dispatch_available env s else (Inr (), s)) = (Inr (), s1)"
    "poll_live env m0 bs s1" "po_results (snd s1) = po_results (snd s)" "po_running (snd s1) \<noteq> []" by blast
  have "po_deadlines (snd s1) \<noteq> []" by (rule deadline_of_running(1) [OF poll_live_inv [OF s1(2)] s1(4)])
  with s1(1,4) have "await_ready env s = (Inr (), snd (read_clock env s1))" by (simp add: await_ready_def obind_def read_clock_def)
  moreover have "po_running (snd (snd (read_clock env s1))) = po_running (snd s1)" "po_results (snd (snd (read_clock env s1))) = po_results (snd s1)"
    by (simp_all add: read_clock_def)
  ultimately show ?thesis using read_clock_inv(2) [OF s1(2)] s1(3,4) unresolved_results by metis
qed

lemma poll_loop_inv:
  assumes "poll_loop env es s = (out, s')" "poll_inv m0 bs s" "list_all genuine es"
  shows "poll_inv m0 bs s'"
  using assms
proof (induction es arbitrary: s)
  case Nil
  show ?case
  proof -
    obtain x s1 where a: "await_ready env s = (x, s1)" by (rule prod.exhaust)
    have "poll_inv m0 bs s1" by (rule await_ready_inv [OF a Nil.prems(2)])
    moreover have "s' = s \<or> s' = s1" using Nil.prems(1) a by (auto split: if_splits sum.splits)
    ultimately show ?thesis using Nil.prems(2) by metis
  qed
next
  case (Cons e es)
  obtain x s1 where a: "await_ready env s = (x, s1)" by (rule prod.exhaust)
  obtain y s2 where h: "handle_event env e s1 = (y, s2)" by (rule prod.exhaust)
  have i1: "poll_inv m0 bs s1" by (rule await_ready_inv [OF a Cons.prems(2)])
  have i2: "poll_inv m0 bs s2" by (rule handle_event_inv [OF h i1]) (use Cons.prems(3) in simp)
  from Cons.prems(1) a h have "s' = s \<or> s' = s1 \<or> s' = s2 \<or> poll_loop env es s2 = (out, s')" by (auto split: if_splits sum.splits)
  with Cons.prems(2,3) i1 i2 Cons.IH [OF _ i2] show ?case by auto
qed

text \<open>The loop never fails on a live poll, and every event that settles something resolves a branch.\<close>

lemma poll_loop_ok:
  assumes "poll_live env m0 bs s" "list_all genuine es"
  shows "\<exists>out s'. poll_loop env es s = (out, s') \<and> poll_live env m0 bs s' \<and> (case out of
      None \<Rightarrow> settled_events env es s < unresolved bs s
    | Some (Inl x) \<Rightarrow> False
    | Some (Inr res) \<Rightarrow> res = po_results (snd s') \<and> poll_done s')"
  using assms
proof (induction es arbitrary: s)
  case Nil
  show ?case
  proof (cases "poll_done s")
    case True
    with Nil show ?thesis by simp
  next
    case False
    from await_ready_ok [OF Nil.prems(1) this] obtain s' where s': "await_ready env s = (Inr (), s')" "poll_live env m0 bs s'"
      "unresolved bs s' = unresolved bs s" "po_running (snd s') \<noteq> []" by blast
    have "0 < unresolved bs s'" by (rule deadline_of_running(2) [OF poll_live_inv [OF s'(2)] s'(4)])
    with False s' show ?thesis by simp
  qed
next
  case (Cons e es)
  show ?case
  proof (cases "poll_done s")
    case True
    with Cons.prems show ?thesis by simp
  next
    case False
    from await_ready_ok [OF Cons.prems(1) this] obtain s1 where s1: "await_ready env s = (Inr (), s1)" "poll_live env m0 bs s1"
      "unresolved bs s1 = unresolved bs s" by blast
    from handle_event_ok [OF s1(2), of e] Cons.prems(2) obtain s2 where s2: "handle_event env e s1 = (Inr (), s2)" "poll_live env m0 bs s2"
      "unresolved bs s2 + (if settles env e s1 then 1 else 0) \<le> unresolved bs s1" by auto
    from Cons.IH [OF s2(2)] Cons.prems(2) obtain out s' where o: "poll_loop env es s2 = (out, s')" "poll_live env m0 bs s'"
      "case out of None \<Rightarrow> settled_events env es s2 < unresolved bs s2 | Some (Inl x) \<Rightarrow> False | Some (Inr res) \<Rightarrow> res = po_results (snd s') \<and> poll_done s'"
      by auto
    with False s1(1,3) s2(1,3) show ?thesis by (auto split: option.splits if_splits)
  qed
qed

section \<open>Idle managers\<close>

text \<open>Between polls no branch runs, queued branches have an item and no result, and every child is known.\<close>

definition idle_manager :: "branch_manager \<Rightarrow> bool" where
  "idle_manager m \<longleftrightarrow> distinct (dkeys (mg_records m)) \<and> mg_requests m = []
     \<and> (\<forall>b r. dget (mg_records m) b = Some r \<longrightarrow> bx_state r \<noteq> BRANCH_STATE_RUNNING
          \<and> (bx_state r = BRANCH_STATE_QUEUED \<longrightarrow> bx_item r \<noteq> None \<and> bx_result r = None))
     \<and> (\<forall>b c. (b, c) \<in> child_of m \<longrightarrow> dget (mg_records m) c \<noteq> None)"

definition is_queued :: "branch_manager \<Rightarrow> string \<Rightarrow> bool" where
  "is_queued m b \<longleftrightarrow> (\<exists>r. dget (mg_records m) b = Some r \<and> bx_state r = BRANCH_STATE_QUEUED)"

lemma select_branches_ok:
  "select_branches m bs chosen = Inr res \<Longrightarrow> distinct chosen \<Longrightarrow> \<forall>b \<in> set chosen. is_queued m b \<Longrightarrow>
    distinct res \<and> (\<forall>b \<in> set res. is_queued m b) \<and> set res = set chosen \<union> set bs"
proof (induction bs arbitrary: chosen)
  case (Cons b bs)
  show ?case
  proof (cases "b \<in> set chosen")
    case True
    with Cons.IH [of chosen] Cons.prems show ?thesis by auto
  next
    case False
    with Cons.prems(1) obtain r where r: "dget (mg_records m) b = Some r" "bx_state r = BRANCH_STATE_QUEUED"
      "select_branches m bs (chosen @ [b]) = Inr res"
      by (auto simp: unknown_branch_def runtime_error_def split: if_splits option.splits)
    have "is_queued m b" using r by (auto simp: is_queued_def)
    with Cons.prems(2,3) False have "distinct (chosen @ [b])" "\<forall>c \<in> set (chosen @ [b]). is_queued m c" by auto
    from Cons.IH [OF r(3) this] show ?thesis by auto
  qed
qed simp

lemma polled_branches_ok:
  assumes "polled_branches m ids = Inr bs" "idle_manager m"
  shows "distinct bs" "\<forall>b \<in> set bs. is_queued m b"
proof -
  have d: "distinct (dkeys (mg_records m))" using assms(2) by (simp add: idle_manager_def)
  have "distinct bs \<and> (\<forall>b \<in> set bs. is_queued m b)"
  proof (cases ids)
    case None
    with assms(1) have bs: "bs = map fst (filter (\<lambda>(b, r). bx_state r = BRANCH_STATE_QUEUED) (mg_records m))" by (simp add: polled_branches_def)
    with d show ?thesis by (auto simp: distinct_map_filter is_queued_def)
  next
    case (Some cs)
    with assms(1) have "select_branches m cs [] = Inr bs" by (simp add: polled_branches_def)
    from select_branches_ok [OF this] show ?thesis by simp
  qed
  then show "distinct bs" "\<forall>b \<in> set bs. is_queued m b" by simp_all
qed

lemma poll_start:
  assumes "polled_branches m ids = Inr bs" "idle_manager m"
  shows "poll_inv m bs (m, new_poll_locals bs)"
proof
  note bs = polled_branches_ok [OF assms]
  show "tables_inv bs (m, new_poll_locals bs)" by (simp add: tables_inv_def new_poll_locals_def)
  have "mg_requests m = []" using assms(2) by (simp add: idle_manager_def)
  moreover have "\<exists>r r0. dget (mg_records m) b = Some r \<and> dget (mg_records m) b = Some r0 \<and> same_links r r0 \<and> bx_item r0 \<noteq> None
      \<and> phase (new_poll_locals bs) b r" if b: "b \<in> set bs" for b
  proof -
    from bs(2) b obtain r where r: "dget (mg_records m) b = Some r" "bx_state r = BRANCH_STATE_QUEUED" by (auto simp: is_queued_def)
    with assms(2) have "bx_item r \<noteq> None" "bx_result r = None" unfolding idle_manager_def by blast+
    with r b show ?thesis by (auto simp: same_links_def phase_def new_poll_locals_def)
  qed
  ultimately show "records_inv m bs (m, new_poll_locals bs)"
    using bs(1) by (simp add: records_inv_def new_poll_locals_def)
qed

text \<open>Pruning and compacting keep every state.\<close>

definition state_of :: "branch_manager \<Rightarrow> string \<Rightarrow> string option" where
  "state_of m b = map_option bx_state (dget (mg_records m) b)"

lemma with_record_state:
  "(\<And>r. bx_state (f r) = bx_state r) \<Longrightarrow> state_of (with_record b f m) c = state_of m c"
  by (simp add: state_of_def option.map_comp comp_def)

lemma prune_states: "state_of (prune_released b m) c = state_of m c \<and> dkeys (mg_records (prune_released b m)) = dkeys (mg_records m)"
proof (induction b m rule: prune_released.induct)
  case (1 b m)
  show ?case
  proof (cases "dget (mg_records m) b")
    case None
    then show ?thesis by (subst (1 2) prune_released.simps) simp
  next
    case (Some r)
    show ?thesis
    proof (cases "bx_parent r = None \<or> \<not> released_leaf r")
      case True
      with Some show ?thesis by (subst (1 2) prune_released.simps) (auto split: option.split)
    next
      case False
      then obtain p where p: "bx_parent r = Some p" "released_leaf r" by auto
      show ?thesis
      proof (cases "dhas (mg_records m) p")
        case True
        let ?n = "with_record b (\<lambda>r. r\<lparr>bx_parent := None\<rparr>) (with_record p (\<lambda>r. r\<lparr>bx_children := remove1 b (bx_children r)\<rparr>) m)"
        have "state_of ?n c = state_of m c" by (subst with_record_state, simp, subst with_record_state, simp, rule refl)
        with "1.IH" [OF Some p(1)] p Some True show ?thesis by (subst (1 2) prune_released.simps) simp
      next
        case False
        with p Some with_record_state [of "\<lambda>r. r\<lparr>bx_parent := None\<rparr>" b m c] show ?thesis by (subst (1 2) prune_released.simps) simp
      qed
    qed
  qed
qed

lemma release_one_ok:
  assumes "dget (mg_records m) b = Some r" "bx_state r \<in> set TERMINAL_STATES"
  shows "\<exists>m'. release_one b m = (Inr BRANCH_STATE_RELEASED, m') \<and> dkeys (mg_records m') = dkeys (mg_records m)
    \<and> (\<forall>c. state_of m' c = (if c = b then Some BRANCH_STATE_RELEASED else state_of m c))"
proof -
  have compact: "state_of (compact_released b n) c = state_of n c" "dkeys (mg_records (compact_released b n)) = dkeys (mg_records n)" for n c
    using prune_states [of b "with_record b (compacted n) n" c] with_record_state [of "compacted n" b n c] by (simp_all add: compact_released_def compacted_def)
  show ?thesis
  proof (cases "bx_state r = BRANCH_STATE_RELEASED")
    case True
    with assms(1) compact [of m] show ?thesis
      by (auto simp: release_one_def obind_def modify_def state_of_def)
  next
    case False
    have "bx_state r \<notin> set ACTIVE_STATES" using assms(2) by (auto simp: TERMINAL_STATES_def ACTIVE_STATES_def branch_state_defs)
    let ?n = "with_record b (\<lambda>r. r\<lparr>bx_state := BRANCH_STATE_RELEASED\<rparr>)
      (case bx_result r of None \<Rightarrow> m | Some x \<Rightarrow> (case br_lease x of None \<Rightarrow> m | Some l \<Rightarrow> on_leases (reg_invalidate_lease l) m))"
    have "release_one b m = (Inr BRANCH_STATE_RELEASED, compact_released b ?n)"
      using assms False \<open>bx_state r \<notin> set ACTIVE_STATES\<close> by (simp add: release_one_def obind_def modify_def)
    moreover have "state_of ?n c = (if c = b then Some BRANCH_STATE_RELEASED else state_of m c)" for c
      using assms(1) by (auto simp: state_of_def split: option.split)
    moreover have "dkeys (mg_records ?n) = dkeys (mg_records m)" by (auto split: option.split)
    ultimately show ?thesis using compact by auto
  qed
qed

lemma release_loop_ok:
  assumes "\<forall>b \<in> set bs. \<exists>s. state_of m b = Some s \<and> s \<in> set TERMINAL_STATES"
  shows "\<exists>v m'. release_loop bs st m = (Inr v, m') \<and> dkeys (mg_records m') = dkeys (mg_records m)
    \<and> (\<forall>c. state_of m' c = (if c \<in> set bs then Some BRANCH_STATE_RELEASED else state_of m c))"
  using assms
proof (induction bs arbitrary: st m)
  case (Cons b bs)
  then obtain r where r: "dget (mg_records m) b = Some r" "bx_state r \<in> set TERMINAL_STATES" by (auto simp: state_of_def)
  from release_one_ok [OF r] obtain m1 where m1: "release_one b m = (Inr BRANCH_STATE_RELEASED, m1)" "dkeys (mg_records m1) = dkeys (mg_records m)"
    "\<forall>c. state_of m1 c = (if c = b then Some BRANCH_STATE_RELEASED else state_of m c)" by blast
  have "\<forall>c \<in> set bs. \<exists>s. state_of m1 c = Some s \<and> s \<in> set TERMINAL_STATES"
    using Cons.prems m1(3) by (auto simp: TERMINAL_STATES_def)
  from Cons.IH [OF this, of "dset b BRANCH_STATE_RELEASED st"] m1 show ?case by auto
qed simp

lemma poll_cancellable:
  assumes "poll_inv m0 bs (m, l)" "idle_manager m0"
  shows "cancellable m" "child_of m = child_of m0"
proof -
  from assms(1) have rec: "records_inv m0 bs (m, l)" and tab: "tables_inv bs (m, l)" by simp_all
  have outside: "dget (mg_records m) b = dget (mg_records m0) b" if "b \<notin> set bs" for b
    using rec that unfolding records_inv_def fst_conv by blast
  have "stoppable m r" if r: "dget (mg_records m) b = Some r" for b r
  proof (cases "b \<in> set bs")
    case False
    with r outside assms(2) have "bx_state r \<noteq> BRANCH_STATE_RUNNING" unfolding idle_manager_def by metis
    then show ?thesis by (simp add: stoppable_def)
  next
    case True
    then obtain r1 where "dget (mg_records m) b = Some r1" "phase l b r1" by (rule polled_record [OF rec])
    with r have p: "phase l b r" by simp
    show ?thesis
      unfolding stoppable_def
    proof
      assume "bx_state r = BRANCH_STATE_RUNNING"
      with p obtain rid w where w: "running_as rid w r" "dget (po_running l) rid = Some b"
        by (auto simp: phase_def resolved_by_def final_branch_state_def branch_state_defs split: if_splits)
      obtain r2 v where v: "dget (mg_records m) b = Some r2" "running_as rid v r2" "dget (po_worker_requests l) v = Some rid"
        by (rule live_request [OF tab w(2)])
      have "v \<in> pool_workers (mg_pool m)" by (rule held_worker [OF tab v(3)])
      moreover have "po_running l \<noteq> []" using w(2) by auto
      then have "pool_ready (mg_pool m)" using tab by (simp add: tables_inv_def)
      moreover have "bx_worker r = Some v" using v(1,2) r by (simp add: running_as_def)
      ultimately show "pool_ready (mg_pool m) \<and> (\<exists>w \<in> pool_workers (mg_pool m). bx_worker r = Some w)" by blast
    qed
  qed
  moreover have kids: "map_option bx_children (dget (mg_records m) b) = map_option bx_children (dget (mg_records m0) b)" for b
  proof (cases "b \<in> set bs")
    case True
    then obtain r r0 where "dget (mg_records m) b = Some r" "dget (mg_records m0) b = Some r0" "same_links r r0" by (rule polled_record [OF rec])
    then show ?thesis by (simp add: same_links_def)
  qed (simp add: outside)
  have child: "child_of m = {(b, c). \<exists>cs. map_option bx_children (dget (mg_records m) b) = Some cs \<and> c \<in> set cs}" for m
    by (auto simp: child_of_def)
  then show same: "child_of m = child_of m0" by (simp only: kids)
  moreover have "dget (mg_records m) c \<noteq> None" if "(b, c) \<in> child_of m0" for b c
  proof -
    from assms(2) that have "dget (mg_records m0) c \<noteq> None" unfolding idle_manager_def by blast
    moreover have "dkeys (mg_records m) = dkeys (mg_records m0)" using rec unfolding records_inv_def fst_conv by (elim conjE)
    ultimately show ?thesis by (simp only: dget_iff_dkeys)
  qed
  ultimately show "cancellable m" by (simp add: cancellable_def)
qed

lemma cancelled_terminal: "bx_state (cancelled_record r) \<in> set TERMINAL_STATES"
  by (auto simp: cancelled_record_def is_gone_def TERMINAL_STATES_def)

lemma quarantine_ok:
  assumes "cancellable m" "set bs \<subseteq> set (dkeys (mg_records m))"
  shows "\<exists>m'. quarantine_poll_branches bs m = (Inr (), m') \<and> (\<forall>b. state_of m' b =
    (if b \<in> set bs then Some BRANCH_STATE_RELEASED
     else if b \<in> below m (set bs) then map_option (\<lambda>r. bx_state (cancelled_record r)) (dget (mg_records m) b) else state_of m b))"
proof (cases "bs = []")
  case True
  then show ?thesis by (simp add: quarantine_poll_branches_def below_def)
next
  case False
  have has: "filter (dhas (mg_records m)) bs = bs" using assms(2) by (intro filter_True) (auto simp only: dhas_def dget_iff_dkeys)
  obtain v m1 where c: "cancel_branches bs m = (Inr v, m1)" "cancelled_in (below m (set bs)) m m1" "same_frame m m1"
    by (rule cancel_branches_ok [OF assms])
  have at: "state_of m1 b = (if b \<in> below m (set bs) then map_option (\<lambda>r. bx_state (cancelled_record r)) (dget (mg_records m) b) else state_of m b)" for b
    using c(2) by (simp add: cancelled_in_def state_of_def option.map_comp comp_def)
  have "\<exists>s. state_of m1 b = Some s \<and> s \<in> set TERMINAL_STATES" if b: "b \<in> set bs" for b
  proof -
    from b assms(2) have "dget (mg_records m) b \<noteq> None" unfolding dget_iff_dkeys by (rule rev_subsetD)
    then obtain r where "dget (mg_records m) b = Some r" by blast
    moreover have "b \<in> below m (set bs)" using b by (auto simp: below_def)
    ultimately show ?thesis using at [of b] cancelled_terminal by simp
  qed
  with release_loop_ok [of bs m1 "[]"] obtain v' m2 where "release_branches bs m1 = (Inr v', m2)"
    "\<forall>b. state_of m2 b = (if b \<in> set bs then Some BRANCH_STATE_RELEASED else state_of m1 b)" by (auto simp: release_branches_def)
  with False has c(1) at show ?thesis by (simp add: quarantine_poll_branches_def)
qed

lemma poll_done_resolved:
  assumes "poll_inv m0 bs (m, l)" "poll_done (m, l)"
  shows "set (dkeys (po_results l)) = set bs"
    "\<And>b. b \<in> set bs \<Longrightarrow> \<exists>x r. dget (po_results l) b = Some x \<and> dget (mg_records m) b = Some r \<and> resolved_by x r"
proof -
  have rec: "records_inv m0 bs (m, l)" using assms(1) by simp
  show each: "\<exists>x r. dget (po_results l) b = Some x \<and> dget (mg_records m) b = Some r \<and> resolved_by x r" if b: "b \<in> set bs" for b
  proof -
    obtain r where "dget (mg_records m) b = Some r" "phase l b r" by (rule polled_record [OF rec b])
    with assms(2) show ?thesis by (auto simp: phase_def poll_done_def)
  qed
  have "set (dkeys (po_results l)) \<subseteq> set bs" using rec unfolding records_inv_def snd_conv by (elim conjE)
  moreover have "b \<in> set (dkeys (po_results l))" if "b \<in> set bs" for b
    using each [OF that] unfolding dget_iff_dkeys [symmetric] by auto
  ultimately show "set (dkeys (po_results l)) = set bs" by blast
qed

section \<open>Properties\<close>

definition two_branch_manager :: "root \<Rightarrow> branch_manager" where
  "two_branch_manager rt =
     \<lparr> mg_max = 4,
       mg_records = [(''branch-1'', (queued_record (sample_item ''sub_branch'') None)\<lparr>bx_children := [''branch-2'']\<rparr>),
         (''branch-2'', queued_record ((sample_item ''sub_branch'')\<lparr>wi_id := ''w2'', wi_context := sample_context\<lparr>dc_root := rt\<rparr>\<rparr>) (Some ''branch-1''))],
       mg_requests = [], mg_serial = 2, mg_bootstrap = 0, mg_pool = (two_workers, []), mg_reads = 0 \<rparr>"

lemma two_branches:
  "dget (mg_records (two_branch_manager rt)) b = Some r \<Longrightarrow> bx_state r = BRANCH_STATE_QUEUED"
  "idle_manager (two_branch_manager rt)" "polled_branches (two_branch_manager rt) None = Inr [''branch-1'', ''branch-2'']"
proof -
  let ?m = "two_branch_manager rt"
  have r: "dget (mg_records ?m) b = Some r \<Longrightarrow>
      (b = ''branch-1'' \<or> b = ''branch-2'') \<and> bx_state r = BRANCH_STATE_QUEUED \<and> bx_item r \<noteq> None \<and> bx_result r = None \<and> set (bx_children r) \<subseteq> {''branch-2''}"
    for b r by (auto simp: two_branch_manager_def queued_record_def split: if_splits)
  then show "dget (mg_records ?m) b = Some r \<Longrightarrow> bx_state r = BRANCH_STATE_QUEUED" for b r by blast
  have "dget (mg_records ?m) c \<noteq> None" if "(b, c) \<in> child_of ?m" for b c
  proof -
    from that r have "c = ''branch-2''" by (fastforce simp: child_of_def)
    then show ?thesis by (simp add: two_branch_manager_def)
  qed
  moreover have "BRANCH_STATE_QUEUED \<noteq> BRANCH_STATE_RUNNING" by (simp add: branch_state_defs)
  moreover have "distinct (dkeys (mg_records ?m))" "mg_requests ?m = []" by (simp_all add: two_branch_manager_def)
  ultimately show "idle_manager ?m" unfolding idle_manager_def using r by (metis (no_types))
  show "polled_branches ?m None = Inr [''branch-1'', ''branch-2'']"
    by (simp add: polled_branches_def two_branch_manager_def queued_record_def)
qed

text \<open>
  C30.  Cancelling reaches exactly the descendants: it visits the branches below the given ones in
  the tree of branches, each once, stops those that run, drops the results of those that ended,
  leaves every other branch as it was and reports the states it leaves.
\<close>

theorem cancel_reaches_descendants:
  assumes "cancellable m" "set bs \<subseteq> set (dkeys (mg_records m))"
  shows "\<exists>v m'. cancel_branches bs m = (Inr v, m') \<and> set (dkeys v) = below m (set bs)
    \<and> (\<forall>b. dget (mg_records m') b =
        (if b \<in> below m (set bs) then map_option cancelled_record (dget (mg_records m) b) else dget (mg_records m) b))
    \<and> (\<forall>b \<in> below m (set bs). dget v b = state_of m' b)"
proof -
  obtain v m' where v: "cancel_branches bs m = (Inr v, m')" "set (dkeys v) = below m (set bs)" "cancelled_in (below m (set bs)) m m'"
    "\<And>b. b \<in> below m (set bs) \<Longrightarrow> dget v b = map_option bx_state (dget (mg_records m') b)" by (rule cancel_branches_ok [OF assms]) blast
  from v(3) have "\<forall>b. dget (mg_records m') b =
      (if b \<in> below m (set bs) then map_option cancelled_record (dget (mg_records m) b) else dget (mg_records m) b)"
    unfolding cancelled_in_def .
  moreover have "\<forall>b \<in> below m (set bs). dget v b = state_of m' b" using v(4) unfolding state_of_def by blast
  ultimately show ?thesis using v(1,2) by blast
qed

lemma two_cancellable: "cancellable (two_branch_manager rt)"
proof -
  have "stoppable (two_branch_manager rt) r" if "dget (mg_records (two_branch_manager rt)) b = Some r" for b r
    using two_branches(1) [OF that] by (simp add: stoppable_def branch_state_defs)
  with two_branches(2) [of rt] show ?thesis by (auto simp: cancellable_def idle_manager_def)
qed

theorem cancel_reaches_descendants_witness:
  "\<exists>v m'. cancel_branches [''branch-1''] (two_branch_manager (Json_dict [])) = (Inr v, m') \<and> ''branch-2'' \<in> set (dkeys v)"
proof -
  have "(''branch-1'', ''branch-2'') \<in> child_of (two_branch_manager (Json_dict []))" by (simp add: child_of_def two_branch_manager_def)
  then have "''branch-2'' \<in> below (two_branch_manager (Json_dict [])) (set [''branch-1''])" by (auto simp: below_def)
  moreover have "set [''branch-1''] \<subseteq> set (dkeys (mg_records (two_branch_manager (Json_dict []))))" by (simp add: two_branch_manager_def)
  ultimately show ?thesis using cancel_reaches_descendants [OF two_cancellable] by metis
qed

text \<open>What a poll of some branches comes to after a number of settling events.\<close>

definition poll_outcome :: "nat \<Rightarrow> string list \<Rightarrow> (string, branch_result) dict res option \<Rightarrow> branch_manager \<Rightarrow> bool" where
  "poll_outcome n bs out m \<longleftrightarrow> (case out of
       None \<Rightarrow> n < length bs
     | Some (Inl e) \<Rightarrow> False
     | Some (Inr res) \<Rightarrow> set (dkeys res) = set bs
         \<and> (\<forall>b \<in> set bs. \<exists>x r. dget res b = Some x \<and> dget (mg_records m) b = Some r \<and> resolved_by x r))"

text \<open>
  C29.  A poll answers what it selected: on an open pool with workers, it raises nothing, leaves all
  other branches alone, and once as many events of the queue as there are selected branches have
  answered a live request or come after a deadline, it has returned one result for each selected branch
  and no other, which the record of the branch keeps with the state that matches its status.
\<close>

theorem poll_answers_selected:
  assumes "idle_manager m" "polled_branches m ids = Inr bs" "0 < pe_timeout env" "pool_ready (mg_pool m)" "pool_workers (mg_pool m) \<noteq> {}"
    "sendable env m bs" "list_all genuine events"
  shows "\<exists>out m'. poll env ids events m = (out, m') \<and> (\<forall>b. b \<notin> set bs \<longrightarrow> dget (mg_records m') b = dget (mg_records m) b)
    \<and> poll_outcome (settled_events env events (snd (dispatch_available env (m, new_poll_locals bs)))) bs out m'"
proof -
  have "poll_live env m bs (m, new_poll_locals bs)"
    unfolding poll_live_def using poll_start [OF assms(2,1)] assms(4-6) by simp
  from dispatch_ok [OF this] obtain s where s: "dispatch_available env (m, new_poll_locals bs) = (Inr (), s)" "poll_live env m bs s"
    "po_results (snd s) = []" by (auto simp: new_poll_locals_def)
  from s(3) polled_branches_ok(1) [OF assms(2,1)] have n: "unresolved bs s = length bs" by (simp add: unresolved_def distinct_card)
  from poll_loop_ok [OF s(2) assms(7)] obtain out z where z: "poll_loop env events s = (out, z)" "poll_live env m bs z"
    "case out of None \<Rightarrow> settled_events env events s < unresolved bs s | Some (Inl x) \<Rightarrow> False
      | Some (Inr res) \<Rightarrow> res = po_results (snd z) \<and> poll_done z" by (elim exE conjE)
  obtain m' l' where m': "z = (m', l')" by (rule prod.exhaust)
  have inv: "poll_inv m bs (m', l')" using poll_live_inv [OF z(2)] m' by simp
  have "poll env ids events m = (out, m')"
    using assms(2,3) s(1) z(1,3) m' by (auto simp: poll_def split: option.splits sum.splits)
  moreover have "\<forall>b. b \<notin> set bs \<longrightarrow> dget (mg_records m') b = dget (mg_records m) b"
    using inv unfolding records_inv_def fst_conv by (elim conjE)
  moreover have "poll_outcome (settled_events env events s) bs out m'"
    unfolding poll_outcome_def using z(3) poll_done_resolved [OF inv] n m' by (auto split: option.splits sum.splits)
  ultimately show ?thesis unfolding s(1) snd_conv by blast
qed

definition sample_poll_env :: poll_env where
  "sample_poll_env = \<lparr> pe_sha = (\<lambda>_. ''h''), pe_traceback = [], pe_ipc = True, pe_clock = (\<lambda>_. 0), pe_timeout = 30 \<rparr>"

definition sample_replies :: "queue_event list" where
  "sample_replies = [Reply 2 sample_fault, Reply 7 sample_fault, Queue_empty, Reply 1 sample_fault]"

theorem poll_answers_selected_witness:
  "\<exists>out m'. poll sample_poll_env None sample_replies (two_branch_manager (Json_dict [])) = (out, m')
    \<and> poll_outcome (settled_events sample_poll_env sample_replies
        (snd (dispatch_available sample_poll_env (two_branch_manager (Json_dict []), new_poll_locals [''branch-1'', ''branch-2'']))))
        [''branch-1'', ''branch-2''] out m'"
proof -
  have g: "list_all genuine sample_replies"
    by (simp add: sample_replies_def genuine_def sample_fault_def well_formed_result_def status_defs)
  have s: "sendable sample_poll_env (two_branch_manager (Json_dict [])) [''branch-1'', ''branch-2'']"
    by (simp add: sendable_def two_branch_manager_def queued_record_def work_item_for_ipc_def search_root_def json_search_root_def Let_def
        sample_item_def sample_context_def)
  have p: "0 < pe_timeout sample_poll_env" "pool_ready (mg_pool (two_branch_manager (Json_dict [])))"
    "pool_workers (mg_pool (two_branch_manager (Json_dict []))) \<noteq> {}"
    by (simp_all add: sample_poll_env_def two_branch_manager_def two_workers_def pool_ready_def)
  from poll_answers_selected [OF two_branches(2,3) p s g] show ?thesis by blast
qed

text \<open>
  C31.  A poll that raises quarantines what it polled: every selected branch ends released, no branch
  is left running, and no branch outside the tree below the selected ones changes its state.
\<close>

theorem failed_poll_releases:
  assumes "idle_manager m" "polled_branches m ids = Inr bs" "0 < pe_timeout env" "list_all genuine events"
    "poll env ids events m = (Some (Inl e), m')"
  shows "(\<forall>b \<in> set bs. state_of m' b = Some BRANCH_STATE_RELEASED) \<and> (\<forall>b. state_of m' b \<noteq> Some BRANCH_STATE_RUNNING)
    \<and> (\<forall>b. b \<notin> below m (set bs) \<longrightarrow> state_of m' b = state_of m b)"
proof -
  note start = poll_start [OF assms(2,1)]
  obtain x s1 where d: "dispatch_available env (m, new_poll_locals bs) = (x, s1)" by (rule prod.exhaust)
  have i1: "poll_inv m bs s1" by (rule dispatch_available_inv [OF d start])
  obtain out s2 where l: "poll_loop env events s1 = (out, s2)" by (rule prod.exhaust)
  have i2: "poll_inv m bs s2" by (rule poll_loop_inv [OF l i1 assms(4)])
  have "\<exists>s. (s = s1 \<or> s = s2) \<and> snd (quarantine_poll_branches bs (fst s)) = m'"
  proof (cases x)
    case (Inl y)
    with assms(2,3,5) d show ?thesis by (intro exI [of _ s1]) (auto simp: poll_def split: prod.splits sum.splits)
  next
    case (Inr u)
    with assms(2,3,5) d l obtain y where "out = Some (Inl y)" by (auto simp: poll_def split: option.splits sum.splits)
    with Inr assms(2,3,5) d l show ?thesis by (intro exI [of _ s2]) (auto simp: poll_def split: prod.splits sum.splits)
  qed
  then obtain s where s: "s = s1 \<or> s = s2" "snd (quarantine_poll_branches bs (fst s)) = m'" by blast
  obtain n l where n: "s = (n, l)" by (rule prod.exhaust)
  have inv: "poll_inv m bs (n, l)" using s(1) i1 i2 n by metis
  then have keys: "dkeys (mg_records n) = dkeys (mg_records m)" unfolding records_inv_def fst_conv by (elim conjE)
  from inv have outside: "\<forall>b. b \<notin> set bs \<longrightarrow> dget (mg_records n) b = dget (mg_records m) b" unfolding records_inv_def fst_conv by (elim conjE)
  note c = poll_cancellable [OF inv assms(1)]
  have "set bs \<subseteq> set (dkeys (mg_records n))"
  proof
    fix b
    assume "b \<in> set bs"
    with polled_branches_ok(2) [OF assms(2,1)] obtain r where "dget (mg_records m) b = Some r" unfolding is_queued_def by blast
    then show "b \<in> set (dkeys (mg_records n))" unfolding keys by (rule known_key)
  qed
  from quarantine_ok [OF c(1) this] s(2) n have q: "\<forall>b. state_of m' b =
    (if b \<in> set bs then Some BRANCH_STATE_RELEASED
     else if b \<in> below n (set bs) then map_option (\<lambda>r. bx_state (cancelled_record r)) (dget (mg_records n) b) else state_of n b)" by auto
  have below: "below n (set bs) = below m (set bs)" by (simp add: below_def c(2))
  have rest: "state_of n b = state_of m b" "state_of m b \<noteq> Some BRANCH_STATE_RUNNING" if "b \<notin> set bs" for b
    using outside that assms(1) by (auto simp: state_of_def idle_manager_def)
  have "b \<notin> below m (set bs) \<Longrightarrow> b \<notin> set bs" for b by (auto simp: below_def)
  with q below rest show ?thesis
    by (auto simp: cancelled_not_running) (simp add: branch_state_defs)
qed

theorem failed_poll_releases_witness:
  "\<exists>e m'. poll sample_poll_env None [] (two_branch_manager (Other_dataclass ''X'')) = (Some (Inl e), m')
    \<and> state_of m' ''branch-1'' = Some BRANCH_STATE_RELEASED \<and> state_of m' ''branch-2'' = Some BRANCH_STATE_RELEASED"
proof -
  let ?r = "poll sample_poll_env None [] (two_branch_manager (Other_dataclass ''X''))"
  have "(case fst ?r of Some (Inl e) \<Rightarrow> True | _ \<Rightarrow> False)" by code_simp
  then obtain e m' where run: "?r = (Some (Inl e), m')" by (cases ?r) (auto split: option.splits sum.splits)
  have "0 < pe_timeout sample_poll_env" "list_all genuine []" by (simp_all add: sample_poll_env_def)
  from failed_poll_releases [OF two_branches(2,3) this run] run show ?thesis by simp
qed
end
