(* ===== verification/Multi_Round.thy ===== *)
theory Multi_Round
  imports Search_Coordinator
begin

text \<open>
  The multi-round search: \<open>Combat/search/multi_round_search.py\<close>, a beam search over chains of
  decisions on top of the helpers of the search coordinator.

  A beam is a decision context with the score and the root keys of the steps that led to it.  Every
  round expands the beams, keeps the best \<open>beam_width\<close> expansions and sorts the ended ones out.  The
  restore of a child snapshot is a parameter, as is the dispatch of a batch.  The plan of a completed
  beam is kept as planned steps: its last step may carry no expected signature, and only the steps are
  read.
\<close>

section \<open>Beams\<close>

record beam_config =
  bf_coordinator :: search_config
  bf_width :: int
  bf_rounds :: int

definition default_beam_config :: beam_config where
  "default_beam_config = \<lparr> bf_coordinator = default_search_config, bf_width = 2, bf_rounds = 2 \<rparr>"

definition beam_config_checked :: "beam_config \<Rightarrow> beam_config res" where
  "beam_config_checked c = (if bf_width c \<le> 0 then value_error ''beam_width must be positive''
     else if bf_rounds c \<le> 0 then value_error ''max_rounds must be positive'' else Inr c)"

record beam_entry =
  be_context :: decision_context
  be_score :: rat
  be_key :: "string list"

record completed_beam =
  cb_path :: "planned_step list"
  cb_score :: rat
  cb_key :: "string list"
  cb_reason :: string

record expansion =
  ex_parent :: beam_entry
  ex_branch :: branch_result
  ex_entry :: prefix_entry
  ex_round :: rat
  ex_root :: string

definition expansion_path :: "expansion \<Rightarrow> prefix_entry list" where
  "expansion_path x = dc_plan (be_context (ex_parent x)) @ [ex_entry x]"

definition expansion_score :: "expansion \<Rightarrow> rat" where
  "expansion_score x = be_score (ex_parent x) + ex_round x"

definition expansion_key :: "expansion \<Rightarrow> string list" where
  "expansion_key x = be_key (ex_parent x) @ [ex_root x]"

definition planned_of_entry :: "prefix_entry \<Rightarrow> planned_step" where
  "planned_of_entry e = \<lparr> pl_action = rp_action e, pl_target = rp_target e, pl_enemy = rp_enemy e, pl_expected = Some (rp_expected e) \<rparr>"

definition planned_sequence_from_path :: "prefix_entry list \<Rightarrow> planned_step list" where
  "planned_sequence_from_path path = map planned_of_entry path"

definition completed_from_expansion :: "string \<Rightarrow> expansion \<Rightarrow> completed_beam" where
  "completed_from_expansion reason x = \<lparr> cb_path = planned_sequence_from_path (expansion_path x), cb_score = expansion_score x,
     cb_key = expansion_key x, cb_reason = reason \<rparr>"

definition completed_from_beam :: "string \<Rightarrow> beam_entry \<Rightarrow> completed_beam" where
  "completed_from_beam reason b = \<lparr> cb_path = planned_sequence_from_path (dc_plan (be_context b)), cb_score = be_score b,
     cb_key = be_key b, cb_reason = reason \<rparr>"

definition rank_completed :: "completed_beam \<Rightarrow> rat \<times> nat \<times> string list" where
  "rank_completed c = (- cb_score c, length (cb_path c), cb_key c)"

definition rank_expansion :: "expansion \<Rightarrow> rat \<times> nat \<times> string list" where
  "rank_expansion x = (- expansion_score x, length (expansion_path x), expansion_key x)"

definition entry_from_branch :: "pipeline_ref \<Rightarrow> decision_signature option \<Rightarrow> prefix_entry res" where
  "entry_from_branch c g = (case g of
       None \<Rightarrow> value_error ''cannot build a ReplayPrefixEntry without a result signature''
     | Some g \<Rightarrow> Inr \<lparr> rp_action = pr_action c, rp_expected = g, rp_target = pr_target c, rp_enemy = pr_enemy c, rp_constraints = [],
         rp_blocked = False, rp_error = None \<rparr>)"

section \<open>One beam\<close>

definition completed_from_decision :: "beam_entry \<Rightarrow> aggregation \<Rightarrow> commit_decision \<Rightarrow> completed_beam res" where
  "completed_from_decision b ag d = (case d of
       Commit_main_fault _ _ \<Rightarrow> runtime_error ''unexpected Main invariant outcome from local hypothesis commit''
     | Commit_search (Search_evaluation_failure _) \<Rightarrow> Inr (completed_from_beam ''hypothesis_zero_viable'' b)
     | Commit_search (Search_success ps) \<Rightarrow> (case ag_best ag of
           None \<Rightarrow> Inl (PyExc ''AssertionError'' [])
         | Some best \<Rightarrow> (case ps of
             [] \<Rightarrow> Inl (PyExc ''IndexError'' ''list index out of range'')
           | p # _ \<Rightarrow> Inr \<lparr> cb_path = planned_sequence_from_path (dc_plan (be_context b)) @ [p], cb_score = be_score b + ra_score best,
               cb_key = be_key b @ [ra_root best], cb_reason = ''hypothesis_required'' \<rparr>)))"

definition completed_hypothesis_round ::
  "'g search_env \<Rightarrow> (work_item list \<Rightarrow> ('s, branch_result list) stateop) \<Rightarrow> search_config \<Rightarrow> beam_entry \<Rightarrow> pipeline_ref list
   \<Rightarrow> ('s search_state, completed_beam) stateop" where
  "completed_hypothesis_round env dispatch config b cs =
     obind (olift (hypothesis_work_items env config (be_context b) cs)) (\<lambda>(items, _).
     obind (dispatch_work_items_until_final dispatch (sf_max_retries config) items) (\<lambda>outcomes.
     obind (olift (outcome_entries (se_sha env) None outcomes)) (\<lambda>es.
     obind (olift (aggregate_hypothesis_results (sf_min_coverage config) es)) (\<lambda>ag.
     obind (build_commit_decision ag True (oreturn True)) (\<lambda>d. olift (completed_from_decision b ag d))))))"

text \<open>The expansions of the viable actions; the branches and candidates are looked up by work id.\<close>

fun expand_actions ::
  "beam_entry \<Rightarrow> (string, branch_result) dict \<Rightarrow> (string, pipeline_ref) dict \<Rightarrow> root_aggregation list \<Rightarrow> expansion list res" where
  "expand_actions b branches candidates [] = Inr []"
| "expand_actions b branches candidates (a # as) = (let i = le_work (ra_entry a) in case dget branches i of
       None \<Rightarrow> Inl (PyExc ''KeyError'' (repr_str i))
     | Some r \<Rightarrow>
         if br_status r \<noteq> BRANCH_STATUS_SUCCESS then expand_actions b branches candidates as
         else (case dget candidates i of
             None \<Rightarrow> Inl (PyExc ''KeyError'' (repr_str i))
           | Some c \<Rightarrow> sbind (entry_from_branch c (br_signature r)) (\<lambda>e. sbind (expand_actions b branches candidates as) (\<lambda>xs.
               Inr (\<lparr> ex_parent = b, ex_branch = r, ex_entry = e, ex_round = ra_score a, ex_root = ra_root a \<rparr> # xs)))))"

definition plain_round_expansions ::
  "'g search_env \<Rightarrow> (work_item list \<Rightarrow> ('s, branch_result list) stateop) \<Rightarrow> search_config \<Rightarrow> beam_entry \<Rightarrow> pipeline_ref list
   \<Rightarrow> ('s search_state, expansion list) stateop" where
  "plain_round_expansions env dispatch config b cs =
     obind (olift (plain_work_items env (be_context b) cs)) (\<lambda>items.
     obind (dispatch_work_items_until_final dispatch (sf_max_retries config) items) (\<lambda>outcomes.
     obind (olift (outcome_entries (se_sha env) None outcomes)) (\<lambda>es.
     obind (olift (aggregate_plain_results es)) (\<lambda>ag.
       olift (expand_actions b (dupdate [] (map (\<lambda>(w, r, _). (wi_id w, r)) outcomes))
         (dupdate [] (map (\<lambda>(w, _, _). (wi_id w, wi_candidate w)) outcomes)) (ag_viable ag))))))"

section \<open>Rounds\<close>

record beam_locals =
  bl_completed :: "completed_beam list"
  bl_viable :: bool
  bl_expansions :: "expansion list"

definition complete :: "completed_beam \<Rightarrow> beam_locals \<Rightarrow> beam_locals" where
  "complete c loc = loc\<lparr>bl_completed := bl_completed loc @ [c]\<rparr>"

definition beam_step ::
  "'g search_env \<Rightarrow> (work_item list \<Rightarrow> ('s, branch_result list) stateop) \<Rightarrow> search_config \<Rightarrow> bool \<Rightarrow> beam_entry \<Rightarrow> beam_locals
   \<Rightarrow> ('s search_state, beam_locals) stateop" where
  "beam_step env dispatch config is_first b loc =
     obind (olift (build_candidate_pipeline_result (sf_width config) None (be_context b))) (\<lambda>pipeline. case pipeline of
       No_viable_candidates _ _ _ \<Rightarrow>
         oreturn (if is_first \<and> \<not> bl_viable loc then loc else complete (completed_from_beam ''no_viable_candidates'' b) loc)
     | Pipeline_success _ _ _ _ _ \<Rightarrow>
         obind (olift (batch_requires_hypothesis (be_context b) (candidate_batch pipeline))) (\<lambda>involved.
         if involved
         then obind (completed_hypothesis_round env dispatch config b (candidate_batch pipeline)) (\<lambda>c.
              oreturn (complete c (loc\<lparr>bl_viable := True\<rparr>)))
         else obind (plain_round_expansions env dispatch config b (candidate_batch pipeline)) (\<lambda>xs.
              oreturn (if xs \<noteq> [] then loc\<lparr>bl_viable := True, bl_expansions := bl_expansions loc @ xs\<rparr>
                       else if is_first then loc else complete (completed_from_beam ''zero_successful_plain_results'' b) loc))))"

fun beam_steps ::
  "'g search_env \<Rightarrow> (work_item list \<Rightarrow> ('s, branch_result list) stateop) \<Rightarrow> search_config \<Rightarrow> bool \<Rightarrow> beam_entry list \<Rightarrow> beam_locals
   \<Rightarrow> ('s search_state, beam_locals) stateop" where
  "beam_steps env dispatch config is_first [] loc = oreturn loc"
| "beam_steps env dispatch config is_first (b # bs) loc =
     obind (beam_step env dispatch config is_first b loc) (beam_steps env dispatch config is_first bs)"

datatype survivor = Ends completed_beam | Goes_on beam_entry

definition settle_survivor :: "(root \<Rightarrow> ('s, battle_state) stateop) \<Rightarrow> bool \<Rightarrow> expansion \<Rightarrow> ('s, survivor) stateop" where
  "settle_survivor load is_last x = (case br_signature (ex_branch x) of
       None \<Rightarrow> olift (value_error ''successful expansion did not carry result_signature'')
     | Some g \<Rightarrow>
         if sg_boundary g = BOUNDARY_TERMINAL then oreturn (Ends (completed_from_expansion ''terminal_boundary'' x))
         else if sg_boundary g = BOUNDARY_PENDING
         then (if is_last then oreturn (Ends (completed_from_expansion ''max_rounds'' x))
               else (case br_pending_context (ex_branch x) of
                   None \<Rightarrow> olift (value_error ''Pending expansion did not carry pending_decision_context'')
                 | Some ctx \<Rightarrow> oreturn (Goes_on \<lparr> be_context = ctx\<lparr>dc_plan := expansion_path x\<rparr>, be_score = expansion_score x,
                     be_key = expansion_key x \<rparr>)))
         else (case br_child (ex_branch x) of
             None \<Rightarrow> oreturn (Ends (completed_from_expansion ''non_stable_boundary'' x))
           | Some child \<Rightarrow>
               if sg_boundary g \<noteq> BOUNDARY_STABLE then oreturn (Ends (completed_from_expansion ''non_stable_boundary'' x))
               else if is_last then oreturn (Ends (completed_from_expansion ''max_rounds'' x))
               else obind (load child) (\<lambda>state.
                 oreturn (Goes_on \<lparr> be_context = from_prev_child child state g (expansion_path x), be_score = expansion_score x,
                   be_key = expansion_key x \<rparr>))))"

fun settle_survivors :: "(root \<Rightarrow> ('s, battle_state) stateop) \<Rightarrow> bool \<Rightarrow> expansion list \<Rightarrow> ('s, survivor list) stateop" where
  "settle_survivors load is_last [] = oreturn []"
| "settle_survivors load is_last (x # xs) =
     obind (settle_survivor load is_last x) (\<lambda>y. obind (settle_survivors load is_last xs) (\<lambda>ys. oreturn (y # ys)))"

definition ended :: "survivor list \<Rightarrow> completed_beam list" where
  "ended ys = List.map_filter (\<lambda>y. case y of Ends c \<Rightarrow> Some c | Goes_on _ \<Rightarrow> None) ys"

definition going_on :: "survivor list \<Rightarrow> beam_entry list" where
  "going_on ys = List.map_filter (\<lambda>y. case y of Ends _ \<Rightarrow> None | Goes_on b \<Rightarrow> Some b) ys"

text \<open>The rounds that are left, and whether the next one is the first.  A round without expansions keeps its beams.\<close>

fun beam_rounds ::
  "'g search_env \<Rightarrow> (work_item list \<Rightarrow> ('s, branch_result list) stateop) \<Rightarrow> (root \<Rightarrow> ('s, battle_state) stateop) \<Rightarrow> beam_config
   \<Rightarrow> nat \<Rightarrow> bool \<Rightarrow> beam_entry list \<Rightarrow> beam_locals \<Rightarrow> ('s search_state, beam_entry list \<times> beam_locals) stateop" where
  "beam_rounds env dispatch load config 0 is_first active loc = oreturn (active, loc)"
| "beam_rounds env dispatch load config (Suc n) is_first active loc =
     obind (beam_steps env dispatch (bf_coordinator config) is_first active (loc\<lparr>bl_expansions := []\<rparr>)) (\<lambda>loc.
     if bl_expansions loc = [] then oreturn (active, loc)
     else obind (on_pool (settle_survivors load (n = 0) (take (nat (bf_width config)) (sort_key rank_expansion (bl_expansions loc))))) (\<lambda>ys.
       let loc' = loc\<lparr>bl_completed := bl_completed loc @ ended ys\<rparr> in
       if going_on ys = [] then oreturn ([], loc')
       else beam_rounds env dispatch load config n False (going_on ys) loc'))"

section \<open>The strategy\<close>

text \<open>What the strategy does at its end; a moved Main is raised as \<open>MainInvariantViolatedError\<close>.\<close>

datatype beam_end =
    Beam_result search_result
  | Beam_violated main_fault_outcome invariant_check

definition beam_violation :: "invariant_check \<Rightarrow> beam_end res" where
  "beam_violation c = sbind (main_fault_checked \<lparr> mf_source = SRC_MAIN_INVARIANT,
       mf_detail = ''Main state identity changed during multi-round search aggregation; mismatches='' @ mismatch_text (ic_mismatches c) \<rparr>)
     (\<lambda>m. Inr (Beam_violated m c))"

definition best_completed :: "completed_beam list \<Rightarrow> completed_beam" where
  "best_completed cs = hd (sort_key rank_completed cs)"

definition all_completed :: "beam_entry list \<Rightarrow> beam_locals \<Rightarrow> completed_beam list" where
  "all_completed active loc =
     bl_completed loc @ map (completed_from_beam ''exhausted_active'') (filter (\<lambda>b. dc_plan (be_context b) \<noteq> []) active)"

definition commit_best ::
  "'g search_env \<Rightarrow> ('s search_state, 'm main_state) stateop option \<Rightarrow> decision_context \<Rightarrow> completed_beam list \<Rightarrow> ('s search_state, beam_end) stateop" where
  "commit_best env provider ctx cs =
     (let best = oreturn (Beam_result (Search_success (cb_path (best_completed cs)))) in
      case provider of
        None \<Rightarrow> best
      | Some p \<Rightarrow> obind p (\<lambda>live. obind (olift (check_main_invariant (se_sha env) ctx live)) (\<lambda>c.
          if ic_ok c then best else olift (beam_violation c))))"

definition beam_search_strategy ::
  "'g search_env \<Rightarrow> (work_item list \<Rightarrow> ('s, branch_result list) stateop) \<Rightarrow> (root \<Rightarrow> ('s, battle_state) stateop)
   \<Rightarrow> ('s search_state, 'm main_state) stateop option \<Rightarrow> beam_config \<Rightarrow> decision_context \<Rightarrow> ('s search_state, beam_end) stateop" where
  "beam_search_strategy env dispatch load provider config ctx =
     obind (beam_rounds env dispatch load config (nat (bf_rounds config)) True [\<lparr> be_context = ctx, be_score = 0, be_key = [] \<rparr>]
       \<lparr> bl_completed = [], bl_viable = False, bl_expansions = [] \<rparr>) (\<lambda>(active, loc).
     let cs = all_completed active loc in
     if \<not> bl_viable loc then oreturn (Beam_result (Search_evaluation_failure ''search evaluation produced zero viable Root Actions''))
     else if cs = [] then oreturn (Beam_result (Search_evaluation_failure ''search evaluation produced zero completed beam entries''))
     else commit_best env provider ctx cs)"

section \<open>Lemmas\<close>

lemma best_completed_rank:
  assumes "cs \<noteq> []"
  shows "best_completed cs \<in> set cs" "\<And>c. c \<in> set cs \<Longrightarrow> rank_completed (best_completed cs) \<le> rank_completed c"
proof -
  obtain b bs where s: "sort_key rank_completed cs = b # bs" using assms by (cases "sort_key rank_completed cs") (auto dest: arg_cong [of _ _ length])
  then have "set cs = insert b (set bs)" by (metis list.simps(15) set_sort)
  moreover have "sorted (map rank_completed (b # bs))" by (metis s sorted_sort_key)
  ultimately show "best_completed cs \<in> set cs" "\<And>c. c \<in> set cs \<Longrightarrow> rank_completed (best_completed cs) \<le> rank_completed c"
    using s by (auto simp: best_completed_def)
qed

lemma commit_best_success:
  assumes "commit_best env (Some provider) ctx cs x = (Inr (Beam_result (Search_success ps)), s')"
  obtains live c where "ps = cb_path (best_completed cs)" "provider x = (Inr live, s')" "check_main_invariant (se_sha env) ctx live = Inr c" "ic_ok c"
  using assms by (auto simp: commit_best_def Let_def obind_Inr olift_def beam_violation_def sbind_eq_Inr split: if_splits)

lemma strategy_success:
  assumes "beam_search_strategy env dispatch load provider config ctx s = (Inr (Beam_result (Search_success ps)), s')"
  obtains active loc x where
    "beam_rounds env dispatch load config (nat (bf_rounds config)) True [\<lparr> be_context = ctx, be_score = 0, be_key = [] \<rparr>]
       \<lparr> bl_completed = [], bl_viable = False, bl_expansions = [] \<rparr> s = (Inr (active, loc), x)"
    "all_completed active loc \<noteq> []" "commit_best env provider ctx (all_completed active loc) x = (Inr (Beam_result (Search_success ps)), s')"
  using assms by (auto simp: beam_search_strategy_def Let_def obind_Inr split: if_splits)

text \<open>Plans that continue a path by at most \<open>k\<close> steps.\<close>

definition plan_within :: "prefix_entry list \<Rightarrow> nat \<Rightarrow> planned_step list \<Rightarrow> bool" where
  "plan_within base k ps \<longleftrightarrow> (\<exists>qs. ps = planned_sequence_from_path base @ qs \<and> length qs \<le> k)"

definition beam_within :: "prefix_entry list \<Rightarrow> nat \<Rightarrow> beam_entry \<Rightarrow> bool" where
  "beam_within base k b \<longleftrightarrow> (\<exists>es. dc_plan (be_context b) = base @ es \<and> length es \<le> k)"

definition locals_within :: "prefix_entry list \<Rightarrow> nat \<Rightarrow> beam_locals \<Rightarrow> bool" where
  "locals_within base k loc \<longleftrightarrow> list_all (\<lambda>c. plan_within base (k + 1) (cb_path c)) (bl_completed loc)
     \<and> list_all (\<lambda>x. beam_within base k (ex_parent x)) (bl_expansions loc)"

lemma plan_within_mono: "plan_within base k ps \<Longrightarrow> k \<le> m \<Longrightarrow> plan_within base m ps"
  by (auto simp: plan_within_def)

lemma beam_within_mono: "beam_within base k b \<Longrightarrow> k \<le> m \<Longrightarrow> beam_within base m b"
  by (auto simp: beam_within_def)

lemma completed_within:
  "beam_within base k b \<Longrightarrow> plan_within base k (cb_path (completed_from_beam reason b))"
  "beam_within base k (ex_parent x) \<Longrightarrow> plan_within base (k + 1) (cb_path (completed_from_expansion reason x))"
  by (auto simp: beam_within_def plan_within_def completed_from_beam_def completed_from_expansion_def planned_sequence_from_path_def expansion_path_def)

lemma expand_parent: "expand_actions b branches candidates as = Inr xs \<Longrightarrow> x \<in> set xs \<Longrightarrow> ex_parent x = b"
  by (induction as arbitrary: xs) (auto simp: Let_def sbind_eq_Inr split: option.splits if_splits)

lemma plain_parent: "plain_round_expansions env dispatch config b cs s = (Inr xs, s') \<Longrightarrow> x \<in> set xs \<Longrightarrow> ex_parent x = b"
  by (auto simp: plain_round_expansions_def obind_Inr olift_def dest: expand_parent)

lemma decision_within:
  assumes "completed_from_decision b ag d = Inr c" "beam_within base k b"
  shows "plan_within base (k + 1) (cb_path c)"
proof (cases "c = completed_from_beam ''hypothesis_zero_viable'' b")
  case True
  with plan_within_mono [OF completed_within(1) [OF assms(2)]] show ?thesis by simp
next
  case False
  with assms(1) obtain p where "cb_path c = planned_sequence_from_path (dc_plan (be_context b)) @ [p]"
    by (auto simp: completed_from_decision_def runtime_error_def split: commit_decision.splits search_result.splits option.splits list.splits)
  with assms(2) show ?thesis by (auto simp: beam_within_def plan_within_def planned_sequence_from_path_def)
qed

lemma hypothesis_within:
  assumes "completed_hypothesis_round env dispatch config b cs s = (Inr c, s')" "beam_within base k b"
  shows "plan_within base (k + 1) (cb_path c)"
proof -
  from assms(1) obtain ag d where "completed_from_decision b ag d = Inr c"
    by (auto simp: completed_hypothesis_round_def obind_Inr olift_def split: prod.splits)
  from this assms(2) show ?thesis by (rule decision_within)
qed

lemma complete_within: "locals_within base k loc \<Longrightarrow> plan_within base (k + 1) (cb_path c) \<Longrightarrow> locals_within base k (complete c loc)"
  by (simp add: locals_within_def complete_def)

lemma step_within:
  assumes "beam_step env dispatch config is_first b loc s = (Inr loc', s')" "beam_within base k b" "locals_within base k loc"
  shows "locals_within base k loc'"
proof -
  have parked: "locals_within base k (complete (completed_from_beam r b) loc)" for r
    using plan_within_mono [OF completed_within(1) [OF assms(2)]] by (intro complete_within assms(3)) simp
  from assms(1) obtain pipeline where run: "(case pipeline of
       No_viable_candidates _ _ _ \<Rightarrow>
         oreturn (if is_first \<and> \<not> bl_viable loc then loc else complete (completed_from_beam ''no_viable_candidates'' b) loc)
     | Pipeline_success _ _ _ _ _ \<Rightarrow>
         obind (olift (batch_requires_hypothesis (be_context b) (candidate_batch pipeline))) (\<lambda>involved.
         if involved
         then obind (completed_hypothesis_round env dispatch config b (candidate_batch pipeline)) (\<lambda>c.
              oreturn (complete c (loc\<lparr>bl_viable := True\<rparr>)))
         else obind (plain_round_expansions env dispatch config b (candidate_batch pipeline)) (\<lambda>xs.
              oreturn (if xs \<noteq> [] then loc\<lparr>bl_viable := True, bl_expansions := bl_expansions loc @ xs\<rparr>
                       else if is_first then loc else complete (completed_from_beam ''zero_successful_plain_results'' b) loc)))) s = (Inr loc', s')"
    unfolding beam_step_def obind_Inr by (auto simp: olift_def)
  show ?thesis
  proof (cases pipeline)
    case (No_viable_candidates d r ob)
    with run parked assms(3) show ?thesis by (auto simp: oreturn_def split: if_splits)
  next
    case (Pipeline_success c cs r p ob)
    with run obtain involved where run: "(if involved
         then obind (completed_hypothesis_round env dispatch config b (candidate_batch pipeline)) (\<lambda>c.
              oreturn (complete c (loc\<lparr>bl_viable := True\<rparr>)))
         else obind (plain_round_expansions env dispatch config b (candidate_batch pipeline)) (\<lambda>xs.
              oreturn (if xs \<noteq> [] then loc\<lparr>bl_viable := True, bl_expansions := bl_expansions loc @ xs\<rparr>
                       else if is_first then loc else complete (completed_from_beam ''zero_successful_plain_results'' b) loc))) s = (Inr loc', s')"
      unfolding obind_Inr by (auto simp: olift_def obind_Inr simp del: oreturn_def)
    show ?thesis
    proof (cases involved)
      case True
      with run obtain c s1 where "completed_hypothesis_round env dispatch config b (candidate_batch pipeline) s = (Inr c, s1)"
        "loc' = complete c (loc\<lparr>bl_viable := True\<rparr>)" by (auto simp: obind_Inr oreturn_def)
      with hypothesis_within [OF this(1) assms(2)] assms(3) show ?thesis by (simp add: locals_within_def complete_def)
    next
      case False
      with run obtain xs s1 where xs: "plain_round_expansions env dispatch config b (candidate_batch pipeline) s = (Inr xs, s1)"
        "loc' = (if xs \<noteq> [] then loc\<lparr>bl_viable := True, bl_expansions := bl_expansions loc @ xs\<rparr>
                       else if is_first then loc else complete (completed_from_beam ''zero_successful_plain_results'' b) loc)"
        by (auto simp: obind_Inr oreturn_def)
      have "list_all (\<lambda>x. beam_within base k (ex_parent x)) xs" using plain_parent [OF xs(1)] assms(2) by (simp add: list_all_iff)
      with xs(2) assms(3) parked show ?thesis by (auto simp: locals_within_def split: if_splits)
    qed
  qed
qed

lemma steps_within:
  assumes "beam_steps env dispatch config is_first bs loc s = (Inr loc', s')" "list_all (beam_within base k) bs" "locals_within base k loc"
  shows "locals_within base k loc'"
  using assms
proof (induction bs arbitrary: loc s)
  case (Cons b bs)
  then obtain l1 s1 where "beam_step env dispatch config is_first b loc s = (Inr l1, s1)" "beam_steps env dispatch config is_first bs l1 s1 = (Inr loc', s')"
    by (auto simp: obind_Inr)
  with Cons step_within show ?case by (metis list.pred_inject(2))
qed (simp add: oreturn_def)

definition survivor_within :: "prefix_entry list \<Rightarrow> nat \<Rightarrow> survivor \<Rightarrow> bool" where
  "survivor_within base k y \<longleftrightarrow> (case y of Ends c \<Rightarrow> plan_within base k (cb_path c) | Goes_on b \<Rightarrow> beam_within base k b)"

lemma survivor_of_within:
  assumes "settle_survivor load is_last x s = (Inr y, s')" "beam_within base k (ex_parent x)"
  shows "survivor_within base (k + 1) y"
proof -
  have ends: "plan_within base (Suc k) (cb_path (completed_from_expansion r x))" for r using completed_within(2) [OF assms(2)] by simp
  have path: "beam_within base (Suc k) b" if "dc_plan (be_context b) = expansion_path x" for b
    using assms(2) that by (auto simp: beam_within_def expansion_path_def)
  show ?thesis
    using assms(1)
    by (auto simp: settle_survivor_def obind_Inr oreturn_def olift_def value_error_def survivor_within_def ends from_prev_child_def intro!: path
        split: option.splits if_splits)
qed

lemma survivors_within:
  assumes "settle_survivors load is_last xs s = (Inr ys, s')" "list_all (\<lambda>x. beam_within base k (ex_parent x)) xs"
  shows "list_all (survivor_within base (k + 1)) ys \<and> length ys = length xs"
  using assms
proof (induction xs arbitrary: ys s)
  case (Cons x xs)
  then obtain y s1 zs where y: "settle_survivor load is_last x s = (Inr y, s1)" "settle_survivors load is_last xs s1 = (Inr zs, s')" "ys = y # zs"
    by (auto simp: obind_Inr oreturn_def)
  from Cons.prems(2) survivor_of_within [OF y(1)] have "survivor_within base (k + 1) y" by simp
  with Cons.IH [OF y(2)] Cons.prems(2) y(3) show ?case by simp
qed (simp add: oreturn_def)

lemma ended_within: "list_all (survivor_within base k) ys \<Longrightarrow> list_all (\<lambda>c. plan_within base k (cb_path c)) (ended ys)"
  by (induction ys) (auto simp: ended_def survivor_within_def map_filter_simps split: survivor.splits)

lemma going_on_within: "list_all (survivor_within base k) ys \<Longrightarrow> list_all (beam_within base k) (going_on ys) \<and> length (going_on ys) \<le> length ys"
  by (induction ys) (auto simp: going_on_def survivor_within_def map_filter_simps split: survivor.splits)

lemma rounds_within:
  assumes "beam_rounds env dispatch load config n is_first active loc s = (Inr (active', loc'), s')"
    "list_all (beam_within base k) active" "list_all (\<lambda>c. plan_within base k (cb_path c)) (bl_completed loc)"
    "length active \<le> w" "nat (bf_width config) \<le> w"
  shows "list_all (beam_within base (k + n)) active' \<and> list_all (\<lambda>c. plan_within base (k + n) (cb_path c)) (bl_completed loc') \<and> length active' \<le> w"
  using assms
proof (induction n arbitrary: k is_first active loc s)
  case 0
  then show ?case by (simp add: oreturn_def)
next
  case (Suc n)
  let ?loc = "loc\<lparr>bl_expansions := []\<rparr>"
  have up: "list_all (beam_within base (k + Suc n)) bs" if "list_all (beam_within base m) bs" "m \<le> Suc k" for bs m
    using that by (auto simp: list_all_iff intro: beam_within_mono)
  have upc: "list_all (\<lambda>c. plan_within base (k + Suc n) (cb_path c)) cs" if "list_all (\<lambda>c. plan_within base m (cb_path c)) cs" "m \<le> Suc k" for cs m
    using that by (auto simp: list_all_iff intro: plan_within_mono)
  from Suc.prems(1) obtain l1 s1 where steps: "beam_steps env dispatch (bf_coordinator config) is_first active ?loc s = (Inr l1, s1)"
    and rest: "(if bl_expansions l1 = [] then oreturn (active, l1)
     else obind (on_pool (settle_survivors load (n = 0) (take (nat (bf_width config)) (sort_key rank_expansion (bl_expansions l1))))) (\<lambda>ys.
       let loc' = l1\<lparr>bl_completed := bl_completed l1 @ ended ys\<rparr> in
       if going_on ys = [] then oreturn ([], loc') else beam_rounds env dispatch load config n False (going_on ys) loc')) s1 = (Inr (active', loc'), s')"
    by (auto simp: obind_Inr)
  have "locals_within base k ?loc" using Suc.prems(3) by (auto simp: locals_within_def list_all_iff intro: plan_within_mono)
  from steps_within [OF steps Suc.prems(2) this] have l1: "list_all (\<lambda>c. plan_within base (k + 1) (cb_path c)) (bl_completed l1)"
    "list_all (\<lambda>x. beam_within base k (ex_parent x)) (bl_expansions l1)" by (simp_all add: locals_within_def)
  show ?case
  proof (cases "bl_expansions l1 = []")
    case True
    with rest Suc.prems(2,4) l1(1) up [of k] upc [of "k + 1"] show ?thesis by (auto simp: oreturn_def)
  next
    case False
    let ?xs = "take (nat (bf_width config)) (sort_key rank_expansion (bl_expansions l1))"
    from rest False obtain ys s2 t where ys: "settle_survivors load (n = 0) ?xs (fst s1) = (Inr ys, t)" "s2 = (t, snd s1)"
      and go: "(let loc' = l1\<lparr>bl_completed := bl_completed l1 @ ended ys\<rparr> in
       if going_on ys = [] then oreturn ([], loc') else beam_rounds env dispatch load config n False (going_on ys) loc') s2 = (Inr (active', loc'), s')"
      by (auto simp: obind_Inr on_pool_def split: prod.splits)
    have "list_all (\<lambda>x. beam_within base k (ex_parent x)) ?xs" using l1(2) by (auto simp: list_all_iff dest: in_set_takeD)
    from survivors_within [OF ys(1) this] have y: "list_all (survivor_within base (k + 1)) ys" "length ys \<le> w"
      using Suc.prems(5) by simp_all
    let ?loc' = "l1\<lparr>bl_completed := bl_completed l1 @ ended ys\<rparr>"
    have c: "list_all (\<lambda>c. plan_within base (k + 1) (cb_path c)) (bl_completed ?loc')" using l1(1) ended_within [OF y(1)] by simp
    show ?thesis
    proof (cases "going_on ys = []")
      case True
      with go c upc [of "k + 1"] show ?thesis by (auto simp: oreturn_def)
    next
      case False
      with go have "beam_rounds env dispatch load config n False (going_on ys) ?loc' s2 = (Inr (active', loc'), s')" by (simp add: Let_def)
      from Suc.IH [OF this _ c _ Suc.prems(5)] going_on_within [OF y(1)] y(2) show ?thesis by auto
    qed
  qed
qed

section \<open>Properties\<close>


text \<open>
  C40.  The search is bounded: a committed plan is the plan of the context continued by at most
  \<open>max_rounds\<close> steps, and after any number of rounds at most \<open>beam_width\<close> beams are active (one, the
  context itself, before the first).
\<close>

theorem beam_search_bounded:
  assumes "beam_rounds env dispatch load config (nat (bf_rounds config)) True [\<lparr> be_context = ctx, be_score = 0, be_key = [] \<rparr>]
       \<lparr> bl_completed = [], bl_viable = False, bl_expansions = [] \<rparr> s = (Inr (active, loc), x)"
    "0 < bf_width config" "c \<in> set (all_completed active loc)"
  shows "(\<exists>qs. cb_path c = planned_sequence_from_path (dc_plan ctx) @ qs \<and> length qs \<le> nat (bf_rounds config)) \<and> int (length active) \<le> bf_width config"
proof -
  have "list_all (beam_within (dc_plan ctx) 0) [\<lparr> be_context = ctx, be_score = 0, be_key = [] \<rparr>]" by (simp add: beam_within_def)
  from rounds_within [OF assms(1) this, of "nat (bf_width config)"] assms(2)
  have w: "list_all (beam_within (dc_plan ctx) (nat (bf_rounds config))) active"
    "list_all (\<lambda>c. plan_within (dc_plan ctx) (nat (bf_rounds config)) (cb_path c)) (bl_completed loc)" "length active \<le> nat (bf_width config)" by simp_all
  have "plan_within (dc_plan ctx) (nat (bf_rounds config)) (cb_path c)"
    using assms(3) w(1,2) completed_within(1) by (fastforce simp: all_completed_def list_all_iff)
  with w(3) assms(2) show ?thesis by (auto simp: plan_within_def)
qed

text \<open>
  When the root decision needs hypotheses and every one of its branches faults, nothing can be
  committed, yet the search succeeds with the plan of the context, which is empty at a Main decision.
\<close>

lemma commit_none: "ag_best ag = None \<Longrightarrow> build_commit_decision ag involved verify s = (Inr (Commit_search (Search_evaluation_failure ''search evaluation produced zero viable Root Actions'')), s)"
  by (simp add: build_commit_decision_def oreturn_def)

lemma zero_viable_round:
  assumes "hypothesis_work_items env config (be_context b) cs = Inr (items, cv)"
    "dispatch_work_items_until_final dispatch (sf_max_retries config) items s = (Inr outs, s')"
    "outcome_entries (se_sha env) None outs = Inr es" "aggregate_hypothesis_results (sf_min_coverage config) es = Inr ag" "ag_best ag = None"
  shows "completed_hypothesis_round env dispatch config b cs s = (Inr (completed_from_beam ''hypothesis_zero_viable'' b), s')"
  by (simp add: assms(1-4) commit_none [OF assms(5)] completed_hypothesis_round_def obind_def olift_def completed_from_decision_def oreturn_def)

lemma zero_viable_commits_empty_plan:
  assumes "build_candidate_pipeline_result (sf_width (bf_coordinator config)) None ctx = Inr (Pipeline_success c subs r p ob)"
    "batch_requires_hypothesis ctx (c # subs) = Inr True" "dc_plan ctx = []" "0 < bf_rounds config"
    "hypothesis_work_items env (bf_coordinator config) ctx (c # subs) = Inr (items, cv)"
    "dispatch_work_items_until_final dispatch (sf_max_retries (bf_coordinator config)) items s = (Inr outs, s')"
    "outcome_entries (se_sha env) None outs = Inr es" "aggregate_hypothesis_results (sf_min_coverage (bf_coordinator config)) es = Inr ag" "ag_best ag = None"
  shows "beam_search_strategy env dispatch load None config ctx s = (Inr (Beam_result (Search_success [])), s')"
proof -
  let ?b = "\<lparr> be_context = ctx, be_score = 0, be_key = [] \<rparr>" and ?loc = "\<lparr> bl_completed = [], bl_viable = False, bl_expansions = [] \<rparr>"
  obtain n where n: "nat (bf_rounds config) = Suc n" using assms(4) by (cases "nat (bf_rounds config)") auto
  have "completed_hypothesis_round env dispatch (bf_coordinator config) ?b (c # subs) s = (Inr (completed_from_beam ''hypothesis_zero_viable'' ?b), s')"
    by (rule zero_viable_round) (use assms(5-9) in simp_all)
  with assms(1,2) have "beam_step env dispatch (bf_coordinator config) True ?b ?loc s
      = (Inr (complete (completed_from_beam ''hypothesis_zero_viable'' ?b) (?loc\<lparr>bl_viable := True\<rparr>)), s')"
    by (simp add: beam_step_def obind_def olift_def candidate_batch_def oreturn_def)
  then show ?thesis using assms(3)
    by (simp add: beam_search_strategy_def n obind_def oreturn_def complete_def all_completed_def commit_best_def best_completed_def completed_from_beam_def
        planned_sequence_from_path_def)
qed

section \<open>One round is the single-round search\<close>

definition signed :: "branch_result \<Rightarrow> bool" where
  "signed r \<longleftrightarrow> (br_status r = BRANCH_STATUS_SUCCESS \<longrightarrow> br_signature r \<noteq> None)"

definition signed_answers :: "(work_item list \<Rightarrow> ('s, branch_result list) stateop) \<Rightarrow> bool" where
  "signed_answers dispatch \<longleftrightarrow> (\<forall>ws s rs s'. dispatch ws s = (Inr rs, s') \<longrightarrow> list_all signed rs)"

text \<open>The workers sign what succeeds.\<close>

lemma settle_signed:
  assumes "judged_results res" "settle ws res reg = (Inr rs, reg')"
  shows "list_all signed rs"
  using assms(2)
proof (induction ws arbitrary: reg rs)
  case (Cons w ws)
  then obtain r0 r qs where r: "dget res (wi_id w) = Some r0" "restore_result_for_caller_work_item w r0 = Inr r" "rs = r # qs"
    "settle ws res (settle_leases w r reg) = (Inr qs, reg')"
    by (auto split: option.splits sum.splits prod.splits)
  have "well_formed_result r0" using r(1) assms(1) by (auto simp: judged_results_def)
  with r(2) have "well_formed_result r" by (auto simp: restore_result_for_caller_work_item_def branch_result_checked_Inr split: if_splits)
  then have "signed r" by (auto simp: signed_def well_formed_result_def split: option.splits)
  with r(3) Cons.IH [OF r(4)] show ?case by simp
qed simp

lemma workers_signed: "signed_answers (worker_batches sha env ids gens)"
  unfolding signed_answers_def
proof (intro allI impI)
  fix ws s rs s'
  assume d: "worker_batches sha env ids gens ws s = (Inr rs, s')"
  have "judged_results []" by (simp add: judged_results_def)
  from execute_all_judged [OF this, of sha env ids gens ws 0 s] obtain res x reg where
    "execute_all sha (worker_exec env) ids gens ws 0 [] s = (Inr res, (x, reg))" "judged_results res" by (metis surj_pair)
  with d settle_signed show "list_all signed rs" by (auto simp: worker_batches_def dispatch_with_def split: prod.splits)
qed

definition signed_results :: "retry_locals \<Rightarrow> bool" where
  "signed_results loc \<longleftrightarrow> (\<forall>i r. dget (rl_results loc) i = Some r \<longrightarrow> signed r)"

lemma put_attempt_results: "put_attempt i a loc = Inr loc' \<Longrightarrow> rl_results loc' = rl_results loc"
  by (auto simp: put_attempt_def sbind_eq_Inr)

lemma settle_answer_signed:
  assumes "settle_answer n w r loc s = (Inr (loc', again), s')" "signed r" "signed_results loc"
  shows "signed_results loc'"
proof -
  from assms(1) obtain l where "rl_results l = rl_results loc" "loc' = l \<or> (\<exists>st. loc' = finish (wi_id w) r st l)"
    by (auto simp: settle_answer_def obind_Inr oreturn_def olift_def runtime_error_def dest: put_attempt_results split: option.splits if_splits)
  with assms(2,3) show ?thesis by (auto simp: signed_results_def finish_def split: if_splits)
qed

lemma settle_answers_signed:
  assumes "settle_answers n by_id xs loc s = (Inr (loc', again), s')" "list_all (signed \<circ> snd) xs" "signed_results loc"
  shows "signed_results loc'"
  using assms
proof (induction xs arbitrary: loc s again)
  case (Cons x xs)
  obtain w r where x: "x = (w, r)" by (cases x)
  with Cons.prems(1) obtain l1 t s1 s2 rest where "settle_answer n w r loc s = (Inr (l1, t), s1)" "settle_answers n by_id xs l1 s2 = (Inr (loc', rest), s')"
    by (auto simp: obind_Inr oreturn_def split: prod.splits)
  moreover from this(1) Cons.prems(2,3) x have "signed_results l1" by (auto intro: settle_answer_signed)
  ultimately show ?case using Cons.IH [of l1 s2 rest] Cons.prems(2) by simp
qed (simp add: oreturn_def)

lemma rounds_signed:
  assumes "signed_answers dispatch" "dispatch_rounds dispatch mr by_id n pending loc s = (Inr loc', s')" "signed_results loc"
  shows "signed_results loc'"
  using assms(2,3)
proof (induction "nat (mr + 2 - n)" arbitrary: n pending loc s rule: less_induct)
  case less
  show ?case
  proof (cases "pending = []")
    case True
    with less.prems show ?thesis by (simp add: dispatch_rounds.simps oreturn_def)
  next
    case False
    from less.prems(1) False obtain rs s1 l1 again s2 where n: "\<not> n + 1 > mr + 2" and r:
        "on_pool (dispatch pending) (fst s, map_option (\<lambda>m. m\<lparr>mx_rounds := mx_rounds m + 1\<rparr>) (snd s)) = (Inr rs, s1)"
        "settle_answers mr by_id (zip pending rs) loc s1 = (Inr (l1, again), s2)" "dispatch_rounds dispatch mr by_id (n + 1) again l1 s2 = (Inr loc', s')"
      by (subst (asm) dispatch_rounds.simps) (auto simp: obind_Inr olift_def runtime_error_def round_cap_error_def split: if_splits prod.splits)
    have "list_all signed rs" using r(1) assms(1) by (auto simp: on_pool_def signed_answers_def split: prod.splits)
    then have "list_all (signed \<circ> snd) (zip pending rs)" by (auto simp: list_all_iff dest: set_zip_rightD)
    from settle_answers_signed [OF r(2) this less.prems(2)] less.hyps [OF _ r(3)] n show ?thesis by auto
  qed
qed

lemma until_final_signed:
  assumes "signed_answers dispatch" "dispatch_work_items_until_final dispatch mr items s = (Inr outs, s')"
  shows "list_all (\<lambda>(w, r, st). signed r) outs"
proof -
  from assms(2) obtain loc s1 where l: "dispatch_rounds dispatch mr (dupdate [] (map (\<lambda>w. (wi_id w, w)) items)) 0 items (initial_locals items) s = (Inr loc, s1)"
    "map_res (final_outcome loc) items = Inr outs" by (auto simp: dispatch_work_items_until_final_def obind_Inr olift_def)
  have "signed_results loc" by (rule rounds_signed [OF assms(1) l(1)]) (simp add: signed_results_def initial_locals_def)
  moreover have "\<exists>w. final_outcome loc w = Inr x" if "x \<in> set outs" for x using map_res_set [OF l(2) that] by blast
  ultimately show ?thesis by (fastforce simp: list_all_iff final_outcome_def signed_results_def split: option.splits)
qed

text \<open>The first expansion of each viable action of a plain round at the root.\<close>

definition expands :: "beam_entry \<Rightarrow> root_aggregation \<Rightarrow> expansion \<Rightarrow> bool" where
  "expands b a x \<longleftrightarrow> ex_parent x = b \<and> ex_round x = ra_score a \<and> ex_root x = ra_root a
     \<and> commit_step_of (ra_entry a) False = Inr (planned_of_entry (ex_entry x)) \<and> br_signature (ex_branch x) \<noteq> None"

lemma entry_of_outcome:
  assumes "outcome_entries sha None outs = Inr es" "e \<in> set es"
  obtains w r st where "(w, r, st) \<in> set outs" "le_work e = wi_id w" "le_state e = st" "le_action e = Some (pr_action (wi_candidate w))"
    "le_target e = pr_target (wi_candidate w)" "le_enemy e = pr_enemy (wi_candidate w)" "le_result e = br_signature r"
proof -
  from assms(1) obtain ls where ls: "map_res (\<lambda>(w, r, s). to_decision_log_entry sha w r (Some s)) outs = Inr ls" "map_res (with_coverage None) ls = Inr es"
    by (auto simp: outcome_entries_def sbind_eq_Inr)
  from map_res_set [OF ls(2) assms(2)] have "e \<in> set ls" by (auto simp: with_coverage_def)
  from map_res_set [OF ls(1) this] obtain w r st where o: "(w, r, st) \<in> set outs" "to_decision_log_entry sha w r (Some st) = Inr e" by auto
  from o(2) have "le_work e = wi_id w" "le_state e = st" "le_action e = Some (pr_action (wi_candidate w))"
    "le_target e = pr_target (wi_candidate w)" "le_enemy e = pr_enemy (wi_candidate w)" "le_result e = br_signature r"
    by (auto simp: to_decision_log_entry_def sbind_eq_Inr log_entry_checked_def value_error_def Let_def split: if_splits prod.splits)
  with o(1) show thesis by (rule that)
qed

lemma expand_viable:
  assumes "\<And>a. a \<in> set as \<Longrightarrow> \<exists>r c. dget branches (le_work (ra_entry a)) = Some r \<and> br_status r = BRANCH_STATUS_SUCCESS \<and> br_signature r \<noteq> None
      \<and> le_result (ra_entry a) = br_signature r \<and> dget candidates (le_work (ra_entry a)) = Some c
      \<and> le_action (ra_entry a) = Some (pr_action c) \<and> le_target (ra_entry a) = pr_target c \<and> le_enemy (ra_entry a) = pr_enemy c"
  shows "\<exists>xs. expand_actions b branches candidates as = Inr xs \<and> list_all2 (expands b) as xs"
  using assms
proof (induction as)
  case (Cons a as)
  from Cons.prems [of a] obtain r c g where r: "dget branches (le_work (ra_entry a)) = Some r" "br_status r = BRANCH_STATUS_SUCCESS"
      "br_signature r = Some g" "le_result (ra_entry a) = Some g" "dget candidates (le_work (ra_entry a)) = Some c"
      "le_action (ra_entry a) = Some (pr_action c)" "le_target (ra_entry a) = pr_target c" "le_enemy (ra_entry a) = pr_enemy c" by auto
  let ?e = "\<lparr> rp_action = pr_action c, rp_expected = g, rp_target = pr_target c, rp_enemy = pr_enemy c, rp_constraints = [], rp_blocked = False, rp_error = None \<rparr>"
  have "expands b a \<lparr> ex_parent = b, ex_branch = r, ex_entry = ?e, ex_round = ra_score a, ex_root = ra_root a \<rparr>"
    using r by (simp add: expands_def commit_step_of_def planned_of_entry_def)
  moreover from Cons obtain xs where "expand_actions b branches candidates as = Inr xs" "list_all2 (expands b) as xs" by auto
  ultimately show ?case using r by (auto simp: Let_def entry_from_branch_def)
qed simp

lemma dget_outcome:
  assumes "distinct (map (wi_id \<circ> fst) outs)" "(w, r, st) \<in> set outs"
  shows "dget (dupdate [] (map (\<lambda>(w, r, st). (wi_id w, f w r)) outs)) (wi_id w) = Some (f w r)"
proof -
  let ?d = "map (\<lambda>x. (wi_id (fst x), f (fst x) (fst (snd x)))) outs"
  have "distinct (dkeys ?d)" using assms(1) by (simp add: comp_def)
  moreover from this have "map_of ?d (wi_id w) = Some (f w r)" using assms(2) by (intro map_of_is_SomeI) force+
  ultimately show ?thesis by (simp add: dget_dupdate case_prod_unfold)
qed

lemma expansions_of_outcomes:
  assumes "outcome_entries sha None outs = Inr es" "aggregate_plain_results es = Inr ag" "distinct (map (wi_id \<circ> fst) outs)"
    "list_all (\<lambda>(w, r, st). st = final_state_of r) outs" "list_all (\<lambda>(w, r, st). signed r) outs"
  shows "\<exists>xs. expand_actions b (dupdate [] (map (\<lambda>(w, r, _). (wi_id w, r)) outs)) (dupdate [] (map (\<lambda>(w, _, _). (wi_id w, wi_candidate w)) outs)) (ag_viable ag)
      = Inr xs \<and> list_all2 (expands b) (ag_viable ag) xs"
proof (rule expand_viable)
  fix a
  assume "a \<in> set (ag_viable ag)"
  with assms(2) obtain e where e: "e \<in> set es" "le_state e = WORK_ITEM_FINAL_SUCCESS" "ra_entry a = e"
    by (auto simp: aggregate_plain_results_def sbind_eq_Inr Let_def plain_aggregation_def success_entries_def split: if_splits)
  from entry_of_outcome [OF assms(1) e(1)] obtain w r st where w: "(w, r, st) \<in> set outs" "le_work e = wi_id w" "le_state e = st"
    "le_action e = Some (pr_action (wi_candidate w))" "le_target e = pr_target (wi_candidate w)" "le_enemy e = pr_enemy (wi_candidate w)" "le_result e = br_signature r" .
  have sg: "signed r" and "st = final_state_of r" using assms(4,5) w(1) by (auto simp: list_all_iff)
  then have "final_state_of r = WORK_ITEM_FINAL_SUCCESS" using e(2) w(3) by metis
  then have st: "br_status r = BRANCH_STATUS_SUCCESS"
    by (simp add: final_state_of_def WORK_ITEM_FINAL_SUCCESS_def WORK_ITEM_FINAL_FAULT_def split: if_splits)
  moreover have "br_signature r \<noteq> None" using sg st unfolding signed_def by blast
  moreover have "dget (dupdate [] (map (\<lambda>(w, r, _). (wi_id w, r)) outs)) (wi_id w) = Some r"
    by (rule dget_outcome [OF assms(3) w(1), where f = "\<lambda>w r. r"])
  moreover have "dget (dupdate [] (map (\<lambda>(w, _, _). (wi_id w, wi_candidate w)) outs)) (wi_id w) = Some (wi_candidate w)"
    by (rule dget_outcome [OF assms(3) w(1), where f = "\<lambda>w r. wi_candidate w"])
  ultimately show "\<exists>r c. dget (dupdate [] (map (\<lambda>(w, r, _). (wi_id w, r)) outs)) (le_work (ra_entry a)) = Some r \<and> br_status r = BRANCH_STATUS_SUCCESS \<and> br_signature r \<noteq> None
      \<and> le_result (ra_entry a) = br_signature r \<and> dget (dupdate [] (map (\<lambda>(w, _, _). (wi_id w, wi_candidate w)) outs)) (le_work (ra_entry a)) = Some c
      \<and> le_action (ra_entry a) = Some (pr_action c) \<and> le_target (ra_entry a) = pr_target c \<and> le_enemy (ra_entry a) = pr_enemy c"
    unfolding e(3) w(2) using w(4-7) by blast
qed

text \<open>In the last round every survivor ends; the best of them is the first expansion in rank.\<close>

lemma last_survivors_end:
  assumes "list_all (\<lambda>x. br_signature (ex_branch x) \<noteq> None) xs"
  shows "\<exists>ys. settle_survivors load True xs s = (Inr ys, s) \<and> list_all2 (\<lambda>x y. \<exists>reason. y = Ends (completed_from_expansion reason x)) xs ys"
  using assms
proof (induction xs)
  case (Cons x xs)
  then obtain ys where ys: "settle_survivors load True xs s = (Inr ys, s)"
    "list_all2 (\<lambda>x y. \<exists>reason. y = Ends (completed_from_expansion reason x)) xs ys" by auto
  from Cons.prems obtain g where "br_signature (ex_branch x) = Some g" by auto
  then have "\<exists>reason. settle_survivor load True x s = (Inr (Ends (completed_from_expansion reason x)), s)"
    by (auto simp: settle_survivor_def oreturn_def split: option.split)
  then obtain reason where "settle_survivor load True x s = (Inr (Ends (completed_from_expansion reason x)), s)" by blast
  with ys show ?case by (auto simp: obind_def oreturn_def)
qed (simp add: oreturn_def)

lemma ended_ends:
  "list_all2 (\<lambda>x y. \<exists>reason. y = Ends (completed_from_expansion reason x)) xs ys \<Longrightarrow>
    going_on ys = [] \<and> list_all2 (\<lambda>x c. \<exists>reason. c = completed_from_expansion reason x) xs (ended ys)"
  by (induction rule: list_all2_induct) (auto simp: going_on_def ended_def map_filter_simps)

lemma rank_of_completed: "rank_completed (completed_from_expansion reason x) = rank_expansion x"
  by (simp add: rank_completed_def rank_expansion_def completed_from_expansion_def planned_sequence_from_path_def)

lemma best_of_ended:
  assumes "list_all2 (\<lambda>x c. \<exists>reason. c = completed_from_expansion reason x) (x # xs) cs" "sorted (map rank_expansion (x # xs))"
  shows "cb_path (best_completed cs) = planned_sequence_from_path (expansion_path x)"
proof -
  have "map rank_completed cs = map rank_expansion (x # xs)"
    using assms(1) by (induction rule: list_all2_induct) (auto simp: rank_of_completed)
  with assms(2) have "sort_key rank_completed cs = cs" by (simp add: sort_key_id_if_sorted)
  with assms(1) show ?thesis by (auto simp: best_completed_def list_all2_Cons1 completed_from_expansion_def)
qed

lemma sorted_map_nth: "sorted (map f xs) \<longleftrightarrow> (\<forall>i j. i < j \<longrightarrow> j < length xs \<longrightarrow> f (xs ! i) \<le> f (xs ! j))"
  by (auto simp: sorted_wrt_iff_nth_less)

lemma expansions_ranked:
  assumes "list_all2 (expands b) (map plain_aggregation es) xs" "sorted (map plain_rank es)" "be_key b = []"
  shows "sorted (map rank_expansion xs)"
proof -
  have len: "length xs = length es" using list_all2_lengthD [OF assms(1)] by simp
  have x: "rank_expansion (xs ! i) = (- (be_score b + entry_score (es ! i)), Suc (length (dc_plan (be_context b))), [le_root (es ! i)])"
    if "i < length es" for i
    using list_all2_nthD [OF assms(1), of i] that assms(3)
    by (auto simp: expands_def plain_aggregation_def rank_expansion_def expansion_score_def expansion_path_def expansion_key_def)
  show ?thesis
    unfolding sorted_map_nth
  proof (intro allI impI)
    fix i j
    assume ij: "i < j" "j < length xs"
    then have "plain_rank (es ! i) \<le> plain_rank (es ! j)" using assms(2) len unfolding sorted_map_nth by simp
    then show "rank_expansion (xs ! i) \<le> rank_expansion (xs ! j)"
      using x [of i] x [of j] ij len by (auto simp: plain_rank_def less_eq_prod_def)
  qed
qed

lemma until_final_unmetered:
  assumes "batch_dispatcher dispatch" "distinct (map wi_id items)" "0 \<le> mr"
    "dispatch_work_items_until_final dispatch mr items (s, None) = (Inr outs, s')"
  shows "snd s' = None \<and> map fst outs = items \<and> list_all (\<lambda>(w, r, st). st = final_state_of r) outs"
proof -
  from batch_dispatcher.until_final [OF assms(1,2), of "nat mr" "(s, None)"] assms(3,4) obtain k b where
    "map fst outs = items" "list_all (\<lambda>(w, r, st). br_item r = w \<and> st = final_state_of r) outs" "counted k b None (snd s')" by auto
  moreover from this(3) have "snd s' = None" by (cases "snd s'") auto
  ultimately show ?thesis by (auto simp: list_all_iff)
qed

text \<open>The single-round search of a plain decision, taken apart.\<close>

lemma plain_search_run:
  assumes "search_strategy env dispatch provider config ctx (s, None) = (Inr (Strategy_result (Search_success ps)), s')"
    "build_candidate_pipeline_result (sf_width config) None ctx = Inr pipeline"
    "batch_requires_hypothesis ctx (candidate_batch pipeline) = Inr False" "plain_work_items env ctx (candidate_batch pipeline) = Inr items"
  obtains outs s1 es ag best p where "dispatch_work_items_until_final dispatch (sf_max_retries config) items (s, None) = (Inr outs, s1)"
    "outcome_entries (se_sha env) None outs = Inr es" "aggregate_plain_results es = Inr ag" "ag_best ag = Some best"
    "commit_step_of (ra_entry best) False = Inr p" "ps = [p]"
    "\<exists>check. verify_main_invariant (se_sha env) provider ctx ((fst s1, map_option (record_aggregation ag) (snd s1)), None) = (Inr True, (s', check))"
proof -
  from assms(1,2) obtain involved coverage outs s1 where
      d: "dispatch_candidates env dispatch config ctx pipeline (s, None) = (Inr (involved, coverage, outs), s1)"
      and c: "commit_outcomes env provider config ctx involved coverage outs s1 = (Inr (Strategy_result (Search_success ps)), s')"
    by (cases pipeline) (auto simp: search_strategy_def obind_Inr olift_def oreturn_def split: prod.splits)
  from d assms(3,4) have out: "involved = False" "coverage = None"
      "dispatch_work_items_until_final dispatch (sf_max_retries config) items (s, None) = (Inr outs, s1)"
    by (auto simp: dispatch_candidates_def obind_Inr olift_def oreturn_def Let_def batch_work_items_def split: prod.splits)
  from c out obtain es ag where e: "outcome_entries (se_sha env) None outs = Inr es" "aggregate_plain_results es = Inr ag"
    and run: "(case build_commit_decision ag False (verify_main_invariant (se_sha env) provider ctx) ((fst s1, map_option (record_aggregation ag) (snd s1)), None) of
         (Inl e, (s', _)) \<Rightarrow> (Inl e, s')
       | (Inr d, (s', check)) \<Rightarrow> (finish_strategy check d, s')) = (Inr (Strategy_result (Search_success ps)), s')"
    by (auto simp: commit_outcomes_def obind_Inr olift_def aggregate_entries_def)
  from run obtain s3 where commit: "build_commit_decision ag False (verify_main_invariant (se_sha env) provider ctx) ((fst s1, map_option (record_aggregation ag) (snd s1)), None)
        = (Inr (Commit_search (Search_success ps)), (s', s3))"
    by (auto simp: finish_result split: prod.splits sum.splits)
  from build_commit_Inr [OF commit] obtain best q where "ag_best ag = Some best" "ps = [q]"
      "verify_main_invariant (se_sha env) provider ctx ((fst s1, map_option (record_aggregation ag) (snd s1)), None) = (Inr True, (s', s3))"
      "commit_step_of (ra_entry best) False = Inr q" by metis
  with out(3) e show thesis by (intro that [of outs s1 es ag best q]) auto
qed

lemma plain_best:
  assumes "aggregate_plain_results es = Inr ag" "ag_best ag = Some best"
  obtains fs where "ag_viable ag = map plain_aggregation fs" "sorted (map plain_rank fs)" "ag_viable ag \<noteq> []" "hd (ag_viable ag) = best"
  using assms by (auto simp: aggregate_plain_results_def sbind_eq_Inr Let_def split: if_splits)
    (metis list.map_disc_iff set_empty set_sort sorted_sort_key)

lemma commit_verified:
  assumes "verify_main_invariant (se_sha env) provider ctx (x, None) = (Inr True, (s', check))" "cb_path (best_completed cs) = ps"
  shows "commit_best env provider ctx cs x = (Inr (Beam_result (Search_success ps)), s')"
  using assms by (auto simp: verify_main_invariant_def commit_best_def Let_def obind_def oreturn_def olift_def split: option.splits prod.splits sum.splits)


section \<open>Samples and witnesses\<close>

text \<open>Every branch succeeds and ends stable at a child that looks like its root.\<close>

definition child_result :: "work_item \<Rightarrow> branch_result" where
  "child_result w = (empty_result BRANCH_STATUS_SUCCESS w EXECUTION_MODE_BOOTSTRAP_STEP (Some 0) (Some 1))
     \<lparr>br_signature := Some (sample_signature\<lparr>sg_boundary := BOUNDARY_STABLE\<rparr>), br_child := Some (dc_root quiet_context)\<rparr>"

definition child_batches :: "work_item list \<Rightarrow> (unit, branch_result list) stateop" where
  "child_batches ws s = (Inr (map child_result ws), s)"

definition load_quiet :: "root \<Rightarrow> (unit, battle_state) stateop" where
  "load_quiet r = oreturn (dc_result quiet_context)"

definition beam_plan :: "beam_config \<Rightarrow> planned_step list" where
  "beam_plan config = (case fst (beam_search_strategy quiet_env child_batches load_quiet (Some (oreturn quiet_main)) config quiet_context ((), None)) of
     Inr (Beam_result (Search_success ps)) \<Rightarrow> ps | _ \<Rightarrow> [])"

lemma quiet_beam:
  "beam_search_strategy quiet_env child_batches load_quiet (Some (oreturn quiet_main)) default_beam_config quiet_context ((), None)
     = (Inr (Beam_result (Search_success (beam_plan default_beam_config))), ((), None))"
  by code_simp

lemma quiet_beam_steps: "length (beam_plan default_beam_config) = 2"
  by code_simp


theorem beam_search_bounded_witness:
  "\<exists>active loc x c. beam_rounds quiet_env child_batches load_quiet default_beam_config (nat (bf_rounds default_beam_config)) True
       [\<lparr> be_context = quiet_context, be_score = 0, be_key = [] \<rparr>] \<lparr> bl_completed = [], bl_viable = False, bl_expansions = [] \<rparr> ((), None) = (Inr (active, loc), x)
    \<and> c \<in> set (all_completed active loc)
    \<and> (\<exists>qs. cb_path c = planned_sequence_from_path (dc_plan quiet_context) @ qs \<and> length qs \<le> nat (bf_rounds default_beam_config))
    \<and> int (length active) \<le> bf_width default_beam_config"
proof -
  from strategy_success [OF quiet_beam] obtain active loc x where r: "beam_rounds quiet_env child_batches load_quiet default_beam_config (nat (bf_rounds default_beam_config)) True
       [\<lparr> be_context = quiet_context, be_score = 0, be_key = [] \<rparr>] \<lparr> bl_completed = [], bl_viable = False, bl_expansions = [] \<rparr> ((), None) = (Inr (active, loc), x)"
    and "all_completed active loc \<noteq> []"
    by metis
  then obtain c where c: "c \<in> set (all_completed active loc)" by (cases "all_completed active loc") auto
  have "0 < bf_width default_beam_config" by (simp add: default_beam_config_def)
  from beam_search_bounded [OF r this c] r c show ?thesis by blast
qed

lemma child_dispatcher: "batch_dispatcher child_batches"
proof
  fix ws and s :: unit
  show "\<exists>rs s'. child_batches ws s = (Inr rs, s') \<and> map br_item rs = ws \<and> list_all judged rs"
    by (simp add: child_batches_def child_result_def judged_def classifiable_def status_defs comp_def list_all_iff)
qed

lemma child_signed: "signed_answers child_batches"
  by (auto simp: signed_answers_def child_batches_def child_result_def signed_def list_all_iff)

definition single_round :: beam_config where
  "single_round = \<lparr> bf_coordinator = default_search_config, bf_width = 2, bf_rounds = 1 \<rparr>"

definition quiet_child_plan :: "planned_step list" where
  "quiet_child_plan = (case fst (search_strategy quiet_env child_batches (Some (oreturn quiet_main)) default_search_config quiet_context ((), None)) of
     Inr (Strategy_result (Search_success ps)) \<Rightarrow> ps | _ \<Rightarrow> [])"

lemma quiet_child_search:
  "search_strategy quiet_env child_batches (Some (oreturn quiet_main)) (bf_coordinator single_round) quiet_context ((), None)
     = (Inr (Strategy_result (Search_success quiet_child_plan)), ((), None))"
  by code_simp

definition quiet_pipeline :: pipeline_result where
  "quiet_pipeline = projr (build_candidate_pipeline_result 8 None quiet_context)"

definition quiet_items :: "work_item list" where
  "quiet_items = projr (plain_work_items quiet_env quiet_context (candidate_batch quiet_pipeline))"

lemma quiet_batch:
  "build_candidate_pipeline_result (sf_width (bf_coordinator single_round)) None quiet_context = Inr quiet_pipeline"
  "batch_requires_hypothesis quiet_context (candidate_batch quiet_pipeline) = Inr False"
  "plain_work_items quiet_env quiet_context (candidate_batch quiet_pipeline) = Inr quiet_items"
  "distinct (map wi_id quiet_items)"
  by code_simp+

end
