(* ===== verification/Run_Session.thy ===== *)
theory Run_Session
  imports Game_Access Py_Numbers
begin

text \<open>
  The session of a whole run and what drives it without a policy of its own:
  \<open>Run/whole_run_session.py\<close>, \<open>Run/legal_action_identity.py\<close>, \<open>Run/reward_auto_progress.py\<close>,
  \<open>Run/execution_mode.py\<close> and the room and prefix drivers of \<open>Run/room_progression_driver.py\<close> and
  \<open>Run/choice_branch_runner.py\<close>.

  The game behind a session is a .NET object; its calls are the parameter \<open>run_ops\<close>, over an abstract
  state.  Observations, legal actions, map rooms and step results have the fields the bridge gives
  them; fields the code only passes on are one dict.  Reading a session does not change it.
\<close>

section \<open>What a session shows\<close>

record run_action =
  ra_id :: int
  ra_type :: string
  ra_label :: string
  ra_available :: bool
  ra_params :: "(string, json) dict"

record run_observation =
  ob_seed :: int
  ob_character :: string
  ob_step :: int
  ob_scope :: string
  ob_boundary :: string
  ob_session :: "string option"
  ob_state :: "(string, json) dict"
  ob_rest :: "(string, json) dict"

record map_room =
  mr_id :: int
  mr_column :: int
  mr_row :: int
  mr_point :: string

record room_entered =
  re_room :: int
  re_type :: string
  re_combat :: bool
  re_info :: json
  re_rest :: "(string, json) dict"

record run_transition =
  tn_kind :: string
  tn_rest :: "(string, json) dict"

record step_result =
  sp_action :: int
  sp_observation :: run_observation
  sp_context :: "(string, json) dict"
  sp_transition :: "run_transition option"
  sp_done :: bool
  sp_rest :: "(string, json) dict"

record 's run_ops =
  ro_start :: "json \<Rightarrow> string \<Rightarrow> int \<Rightarrow> ('s, unit) stateop"
  ro_observation :: "'s \<Rightarrow> run_observation res"
  ro_legal :: "'s \<Rightarrow> run_action list res"
  ro_context :: "'s \<Rightarrow> (string, json) dict res"
  ro_rooms :: "'s \<Rightarrow> map_room list res"
  ro_run_state :: "'s \<Rightarrow> (string, json) dict res"
  ro_event_rng :: "'s \<Rightarrow> (string, json) dict res"
  ro_save :: "'s \<Rightarrow> string res"
  ro_choose :: "int \<Rightarrow> ('s, room_entered) stateop"
  ro_step :: "int \<Rightarrow> ('s, step_result) stateop"
  ro_load :: "string \<Rightarrow> ('s, unit) stateop"
  ro_set_rng :: "(string, json) dict \<Rightarrow> ('s, unit) stateop"

definition observe :: "('s \<Rightarrow> 'a res) \<Rightarrow> ('s, 'a) stateop" where
  "observe f s = (f s, s)"

definition RUN_TERMINAL :: string where "RUN_TERMINAL = ''run_terminal''"
definition PENDING_CHOICE :: string where "PENDING_CHOICE = ''pending_choice''"
definition EVENT_CHOICE :: string where "EVENT_CHOICE = ''event_choice''"
definition REST_CHOICE :: string where "REST_CHOICE = ''rest_choice''"
definition SHOP_CHOICE :: string where "SHOP_CHOICE = ''shop_choice''"
definition REWARD_SELECT :: string where "REWARD_SELECT = ''reward_select''"
definition MAP_SELECT :: string where "MAP_SELECT = ''map_select''"
definition TRANSITION_KIND_COMBAT_COMPLETED :: string where "TRANSITION_KIND_COMBAT_COMPLETED = ''combat_completed''"

lemmas boundary_value_defs = RUN_TERMINAL_def PENDING_CHOICE_def EVENT_CHOICE_def REST_CHOICE_def SHOP_CHOICE_def REWARD_SELECT_def MAP_SELECT_def

definition combat_just_concluded :: "step_result \<Rightarrow> bool" where
  "combat_just_concluded r \<longleftrightarrow> (case sp_transition r of None \<Rightarrow> False | Some t \<Rightarrow> tn_kind t = TRANSITION_KIND_COMBAT_COMPLETED)"

definition resolve_boundary :: "'s run_ops \<Rightarrow> 's \<Rightarrow> string res" where
  "resolve_boundary ops s = sbind (ro_observation ops s) (\<lambda>ob. Inr (ob_boundary ob))"

section \<open>Identity of an action\<close>

definition KEY_PARAMETER_NAMES :: "string list" where
  "KEY_PARAMETER_NAMES = [''cardId'', ''potionId'', ''potionSlot'', ''replacedPotionId'', ''eventId'', ''choiceId'', ''enemyIndex'', ''cost'', ''optionId'']"

type_synonym semantic_key = "string \<times> string \<times> (string \<times> json) list"

definition legal_action_semantic_key :: "run_action \<Rightarrow> semantic_key" where
  "legal_action_semantic_key a = (ra_type a, ra_label a,
     sort_key fst (List.map_filter (\<lambda>n. map_option (Pair n) (dget (ra_params a) n)) KEY_PARAMETER_NAMES))"

text \<open>\<open>repr\<close> of a tuple of texts.\<close>

definition repr_tuple :: "string list \<Rightarrow> string" where
  "repr_tuple xs = ''('' @ join_with '', '' xs @ (if length xs = 1 then '',)'' else '')'')"

definition legal_action_semantic_key_text :: "run_action \<Rightarrow> string" where
  "legal_action_semantic_key_text a = (case legal_action_semantic_key a of (ty, label, params) \<Rightarrow>
     repr_tuple [repr_str ty, repr_str label, repr_tuple (map (\<lambda>(n, v). repr_tuple [repr_str n, repr_json v]) params)])"

section \<open>Picking an action\<close>

definition ACTION_TYPE_PREFERENCE_ORDER :: "string list" where
  "ACTION_TYPE_PREFERENCE_ORDER = [''choice_target'', ''card'', ''potion'', ''system'', ''choice_shop_leave'', ''choice_confirm'', ''choice_skip'',
     ''choice_reward_skip'', ''choice_event_option'', ''choice_rest_option'', ''choice_card'', ''choice_reward_card'', ''choice_shop_buy_relic'',
     ''choice_event_throw_potion'']"

text \<open>The two nested loops: the types in order of preference, for each the actions in order.\<close>

fun first_of_types :: "string list \<Rightarrow> run_action list \<Rightarrow> run_action option" where
  "first_of_types [] pool = None"
| "first_of_types (t # ts) pool = (case List.find (\<lambda>a. ra_type a = t) pool of Some a \<Rightarrow> Some a | None \<Rightarrow> first_of_types ts pool)"

definition pick_default_action :: "run_action list \<Rightarrow> run_action res" where
  "pick_default_action legal =
     (let available = filter ra_available legal; pool = (if available \<noteq> [] then available else legal) in
      case pool of [] \<Rightarrow> value_error ''No legal actions to pick from.''
      | a # _ \<Rightarrow> Inr (case first_of_types ACTION_TYPE_PREFERENCE_ORDER pool of Some x \<Rightarrow> x | None \<Rightarrow> a))"

definition zero_index_action :: "run_action list \<Rightarrow> run_action res" where
  "zero_index_action legal = (case legal of [] \<Rightarrow> value_error ''zero_index: no legal actions to pick from.'' | a # _ \<Rightarrow> Inr a)"

definition repr_ids :: "int list \<Rightarrow> string" where
  "repr_ids xs = ''['' @ join_with '', '' (map str_int xs) @ '']''"

definition make_external_action_selector :: "(run_action list \<Rightarrow> int) \<Rightarrow> run_action list \<Rightarrow> run_action res" where
  "make_external_action_selector resolve legal =
     (if legal = [] then value_error ''external_control: no legal actions to pick from.''
      else let i = resolve legal in
        case filter (\<lambda>a. ra_id a = i) legal of
          [a] \<Rightarrow> Inr a
        | _ \<Rightarrow> value_error (''external_control: resolve_action_id returned '' @ str_int i @ '', not a unique action_id among '' @ repr_ids (map ra_id legal)))"

section \<open>Decisions taken outside\<close>

definition run_decision_id :: "'s run_ops \<Rightarrow> 's \<Rightarrow> (int \<times> string \<times> int \<times> string \<times> string option) res" where
  "run_decision_id ops s = sbind (ro_observation ops s) (\<lambda>ob. Inr (ob_seed ob, ob_character ob, ob_step ob, ob_boundary ob, ob_session ob))"

definition stale_decision :: "'a res" where
  "stale_decision = Inl (PyExc ''StaleDecisionError'' ''external_control: expected_decision_id is not the current decision_id of the session'')"

definition apply_external_action ::
  "'s run_ops \<Rightarrow> int \<times> string \<times> int \<times> string \<times> string option \<Rightarrow> int \<Rightarrow> ('s, step_result) stateop" where
  "apply_external_action ops expected i =
     obind (observe (run_decision_id ops)) (\<lambda>current.
       if current \<noteq> expected then olift stale_decision
       else obind (observe (ro_legal ops)) (\<lambda>legal.
         if length (filter (\<lambda>a. ra_id a = i) legal) \<noteq> 1
         then olift (value_error (''external_control: action_id='' @ str_int i @ '' not a unique id among '' @ repr_ids (map ra_id legal)))
         else ro_step ops i))"

definition apply_external_room_choice ::
  "'s run_ops \<Rightarrow> int \<times> string \<times> int \<times> string \<times> string option \<Rightarrow> int \<Rightarrow> ('s, room_entered) stateop" where
  "apply_external_room_choice ops expected i =
     obind (observe (run_decision_id ops)) (\<lambda>current.
       if current \<noteq> expected then olift stale_decision
       else obind (observe (ro_rooms ops)) (\<lambda>rooms.
         if length (filter (\<lambda>r. mr_id r = i) rooms) \<noteq> 1
         then olift (value_error (''external_control: room_id='' @ str_int i @ '' not a unique id among '' @ repr_ids (map mr_id rooms)))
         else ro_choose ops i))"

definition pick_room :: "map_room list \<Rightarrow> int list \<Rightarrow> map_room option" where
  "pick_room rooms excluded =
     (let pool = filter (\<lambda>r. mr_id r \<notin> set excluded) rooms; non_treasure = filter (\<lambda>r. mr_point r \<noteq> ''Treasure'') pool;
          candidates = (if non_treasure \<noteq> [] then non_treasure else pool)
      in case candidates of [] \<Rightarrow> None | r # _ \<Rightarrow> Some r)"

definition zero_index_room_picker :: "map_room list \<Rightarrow> int list \<Rightarrow> map_room option" where
  "zero_index_room_picker rooms excluded = (case filter (\<lambda>r. mr_id r \<notin> set excluded) rooms of [] \<Rightarrow> None | r # _ \<Rightarrow> Some r)"

definition make_external_room_selector :: "(map_room list \<Rightarrow> int) \<Rightarrow> map_room list \<Rightarrow> int list \<Rightarrow> map_room option res" where
  "make_external_room_selector resolve rooms excluded =
     (let pool = filter (\<lambda>r. mr_id r \<notin> set excluded) rooms in
      if pool = [] then Inr None
      else let i = resolve pool in
        case filter (\<lambda>r. mr_id r = i) pool of
          [r] \<Rightarrow> Inr (Some r)
        | _ \<Rightarrow> value_error (''external_control: resolve_room_id returned '' @ str_int i @ '', not a unique room_id among '' @ repr_ids (map mr_id pool)))"

section \<open>Trivial rewards\<close>

definition TRIVIAL_POTION_TAKE_ACTION :: string where
  "TRIVIAL_POTION_TAKE_ACTION = ''choice_reward_potion_take''"

definition DEFAULT_MAX_AUTO_ACTIONS :: nat where
  "DEFAULT_MAX_AUTO_ACTIONS = 32"

record auto_drain =
  ad_ids :: "int list"
  ad_last :: "step_result option"

definition trivial_takes :: "run_action list \<Rightarrow> run_action list" where
  "trivial_takes legal = filter (\<lambda>a. ra_available a \<and> ra_type a = TRIVIAL_POTION_TAKE_ACTION) legal"

definition drain_cap_error :: "int list \<Rightarrow> 'a res" where
  "drain_cap_error consumed = runtime_error (''trivial reward auto-drain exceeded safety cap; consumed='' @ repr_ids consumed)"

text \<open>The loop, with the number of rounds that are left.\<close>

fun drain_loop :: "'s run_ops \<Rightarrow> nat \<Rightarrow> int list \<Rightarrow> step_result option \<Rightarrow> ('s, auto_drain) stateop" where
  "drain_loop ops 0 consumed latest =
     obind (observe (ro_observation ops)) (\<lambda>ob.
       if ob_boundary ob \<noteq> REWARD_SELECT then oreturn \<lparr> ad_ids = consumed, ad_last = latest \<rparr>
       else obind (observe (ro_legal ops)) (\<lambda>legal.
         if trivial_takes legal \<noteq> [] then olift (drain_cap_error consumed) else oreturn \<lparr> ad_ids = consumed, ad_last = latest \<rparr>))"
| "drain_loop ops (Suc n) consumed latest =
     obind (observe (ro_observation ops)) (\<lambda>ob.
       if ob_boundary ob \<noteq> REWARD_SELECT then oreturn \<lparr> ad_ids = consumed, ad_last = latest \<rparr>
       else obind (observe (ro_legal ops)) (\<lambda>legal.
         case trivial_takes legal of
           [] \<Rightarrow> oreturn \<lparr> ad_ids = consumed, ad_last = latest \<rparr>
         | [a] \<Rightarrow> obind (ro_step ops (ra_id a)) (\<lambda>r. drain_loop ops n (consumed @ [ra_id a]) (Some r))
         | _ \<Rightarrow> olift (runtime_error (''Emulator published multiple trivial Potion TAKE actions at one reward_select boundary: ''
                  @ repr_ids (map ra_id (trivial_takes legal))))))"

definition drain_trivial_reward_frontier :: "'s run_ops \<Rightarrow> nat \<Rightarrow> ('s, auto_drain) stateop" where
  "drain_trivial_reward_frontier ops cap =
     (if cap = 0 then olift (value_error ''max_auto_actions must be positive'') else drain_loop ops cap [] None)"

abbreviation drain_frontier :: "'s run_ops \<Rightarrow> ('s, auto_drain) stateop" where
  "drain_frontier ops \<equiv> drain_trivial_reward_frontier ops DEFAULT_MAX_AUTO_ACTIONS"

section \<open>The lease of a session\<close>

text \<open>
  A session shares the access to the one game of the process (Game_Access) and keeps its own lease,
  claimed at the first mutation.
\<close>

record 'h session_lease =
  sl_holder :: 'h
  sl_lease :: "'h game_lease option"

type_synonym ('h, 'g) session_state = "('h, 'g) access \<times> 'h session_lease"

definition on_access :: "(('h, 'g) access, 'a) stateop \<Rightarrow> (('h, 'g) session_state, 'a) stateop" where
  "on_access f s = (case f (fst s) of (r, a) \<Rightarrow> (r, (a, snd s)))"

definition keep_lease :: "'h game_lease option \<Rightarrow> (('h, 'g) session_state, unit) stateop" where
  "keep_lease l = modify (\<lambda>s. (fst s, (snd s)\<lparr>sl_lease := l\<rparr>))"

definition own_lease :: "(('h, 'g) session_state, 'h game_lease) stateop" where
  "own_lease s = (case sl_lease (snd s) of
       Some l \<Rightarrow> (Inr l, s)
     | None \<Rightarrow> obind (on_access (claim (Some (sl_holder (snd s))) RUN)) (\<lambda>l. obind (keep_lease (Some l)) (\<lambda>_. oreturn l)) s)"

definition session_mutating_game :: "'g \<Rightarrow> (('h, 'g) session_state, 'g) stateop" where
  "session_mutating_game mk = obind own_lease (\<lambda>l. on_access (mutating_game mk l))"

definition begin_lease_transfer :: "(('h, 'g) session_state, 'h game_lease) stateop" where
  "begin_lease_transfer = obind own_lease (\<lambda>l. obind (on_access (begin_transfer l)) (\<lambda>t. obind (keep_lease None) (\<lambda>_. oreturn t)))"

definition commit_lease_transfer :: "'h game_lease \<Rightarrow> lease_state \<Rightarrow> 'h option \<Rightarrow> (('h, 'g) session_state, 'h game_lease) stateop" where
  "commit_lease_transfer t target holder = on_access (commit_transfer t target holder)"

definition rollback_lease_transfer :: "'h game_lease \<Rightarrow> (('h, 'g) session_state, unit) stateop" where
  "rollback_lease_transfer t = obind (on_access (rollback_transfer t)) (\<lambda>l s.
     if gl_state l \<noteq> RUN \<or> gl_holder l \<noteq> Some (sl_holder (snd s))
     then (Inl (game_access_error ''transfer rollback did not return the WholeRunSession RUN lease''), s)
     else keep_lease (Some l) s)"

definition accept_transferred_lease :: "'g \<Rightarrow> 'h game_lease \<Rightarrow> (('h, 'g) session_state, unit) stateop" where
  "accept_transferred_lease mk l s =
     (if gl_state l \<noteq> RUN \<or> gl_holder l \<noteq> Some (sl_holder (snd s))
      then (Inl (game_access_error ''WholeRunSession received a lease for the wrong holder/state''), s)
      else obind (on_access (mutating_game mk l)) (\<lambda>_. keep_lease (Some l)) s)"

definition poison_mutations :: "(('h, 'g) session_state, unit) stateop" where
  "poison_mutations = modify (\<lambda>s. (poison (fst s), (snd s)\<lparr>sl_lease := None\<rparr>))"

text \<open>The release of a lease that is no longer current is ignored.\<close>

definition close_session :: "(('h, 'g) session_state, unit) stateop" where
  "close_session s = (let s' = (fst s, (snd s)\<lparr>sl_lease := None\<rparr>) in case sl_lease (snd s) of
       None \<Rightarrow> (Inr (), s')
     | Some l \<Rightarrow> (case on_access (release_lease l) s' of (_, s'') \<Rightarrow> (Inr (), s'')))"

section \<open>Driving to a boundary\<close>

text \<open>One default action and the trivial rewards after it: the ids it took.\<close>

definition default_move :: "'s run_ops \<Rightarrow> run_action list \<Rightarrow> ('s, int list) stateop" where
  "default_move ops legal =
     obind (olift (pick_default_action legal)) (\<lambda>a.
     obind (ro_step ops (ra_id a)) (\<lambda>_.
     obind (drain_frontier ops) (\<lambda>d. oreturn (ra_id a # ad_ids d))))"

text \<open>The discovery loop of \<open>_bootstrap_reach\<close>, with the rounds that are left.\<close>

fun discover_loop :: "'s run_ops \<Rightarrow> string list \<Rightarrow> nat \<Rightarrow> int list \<Rightarrow> ('s, int list) stateop" where
  "discover_loop ops targets 0 found = obind (observe (ro_observation ops)) (\<lambda>_. oreturn found)"
| "discover_loop ops targets (Suc n) found =
     obind (observe (ro_observation ops)) (\<lambda>ob.
       if ob_boundary ob \<in> set targets then oreturn found
       else obind (observe (ro_legal ops)) (\<lambda>legal.
         if legal = [] then oreturn found
         else obind (default_move ops legal) (\<lambda>ids. discover_loop ops targets n (found @ ids))))"

text \<open>\<open>drive_to_map_or_terminal\<close>: the observation it ends at.\<close>

fun drive_loop :: "'s run_ops \<Rightarrow> nat \<Rightarrow> run_observation \<Rightarrow> ('s, run_observation) stateop" where
  "drive_loop ops 0 ob = oreturn ob"
| "drive_loop ops (Suc n) ob =
     (if ob_boundary ob \<in> {MAP_SELECT, RUN_TERMINAL} then oreturn ob
      else obind (observe (ro_legal ops)) (\<lambda>legal.
        if legal = [] then oreturn ob
        else obind (default_move ops legal) (\<lambda>_. obind (observe (ro_observation ops)) (drive_loop ops n))))"

definition drive_to_map_or_terminal :: "'s run_ops \<Rightarrow> nat \<Rightarrow> ('s, run_observation) stateop" where
  "drive_to_map_or_terminal ops max_steps =
     obind (drain_frontier ops) (\<lambda>_. obind (observe (ro_observation ops)) (drive_loop ops max_steps))"

text \<open>\<open>reach_choice_boundary\<close>; the observation is read before the loop and after each move.\<close>

fun reach_loop :: "'s run_ops \<Rightarrow> string \<Rightarrow> nat \<Rightarrow> int list \<Rightarrow> ('s, int list) stateop" where
  "reach_loop ops target 0 found = oreturn found"
| "reach_loop ops target (Suc n) found =
     obind (observe (ro_legal ops)) (\<lambda>legal.
       if legal = [] then oreturn found
       else obind (default_move ops legal) (\<lambda>ids.
         obind (observe (ro_observation ops)) (\<lambda>ob.
           if ob_boundary ob \<in> {target, RUN_TERMINAL} then oreturn (found @ ids) else reach_loop ops target n (found @ ids))))"

definition reach_choice_boundary :: "'s run_ops \<Rightarrow> int \<Rightarrow> string \<Rightarrow> nat \<Rightarrow> ('s, int list \<times> room_entered) stateop" where
  "reach_choice_boundary ops room target max_steps =
     obind (ro_choose ops room) (\<lambda>entered.
     obind (drain_frontier ops) (\<lambda>d.
     obind (observe (ro_observation ops)) (\<lambda>ob.
       if ob_boundary ob = target then oreturn (ad_ids d, entered)
       else obind (reach_loop ops target max_steps (ad_ids d)) (\<lambda>ids. oreturn (ids, entered)))))"

text \<open>A recorded prefix, replayed literally.\<close>

fun step_all :: "'s run_ops \<Rightarrow> int list \<Rightarrow> ('s, unit) stateop" where
  "step_all ops [] = oreturn ()"
| "step_all ops (i # is) = obind (ro_step ops i) (\<lambda>_. step_all ops is)"

section \<open>Lemmas\<close>

lemma observe_eq [simp]: "observe f s = (f s, s)"
  by (simp add: observe_def)

lemma oreturn_Inr_iff [simp]: "oreturn x s = (Inr y, t) \<longleftrightarrow> y = x \<and> t = s"
  by (auto simp: oreturn_def)

lemma olift_Inr_iff [simp]: "olift r s = (Inr y, t) \<longleftrightarrow> r = Inr y \<and> t = s"
  by (auto simp: olift_def)

lemma obind_observe [simp]: "obind (observe f) g s = (case f s of Inl e \<Rightarrow> (Inl e, s) | Inr x \<Rightarrow> g x s)"
  by (simp add: obind_def split: sum.split)

lemma step_all_append: "step_all ops (xs @ ys) s = obind (step_all ops xs) (\<lambda>_. step_all ops ys) s"
  by (induction xs arbitrary: s) (auto simp: obind_def oreturn_def split: prod.split sum.split)

lemma step_all_snoc: "step_all ops xs s = (Inr (), t) \<Longrightarrow> ro_step ops i t = (Inr r, u) \<Longrightarrow> step_all ops (xs @ [i]) s = (Inr (), u)"
  by (simp add: step_all_append obind_def oreturn_def)

lemma step_all_trans: "step_all ops xs s = (Inr (), t) \<Longrightarrow> step_all ops ys t = (Inr (), u) \<Longrightarrow> step_all ops (xs @ ys) s = (Inr (), u)"
  by (simp add: step_all_append obind_def)

definition frontier_settled :: "'s run_ops \<Rightarrow> 's \<Rightarrow> bool" where
  "frontier_settled ops s \<longleftrightarrow> (case ro_observation ops s of Inl _ \<Rightarrow> False | Inr ob \<Rightarrow>
     ob_boundary ob \<noteq> REWARD_SELECT \<or> (case ro_legal ops s of Inl _ \<Rightarrow> False | Inr legal \<Rightarrow> trivial_takes legal = []))"

text \<open>What a drain took can be replayed, and it leaves no trivial reward.\<close>

lemma drain_loop_replays:
  assumes "drain_loop ops n consumed latest s = (Inr d, t)"
  obtains ids where "ad_ids d = consumed @ ids" "step_all ops ids s = (Inr (), t)" "frontier_settled ops t" "length ids \<le> n"
  using assms
proof (induction n arbitrary: consumed latest s thesis)
  case 0
  from "0.prems"(2) show ?case
    by (intro "0.prems"(1) [of "[]"]) (auto simp: frontier_settled_def oreturn_def olift_def drain_cap_error_def runtime_error_def split: sum.splits if_splits)
next
  case (Suc n)
  from Suc.prems(2) obtain ob where ob: "ro_observation ops s = Inr ob" by (auto split: sum.splits)
  show ?case
  proof (cases "ob_boundary ob = REWARD_SELECT")
    case False
    with Suc.prems(2) ob show ?thesis by (intro Suc.prems(1) [of "[]"]) (auto simp: frontier_settled_def oreturn_def)
  next
    case True
    with Suc.prems(2) ob obtain legal where legal: "ro_legal ops s = Inr legal" by (auto split: sum.splits)
    show ?thesis
    proof (cases "trivial_takes legal")
      case Nil
      with Suc.prems(2) ob legal True show ?thesis by (intro Suc.prems(1) [of "[]"]) (auto simp: frontier_settled_def oreturn_def)
    next
      case (Cons a as)
      with Suc.prems(2) ob legal True have "as = []" by (cases as) (auto simp: olift_def runtime_error_def)
      with Cons Suc.prems(2) ob legal True obtain r u where u: "ro_step ops (ra_id a) s = (Inr r, u)"
          "drain_loop ops n (consumed @ [ra_id a]) (Some r) u = (Inr d, t)" by (auto simp: obind_Inr)
      obtain ids where ids: "ad_ids d = (consumed @ [ra_id a]) @ ids" "step_all ops ids u = (Inr (), t)" "frontier_settled ops t" "length ids \<le> n"
        by (rule Suc.IH [OF _ u(2)])
      from ids u(1) show ?thesis by (intro Suc.prems(1) [of "ra_id a # ids"]) (auto simp: obind_def)
    qed
  qed
qed

lemma drain_replays:
  assumes "drain_frontier ops s = (Inr d, t)"
  shows "step_all ops (ad_ids d) s = (Inr (), t)" "frontier_settled ops t" "length (ad_ids d) \<le> DEFAULT_MAX_AUTO_ACTIONS"
proof -
  from assms have "drain_loop ops DEFAULT_MAX_AUTO_ACTIONS [] None s = (Inr d, t)"
    by (simp add: drain_trivial_reward_frontier_def DEFAULT_MAX_AUTO_ACTIONS_def)
  then obtain ids where "ad_ids d = [] @ ids" "step_all ops ids s = (Inr (), t)" "frontier_settled ops t" "length ids \<le> DEFAULT_MAX_AUTO_ACTIONS"
    by (rule drain_loop_replays)
  then show "step_all ops (ad_ids d) s = (Inr (), t)" "frontier_settled ops t" "length (ad_ids d) \<le> DEFAULT_MAX_AUTO_ACTIONS" by simp_all
qed

lemma default_move_replays:
  assumes "default_move ops legal s = (Inr ids, t)"
  shows "step_all ops ids s = (Inr (), t)" "frontier_settled ops t"
  using assms by (auto simp: default_move_def obind_Inr intro: drain_replays)

lemma discover_loop_replays:
  assumes "discover_loop ops targets n found s = (Inr all, t)"
  obtains ids where "all = found @ ids" "step_all ops ids s = (Inr (), t)" "frontier_settled ops s \<longrightarrow> frontier_settled ops t"
  using assms
proof (induction n arbitrary: found s thesis)
  case 0
  from "0.prems"(2) show ?case by (intro "0.prems"(1) [of "[]"]) (auto simp: oreturn_def split: sum.splits)
next
  case (Suc n)
  from Suc.prems(2) obtain ob where ob: "ro_observation ops s = Inr ob" by (auto split: sum.splits)
  show ?case
  proof (cases "ob_boundary ob \<in> set targets")
    case True
    with Suc.prems(2) ob show ?thesis by (intro Suc.prems(1) [of "[]"]) (auto simp: oreturn_def)
  next
    case False
    with Suc.prems(2) ob obtain legal where legal: "ro_legal ops s = Inr legal" by (auto split: sum.splits)
    show ?thesis
    proof (cases "legal = []")
      case True
      with False Suc.prems(2) ob legal show ?thesis by (intro Suc.prems(1) [of "[]"]) (auto simp: oreturn_def)
    next
      case nonempty: False
      with False Suc.prems(2) ob legal obtain ids u where u: "default_move ops legal s = (Inr ids, u)"
          "discover_loop ops targets n (found @ ids) u = (Inr all, t)" by (auto simp: obind_Inr)
      obtain rest where "all = (found @ ids) @ rest" "step_all ops rest u = (Inr (), t)" "frontier_settled ops u \<longrightarrow> frontier_settled ops t"
        by (rule Suc.IH [OF _ u(2)])
      with default_move_replays [OF u(1)] show ?thesis by (intro Suc.prems(1) [of "ids @ rest"]) (auto intro: step_all_trans)
    qed
  qed
qed

section \<open>Properties\<close>

text \<open>A run of actions each of which was the only trivial reward on offer.\<close>

fun trivial_run :: "'s run_ops \<Rightarrow> int list \<Rightarrow> 's \<Rightarrow> 's \<Rightarrow> bool" where
  "trivial_run ops [] s t = (frontier_settled ops s \<and> t = s)"
| "trivial_run ops (i # is) s t = (case ro_observation ops s of Inl _ \<Rightarrow> False | Inr ob \<Rightarrow> ob_boundary ob = REWARD_SELECT
     \<and> (case ro_legal ops s of Inl _ \<Rightarrow> False | Inr legal \<Rightarrow> map ra_id (trivial_takes legal) = [i]
          \<and> (case ro_step ops i s of (Inl _, _) \<Rightarrow> False | (Inr _, u) \<Rightarrow> trivial_run ops is u t)))"

lemma drain_loop_trivial:
  "drain_loop ops n consumed latest s = (Inr d, t) \<Longrightarrow> \<exists>ids. ad_ids d = consumed @ ids \<and> trivial_run ops ids s t \<and> length ids \<le> n"
proof (induction n arbitrary: consumed latest s)
  case 0
  then show ?case
    by (intro exI [of _ "[]"]) (auto simp: frontier_settled_def oreturn_def olift_def drain_cap_error_def runtime_error_def split: sum.splits if_splits)
next
  case (Suc n)
  from Suc.prems obtain ob where ob: "ro_observation ops s = Inr ob" by (auto split: sum.splits)
  show ?case
  proof (cases "ob_boundary ob = REWARD_SELECT")
    case False
    with Suc.prems ob show ?thesis by (intro exI [of _ "[]"]) (auto simp: frontier_settled_def oreturn_def)
  next
    case True
    with Suc.prems ob obtain legal where legal: "ro_legal ops s = Inr legal" by (auto split: sum.splits)
    show ?thesis
    proof (cases "trivial_takes legal")
      case Nil
      with Suc.prems ob legal True show ?thesis by (intro exI [of _ "[]"]) (auto simp: frontier_settled_def oreturn_def)
    next
      case (Cons a as)
      with Suc.prems ob legal True have "as = []" by (cases as) (auto simp: olift_def runtime_error_def)
      with Cons Suc.prems ob legal True obtain r u where u: "ro_step ops (ra_id a) s = (Inr r, u)"
          "drain_loop ops n (consumed @ [ra_id a]) (Some r) u = (Inr d, t)" by (auto simp: obind_Inr)
      from Suc.IH [OF u(2)] obtain ids where "ad_ids d = (consumed @ [ra_id a]) @ ids" "trivial_run ops ids u t" "length ids \<le> n" by blast
      with u(1) ob legal True Cons \<open>as = []\<close> show ?thesis by (intro exI [of _ "ra_id a # ids"]) auto
    qed
  qed
qed


text \<open>A toy session: the state is the list of what was done since the load.\<close>

definition toy_observation :: "string \<Rightarrow> run_observation" where
  "toy_observation b = \<lparr> ob_seed = 7, ob_character = ''Ironclad'', ob_step = 0, ob_scope = [], ob_boundary = b, ob_session = None, ob_state = [], ob_rest = [] \<rparr>"

definition toy_action :: "int \<Rightarrow> string \<Rightarrow> run_action" where
  "toy_action i ty = \<lparr> ra_id = i, ra_type = ty, ra_label = ''act'', ra_available = True, ra_params = [] \<rparr>"

definition toy_result :: "int \<Rightarrow> step_result" where
  "toy_result i = \<lparr> sp_action = i, sp_observation = toy_observation ''stable'', sp_context = [], sp_transition = None, sp_done = False, sp_rest = [] \<rparr>"

definition toy_boundary :: "int list \<Rightarrow> string" where
  "toy_boundary s = (if length s = 2 then ''reward_select'' else if length s = 4 then ''event_choice'' else ''stable'')"

definition toy_ops :: "int list run_ops" where
  "toy_ops = \<lparr> ro_start = (\<lambda>_ _ _ s. (Inr (), [])), ro_observation = (\<lambda>s. Inr (toy_observation (toy_boundary s))),
     ro_legal = (\<lambda>s. Inr [toy_action (int (length s)) (if length s = 2 then ''choice_reward_potion_take'' else ''card'')]),
     ro_context = (\<lambda>_. Inr []), ro_rooms = (\<lambda>_. Inr []), ro_run_state = (\<lambda>s. Inr [(''gold'', JInt (int (length s)))]), ro_event_rng = (\<lambda>_. Inr []),
     ro_save = (\<lambda>_. Inr []), ro_choose = (\<lambda>i s. (Inr \<lparr> re_room = i, re_type = ''EventRoom'', re_combat = False, re_info = JNull, re_rest = [] \<rparr>, s @ [i])),
     ro_step = (\<lambda>i s. (Inr (toy_result i), s @ [i])), ro_load = (\<lambda>_ _. (Inr (), [])), ro_set_rng = (\<lambda>_ s. (Inr (), s @ [99])) \<rparr>"


lemma begin_ok:
  assumes "lease_accepted a l"
  obtains t a' where "begin_transfer l a = (Inr t, a')" "\<forall>k. \<not> lease_accepted a' k" "validate_transfer a' t = Inr ()"
proof
  let ?t = "\<lparr>gl_holder = gl_holder l, gl_state = TRANSFERRING, gl_generation = Suc (ga_generation a)\<rparr>"
  let ?a = "a\<lparr>ga_origin := Some (ga_state a, ga_holder a), ga_state := TRANSFERRING, ga_generation := Suc (ga_generation a)\<rparr>"
  show "begin_transfer l a = (Inr ?t, ?a)" using assms by (simp add: begin_transfer_def Let_def lease_accepted_def del: validate_current_Inr)
  show "\<forall>k. \<not> lease_accepted ?a k" by (simp add: lease_accepted_iff)
  show "validate_transfer ?a ?t = Inr ()" using assms by (simp add: validate_transfer_def lease_accepted_iff)
qed

lemma commit_ok:
  assumes "validate_transfer a t = Inr ()" "target = RUN \<or> target = COMBAT"
  obtains l a' where "commit_transfer t target h a = (Inr l, a')" "lease_accepted a' l" "gl_holder l = h" "gl_state l = target"
proof
  let ?l = "\<lparr>gl_holder = h, gl_state = target, gl_generation = Suc (ga_generation a)\<rparr>"
  let ?a = "a\<lparr>ga_state := target, ga_holder := h, ga_origin := None, ga_generation := Suc (ga_generation a)\<rparr>"
  show "commit_transfer t target h a = (Inr ?l, ?a)" using assms by (auto simp: commit_transfer_def Let_def)
  show "lease_accepted ?a ?l" using assms(2) by (auto simp: lease_accepted_iff)
qed simp_all

text \<open>A session that holds its lease.\<close>

definition holds_run :: "('h, 'g) session_state \<Rightarrow> bool" where
  "holds_run s \<longleftrightarrow> (case sl_lease (snd s) of None \<Rightarrow> False
     | Some l \<Rightarrow> gl_state l = RUN \<and> gl_holder l = Some (sl_holder (snd s)) \<and> lease_accepted (fst s) l)"

text \<open>
  C33.  A hand-off comes back: from a session that holds its RUN lease, the lease goes through a
  transfer to the combat phase and back, each step succeeds, a mutation is refused to every lease
  while a transfer is open, the combat lease is accepted in between, and at the end the session
  holds an accepted RUN lease again.
\<close>

theorem handoff_comes_back:
  assumes "holds_run s"
  shows "\<exists>t s1 c s2 t' a3 r s4 s5. begin_lease_transfer s = (Inr t, s1) \<and> (\<forall>l. \<not> lease_accepted (fst s1) l)
    \<and> commit_lease_transfer t COMBAT (Some h) s1 = (Inr c, s2) \<and> lease_accepted (fst s2) c
    \<and> begin_transfer c (fst s2) = (Inr t', a3) \<and> (\<forall>l. \<not> lease_accepted a3 l)
    \<and> commit_lease_transfer t' RUN (Some (sl_holder (snd s))) (a3, snd s2) = (Inr r, s4)
    \<and> accept_transferred_lease mk r s4 = (Inr (), s5) \<and> holds_run s5"
proof -
  obtain a se where s: "s = (a, se)" by (cases s)
  from assms s obtain l where l: "sl_lease se = Some l" "gl_state l = RUN" "gl_holder l = Some (sl_holder se)" "lease_accepted a l"
    by (auto simp: holds_run_def split: option.splits)
  obtain t a1 where b1: "begin_transfer l a = (Inr t, a1)" "\<forall>k. \<not> lease_accepted a1 k" "validate_transfer a1 t = Inr ()"
    by (rule begin_ok [OF l(4)])
  obtain c a2 where c1: "commit_transfer t COMBAT (Some h) a1 = (Inr c, a2)" "lease_accepted a2 c"
    by (rule commit_ok [where target = COMBAT and h = "Some h", OF b1(3)]) simp_all
  obtain t' a3 where b2: "begin_transfer c a2 = (Inr t', a3)" "\<forall>k. \<not> lease_accepted a3 k" "validate_transfer a3 t' = Inr ()"
    by (rule begin_ok [OF c1(2)])
  obtain r a4 where c2: "commit_transfer t' RUN (Some (sl_holder se)) a3 = (Inr r, a4)" "lease_accepted a4 r" "gl_holder r = Some (sl_holder se)"
      "gl_state r = RUN" by (rule commit_ok [where target = RUN and h = "Some (sl_holder se)", OF b2(3)]) simp_all
  let ?a5 = "snd (observation_game mk a4)"
  have "begin_lease_transfer s = (Inr t, (a1, se\<lparr>sl_lease := None\<rparr>))"
    using l(1) b1(1) by (simp add: s begin_lease_transfer_def own_lease_def on_access_def keep_lease_def modify_def obind_def oreturn_def)
  moreover have "commit_lease_transfer t COMBAT (Some h) (a1, se\<lparr>sl_lease := None\<rparr>) = (Inr c, (a2, se\<lparr>sl_lease := None\<rparr>))"
    using c1(1) by (simp add: commit_lease_transfer_def on_access_def)
  moreover have "commit_lease_transfer t' RUN (Some (sl_holder (snd s))) (a3, se\<lparr>sl_lease := None\<rparr>) = (Inr r, (a4, se\<lparr>sl_lease := None\<rparr>))"
    using c2(1) by (simp add: s commit_lease_transfer_def on_access_def)
  moreover have "accept_transferred_lease mk r (a4, se\<lparr>sl_lease := None\<rparr>) = (Inr (), (?a5, se\<lparr>sl_lease := Some r\<rparr>))"
    using c2(2-4)
    by (simp add: accept_transferred_lease_def on_access_def mutating_game_def keep_lease_def modify_def obind_def lease_accepted_def split: prod.split del: validate_current_Inr)
  moreover have "holds_run (?a5, se\<lparr>sl_lease := Some r\<rparr>)"
    using c2(2-4) by (simp add: holds_run_def lease_accepted_iff observation_game_def split: option.split)
  moreover have "begin_transfer c (fst (a2, se\<lparr>sl_lease := None\<rparr>)) = (Inr t', a3)" using b2(1) by simp
  ultimately show ?thesis using b1(2) b2(2) c1(2) by (metis fst_conv snd_conv)
qed

theorem handoff_comes_back_witness:
  "\<exists>t s1 :: (nat, nat) session_state. begin_lease_transfer (\<lparr> ga_game = None, ga_state = RUN, ga_holder = Some 1, ga_generation = 3, ga_origin = None \<rparr>,
       \<lparr> sl_holder = 1, sl_lease = Some \<lparr> gl_holder = Some 1, gl_state = RUN, gl_generation = 3 \<rparr> \<rparr>) = (Inr t, s1)
     \<and> (\<forall>l. \<not> lease_accepted (fst s1) l)"
proof -
  have "holds_run (\<lparr> ga_game = None :: nat option, ga_state = RUN, ga_holder = Some (1 :: nat), ga_generation = 3, ga_origin = None \<rparr>,
       \<lparr> sl_holder = 1, sl_lease = Some \<lparr> gl_holder = Some 1, gl_state = RUN, gl_generation = 3 \<rparr> \<rparr>)"
    by (simp add: holds_run_def lease_accepted_iff)
  from handoff_comes_back [OF this] show ?thesis by blast
qed
end
