(* ===== verification/Run_Worker.thy ===== *)
theory Run_Worker
  imports Run_Session
begin

text \<open>
  A worker of a whole run: the work items, leases, results and the worker process of
  \<open>Run/worker_pool.py\<close>.

  A worker keeps one session and the context of the choice it waits at.  A bootstrap request loads a
  map snapshot, enters a room and reaches a choice by replaying a prefix or by discovering one; a
  holder request continues at the choice the worker already holds.  Every exception becomes a result.
  \<open>json.loads\<close> and SHA-256 are parameters; diagnostics are a datatype with the content of the dicts.
\<close>

section \<open>Work items, leases and results\<close>

datatype worker_slot = Main_slot | Branch_slot nat

definition RUN_KIND_CONTINUATION :: string where "RUN_KIND_CONTINUATION = ''continuation''"
definition RUN_KIND_SUB_BRANCH :: string where "RUN_KIND_SUB_BRANCH = ''sub_branch''"
definition RUN_MODE_BOOTSTRAP :: string where "RUN_MODE_BOOTSTRAP = ''bootstrap_step''"
definition RUN_MODE_HOLDER :: string where "RUN_MODE_HOLDER = ''holder_step''"
definition RUN_SUCCESS :: string where "RUN_SUCCESS = ''success''"
definition RUN_FAULT :: string where "RUN_FAULT = ''fault''"

lemmas run_constant_defs = RUN_KIND_CONTINUATION_def RUN_KIND_SUB_BRANCH_def RUN_MODE_BOOTSTRAP_def RUN_MODE_HOLDER_def RUN_SUCCESS_def RUN_FAULT_def

definition json_digest16 :: "(string \<Rightarrow> string) \<Rightarrow> json \<Rightarrow> string" where
  "json_digest16 sha v = take 16 (sha (json_dumps True v))"

definition json_or_null :: "('a \<Rightarrow> json) \<Rightarrow> 'a option \<Rightarrow> json" where
  "json_or_null f x = (case x of None \<Rightarrow> JNull | Some y \<Rightarrow> f y)"

definition derive_run_context_id :: "(string \<Rightarrow> string) \<Rightarrow> string \<Rightarrow> int option \<Rightarrow> int list \<Rightarrow> string \<Rightarrow> string option \<Rightarrow> string" where
  "derive_run_context_id sha snapshot room taken choice relic = json_digest16 sha (JObj
     [(''map_snapshot_sha256'', JStr (sha snapshot)), (''room_id'', json_or_null JInt room), (''action_prefix'', JArr (map JInt taken)),
      (''choice_type'', JStr choice), (''relic_injection'', json_or_null JStr relic)])"

record event_plan =
  ep_key :: "string \<times> string \<times> int"
  ep_override :: "(string, json) dict"
  ep_index :: int

record choice_item =
  cw_id :: string
  cw_context :: string
  cw_choice :: string
  cw_snapshot :: string
  cw_room :: "int option"
  cw_prefix :: "int list"
  cw_relic :: "string option"
  cw_target :: string
  cw_kind :: string
  cw_resolve :: "int option"
  cw_key :: "string option"
  cw_ordinal :: int
  cw_plan :: "event_plan option"
  cw_discover :: bool

definition choice_item_checked :: "choice_item \<Rightarrow> choice_item res" where
  "choice_item_checked w = (if cw_kind w \<notin> {RUN_KIND_CONTINUATION, RUN_KIND_SUB_BRANCH} then value_error (''unknown work_kind '' @ repr_str (cw_kind w))
     else Inr w)"

record run_lease =
  rl_slot :: worker_slot
  rl_generation :: nat
  rl_pid :: nat
  rl_context :: string
  rl_session :: "string option"
  rl_seed :: int
  rl_signature :: string

definition run_lease_valid :: "run_lease \<Rightarrow> choice_item \<Rightarrow> nat option \<Rightarrow> bool" where
  "run_lease_valid l w generation \<longleftrightarrow> cw_kind w = RUN_KIND_CONTINUATION \<and> rl_context l = cw_context w
     \<and> (case generation of None \<Rightarrow> True | Some g \<Rightarrow> rl_generation l = g)"

record reach_result =
  rh_boundary :: string
  rh_scope :: string
  rh_kind :: json
  rh_legal :: "run_action list"
  rh_context :: "(string, json) dict"
  rh_observation :: run_observation
  rh_run_state :: "(string, json) dict"
  rh_rng :: "(string, json) dict option"

datatype visible_step = Stepped step_result | Entered int run_observation "(string, json) dict" room_entered

record choice_step =
  cs_result :: visible_step
  cs_run_state :: "(string, json) dict"
  cs_observation :: run_observation
  cs_legal :: "run_action list"
  cs_context :: "(string, json) dict"
  cs_auto :: "int list"

datatype run_diagnostics =
    No_diagnostics
  | Replay_mismatch string reach_result
  | Worker_exception py_exc string
  | Pool_fault string py_exc

record run_result =
  rr_status :: string
  rr_item :: choice_item
  rr_mode :: string
  rr_slot :: worker_slot
  rr_generation :: "nat option"
  rr_pid :: "nat option"
  rr_reach :: "reach_result option"
  rr_step :: "choice_step option"
  rr_lease :: "run_lease option"
  rr_discovered :: "int list option"
  rr_diagnostics :: run_diagnostics

definition run_result_checked :: "run_result \<Rightarrow> run_result res" where
  "run_result_checked r =
     (if rr_status r \<notin> {RUN_SUCCESS, RUN_FAULT} then value_error (''unknown BranchResult status '' @ repr_str (rr_status r))
      else if rr_mode r \<notin> {RUN_MODE_BOOTSTRAP, RUN_MODE_HOLDER} then value_error (''unknown execution_mode '' @ repr_str (rr_mode r))
      else Inr r)"

record run_worker_request =
  rq_choice :: choice_item
  rq_how :: string
  rq_expected :: "run_lease option"

section \<open>Reaching a choice\<close>

text \<open>\<open>json.dumps\<close> with its default separators.\<close>

fun json_text :: "json \<Rightarrow> string" where
  "json_text (JArr xs) = ''['' @ join_with '', '' (map json_text xs) @ '']''"
| "json_text (JObj d) = ''{'' @ join_with '', '' (map (\<lambda>(k, v). dumps_str True k @ '': '' @ json_text v) d) @ ''}''"
| "json_text v = json_dumps True v"

definition type_error :: "string \<Rightarrow> 'a res" where
  "type_error t = Inl (PyExc ''TypeError'' t)"

definition at_key :: "string \<Rightarrow> (json \<Rightarrow> json res) \<Rightarrow> json \<Rightarrow> json res" where
  "at_key k f v = (case v of JObj d \<Rightarrow> sbind (subscript d k) (\<lambda>x. sbind (f x) (\<lambda>y. Inr (JObj (dset k y d))))
     | _ \<Rightarrow> type_error (type_of_json v @ '' cannot be read at '' @ repr_str k))"

definition at_first :: "(json \<Rightarrow> json res) \<Rightarrow> json \<Rightarrow> json res" where
  "at_first f v = (case v of JArr (x # xs) \<Rightarrow> sbind (f x) (\<lambda>y. Inr (JArr (y # xs)))
     | JArr [] \<Rightarrow> Inl (PyExc ''IndexError'' ''list index out of range'')
     | JObj _ \<Rightarrow> Inl (PyExc ''KeyError'' ''0'')
     | _ \<Rightarrow> type_error (type_of_json v @ '' cannot be read at 0''))"

definition append_value :: "json \<Rightarrow> json \<Rightarrow> json res" where
  "append_value x v = (case v of JArr xs \<Rightarrow> Inr (JArr (xs @ [x])) | _ \<Rightarrow> Inl (PyExc ''AttributeError'' (type_of_json v @ '' object has no attribute append'')))"

definition inject_relic :: "(string \<Rightarrow> json res) \<Rightarrow> string \<Rightarrow> string \<Rightarrow> string res" where
  "inject_relic loads snapshot relic =
     sbind (loads snapshot) (\<lambda>v.
     sbind (at_key ''Run'' (at_key ''Run'' (at_key ''players'' (at_first (at_key ''relics''
         (append_value (JObj [(''id'', JStr (''RELIC.'' @ relic)), (''floor_added_to_deck'', JInt 1)])))))) v) (\<lambda>v.
     Inr (json_text v)))"

definition map_rooms_as_legal_actions :: "map_room list \<Rightarrow> run_action list" where
  "map_rooms_as_legal_actions rooms = map (\<lambda>r.
     \<lparr> ra_id = mr_id r, ra_type = ''map_room'', ra_label = mr_point r @ ''@'' @ str_int (mr_column r) @ '','' @ str_int (mr_row r), ra_available = True,
       ra_params = [(''column'', JInt (mr_column r)), (''row'', JInt (mr_row r)), (''point_type'', JStr (mr_point r))] \<rparr>) rooms"

definition pending_kind :: "(string, json) dict \<Rightarrow> json res" where
  "pending_kind state = (let v = jget state ''pendingChoice'' in
     if \<not> truthy v then Inr JNull
     else (case v of JObj d \<Rightarrow> Inr (jget d ''choiceType'') | _ \<Rightarrow> Inl (PyExc ''AttributeError'' (type_of_json v @ '' object has no attribute get''))))"

definition choice_actions :: "'s run_ops \<Rightarrow> bool \<Rightarrow> 's \<Rightarrow> run_action list res" where
  "choice_actions ops at_map s = (if at_map then sbind (ro_rooms ops s) (\<lambda>rooms. Inr (map_rooms_as_legal_actions rooms)) else ro_legal ops s)"

definition reach_result_from_session :: "'s run_ops \<Rightarrow> string \<Rightarrow> 's \<Rightarrow> reach_result res" where
  "reach_result_from_session ops choice s =
     sbind (ro_observation ops s) (\<lambda>ob.
     sbind (choice_actions ops (choice = ''map'') s) (\<lambda>legal.
     sbind (pending_kind (ob_state ob)) (\<lambda>kind.
     sbind (if ob_boundary ob = EVENT_CHOICE then sbind (ro_event_rng ops s) (\<lambda>d. Inr (Some d)) else Inr None) (\<lambda>rng.
     sbind (ro_context ops s) (\<lambda>ctx.
     sbind (ro_run_state ops s) (\<lambda>st.
     Inr \<lparr> rh_boundary = ob_boundary ob, rh_scope = ob_scope ob, rh_kind = kind, rh_legal = legal, rh_context = ctx, rh_observation = ob,
           rh_run_state = st, rh_rng = rng \<rparr>))))))"

definition apply_event_rng_override :: "'s run_ops \<Rightarrow> (string, json) dict \<Rightarrow> ('s, unit) stateop" where
  "apply_event_rng_override ops override = ro_set_rng ops (filter (\<lambda>(k, v). k \<noteq> ''event_id'') override)"

text \<open>The prefix from an index on, with the override before the entry the plan names.\<close>

fun replay_prefix :: "'s run_ops \<Rightarrow> event_plan option \<Rightarrow> int \<Rightarrow> int list \<Rightarrow> ('s, unit) stateop" where
  "replay_prefix ops plan index [] = oreturn ()"
| "replay_prefix ops plan index (i # is) =
     obind (case plan of None \<Rightarrow> oreturn () | Some p \<Rightarrow> if ep_index p = index then apply_event_rng_override ops (ep_override p) else oreturn ()) (\<lambda>_.
     obind (ro_step ops i) (\<lambda>_. replay_prefix ops plan (index + 1) is))"

definition bootstrap_reach :: "'s run_ops \<Rightarrow> (string \<Rightarrow> json res) \<Rightarrow> choice_item \<Rightarrow> ('s, int list option) stateop" where
  "bootstrap_reach ops loads w =
     obind (olift (case cw_relic w of None \<Rightarrow> Inr (cw_snapshot w) | Some r \<Rightarrow> if r = [] then Inr (cw_snapshot w) else inject_relic loads (cw_snapshot w) r)) (\<lambda>snapshot.
     obind (ro_load ops snapshot) (\<lambda>_.
     if cw_choice w = ''map'' then oreturn None
     else (case cw_room w of
         None \<Rightarrow> olift (Inl (PyExc ''AssertionError'' []))
       | Some room \<Rightarrow>
           obind (ro_choose ops room) (\<lambda>_.
           if \<not> cw_discover w then obind (replay_prefix ops (cw_plan w) 0 (cw_prefix w)) (\<lambda>_. oreturn None)
           else obind (drain_frontier ops) (\<lambda>d.
                obind (discover_loop ops [cw_target w, RUN_TERMINAL] 400 (ad_ids d)) (\<lambda>ids. oreturn (Some ids)))))))"

section \<open>The worker process\<close>

record 's run_env =
  rv_ops :: "'s run_ops"
  rv_loads :: "string \<Rightarrow> json res"
  rv_sha :: "string \<Rightarrow> string"
  rv_traceback :: string

record 's run_worker =
  wk_slot :: worker_slot
  wk_generation :: nat
  wk_pid :: nat
  wk_session :: 's
  wk_context :: "string option"

definition new_run_worker :: "worker_slot \<Rightarrow> nat \<Rightarrow> nat \<Rightarrow> 's \<Rightarrow> 's run_worker" where
  "new_run_worker slot generation pid s = \<lparr> wk_slot = slot, wk_generation = generation, wk_pid = pid, wk_session = s, wk_context = None \<rparr>"

definition on_run_session :: "('s, 'a) stateop \<Rightarrow> ('s run_worker, 'a) stateop" where
  "on_run_session f rt = (case f (wk_session rt) of (r, s) \<Rightarrow> (r, rt\<lparr>wk_session := s\<rparr>))"

definition set_context :: "string option \<Rightarrow> ('s run_worker, unit) stateop" where
  "set_context c = modify (\<lambda>rt. rt\<lparr>wk_context := c\<rparr>)"

definition result_of :: "'s run_worker \<Rightarrow> run_worker_request \<Rightarrow> string \<Rightarrow> run_result" where
  "result_of rt q status = \<lparr> rr_status = status, rr_item = rq_choice q, rr_mode = rq_how q, rr_slot = wk_slot rt, rr_generation = Some (wk_generation rt),
     rr_pid = Some (wk_pid rt), rr_reach = None, rr_step = None, rr_lease = None, rr_discovered = None, rr_diagnostics = No_diagnostics \<rparr>"

text \<open>The state a request needs: reached by a bootstrap, or held since an earlier request.\<close>

definition enter_request :: "'s run_env \<Rightarrow> run_worker_request \<Rightarrow> ('s run_worker, int list option) stateop" where
  "enter_request env q rt = (let w = rq_choice q in
     if rq_how q = RUN_MODE_BOOTSTRAP
     then obind (on_run_session (bootstrap_reach (rv_ops env) (rv_loads env) w)) (\<lambda>found. obind (set_context (Some (cw_context w))) (\<lambda>_. oreturn found)) rt
     else if rq_how q = RUN_MODE_HOLDER
     then (case rq_expected q of
         None \<Rightarrow> (runtime_error ''Holder Step request requires expected_lease'', rt)
       | Some l \<Rightarrow>
           if wk_context rt \<noteq> Some (cw_context w) then (runtime_error (''Holder Step context mismatch: request='' @ repr_str (cw_context w)), rt)
           else if rl_generation l \<noteq> wk_generation rt then (runtime_error ''Holder Step generation mismatch'', rt)
           else (Inr None, rt))
     else (runtime_error (''unknown execution mode '' @ repr_str (rq_how q)), rt))"

definition lease_of :: "'s run_env \<Rightarrow> 's run_worker \<Rightarrow> choice_item \<Rightarrow> reach_result \<Rightarrow> run_lease" where
  "lease_of env rt w reach = \<lparr> rl_slot = wk_slot rt, rl_generation = wk_generation rt, rl_pid = wk_pid rt, rl_context = cw_context w,
     rl_session = ob_session (rh_observation reach), rl_seed = ob_seed (rh_observation reach),
     rl_signature = json_digest16 (rv_sha env) (JObj [(''boundary'', JStr (rh_boundary reach)), (''choice_scope'', JStr (rh_scope reach)),
       (''legal_keys'', JArr (map JStr (sort (map legal_action_semantic_key_text (rh_legal reach)))))]) \<rparr>"

text \<open>The id to step: the given one, or the one at the given position among the actions with the given key.\<close>

definition resolved_id :: "choice_item \<Rightarrow> run_action list \<Rightarrow> int \<Rightarrow> int res" where
  "resolved_id w legal i = (case cw_key w of
       None \<Rightarrow> Inr i
     | Some k \<Rightarrow>
         if k = [] then Inr i
         else (let found = map ra_id (filter (\<lambda>a. legal_action_semantic_key_text a = k) legal) in
           if 0 \<le> cw_ordinal w \<and> cw_ordinal w < int (length found) then Inr (found ! nat (cw_ordinal w))
           else runtime_error (''replay action semantic key ordinal did not resolve: key='' @ repr_str k @ '', ordinal='' @ str_int (cw_ordinal w)
             @ '', matches='' @ repr_ids found)))"

definition visible_action :: "'s run_ops \<Rightarrow> string \<Rightarrow> int \<Rightarrow> ('s, visible_step) stateop" where
  "visible_action ops choice i =
     (if choice = ''map''
      then obind (ro_choose ops i) (\<lambda>entered.
           obind (observe (ro_observation ops)) (\<lambda>ob.
           obind (observe (ro_context ops)) (\<lambda>ctx. oreturn (Entered i ob ctx entered))))
      else obind (ro_step ops i) (\<lambda>r. oreturn (Stepped r)))"

definition resolve_choice :: "'s run_ops \<Rightarrow> string \<Rightarrow> int \<Rightarrow> ('s, choice_step) stateop" where
  "resolve_choice ops choice i =
     obind (visible_action ops choice i) (\<lambda>r.
     obind (drain_frontier ops) (\<lambda>d.
     obind (observe (ro_observation ops)) (\<lambda>ob.
     obind (observe (choice_actions ops (ob_boundary ob = MAP_SELECT))) (\<lambda>legal.
     obind (observe (ro_context ops)) (\<lambda>ctx.
     obind (observe (ro_run_state ops)) (\<lambda>st.
     oreturn \<lparr> cs_result = r, cs_run_state = st, cs_observation = ob, cs_legal = legal, cs_context = ctx, cs_auto = ad_ids d \<rparr>))))))"

text \<open>The planned override just before the resolving action.\<close>

definition override_at_choice :: "'s run_ops \<Rightarrow> choice_item \<Rightarrow> reach_result \<Rightarrow> ('s, unit) stateop" where
  "override_at_choice ops w reach = (case cw_plan w of
       None \<Rightarrow> oreturn ()
     | Some p \<Rightarrow>
         if ep_index p \<noteq> int (length (cw_prefix w)) then oreturn ()
         else if rh_boundary reach \<noteq> EVENT_CHOICE then olift (runtime_error (''event_rng_plan given but boundary is '' @ repr_str (rh_boundary reach)
                @ '', not '' @ repr_str EVENT_CHOICE))
         else apply_event_rng_override ops (ep_override p))"

definition attempt_request :: "'s run_env \<Rightarrow> run_worker_request \<Rightarrow> ('s run_worker, run_result) stateop" where
  "attempt_request env q =
     (let w = rq_choice q; ops = rv_ops env in
      obind (enter_request env q) (\<lambda>found.
      obind (on_run_session (observe (reach_result_from_session ops (cw_choice w)))) (\<lambda>reach rt.
      if rh_boundary reach \<noteq> cw_target w
      then (Inr ((result_of rt q RUN_FAULT)\<lparr>rr_diagnostics := Replay_mismatch (cw_target w) reach\<rparr>), rt\<lparr>wk_context := None\<rparr>)
      else obind (on_run_session (override_at_choice ops w reach)) (\<lambda>_ rt.
        (case cw_resolve w of
           None \<Rightarrow> (Inr ((result_of rt q RUN_SUCCESS)\<lparr>rr_reach := Some reach, rr_lease := Some (lease_of env rt w reach), rr_discovered := found\<rparr>), rt)
         | Some i \<Rightarrow>
             obind (olift (resolved_id w (rh_legal reach) i)) (\<lambda>j.
             obind (on_run_session (resolve_choice ops (cw_choice w) j)) (\<lambda>step rt.
               (Inr ((result_of rt q RUN_SUCCESS)\<lparr>rr_reach := Some reach, rr_step := Some step\<rparr>), rt\<lparr>wk_context := None\<rparr>))) rt)) rt)))"

definition execute_choice :: "'s run_env \<Rightarrow> run_worker_request \<Rightarrow> ('s run_worker, run_result) stateop" where
  "execute_choice env q rt = (case attempt_request env q rt of
       (Inr r, rt') \<Rightarrow> (Inr r, rt')
     | (Inl e, rt') \<Rightarrow> (run_result_checked ((result_of rt' q RUN_FAULT)\<lparr>rr_diagnostics := Worker_exception e (rv_traceback env)\<rparr>),
         rt'\<lparr>wk_context := None\<rparr>))"

section \<open>Lemmas\<close>

text \<open>\<open>load_state\<close> replaces the whole state of the game.\<close>

definition load_resets :: "'s run_ops \<Rightarrow> bool" where
  "load_resets ops \<longleftrightarrow> (\<forall>snapshot s t. ro_load ops snapshot s = ro_load ops snapshot t)"

lemma replay_without_plan: "replay_prefix ops None index is s = step_all ops is s"
  by (induction "is" arbitrary: index s) (simp_all add: obind_def oreturn_def split: prod.split sum.split)

text \<open>The item that replays what another discovered.\<close>

definition replaying :: "int list option \<Rightarrow> choice_item \<Rightarrow> choice_item" where
  "replaying found w = w\<lparr>cw_discover := False, cw_prefix := (case found of None \<Rightarrow> cw_prefix w | Some ids \<Rightarrow> ids)\<rparr>"

lemma bootstrap_replays:
  assumes "load_resets ops" "bootstrap_reach ops loads w s = (Inr found, u)" "cw_discover w" "cw_plan w = None"
  shows "bootstrap_reach ops loads (replaying found w) t = (Inr None, u)"
proof -
  obtain snapshot where snap: "(case cw_relic w of None \<Rightarrow> Inr (cw_snapshot w) | Some r \<Rightarrow> if r = [] then Inr (cw_snapshot w) else inject_relic loads (cw_snapshot w) r)
      = Inr snapshot"
    and rest: "obind (ro_load ops snapshot) (\<lambda>_.
        if cw_choice w = ''map'' then oreturn None
        else (case cw_room w of
            None \<Rightarrow> olift (Inl (PyExc ''AssertionError'' []))
          | Some room \<Rightarrow> obind (ro_choose ops room) (\<lambda>_. obind (drain_frontier ops) (\<lambda>d.
                obind (discover_loop ops [cw_target w, RUN_TERMINAL] 400 (ad_ids d)) (\<lambda>ids. oreturn (Some ids)))))) s = (Inr found, u)"
    using assms(2,3) unfolding bootstrap_reach_def obind_Inr [of "olift _"] by (auto simp only: olift_Inr_iff simp_thms if_True if_False)
  from rest obtain x s1 where load: "ro_load ops snapshot s = (Inr x, s1)"
    and go: "(if cw_choice w = ''map'' then oreturn None
        else (case cw_room w of
            None \<Rightarrow> olift (Inl (PyExc ''AssertionError'' []))
          | Some room \<Rightarrow> obind (ro_choose ops room) (\<lambda>_. obind (drain_frontier ops) (\<lambda>d.
                obind (discover_loop ops [cw_target w, RUN_TERMINAL] 400 (ad_ids d)) (\<lambda>ids. oreturn (Some ids)))))) s1 = (Inr found, u)"
    by (auto simp: obind_Inr)
  have load': "ro_load ops snapshot t = (Inr x, s1)" using load assms(1) unfolding load_resets_def by metis
  have fields: "cw_relic (replaying found w) = cw_relic w" "cw_snapshot (replaying found w) = cw_snapshot w" "cw_choice (replaying found w) = cw_choice w"
    "cw_room (replaying found w) = cw_room w" "cw_plan (replaying found w) = None" "\<not> cw_discover (replaying found w)"
    using assms(4) by (simp_all add: replaying_def)
  show ?thesis
  proof (cases "cw_choice w = ''map''")
    case True
    with go have "u = s1" by simp
    with True show ?thesis unfolding bootstrap_reach_def fields snap by (simp add: obind_def olift_def load' oreturn_def)
  next
    case False
    with go obtain room y s2 d s3 ids where r: "cw_room w = Some room" "ro_choose ops room s1 = (Inr y, s2)" "drain_frontier ops s2 = (Inr d, s3)"
        "discover_loop ops [cw_target w, RUN_TERMINAL] 400 (ad_ids d) s3 = (Inr ids, u)" "found = Some ids"
      by (auto simp: obind_Inr simp del: discover_loop.simps split: option.splits)
    obtain more where "ids = ad_ids d @ more" "step_all ops more s3 = (Inr (), u)" by (rule discover_loop_replays [OF r(4)])
    with drain_replays(1) [OF r(3)] have "step_all ops ids s2 = (Inr (), u)" by (auto intro: step_all_trans)
    moreover have "cw_prefix (replaying found w) = ids" using r(5) by (simp add: replaying_def)
    ultimately show ?thesis
      unfolding bootstrap_reach_def fields snap using False r(1,2) load' fields(6) by (simp add: obind_def olift_def replay_without_plan oreturn_def)
  qed
qed

lemma bootstrap_fields:
  assumes "cw_relic w = cw_relic v" "cw_snapshot w = cw_snapshot v" "cw_choice w = cw_choice v" "cw_room w = cw_room v" "cw_discover w = cw_discover v"
    "cw_plan w = cw_plan v" "cw_prefix w = cw_prefix v" "cw_target w = cw_target v"
  shows "bootstrap_reach ops loads w = bootstrap_reach ops loads v"
  by (simp only: bootstrap_reach_def assms)

text \<open>What follows the entry of a request, on the session alone.\<close>

type_synonym choice_outcome = "string \<times> reach_result option \<times> choice_step option"

definition finish_on :: "'s run_ops \<Rightarrow> choice_item \<Rightarrow> ('s, choice_outcome) stateop" where
  "finish_on ops w =
     obind (observe (reach_result_from_session ops (cw_choice w))) (\<lambda>reach.
     if rh_boundary reach \<noteq> cw_target w then oreturn (RUN_FAULT, None, None)
     else obind (override_at_choice ops w reach) (\<lambda>_.
       case cw_resolve w of
         None \<Rightarrow> oreturn (RUN_SUCCESS, Some reach, None)
       | Some i \<Rightarrow> obind (olift (resolved_id w (rh_legal reach) i)) (\<lambda>j.
           obind (resolve_choice ops (cw_choice w) j) (\<lambda>step. oreturn (RUN_SUCCESS, Some reach, Some step)))))"

definition outcome_of :: "run_result \<Rightarrow> choice_outcome" where
  "outcome_of r = (rr_status r, rr_reach r, rr_step r)"

lemma on_session_eq: "on_run_session f rt = (fst (f (wk_session rt)), rt\<lparr>wk_session := snd (f (wk_session rt))\<rparr>)"
  by (simp add: on_run_session_def split: prod.split)

lemma attempt_finish:
  assumes "enter_request env q rt = (Inr found, rt1)" "attempt_request env q rt = (x, rt2)"
  shows "(case x of Inl e \<Rightarrow> Inl e | Inr r \<Rightarrow> Inr (outcome_of r)) = fst (finish_on (rv_ops env) (rq_choice q) (wk_session rt1))"
    and "wk_session rt2 = snd (finish_on (rv_ops env) (rq_choice q) (wk_session rt1))"
  using assms
  by (auto simp: attempt_request_def Let_def finish_on_def obind_def on_session_eq olift_def oreturn_def outcome_of_def result_of_def
      split: prod.splits sum.splits option.splits if_splits)

lemma finish_fields:
  assumes "cw_choice w = cw_choice v" "cw_target w = cw_target v" "cw_plan w = cw_plan v" "cw_prefix w = cw_prefix v" "cw_resolve w = cw_resolve v"
    "cw_key w = cw_key v" "cw_ordinal w = cw_ordinal v"
  shows "finish_on ops w = finish_on ops v"
proof -
  have "override_at_choice ops w = override_at_choice ops v" by (rule ext) (simp only: override_at_choice_def assms)
  moreover have "resolved_id w = resolved_id v" by (intro ext) (simp only: resolved_id_def assms)
  ultimately show ?thesis by (simp only: finish_on_def assms)
qed

text \<open>The answer of a worker to a proper request, from what it entered.\<close>

definition proper_request :: "run_worker_request \<Rightarrow> bool" where
  "proper_request q \<longleftrightarrow> rq_how q \<in> {RUN_MODE_BOOTSTRAP, RUN_MODE_HOLDER}"

lemma execute_after_entry:
  assumes "proper_request q" "enter_request env q rt = (Inr found, rt1)"
  obtains r rt2 where "execute_choice env q rt = (Inr r, rt2)"
    "outcome_of r = (case fst (finish_on (rv_ops env) (rq_choice q) (wk_session rt1)) of Inl e \<Rightarrow> (RUN_FAULT, None, None) | Inr out \<Rightarrow> out)"
    "wk_session rt2 = snd (finish_on (rv_ops env) (rq_choice q) (wk_session rt1))"
proof (cases "attempt_request env q rt")
  case (Pair x rt2)
  note f = attempt_finish [OF assms(2) Pair]
  show thesis
  proof (cases x)
    case (Inl e)
    let ?r = "(result_of rt2 q RUN_FAULT)\<lparr>rr_diagnostics := Worker_exception e (rv_traceback env)\<rparr>"
    have "run_result_checked ?r = Inr ?r" using assms(1) by (simp add: run_result_checked_def result_of_def proper_request_def)
    then have "execute_choice env q rt = (Inr ?r, rt2\<lparr>wk_context := None\<rparr>)" using Pair Inl by (simp add: execute_choice_def)
    then show thesis using f Inl by (intro that [of ?r "rt2\<lparr>wk_context := None\<rparr>"]) (auto simp: outcome_of_def result_of_def split: sum.splits)
  next
    case (Inr r)
    then have "execute_choice env q rt = (Inr r, rt2)" using Pair by (simp add: execute_choice_def)
    then show thesis using f Inr by (intro that) (auto split: sum.splits)
  qed
qed

section \<open>Properties\<close>

definition bootstrap_of :: "choice_item \<Rightarrow> run_worker_request" where
  "bootstrap_of w = \<lparr> rq_choice = w, rq_how = RUN_MODE_BOOTSTRAP, rq_expected = None \<rparr>"

definition holder_of :: "choice_item \<Rightarrow> run_lease \<Rightarrow> run_worker_request" where
  "holder_of w l = \<lparr> rq_choice = w, rq_how = RUN_MODE_HOLDER, rq_expected = Some l \<rparr>"

text \<open>An established choice: the session the worker holds is the one the bootstrap reached.\<close>

lemma established:
  assumes "execute_choice env (bootstrap_of w) rt = (Inr r, rt1)" "rr_lease r = Some l"
  obtains found where "bootstrap_reach (rv_ops env) (rv_loads env) w (wk_session rt) = (Inr found, wk_session rt1) \<or> cw_plan w \<noteq> None"
    "rr_discovered r = found" "wk_context rt1 = Some (cw_context w)" "rl_generation l = wk_generation rt1" "rl_context l = cw_context w"
    "wk_generation rt1 = wk_generation rt"
proof -
  from assms have run: "attempt_request env (bootstrap_of w) rt = (Inr r, rt1)"
    by (auto simp: execute_choice_def run_result_checked_def value_error_def result_of_def split: prod.splits sum.splits if_splits)
  from run assms(2) show thesis
    by (intro that [of "rr_discovered r"])
      (auto simp: attempt_request_def bootstrap_of_def enter_request_def Let_def obind_def on_session_eq set_context_def modify_def oreturn_def olift_def
        result_of_def lease_of_def override_at_choice_def run_constant_defs split: prod.splits sum.splits option.splits if_splits intro: prod_eqI)
qed


text \<open>A replay with its planned override, as one sequence of commands on the session.\<close>

datatype session_command = Do_step int | Do_override "(string, json) dict"

fun run_script :: "'s run_ops \<Rightarrow> session_command list \<Rightarrow> ('s, unit) stateop" where
  "run_script ops [] = oreturn ()"
| "run_script ops (Do_step i # cs) = obind (ro_step ops i) (\<lambda>_. run_script ops cs)"
| "run_script ops (Do_override d # cs) = obind (apply_event_rng_override ops d) (\<lambda>_. run_script ops cs)"

definition planned_script :: "event_plan \<Rightarrow> int list \<Rightarrow> session_command list" where
  "planned_script p acts = map Do_step (take (nat (ep_index p)) acts) @ [Do_override (ep_override p)] @ map Do_step (drop (nat (ep_index p)) acts)"

lemma run_script_append: "run_script ops (xs @ ys) s = obind (run_script ops xs) (\<lambda>_. run_script ops ys) s"
proof (induction xs arbitrary: s)
  case (Cons c cs)
  show ?case by (cases c) (auto simp: Cons.IH obind_def split: prod.split sum.split)
qed (simp add: obind_def oreturn_def)

lemma run_script_trans: "run_script ops xs s = (Inr (), t) \<Longrightarrow> run_script ops ys t = (Inr (), u) \<Longrightarrow> run_script ops (xs @ ys) s = (Inr (), u)"
  by (simp add: run_script_append obind_def)

lemma run_script_steps: "run_script ops (map Do_step is) s = step_all ops is s"
  by (induction "is" arbitrary: s) (auto simp: obind_def split: prod.split sum.split)

lemma replay_past_plan: "ep_index p < index \<Longrightarrow> replay_prefix ops (Some p) index is s = step_all ops is s"
  by (induction "is" arbitrary: index s) (auto simp: obind_def oreturn_def split: prod.split sum.split)

lemma replay_to_plan:
  assumes "index \<le> ep_index p" "ep_index p < index + int (length is)"
  shows "replay_prefix ops (Some p) index is s = run_script ops (planned_script (p\<lparr>ep_index := ep_index p - index\<rparr>) is) s"
  using assms
proof (induction "is" arbitrary: index s)
  case (Cons i "is")
  show ?case
  proof (cases "ep_index p = index")
    case True
    then show ?thesis
      by (auto simp: planned_script_def run_script_steps replay_past_plan obind_def split: prod.split sum.split)
  next
    case False
    with Cons.prems have "index + 1 \<le> ep_index p" "ep_index p < index + 1 + int (length is)" by auto
    note IH = Cons.IH [OF this]
    have k: "nat (ep_index p - index) = Suc (nat (ep_index p - (index + 1)))" using False Cons.prems(1) by linarith
    show ?thesis using False by (simp add: IH planned_script_def k obind_def oreturn_def split: prod.split sum.split)
  qed
qed simp

lemma replay_short_of_plan: "index + int (length is) \<le> ep_index p \<Longrightarrow> replay_prefix ops (Some p) index is s = step_all ops is s"
  by (induction "is" arbitrary: index s) (auto simp: obind_def oreturn_def split: prod.split sum.split)

lemma resolve_choice_end:
  "resolve_choice ops choice i u = (Inr step, t) \<Longrightarrow> \<exists>x v d. visible_action ops choice i u = (Inr x, v) \<and> drain_frontier ops v = (Inr d, t)"
  unfolding resolve_choice_def by (simp only: obind_Inr observe_eq oreturn_Inr_iff prod.inject) blast

text \<open>
  C35.  A planned override is applied exactly once, where the plan says: a replayed branch that
  resolves its action has put the session, after loading and entering the room, through the actions of
  the prefix and the resolving one with the override just before the entry of the plan's index, then
  through the trivial rewards.
\<close>

theorem override_applied_once:
  assumes "execute_choice env (bootstrap_of w) rt = (Inr r, rt1)" "rr_status r = RUN_SUCCESS"
    "\<not> cw_discover w" "cw_choice w \<noteq> ''map''" "cw_plan w = Some p" "0 \<le> ep_index p" "ep_index p \<le> int (length (cw_prefix w))"
    "cw_resolve w = Some i" "cw_key w = None"
  shows "\<exists>snapshot room s0 entered s1 s2 d. ro_load (rv_ops env) snapshot (wk_session rt) = (Inr (), s0) \<and> cw_room w = Some room
    \<and> ro_choose (rv_ops env) room s0 = (Inr entered, s1)
    \<and> run_script (rv_ops env) (planned_script p (cw_prefix w @ [i])) s1 = (Inr (), s2)
    \<and> drain_frontier (rv_ops env) s2 = (Inr d, wk_session rt1)"
proof -
  let ?ops = "rv_ops env"
  from assms(1,2) have run: "attempt_request env (bootstrap_of w) rt = (Inr r, rt1)"
    by (auto simp: execute_choice_def run_result_checked_def value_error_def result_of_def run_constant_defs split: prod.splits sum.splits if_splits)
  obtain y rt2 where e: "enter_request env (bootstrap_of w) rt = (y, rt2)" by (rule prod.exhaust)
  with run obtain found where y: "y = Inr found" by (cases y) (auto simp: attempt_request_def Let_def obind_def)
  from e y have boot: "bootstrap_reach ?ops (rv_loads env) w (wk_session rt) = (Inr found, wk_session rt2)"
    by (auto simp: enter_request_def bootstrap_of_def Let_def obind_def on_session_eq set_context_def modify_def oreturn_def
        split: prod.splits sum.splits intro: prod_eqI)
  have fin: "fst (finish_on ?ops w (wk_session rt2)) = Inr (outcome_of r)" "wk_session rt1 = snd (finish_on ?ops w (wk_session rt2))"
    using attempt_finish [OF _ run, of found rt2] e y by (auto simp: bootstrap_of_def)
  from boot assms(3,4) obtain snapshot s0 room entered s1 where b: "ro_load ?ops snapshot (wk_session rt) = (Inr (), s0)" "cw_room w = Some room"
      "ro_choose ?ops room s0 = (Inr entered, s1)" "replay_prefix ?ops (Some p) 0 (cw_prefix w) s1 = (Inr (), wk_session rt2)"
    unfolding bootstrap_reach_def by (auto simp: obind_Inr assms(5) split: option.splits)
  from fin obtain reach u step where f: "override_at_choice ?ops w reach (wk_session rt2) = (Inr (), u)"
      "resolve_choice ?ops (cw_choice w) i u = (Inr step, wk_session rt1)"
    using assms(2,8,9)
    by (auto simp: finish_on_def obind_def oreturn_def olift_def outcome_of_def resolved_id_def run_constant_defs
        split: sum.splits prod.splits if_splits option.splits intro: prod_eqI)
  from f(2) assms(4) obtain x v d where v: "ro_step ?ops i u = (Inr x, v)" "drain_frontier ?ops v = (Inr d, wk_session rt1)"
    using resolve_choice_end [OF f(2)] by (auto simp: visible_action_def obind_Inr)
  have "run_script ?ops (planned_script p (cw_prefix w @ [i])) s1 = (Inr (), v)"
  proof (cases "ep_index p = int (length (cw_prefix w))")
    case True
    then have r1: "run_script ?ops (map Do_step (cw_prefix w)) s1 = (Inr (), wk_session rt2)"
      using b(4) replay_short_of_plan [of 0 "cw_prefix w" p ?ops s1] by (simp add: run_script_steps)
    have r2: "run_script ?ops [Do_override (ep_override p), Do_step i] (wk_session rt2) = (Inr (), v)"
      using f(1) v(1) True by (auto simp: override_at_choice_def assms(5) obind_def oreturn_def olift_def runtime_error_def split: if_splits)
    have "planned_script p (cw_prefix w @ [i]) = map Do_step (cw_prefix w) @ [Do_override (ep_override p), Do_step i]"
      using True by (simp add: planned_script_def)
    with run_script_trans [OF r1 r2] show ?thesis by simp
  next
    case False
    then have r1: "run_script ?ops (planned_script p (cw_prefix w)) s1 = (Inr (), wk_session rt2)"
      using b(4) replay_to_plan [of 0 p "cw_prefix w" ?ops s1] assms(6,7) by simp
    have "u = wk_session rt2" using f(1) False by (simp add: override_at_choice_def assms(5) oreturn_def)
    then have r2: "run_script ?ops [Do_step i] (wk_session rt2) = (Inr (), v)" using v(1) by (simp add: obind_def oreturn_def)
    have "planned_script p (cw_prefix w @ [i]) = planned_script p (cw_prefix w) @ [Do_step i]"
      using False assms(6,7) by (simp add: planned_script_def)
    with run_script_trans [OF r1 r2] show ?thesis by simp
  qed
  with b v(2) show ?thesis
    by (intro exI [of _ snapshot] exI [of _ room] exI [of _ s0] exI [of _ entered] exI [of _ s1] exI [of _ v] exI [of _ d]) simp
qed

definition toy_env :: "int list run_env" where
  "toy_env = \<lparr> rv_ops = toy_ops, rv_loads = (\<lambda>_. Inr JNull), rv_sha = (\<lambda>_. ''h''), rv_traceback = [] \<rparr>"

definition toy_item :: choice_item where
  "toy_item = \<lparr> cw_id = ''w'', cw_context = ''c'', cw_choice = ''event'', cw_snapshot = ''map'', cw_room = Some 3, cw_prefix = [], cw_relic = None,
     cw_target = ''event_choice'', cw_kind = ''sub_branch'', cw_resolve = None, cw_key = None, cw_ordinal = 0, cw_plan = None, cw_discover = True \<rparr>"

definition toy_worker :: "nat \<Rightarrow> int list run_worker" where
  "toy_worker n = new_run_worker (Branch_slot n) 1 n [5, 5, 5]"

lemma toy_loads: "load_resets (rv_ops toy_env)"
  by (simp add: load_resets_def toy_env_def toy_ops_def)

lemma toy_established:
  obtains r rt1 l where "execute_choice toy_env (bootstrap_of toy_item) (toy_worker 0) = (Inr r, rt1)" "rr_lease r = Some l" "rr_discovered r = Some [1, 2, 3]"
proof -
  have "(case execute_choice toy_env (bootstrap_of toy_item) (toy_worker 0) of (Inr r, rt1) \<Rightarrow> rr_lease r \<noteq> None \<and> rr_discovered r = Some [1, 2, 3] | _ \<Rightarrow> False)"
    by code_simp
  then show thesis using that by (auto split: prod.splits sum.splits)
qed


definition planned_item :: choice_item where
  "planned_item = toy_item\<lparr>cw_discover := False, cw_prefix := [1, 2], cw_resolve := Some 8,
     cw_plan := Some \<lparr> ep_key = (''b'', ''d'', 1), ep_override = [(''event_id'', JStr ''E''), (''event_rng'', JObj [])], ep_index = 1 \<rparr>\<rparr>"

theorem override_applied_once_witness:
  "\<exists>s1 s2. run_script toy_ops (planned_script \<lparr> ep_key = (''b'', ''d'', 1), ep_override = [(''event_id'', JStr ''E''), (''event_rng'', JObj [])], ep_index = 1 \<rparr>
      ([1, 2] @ [8])) s1 = (Inr (), s2)"
proof -
  have "(case execute_choice toy_env (bootstrap_of planned_item) (toy_worker 0) of (Inr r, rt1) \<Rightarrow> rr_status r = RUN_SUCCESS | _ \<Rightarrow> False)"
    by code_simp
  then obtain r rt1 where run: "execute_choice toy_env (bootstrap_of planned_item) (toy_worker 0) = (Inr r, rt1)" "rr_status r = RUN_SUCCESS"
    by (auto split: prod.splits sum.splits)
  have "\<not> cw_discover planned_item" "cw_choice planned_item \<noteq> ''map''" by (simp_all add: planned_item_def toy_item_def)
  from override_applied_once [OF run this, of "\<lparr> ep_key = (''b'', ''d'', 1), ep_override = [(''event_id'', JStr ''E''), (''event_rng'', JObj [])], ep_index = 1 \<rparr>" 8]
  show ?thesis by (auto simp: planned_item_def toy_item_def toy_env_def)
qed
end
