(* ===== verification/Run_Pool.thy ===== *)
theory Run_Pool
  imports Run_Worker Generation_Guard
begin

text \<open>
  The pool of whole-run workers: the lease registry, the routing and \<open>WholeRunWorkerPool\<close> of
  \<open>Run/worker_pool.py\<close>.

  All workers answer on one queue.  The queue is a list of the messages it will deliver; a read that
  times out is a message of the list too, with the slots whose process is dead by then.  An operation
  that needs a message when there is none is blocked.
\<close>

section \<open>Leases\<close>

type_synonym run_registry = "(string, run_lease) dict"

definition rreg_set :: "run_lease \<Rightarrow> run_registry \<Rightarrow> run_registry" where
  "rreg_set l r = dset (rl_context l) l r"

definition rreg_invalidate :: "string \<Rightarrow> run_registry \<Rightarrow> run_registry" where
  "rreg_invalidate c r = dpop c r"

definition rreg_invalidate_lease :: "run_lease \<Rightarrow> run_registry \<Rightarrow> run_registry" where
  "rreg_invalidate_lease l r = (if dget r (rl_context l) = Some l then dpop (rl_context l) r else r)"

definition rreg_invalidate_generation :: "worker_slot \<Rightarrow> nat \<Rightarrow> run_registry \<Rightarrow> run_registry" where
  "rreg_invalidate_generation slot g r = filter (\<lambda>(c, l). \<not> (rl_slot l = slot \<and> rl_generation l = g)) r"

definition rreg_invalidate_slot :: "worker_slot \<Rightarrow> run_registry \<Rightarrow> run_registry" where
  "rreg_invalidate_slot slot r = filter (\<lambda>(c, l). rl_slot l \<noteq> slot) r"

definition slots_holding_leases :: "run_registry \<Rightarrow> worker_slot list" where
  "slots_holding_leases r = map (\<lambda>(c, l). rl_slot l) r"

section \<open>Routing\<close>

definition choose_bootstrap_slot :: "worker_slot list \<Rightarrow> run_registry \<Rightarrow> nat \<Rightarrow> worker_slot \<times> nat" where
  "choose_bootstrap_slot slots r next_index =
     (let unleased = filter (\<lambda>s. s \<notin> set (slots_holding_leases r)) slots; candidates = (if unleased \<noteq> [] then unleased else slots)
      in (candidates ! (next_index mod length candidates), next_index + 1))"

record run_route =
  ut_request :: run_worker_request
  ut_slot :: worker_slot
  ut_next :: nat

text \<open>\<open>_route_choice_work_item\<close>: the route, and the registry it leaves.\<close>

definition holder_slot :: "worker_slot option \<Rightarrow> run_lease option \<Rightarrow> worker_slot option" where
  "holder_slot pinned lease = (case pinned of Some s \<Rightarrow> Some s | None \<Rightarrow> map_option rl_slot lease)"

definition route_choice ::
  "choice_item \<Rightarrow> worker_slot list \<Rightarrow> (worker_slot, nat) dict \<Rightarrow> nat \<Rightarrow> worker_slot option \<Rightarrow> (run_registry, run_route) stateop" where
  "route_choice w slots generations next_index pinned r =
     (if cw_kind w = RUN_KIND_CONTINUATION
      then (let lease = dget r (cw_context w); missing = runtime_error (''no valid Lease/Holder for continuation context_id='' @ repr_str (cw_context w)) in
        case lease of
          None \<Rightarrow> (missing, r)
        | Some l \<Rightarrow> (case holder_slot pinned lease of
              None \<Rightarrow> (missing, rreg_invalidate_lease l r)
            | Some slot \<Rightarrow> (case dget generations slot of
                  None \<Rightarrow> (missing, rreg_invalidate_lease l r)
                | Some g \<Rightarrow>
                    if run_lease_valid l w (Some g)
                    then (Inr \<lparr> ut_request = \<lparr> rq_choice = w, rq_how = RUN_MODE_HOLDER, rq_expected = Some l \<rparr>, ut_slot = slot, ut_next = next_index \<rparr>, r)
                    else (missing, rreg_invalidate_lease l r))))
      else if slots = [] then (Inl (PyExc ''ZeroDivisionError'' ''integer modulo by zero''), r)
      else (case choose_bootstrap_slot slots r next_index of (slot, next') \<Rightarrow>
        (Inr \<lparr> ut_request = \<lparr> rq_choice = w, rq_how = RUN_MODE_BOOTSTRAP, rq_expected = None \<rparr>, ut_slot = slot, ut_next = next' \<rparr>,
         if slot \<in> set (slots_holding_leases r) then rreg_invalidate_slot slot r else r)))"

section \<open>The pool\<close>

datatype 'x run_message =
    Ready worker_slot nat nat
  | Startup_fault worker_slot nat string string
  | Answer nat run_result
  | Explored nat 'x
  | Explore_fault nat string string
  | Timed_out "worker_slot list"

datatype 'a outcome = Returned 'a | Raised py_exc | Blocked

record worker_handle =
  wh_generation :: nat
  wh_pid :: "nat option"

record 'x run_pool =
  rp_workers :: "(worker_slot, worker_handle) dict"
  rp_next_index :: nat
  rp_next_request :: nat
  rp_closed :: bool
  rp_timeout :: rat
  rp_queue :: "'x run_message list"

type_synonym 'x run_pool_state = "'x run_pool \<times> run_registry"

type_synonym ('s, 'a) queueop = "'s \<Rightarrow> 'a outcome \<times> 's"

definition qbind :: "('s, 'a) queueop \<Rightarrow> ('a \<Rightarrow> ('s, 'b) queueop) \<Rightarrow> ('s, 'b) queueop" where
  "qbind m f s = (case m s of (Returned x, s') \<Rightarrow> f x s' | (Raised e, s') \<Rightarrow> (Raised e, s') | (Blocked, s') \<Rightarrow> (Blocked, s'))"

definition of_res :: "('s, 'a) stateop \<Rightarrow> ('s, 'a) queueop" where
  "of_res f s = (case f s of (Inr x, s') \<Rightarrow> (Returned x, s') | (Inl e, s') \<Rightarrow> (Raised e, s'))"

definition worker_generations :: "'x run_pool \<Rightarrow> (worker_slot, nat) dict" where
  "worker_generations p = map (\<lambda>(s, h). (s, wh_generation h)) (rp_workers p)"

definition branch_worker_slots :: "'x run_pool \<Rightarrow> worker_slot list" where
  "branch_worker_slots p = filter (\<lambda>s. s \<noteq> Main_slot) (dkeys (rp_workers p))"

definition repr_slot :: "worker_slot \<Rightarrow> string" where
  "repr_slot slot = (case slot of Main_slot \<Rightarrow> repr_str ''main'' | Branch_slot n \<Rightarrow> digits n)"

definition unpack_error :: "nat \<Rightarrow> nat \<Rightarrow> py_exc" where
  "unpack_error expected got = PyExc ''ValueError'' (if expected < got then ''too many values to unpack (expected '' @ digits expected @ '')''
     else ''not enough values to unpack (expected '' @ digits expected @ '', got '' @ digits got @ '')'')"

definition queue_empty :: py_exc where
  "queue_empty = PyExc ''Empty'' []"

definition spawn_worker :: "worker_slot \<Rightarrow> nat \<Rightarrow> 'x run_pool \<Rightarrow> 'x run_pool" where
  "spawn_worker slot g p = p\<lparr>rp_workers := dset slot \<lparr> wh_generation = g, wh_pid = None \<rparr> (rp_workers p)\<rparr>"

text \<open>\<open>_await_ready\<close> over the messages: every message that is not a startup message must have four parts.\<close>

fun await_workers :: "'x run_message list \<Rightarrow> worker_slot list \<Rightarrow> 'x run_pool \<Rightarrow> unit outcome \<times> 'x run_pool" where
  "await_workers ms [] p = (Returned (), p\<lparr>rp_queue := ms\<rparr>)"
| "await_workers [] (s # ss) p = (Blocked, p\<lparr>rp_queue := []\<rparr>)"
| "await_workers (m # ms) (s # ss) p = (case m of
       Timed_out _ \<Rightarrow> (Raised queue_empty, p\<lparr>rp_queue := ms\<rparr>)
     | Startup_fault slot g ty msg \<Rightarrow> (Raised (PyExc ''RuntimeError'' (''worker '' @ repr_slot slot @ '' gen '' @ digits g @ '' failed to start: '' @ ty @ '': '' @ msg)), p\<lparr>rp_queue := ms\<rparr>)
     | Ready slot g pid \<Rightarrow> (case dget (rp_workers p) slot of
           None \<Rightarrow> (Raised (PyExc ''KeyError'' (repr_slot slot)), p\<lparr>rp_queue := ms\<rparr>)
         | Some h \<Rightarrow> await_workers ms (removeAll slot (s # ss)) (p\<lparr>rp_workers := dset slot (h\<lparr>wh_pid := Some pid\<rparr>) (rp_workers p)\<rparr>))
     | _ \<Rightarrow> (Raised (unpack_error 4 3), p\<lparr>rp_queue := ms\<rparr>))"

definition await_ready_workers :: "worker_slot list \<Rightarrow> ('x run_pool, unit) queueop" where
  "await_ready_workers slots p = await_workers (rp_queue p) slots p"

definition new_run_pool :: "nat \<Rightarrow> rat \<Rightarrow> bool \<Rightarrow> 'x run_message list \<Rightarrow> unit outcome \<times> 'x run_pool" where
  "new_run_pool branches timeout main messages =
     (let slots = (if main then [Main_slot] else []) @ map Branch_slot [0..<branches];
          p = \<lparr> rp_workers = [], rp_next_index = 0, rp_next_request = 0, rp_closed = False, rp_timeout = timeout, rp_queue = messages \<rparr>
      in if branches = 0 then (Raised (PyExc ''ValueError'' ''branch_worker_count must be positive''), p)
         else await_ready_workers slots (foldl (\<lambda>p s. spawn_worker s 1 p) p slots))"

definition close_run_pool :: "'x run_pool \<Rightarrow> 'x run_pool" where
  "close_run_pool p = p\<lparr>rp_closed := True\<rparr>"

text \<open>\<open>respawn_worker\<close>; \<open>tracked\<close> tells whether it was given the registry.\<close>

definition respawn_run_worker :: "bool \<Rightarrow> worker_slot \<Rightarrow> ('x run_pool_state, unit) queueop" where
  "respawn_run_worker tracked slot s = (case s of (p, r) \<Rightarrow>
     let old = (case dget (rp_workers p) slot of Some h \<Rightarrow> wh_generation h | None \<Rightarrow> 0) in
     (case await_ready_workers [slot] (spawn_worker slot (old + 1) p) of
        (Returned _, p') \<Rightarrow> (Returned (), (p', if tracked then rreg_invalidate_generation slot old r else r))
      | (Raised e, p') \<Rightarrow> (Raised e, (p', r))
      | (Blocked, p') \<Rightarrow> (Blocked, (p', r))))"

definition submit_choice :: "worker_slot \<Rightarrow> ('x run_pool_state, nat) stateop" where
  "submit_choice slot s = (case s of (p, r) \<Rightarrow>
     if rp_closed p then (runtime_error ''WholeRunWorkerPool is closed'', s)
     else (case dget (rp_workers p) slot of
         None \<Rightarrow> (Inl (PyExc ''KeyError'' (repr_slot slot)), s)
       | Some h \<Rightarrow> (Inr (rp_next_request p + 1), (p\<lparr>rp_next_request := rp_next_request p + 1\<rparr>, r))))"

definition pool_fault :: "choice_item \<Rightarrow> string \<Rightarrow> worker_slot \<Rightarrow> nat option \<Rightarrow> py_exc \<Rightarrow> string \<Rightarrow> run_result res" where
  "pool_fault w how slot g e kind = run_result_checked \<lparr> rr_status = RUN_FAULT, rr_item = w, rr_mode = how, rr_slot = slot, rr_generation = g,
     rr_pid = None, rr_reach = None, rr_step = None, rr_lease = None, rr_discovered = None, rr_diagnostics = Pool_fault kind e \<rparr>"

definition request_timed_out :: "nat \<Rightarrow> py_exc" where
  "request_timed_out rid = PyExc ''TimeoutError'' (''timed out waiting for worker request '' @ digits rid)"

section \<open>One request\<close>

text \<open>The reading loop of \<open>execute\<close>, with the time waited so far.\<close>

fun execute_wait :: "bool \<Rightarrow> worker_slot \<Rightarrow> run_worker_request \<Rightarrow> nat option \<Rightarrow> nat \<Rightarrow> rat \<Rightarrow> 'x run_message list \<Rightarrow> ('x run_pool_state, run_result) queueop" where
  "execute_wait tracked slot q stale rid waited [] (p, r) =
     (if waited < rp_timeout p then (Blocked, (p\<lparr>rp_queue := []\<rparr>, r))
      else qbind (respawn_run_worker tracked slot) (\<lambda>_. of_res (olift (pool_fault (rq_choice q) (rq_how q) slot stale (request_timed_out rid) ''task_timeout'')))
             (p\<lparr>rp_queue := []\<rparr>, r))"
| "execute_wait tracked slot q stale rid waited (m # ms) (p, r) =
     (if waited < rp_timeout p
      then (case m of
          Timed_out dead \<Rightarrow>
            if slot \<in> set dead
            then qbind (respawn_run_worker tracked slot) (\<lambda>_. of_res (olift (pool_fault (rq_choice q) (rq_how q) slot stale
                   (PyExc ''WorkerDiedError'' (''worker slot '' @ repr_slot slot @ '' is no longer alive'')) ''worker_process_crash''))) (p\<lparr>rp_queue := ms\<rparr>, r)
            else execute_wait tracked slot q stale rid (waited + min 1 (rp_timeout p)) ms (p, r)
        | Answer i x \<Rightarrow> if i = rid then (Returned x, (p\<lparr>rp_queue := ms\<rparr>, r)) else execute_wait tracked slot q stale rid waited ms (p, r)
        | Explored i x \<Rightarrow> execute_wait tracked slot q stale rid waited ms (p, r)
        | Explore_fault i ty msg \<Rightarrow> execute_wait tracked slot q stale rid waited ms (p, r)
        | _ \<Rightarrow> (Raised (unpack_error 3 (case m of Startup_fault _ _ _ _ \<Rightarrow> 5 | _ \<Rightarrow> 4)), (p\<lparr>rp_queue := ms\<rparr>, r)))
      else qbind (respawn_run_worker tracked slot) (\<lambda>_. of_res (olift (pool_fault (rq_choice q) (rq_how q) slot stale (request_timed_out rid) ''task_timeout'')))
             (p\<lparr>rp_queue := m # ms\<rparr>, r))"

definition execute_request_on :: "bool \<Rightarrow> worker_slot \<Rightarrow> run_worker_request \<Rightarrow> ('x run_pool_state, run_result) queueop" where
  "execute_request_on tracked slot q s = (case dget (rp_workers (fst s)) slot of
       None \<Rightarrow> (Raised (PyExc ''KeyError'' (repr_slot slot)), s)
     | Some h \<Rightarrow> qbind (of_res (submit_choice slot)) (\<lambda>rid s'.
         execute_wait tracked slot q (Some (wh_generation h)) rid 0 (rp_queue (fst s')) s') s)"

text \<open>\<open>explore\<close>: the main worker's answer to an exploration.\<close>

fun explore_wait :: "worker_slot \<Rightarrow> nat \<Rightarrow> 'x run_message list \<Rightarrow> ('x run_pool_state, 'x) queueop" where
  "explore_wait slot rid [] (p, r) = (Blocked, (p\<lparr>rp_queue := []\<rparr>, r))"
| "explore_wait slot rid (m # ms) (p, r) = (case m of
       Timed_out _ \<Rightarrow> (Raised queue_empty, (p\<lparr>rp_queue := ms\<rparr>, r))
     | Explored i x \<Rightarrow> if i = rid then (Returned x, (p\<lparr>rp_queue := ms\<rparr>, r)) else explore_wait slot rid ms (p, r)
     | Explore_fault i ty msg \<Rightarrow>
         if i = rid then (Raised (PyExc ''RuntimeError'' (''explore() failed on worker '' @ repr_slot slot @ '': '' @ ty @ '': '' @ msg)), (p\<lparr>rp_queue := ms\<rparr>, r))
         else explore_wait slot rid ms (p, r)
     | Answer i x \<Rightarrow> explore_wait slot rid ms (p, r)
     | _ \<Rightarrow> (Raised (unpack_error 3 (case m of Startup_fault _ _ _ _ \<Rightarrow> 5 | _ \<Rightarrow> 4)), (p\<lparr>rp_queue := ms\<rparr>, r)))"

definition explore :: "worker_slot \<Rightarrow> ('x run_pool_state, 'x) queueop" where
  "explore slot = qbind (of_res (submit_choice slot)) (\<lambda>rid s. explore_wait slot rid (rp_queue (fst s)) s)"

section \<open>Batches\<close>

record pending_choice =
  pc_id :: nat
  pc_item :: choice_item
  pc_slot :: worker_slot
  pc_how :: string

fun submit_choices :: "(string, worker_slot) dict \<Rightarrow> worker_slot list \<Rightarrow> (worker_slot, nat) dict \<Rightarrow> choice_item list \<Rightarrow> nat
    \<Rightarrow> ('x run_pool_state, pending_choice list \<times> nat) stateop" where
  "submit_choices pins slots generations [] next_index s = (Inr ([], next_index), s)"
| "submit_choices pins slots generations (w # ws) next_index (p, r) =
     (case route_choice w slots generations next_index (dget pins (cw_id w)) r of
        (Inl e, r') \<Rightarrow> (Inl e, (p, r'))
      | (Inr route, r') \<Rightarrow> (case submit_choice (ut_slot route) (p, r') of
            (Inl e, s') \<Rightarrow> (Inl e, s')
          | (Inr rid, s') \<Rightarrow> (case submit_choices pins slots generations ws (ut_next route) s' of
                (Inl e, s'') \<Rightarrow> (Inl e, s'')
              | (Inr (pending, n), s'') \<Rightarrow>
                  (Inr (\<lparr> pc_id = rid, pc_item = w, pc_slot = ut_slot route, pc_how = rq_how (ut_request route) \<rparr> # pending, n), s''))))"

type_synonym choice_results = "(string, run_result) dict"

fun fault_pending :: "nat option \<Rightarrow> pending_choice list \<Rightarrow> choice_results \<Rightarrow> choice_results res" where
  "fault_pending stale [] results = Inr results"
| "fault_pending stale (c # cs) results =
     sbind (pool_fault (pc_item c) (pc_how c) (pc_slot c) stale (request_timed_out (pc_id c)) ''task_timeout'') (\<lambda>f.
       fault_pending stale cs (dset (cw_id (pc_item c)) f results))"

text \<open>The slots of the outstanding requests, each respawned once; their order is that of a set in the code.\<close>

fun give_up_slots :: "worker_slot list \<Rightarrow> pending_choice list \<Rightarrow> choice_results \<Rightarrow> ('x run_pool_state, choice_results) queueop" where
  "give_up_slots [] remaining results s = (Returned results, s)"
| "give_up_slots (slot # slots) remaining results s =
     (let stale = dget (worker_generations (fst s)) slot in
      qbind (respawn_run_worker True slot) (\<lambda>_.
      qbind (of_res (olift (fault_pending stale (filter (\<lambda>c. pc_slot c = slot) remaining) results))) (\<lambda>results'.
      give_up_slots slots (filter (\<lambda>c. pc_slot c \<noteq> slot) remaining) results')) s)"

text \<open>The collecting loop.  It reads the queue as long as a request is outstanding.\<close>

function collect_choices :: "pending_choice list \<Rightarrow> choice_results \<Rightarrow> ('x run_pool_state, choice_results) queueop" where
  "collect_choices remaining results (p, r) =
     (if remaining = [] then (Returned results, (p, r))
      else (case rp_queue p of
          [] \<Rightarrow> (Blocked, (p, r))
        | m # ms \<Rightarrow> (case m of
              Timed_out _ \<Rightarrow> (case give_up_slots (remdups (map pc_slot remaining)) remaining results (p\<lparr>rp_queue := ms\<rparr>, r) of
                  (Returned results', s') \<Rightarrow> (Returned results', s')
                | (Raised e, s') \<Rightarrow> (Raised e, s')
                | (Blocked, s') \<Rightarrow> (Blocked, s'))
            | Answer i x \<Rightarrow> (case List.find (\<lambda>c. pc_id c = i) remaining of
                  None \<Rightarrow> collect_choices remaining results (p\<lparr>rp_queue := ms\<rparr>, r)
                | Some c \<Rightarrow> collect_choices (filter (\<lambda>c. pc_id c \<noteq> i) remaining) (dset (cw_id (pc_item c)) x results) (p\<lparr>rp_queue := ms\<rparr>, r))
            | Explored i x \<Rightarrow> collect_choices remaining results (p\<lparr>rp_queue := ms\<rparr>, r)
            | Explore_fault i ty msg \<Rightarrow> collect_choices remaining results (p\<lparr>rp_queue := ms\<rparr>, r)
            | _ \<Rightarrow> (Raised (unpack_error 3 (case m of Startup_fault _ _ _ _ \<Rightarrow> 5 | _ \<Rightarrow> 4)), (p\<lparr>rp_queue := ms\<rparr>, r)))))"
  by pat_completeness auto

termination collect_choices
  by (relation "measure (\<lambda>(remaining, results, (p, r)). length (rp_queue p))") auto

declare collect_choices.simps [simp del]

definition settle_choice :: "choice_item \<Rightarrow> run_result \<Rightarrow> run_registry \<Rightarrow> run_registry" where
  "settle_choice w x r =
     (let r1 = rreg_invalidate (cw_context w) r;
          r2 = (if rr_status x = RUN_SUCCESS then (case rr_lease x of Some l \<Rightarrow> rreg_set l r1 | None \<Rightarrow> r1) else r1)
      in if rr_status x = RUN_FAULT then rreg_invalidate_slot (rr_slot x) r2 else r2)"

fun settle_choices :: "choice_item list \<Rightarrow> choice_results \<Rightarrow> (run_registry, run_result list) stateop" where
  "settle_choices [] results r = (Inr [], r)"
| "settle_choices (w # ws) results r = (case dget results (cw_id w) of
       None \<Rightarrow> (Inl (PyExc ''KeyError'' (repr_str (cw_id w))), r)
     | Some x \<Rightarrow> (case settle_choices ws results (settle_choice w x r) of (Inl e, r') \<Rightarrow> (Inl e, r') | (Inr xs, r') \<Rightarrow> (Inr (x # xs), r')))"

definition dispatch_choice_work_items :: "choice_item list \<Rightarrow> (string, worker_slot) dict \<Rightarrow> ('x run_pool_state, run_result list) queueop" where
  "dispatch_choice_work_items ws pins s =
     qbind (of_res (submit_choices pins (branch_worker_slots (fst s)) (worker_generations (fst s)) ws (rp_next_index (fst s)))) (\<lambda>(pending, n).
     qbind (collect_choices pending []) (\<lambda>results.
     qbind (of_res (\<lambda>(p, r). case settle_choices ws results r of (x, r') \<Rightarrow> (x, (p, r')))) (\<lambda>xs.
     qbind (of_res (modify (\<lambda>(p, r). (p\<lparr>rp_next_index := n\<rparr>, r)))) (\<lambda>_. of_res (oreturn xs))))) s"

section \<open>Lemmas\<close>

lemma of_res_simps [simp]: "of_res f s = (Returned x, t) \<longleftrightarrow> f s = (Inr x, t)" "of_res f s = (Raised e, t) \<longleftrightarrow> f s = (Inl e, t)" "of_res f s \<noteq> (Blocked, t)"
  by (auto simp: of_res_def split: prod.splits sum.splits)

lemma qbind_Returned: "qbind m f s = (Returned y, t) \<longleftrightarrow> (\<exists>x s'. m s = (Returned x, s') \<and> f x s' = (Returned y, t))"
  by (auto simp: qbind_def split: prod.splits outcome.splits)

text \<open>What an item is sent with: the current process of its slot, and the lease of its context.\<close>

lemma route_holder_lease:
  assumes "route_choice w slots generations n pinned r = (Inr route, r')" "rq_expected (ut_request route) = Some l"
  shows "dget generations (ut_slot route) = Some (rl_generation l)" "rl_context l = cw_context w" "cw_kind w = RUN_KIND_CONTINUATION"
    "dget r (cw_context w) = Some l" "pinned = None \<Longrightarrow> ut_slot route = rl_slot l"
  using assms
  by (auto simp: route_choice_def Let_def run_lease_valid_def holder_slot_def runtime_error_def split: if_splits option.splits prod.splits)

lemma route_item: "route_choice w slots generations n pinned r = (Inr route, r') \<Longrightarrow> rq_choice (ut_request route) = w"
  by (auto simp: route_choice_def Let_def runtime_error_def split: if_splits option.splits prod.splits)

section \<open>Generations\<close>

definition slot_generation :: "worker_slot \<Rightarrow> 'x run_pool_state \<Rightarrow> nat" where
  "slot_generation slot s = (case dget (rp_workers (fst s)) slot of Some h \<Rightarrow> wh_generation h | None \<Rightarrow> 0)"

lemma worker_generations_get: "dget (worker_generations p) slot = map_option wh_generation (dget (rp_workers p) slot)"
proof -
  have "dget (map (\<lambda>(s, h). (s, wh_generation h)) d) slot = map_option wh_generation (dget d slot)" for d by (induction d) auto
  then show ?thesis by (simp add: worker_generations_def)
qed

text \<open>The pool sends an item on a lease to a slot.\<close>

definition sends_on :: "worker_slot \<Rightarrow> 'x run_pool_state \<Rightarrow> run_lease \<Rightarrow> bool" where
  "sends_on slot s l \<longleftrightarrow> (\<exists>w slots n pinned r route r'. route_choice w slots (worker_generations (fst s)) n pinned r = (Inr route, r')
     \<and> ut_slot route = slot \<and> rq_expected (ut_request route) = Some l)"

datatype run_pool_op =
    Run_respawn bool worker_slot
  | Run_execute bool worker_slot run_worker_request
  | Run_dispatch "choice_item list" "(string, worker_slot) dict"
  | Run_explore worker_slot
  | Run_close

fun run_pool_step :: "'x run_pool_state \<Rightarrow> run_pool_op \<Rightarrow> 'x run_pool_state" where
  "run_pool_step s (Run_respawn tracked slot) = snd (respawn_run_worker tracked slot s)"
| "run_pool_step s (Run_execute tracked slot q) = snd (execute_request_on tracked slot q s)"
| "run_pool_step s (Run_dispatch ws pins) = snd (dispatch_choice_work_items ws pins s)"
| "run_pool_step s (Run_explore slot) = snd (explore slot s)"
| "run_pool_step s Run_close = (close_run_pool (fst s), snd s)"

lemma await_generations: "snd (await_workers ms ss p) = p' \<Longrightarrow> map_option wh_generation (dget (rp_workers p') slot) = map_option wh_generation (dget (rp_workers p) slot)"
  by (induction ms ss p arbitrary: p' rule: await_workers.induct) (auto split: run_message.splits option.splits)

lemma queue_generation [simp]: "slot_generation slot (p\<lparr>rp_queue := ms\<rparr>, r) = slot_generation slot (p, r)"
  by (simp add: slot_generation_def)

lemma respawn_run_generation: "slot_generation slot s \<le> slot_generation slot (snd (respawn_run_worker tracked v s))"
proof -
  obtain p r where s: "s = (p, r)" by (cases s)
  let ?old = "case dget (rp_workers p) v of Some h \<Rightarrow> wh_generation h | None \<Rightarrow> 0"
  obtain x p' where a: "await_ready_workers [v] (spawn_worker v (?old + 1) p) = (x, p')" by (rule prod.exhaust)
  then have "map_option wh_generation (dget (rp_workers p') slot) = map_option wh_generation (dget (rp_workers (spawn_worker v (?old + 1) p)) slot)"
    using await_generations unfolding await_ready_workers_def by (metis snd_conv)
  then have "slot_generation slot (p', r') = slot_generation slot (spawn_worker v (?old + 1) p, r)" for r'
    by (auto simp: slot_generation_def split: option.splits)
  moreover have "slot_generation slot (p, r) \<le> slot_generation slot (spawn_worker v (?old + 1) p, r)"
    by (auto simp: slot_generation_def spawn_worker_def split: option.splits)
  moreover have "fst (snd (respawn_run_worker tracked v s)) = p'" using a s by (auto simp: respawn_run_worker_def Let_def split: outcome.split)
  ultimately show ?thesis using s by (metis prod.collapse)
qed

lemma qbind_generation:
  assumes "\<And>s. slot_generation slot s \<le> slot_generation slot (snd (m s))" "\<And>x s. slot_generation slot s \<le> slot_generation slot (snd (f x s))"
  shows "slot_generation slot s \<le> slot_generation slot (snd (qbind m f s))"
  using assms(1) [of s] assms(2) by (auto simp: qbind_def split: prod.split outcome.split intro: order_trans)

lemma of_res_generation: "(\<And>s. slot_generation slot (snd (f s)) = slot_generation slot s) \<Longrightarrow> slot_generation slot s \<le> slot_generation slot (snd (of_res f s))"
  by (metis (no_types, lifting) of_res_def old.prod.case order_refl snd_conv sum.case_eq_if surj_pair)

lemma submit_choice_generation: "slot_generation slot (snd (submit_choice v s)) = slot_generation slot s"
  by (auto simp: submit_choice_def slot_generation_def split: prod.split option.split)

lemma olift_generation: "slot_generation slot (snd (olift x s)) = slot_generation slot s"
  by (simp add: olift_def)

lemma fault_generation:
  "slot_generation slot s \<le> slot_generation slot (snd (qbind (respawn_run_worker tracked v) (\<lambda>_. of_res (olift x)) s))"
  by (intro qbind_generation respawn_run_generation of_res_generation olift_generation)

lemma execute_wait_generation:
  "slot_generation slot s \<le> slot_generation slot (snd (execute_wait tracked v q stale rid waited ms s))"
proof (induction ms arbitrary: waited s)
  case Nil
  obtain p r where s: "s = (p, r)" by (cases s)
  have f: "slot_generation slot (p, r) \<le> slot_generation slot (snd (qbind (respawn_run_worker tracked v) (\<lambda>_. of_res (olift x)) (p\<lparr>rp_queue := []\<rparr>, r)))" for x
    using fault_generation [of slot "(p\<lparr>rp_queue := []\<rparr>, r)"] by simp
  show ?case by (simp add: s f)
next
  case (Cons m ms)
  obtain p r where s: "s = (p, r)" by (cases s)
  have f: "slot_generation slot (p, r) \<le> slot_generation slot (snd (qbind (respawn_run_worker tracked v) (\<lambda>_. of_res (olift x)) (p\<lparr>rp_queue := l\<rparr>, r)))" for x l
    using fault_generation [of slot "(p\<lparr>rp_queue := l\<rparr>, r)"] by simp
  have i: "slot_generation slot (p, r) \<le> slot_generation slot (snd (execute_wait tracked v q stale rid w ms (p, r)))" for w by (rule Cons.IH)
  show ?case by (cases m) (simp_all add: s f i)
qed

lemma explore_wait_generation: "slot_generation slot (snd (explore_wait v rid ms s)) = slot_generation slot s"
proof (induction ms arbitrary: s)
  case Nil
  show ?case by (cases s) simp
next
  case (Cons m ms)
  obtain p r where s: "s = (p, r)" by (cases s)
  show ?case by (cases m) (simp_all add: s Cons.IH)
qed

lemma submit_choices_generation: "slot_generation slot (snd (submit_choices pins slots gens ws n s)) = slot_generation slot s"
proof (induction ws arbitrary: n s)
  case (Cons w ws)
  obtain p r where s: "s = (p, r)" by (cases s)
  obtain x r' where route: "route_choice w slots gens n (dget pins (cw_id w)) r = (x, r')" by (rule prod.exhaust)
  have reg: "slot_generation slot (p, r') = slot_generation slot (p, r)" by (simp add: slot_generation_def)
  show ?case
  proof (cases x)
    case (Inl e)
    with route s reg show ?thesis by simp
  next
    case (Inr t)
    obtain y s1 where sub: "submit_choice (ut_slot t) (p, r') = (y, s1)" by (rule prod.exhaust)
    have g: "slot_generation slot s1 = slot_generation slot s" using submit_choice_generation [of slot "ut_slot t" "(p, r')"] sub reg s by simp
    show ?thesis
    proof (cases y)
      case (Inl e)
      with Inr route sub s g show ?thesis by simp
    next
      case (Inr rid)
      obtain z s2 where rest: "submit_choices pins slots gens ws (ut_next t) s1 = (z, s2)" by (rule prod.exhaust)
      have "slot_generation slot s2 = slot_generation slot s1" using Cons.IH [of "ut_next t" s1] rest by simp
      with \<open>x = Inr t\<close> Inr route sub rest s g show ?thesis by (auto split: sum.split prod.split)
    qed
  qed
qed simp

lemma give_up_generation: "slot_generation slot s \<le> slot_generation slot (snd (give_up_slots vs remaining results s))"
proof (induction vs arbitrary: remaining results s)
  case (Cons v vs)
  show ?case
    unfolding give_up_slots.simps Let_def
    by (intro qbind_generation respawn_run_generation of_res_generation olift_generation Cons.IH)
qed simp

lemma collect_generation: "slot_generation slot s \<le> slot_generation slot (snd (collect_choices remaining results s))"
proof (induction "length (rp_queue (fst s))" arbitrary: remaining results s rule: less_induct)
  case less
  obtain p r where s: "s = (p, r)" by (cases s)
  show ?case
  proof (cases "remaining = [] \<or> rp_queue p = []")
    case True
    with s show ?thesis by (auto simp: collect_choices.simps)
  next
    case False
    then obtain m ms where q: "rp_queue p = m # ms" by (cases "rp_queue p") auto
    have same: "slot_generation slot (p\<lparr>rp_queue := ms\<rparr>, r) = slot_generation slot (p, r)" by (simp add: slot_generation_def)
    have rec: "slot_generation slot (p, r) \<le> slot_generation slot (snd (collect_choices cs res (p\<lparr>rp_queue := ms\<rparr>, r)))" for cs res
      using less [of "(p\<lparr>rp_queue := ms\<rparr>, r)" cs res] s q same by simp
    have up: "slot_generation slot (p, r) \<le> slot_generation slot (snd (give_up_slots vs remaining results (p\<lparr>rp_queue := ms\<rparr>, r)))" for vs
      using give_up_generation [of slot "(p\<lparr>rp_queue := ms\<rparr>, r)"] same by simp
    show ?thesis
    proof (cases m)
      case (Timed_out dead)
      have "snd (collect_choices remaining results (p, r)) = snd (give_up_slots (remdups (map pc_slot remaining)) remaining results (p\<lparr>rp_queue := ms\<rparr>, r))"
        using False q Timed_out by (subst collect_choices.simps) (auto split: prod.split outcome.split)
      with up s show ?thesis by simp
    next
      case (Answer i x)
      show ?thesis unfolding s by (subst collect_choices.simps) (use False q rec Answer in \<open>auto split: option.split\<close>)
    qed (unfold s, (subst collect_choices.simps, use False q rec same in auto)+)
  qed
qed

lemma settle_generation:
  "slot_generation slot t \<le> slot_generation slot (snd (qbind (collect_choices pending []) (\<lambda>results.
      qbind (of_res (\<lambda>(p, r). case settle_choices ws results r of (x, r') \<Rightarrow> (x, (p, r')))) (\<lambda>xs.
      qbind (of_res (modify (\<lambda>(p, r). (p\<lparr>rp_next_index := n\<rparr>, r)))) (\<lambda>_. of_res (oreturn xs)))) t))"
  by (intro qbind_generation collect_generation of_res_generation) (auto simp: slot_generation_def modify_def oreturn_def split: prod.split)

lemma dispatch_generation: "slot_generation slot s \<le> slot_generation slot (snd (dispatch_choice_work_items ws pins s))"
  unfolding dispatch_choice_work_items_def
  by (intro qbind_generation of_res_generation submit_choices_generation) (auto simp: settle_generation split: prod.split)

lemma run_pool_step_generation: "slot_generation slot s \<le> slot_generation slot (run_pool_step s x)"
proof (cases x)
  case (Run_execute tracked v q)
  show ?thesis
  proof (cases "dget (rp_workers (fst s)) v")
    case None
    with Run_execute show ?thesis by (simp add: execute_request_on_def)
  next
    case (Some h)
    have "slot_generation slot s \<le> slot_generation slot (snd (qbind (of_res (submit_choice v)) (\<lambda>rid s'.
        execute_wait tracked v q (Some (wh_generation h)) rid 0 (rp_queue (fst s')) s') s))"
      by (intro qbind_generation of_res_generation submit_choice_generation execute_wait_generation)
    with Run_execute Some show ?thesis by (simp add: execute_request_on_def)
  qed
next
  case (Run_explore v)
  have "slot_generation slot s \<le> slot_generation slot (snd (explore v s))"
    unfolding explore_def by (intro qbind_generation of_res_generation submit_choice_generation) (simp add: explore_wait_generation)
  with Run_explore show ?thesis by simp
next
  case Run_close
  then show ?thesis by (simp add: close_run_pool_def slot_generation_def)
qed (simp_all add: respawn_run_generation dispatch_generation)

interpretation run_guard: generation_guard "sends_on slot" "slot_generation slot" rl_generation run_pool_step for slot
proof
  fix s l
  assume "sends_on slot s l"
  then obtain w slots n pinned r route r' where "route_choice w slots (worker_generations (fst s)) n pinned r = (Inr route, r')" "ut_slot route = slot"
    "rq_expected (ut_request route) = Some l" by (auto simp: sends_on_def)
  with route_holder_lease(1) [OF this(1,3)] show "rl_generation l = slot_generation slot s"
    by (auto simp: slot_generation_def worker_generations_get)
qed (rule run_pool_step_generation)

section \<open>Batches that are answered\<close>

fun answer_to :: "'x run_message list \<Rightarrow> nat \<Rightarrow> run_result option" where
  "answer_to [] i = None"
| "answer_to (m # ms) i = (case m of Answer j x \<Rightarrow> if j = i then Some x else answer_to ms i | _ \<Rightarrow> answer_to ms i)"

text \<open>A queue without timeouts and startup messages.\<close>

definition calm :: "'x run_message list \<Rightarrow> bool" where
  "calm ms \<longleftrightarrow> list_all (\<lambda>m. case m of Answer _ _ \<Rightarrow> True | Explored _ _ \<Rightarrow> True | Explore_fault _ _ _ \<Rightarrow> True | _ \<Rightarrow> False) ms"

definition pending_ok :: "pending_choice list \<Rightarrow> bool" where
  "pending_ok cs \<longleftrightarrow> distinct (map pc_id cs) \<and> distinct (map (\<lambda>c. cw_id (pc_item c)) cs)"

lemma pending_filter: "pending_ok cs \<Longrightarrow> pending_ok (filter P cs)"
  by (simp add: pending_ok_def distinct_map_filter)

lemma find_pending: "pending_ok cs \<Longrightarrow> List.find (\<lambda>c. pc_id c = i) cs = Some c \<longleftrightarrow> c \<in> set cs \<and> pc_id c = i"
  by (induction cs) (auto simp: pending_ok_def)

lemma find_none: "List.find (\<lambda>c. pc_id c = i) cs = None \<longleftrightarrow> (\<forall>c \<in> set cs. pc_id c \<noteq> i)"
  by (induction cs) auto

lemma collect_calm:
  assumes "calm ms" "pending_ok cs" "\<forall>c \<in> set cs. answer_to ms (pc_id c) \<noteq> None"
  shows "\<exists>res ms'. collect_choices cs results (p\<lparr>rp_queue := ms\<rparr>, r) = (Returned res, (p\<lparr>rp_queue := ms'\<rparr>, r))
    \<and> (\<forall>c \<in> set cs. dget res (cw_id (pc_item c)) = answer_to ms (pc_id c))
    \<and> (\<forall>k. k \<notin> (\<lambda>c. cw_id (pc_item c)) ` set cs \<longrightarrow> dget res k = dget results k)"
  using assms
proof (induction ms arbitrary: cs results)
  case Nil
  then have "cs = []" by (cases cs) auto
  then show ?case by (auto simp: collect_choices.simps)
next
  case (Cons m ms)
  show ?case
  proof (cases "cs = []")
    case True
    then show ?thesis by (auto simp: collect_choices.simps)
  next
    case False
    have calm: "calm ms" using Cons.prems(1) by (simp add: calm_def)
    show ?thesis
    proof (cases "\<exists>i x. m = Answer i x")
      case True
      then obtain i x where m: "m = Answer i x" by blast
      show ?thesis
      proof (cases "List.find (\<lambda>c. pc_id c = i) cs")
        case None
        then have out: "\<forall>c \<in> set cs. pc_id c \<noteq> i" by (simp only: find_none)
        have "\<forall>c \<in> set cs. answer_to ms (pc_id c) \<noteq> None"
        proof
          fix c
          assume "c \<in> set cs"
          with out Cons.prems(3) m show "answer_to ms (pc_id c) \<noteq> None" by fastforce
        qed
        from Cons.IH [OF calm Cons.prems(2) this, of results] obtain res ms' where
          "collect_choices cs results (p\<lparr>rp_queue := ms\<rparr>, r) = (Returned res, (p\<lparr>rp_queue := ms'\<rparr>, r))"
          "\<forall>c \<in> set cs. dget res (cw_id (pc_item c)) = answer_to ms (pc_id c)"
          "\<forall>k. k \<notin> (\<lambda>c. cw_id (pc_item c)) ` set cs \<longrightarrow> dget res k = dget results k" by blast
        with False m None out show ?thesis by (intro exI [of _ res] exI [of _ ms']) (subst collect_choices.simps, auto)
      next
        case (Some c)
        then have c: "c \<in> set cs" "pc_id c = i" using find_pending [OF Cons.prems(2)] by blast+
        let ?cs = "filter (\<lambda>c. pc_id c \<noteq> i) cs"
        have "\<forall>c \<in> set ?cs. answer_to ms (pc_id c) \<noteq> None" using Cons.prems(3) m by auto
        from Cons.IH [OF calm pending_filter [OF Cons.prems(2)] this, of "dset (cw_id (pc_item c)) x results"] obtain res ms' where r:
          "collect_choices ?cs (dset (cw_id (pc_item c)) x results) (p\<lparr>rp_queue := ms\<rparr>, r) = (Returned res, (p\<lparr>rp_queue := ms'\<rparr>, r))"
          "\<forall>c \<in> set ?cs. dget res (cw_id (pc_item c)) = answer_to ms (pc_id c)"
          "\<forall>k. k \<notin> (\<lambda>c. cw_id (pc_item c)) ` set ?cs \<longrightarrow> dget res k = dget (dset (cw_id (pc_item c)) x results) k" by blast
        have same: "d = c" if "d \<in> set cs" "cw_id (pc_item d) = cw_id (pc_item c)" for d
          using Cons.prems(2) c(1) that unfolding pending_ok_def distinct_map inj_on_def by blast
        have "cw_id (pc_item c) \<notin> (\<lambda>c. cw_id (pc_item c)) ` set ?cs" using same c(2) by auto
        with r(3) have own: "dget res (cw_id (pc_item c)) = Some x" by simp
        have "dget res (cw_id (pc_item d)) = answer_to (m # ms) (pc_id d)" if d: "d \<in> set cs" for d
        proof (cases "pc_id d = i")
          case True
          with Cons.prems(2) c d have "d = c" unfolding pending_ok_def distinct_map inj_on_def by blast
          with own m c(2) show ?thesis by simp
        next
          case False
          with r(2) d m show ?thesis by auto
        qed
        moreover have "dget res k = dget results k" if k: "k \<notin> (\<lambda>c. cw_id (pc_item c)) ` set cs" for k
        proof -
          have "k \<notin> (\<lambda>c. cw_id (pc_item c)) ` set ?cs" "k \<noteq> cw_id (pc_item c)" using k c(1) by auto
          with r(3) show ?thesis by simp
        qed
        moreover have "collect_choices cs results (p\<lparr>rp_queue := m # ms\<rparr>, r) = (Returned res, (p\<lparr>rp_queue := ms'\<rparr>, r))"
          using False m Some r(1) by (subst collect_choices.simps) simp
        ultimately show ?thesis by blast
      qed
    next
      case no: False
      have step: "collect_choices cs results (p\<lparr>rp_queue := m # ms\<rparr>, r) = collect_choices cs results (p\<lparr>rp_queue := ms\<rparr>, r)"
        using Cons.prems(1) no False by (subst collect_choices.simps) (cases m; simp add: calm_def)
      have ans: "answer_to (m # ms) i = answer_to ms i" for i using no by (cases m) auto
      show ?thesis unfolding step ans using Cons.IH [OF calm Cons.prems(2)] Cons.prems(3) unfolding ans by blast
    qed
  qed
qed

lemma submit_choices_Inr:
  assumes "submit_choices pins slots gens ws n s = (Inr (pending, n'), s')"
  shows "map pc_item pending = ws \<and> distinct (map pc_id pending) \<and> (\<forall>c \<in> set pending. rp_next_request (fst s) < pc_id c)
    \<and> rp_queue (fst s') = rp_queue (fst s)"
  using assms
proof (induction ws arbitrary: n s pending)
  case (Cons w ws)
  obtain p r where s: "s = (p, r)" by (cases s)
  from Cons.prems s obtain route r' rid s1 rest where
      "route_choice w slots gens n (dget pins (cw_id w)) r = (Inr route, r')" and sub: "submit_choice (ut_slot route) (p, r') = (Inr rid, s1)"
      and rest: "submit_choices pins slots gens ws (ut_next route) s1 = (Inr (rest, n'), s')"
      and pend: "pending = \<lparr> pc_id = rid, pc_item = w, pc_slot = ut_slot route, pc_how = rq_how (ut_request route) \<rparr> # rest"
    by (auto split: sum.splits prod.splits)
  have f: "rid = rp_next_request p + 1" "rp_next_request (fst s1) = rid" "rp_queue (fst s1) = rp_queue p"
    using sub by (auto simp: submit_choice_def runtime_error_def split: if_splits option.splits)
  from Cons.IH [OF rest] f s show ?case by (auto simp: pend)
qed simp

lemma settle_choices_ok:
  assumes "\<forall>w \<in> set ws. dget results (cw_id w) \<noteq> None"
  shows "\<exists>r'. settle_choices ws results r = (Inr (map (\<lambda>w. the (dget results (cw_id w))) ws), r')"
  using assms
proof (induction ws arbitrary: r)
  case (Cons w ws)
  then obtain x where x: "dget results (cw_id w) = Some x" by auto
  from Cons.IH [of "settle_choice w x r"] Cons.prems obtain r' where
    "settle_choices ws results (settle_choice w x r) = (Inr (map (\<lambda>w. the (dget results (cw_id w))) ws), r')" by auto
  with x show ?case by simp
qed simp

section \<open>Properties\<close>


definition sample_run_pool :: "unit run_message list \<Rightarrow> unit run_pool" where
  "sample_run_pool ms = \<lparr> rp_workers = [(Branch_slot 0, \<lparr> wh_generation = 1, wh_pid = Some 11 \<rparr>), (Branch_slot 1, \<lparr> wh_generation = 1, wh_pid = Some 12 \<rparr>)],
     rp_next_index = 0, rp_next_request = 0, rp_closed = False, rp_timeout = 120, rp_queue = ms \<rparr>"

definition sample_run_lease :: run_lease where
  "sample_run_lease = \<lparr> rl_slot = Branch_slot 0, rl_generation = 1, rl_pid = 11, rl_context = ''c'', rl_session = None, rl_seed = 7, rl_signature = ''h'' \<rparr>"



definition sample_answer :: "string \<Rightarrow> run_result" where
  "sample_answer status = \<lparr> rr_status = status, rr_item = toy_item, rr_mode = RUN_MODE_BOOTSTRAP, rr_slot = Branch_slot 0, rr_generation = Some 1, rr_pid = Some 11,
     rr_reach = None, rr_step = None, rr_lease = None, rr_discovered = None, rr_diagnostics = No_diagnostics \<rparr>"


text \<open>
  A respawn while another worker's answer is first in the queue reads that answer as a startup message:
  it raises and the answer is lost.
\<close>

lemma respawn_reads_answer:
  "respawn_run_worker tracked slot (p\<lparr>rp_queue := Answer i x # ms\<rparr>, r)
    = (Raised (unpack_error 4 3), ((spawn_worker slot (slot_generation slot (p, r) + 1) p)\<lparr>rp_queue := ms\<rparr>, r))"
  by (simp add: respawn_run_worker_def await_ready_workers_def Let_def spawn_worker_def slot_generation_def)
end
