(* ===== verification/Spec2Isabelle.thy ===== *)
theory Spec2Isabelle
  imports Game_Access Api_Tcp Api_Masking Event_Rng Branch_Dispatch Search_Coordinator Branch_Manager Multi_Round Run_Pool
begin

text \<open>
  A verification library of the STS2 reinforcement-learning repository: the Python layer that drives a
  .NET game emulator for training.  It models the code that decides who may touch the game, how
  requests and searches are ordered and answered, and what a search may know; the emulator itself, and
  all input and output, are parameters.

  \<^bold>\<open>How the parts interact\<close>

  A training client talks newline-delimited JSON to \<open>API/tcp_server.py\<close>, which serialises the requests of
  all clients into the dispatcher of \<open>API/server.py\<close>.  The dispatcher validates a request, checks its
  sequence number against the ledger of its session and calls an instance.  An instance shows states that
  are masked and numbered with ids of their own, and holds the RNG hypotheses its client asked for.  In a
  combat, \<open>main_loop.py\<close> steps the live session; at a stable boundary it hands a decision context to a
  search.  The search ranks candidates, turns them into work items (under hypotheses where the outcome is
  hidden), and dispatches them to worker processes that hold states under leases; the answers are
  aggregated and one plan is committed if the main combat has not moved.  A whole run has a second pool
  of workers, over run sessions, of the same design.  The one game object of a process is reached through
  the leases of \<open>game_access.py\<close> only.

  \<^bold>\<open>Which theory models what\<close> (paths under \<open>src/\<close>)

  \<^item> Py_Prelude, Py_Numbers: no source of their own.  The Python values the code uses: \<open>json\<close>, insertion-ordered
    dicts (association lists with \<open>dget\<close>, \<open>dset\<close>, \<open>dpop\<close>, \<open>dupdate\<close>), \<open>repr\<close> and \<open>json.dumps\<close>, exceptions as values
    (\<open>py_exc\<close>, a class name with a text), results \<open>py_exc + 'a\<close>, state-passing operations \<open>'s \<Rightarrow> ('a res) \<times> 's\<close>.
  \<^item> Generation_Guard, Id_Issuer: the two contracts that several components share, as locales.
  \<^item> Game_Access: \<open>game_access.py\<close>, the lease state machine of the game object.
  \<^item> Api_Validation, Api_Identifiers, Api_Server, Api_Tcp: \<open>API/validation.py\<close>, \<open>API/identifiers.py\<close>, \<open>API/server.py\<close>
    with the wire constants and faults, \<open>API/tcp_server.py\<close>.
  \<^item> Choice_Cards, Api_Masking, Event_Rng: \<open>API/choice_card_semantics.py\<close>, \<open>API/masking.py\<close>, \<open>API/whole_run_event_rng.py\<close>.
  \<^item> Replay_Draw, Decision_Context, Candidate_Pipeline, Combat_Snapshot, Rng_Hypothesis: the files of those names in
    \<open>Combat/search/\<close> (\<open>replay_draw_restore.py\<close>, \<open>decision_context.py\<close>, \<open>candidate_pipeline.py\<close>, \<open>rng_hypothesis.py\<close>) and
    \<open>Combat/combat_state_snapshot.py\<close>: what a search knows, the verified replay of a prefix, the ranking of
    candidates, the snapshot format and the worlds a hypothesis stands for.
  \<^item> Branch_Leases, Branch_Dispatch: \<open>Combat/search/branch_worker_pool.py\<close>, the worker process and the pool.
  \<^item> Main_Loop, Fault_Taxonomy, Search_Coordinator, Multi_Round, Branch_Manager: \<open>main_loop.py\<close>, \<open>fault_taxonomy.py\<close>,
    \<open>search_coordinator.py\<close>, \<open>multi_round_search.py\<close>, \<open>branch_manager.py\<close> of \<open>Combat/search/\<close>.
  \<^item> Run_Session, Run_Worker, Run_Pool: \<open>Run/whole_run_session.py\<close>, \<open>legal_action_identity.py\<close>, \<open>reward_auto_progress.py\<close>,
    \<open>execution_mode.py\<close>, and \<open>Run/worker_pool.py\<close> with the drivers of \<open>choice_branch_runner.py\<close>.

  A class becomes a record with the fields of the object under a two-letter prefix, a method a definition of
  its name that passes the record, a raise the value \<open>Inl\<close>, an early return a branch.  Names that clash with
  HOL or with another file carry a prefix of their component.

  \<^bold>\<open>Interfaces\<close>

  \<^item> \<open>generation_guard\<close>: a right that carries a generation is refused for good once its holder has a newer one.
    Interpreted by the game leases (Game_Access), the combat workers (Branch_Dispatch) and the run
    workers (Run_Pool).
  \<^item> \<open>id_issuer\<close>: ids made from a counter never repeat.  Interpreted by decision points (Api_Identifiers) and
    instances (Api_Server).
  \<^item> \<open>batch_dispatcher\<close>: a batch returns one judged answer per item.  The retry loop is proved against it and it
    is interpreted by the worker processes (Search_Coordinator).

  \<^bold>\<open>What the lemmas show\<close>

  \<^item> Access: a superseded lease never mutates the game, whatever happens next; a lease handed to the combat
    phase comes back; a lease of a process that was replaced is never honoured or sent to.
  \<^item> Requests: validation accepts exactly the well-formed requests; sessions execute their requests in order and
    once, a retry gets the recorded response, sessions do not disturb each other, one stream speaks for one
    session, and concurrent clients see a serial dispatcher even under cancellation.
  \<^item> Secrets: a masked state has no forbidden key; belief hypotheses depend on public data only; constraints
    derived from played cards are true of the draw pile; an applied hypothesis is realised by the snapshot it
    yields; derived RNG streams are proper and live exactly as long as something refers to them.
  \<^item> Search: a replay that succeeds went through the recorded decisions; rankings and aggregations are what their
    specification says; the retry loop settles within its rounds; what is committed is a candidate of an
    unmoved main combat; one round of the beam search is the single-round search, its plans are the best
    completed ones and bounded.
  \<^item> Workers: results are well formed, a holder step runs only on the state it names, batches answer every item
    with its own answer, polling, cancelling and failing of asynchronous branches; in a whole run, a branch
    continued by its holder and one replayed elsewhere agree, an RNG override is applied exactly once, and the
    automatic transport takes only trivial rewards.

  \<^bold>\<open>Parameters\<close>

  SHA-256, \<open>json.loads\<close>, \<open>random.Random\<close>, the conversion of a text to a float and the text of a traceback are
  function arguments, as are the calls of a live session (\<open>session_ops\<close>, \<open>run_ops\<close>), the routing policy, selectors and
  strategies that callers inject, and the clock.  No theorem assumes more of them than it states:
  \<open>load_resets\<close> (loading a snapshot replaces the whole state) for the agreement of holder and sibling, and the
  contracts of a batch dispatcher for the beam search.  Processes and queues are the lists of messages they will
  deliver, timeouts included; concurrency of the TCP handlers is a step relation.

  \<^bold>\<open>Numbers, texts and bounds\<close>

  Scores and fractions are rationals: the code adds and compares small floats, which are exact below \<open>2 ^ 53\<close>.
  RNG states are 64-bit words.  Ids are texts, counters naturals, indices integers where the code checks their sign.
  Every loop ends by itself: over its list, by a measure on the queue or the stack, or by a bound of the code that
  the model keeps (\<open>max_retries + 2\<close> rounds of the retry loop, 400 moves of the discovery of a prefix, 32 automatic
  rewards, \<open>max_iterations\<close> of the main loop, \<open>max_rounds\<close> of the beam search).  A loop that waits for messages
  is blocked, or stops, when the list of messages is used up; where a theorem says that it returns, it says so of
  lists with enough messages.

  \<^bold>\<open>Not modelled\<close>

  The API instances and their response formatting, the live combat session and the CLR bridges, the choice tables, the
  second worker pool on load contexts, and all runners, evaluation, legacy and data scripts: they are glue over foreign
  calls, static data or reports.  Within modelled files: socket and process set-up, the JSON-schema check of a
  snapshot, the room-entry bootstrap of a combat worker, the exploration of room types by a run worker, and
  argument parsing.
\<close>

end
